(* ===== verification/Prelude.thy ===== *)
theory Prelude
  imports "HOL-Library.Word" "HOL-Library.Sublist"
begin

text \<open>
  Shared vocabulary of the development: Rust's fallible results as sums, machine
  integers as words, \<open>usize\<close> arithmetic with its 64-bit bound written out, checked slices,
  little-endian byte strings, and the external hash library as a parameter.
  The rule collections \<open>codec_simps\<close> and \<open>result_simps\<close> carry the component proofs.
\<close>

named_theorems codec_simps
named_theorems result_simps

type_synonym u8 = "8 word"
type_synonym u16 = "16 word"
type_synonym u32 = "32 word"
type_synonym u64 = "64 word"
type_synonym u128 = "128 word"
type_synonym i64 = "64 word"
type_synonym f32 = "32 word"
type_synonym f64 = "64 word"
type_synonym bytes = "u8 list"
type_synonym ('e, 'a) result = "'e + 'a"

abbreviation Ok :: "'a \<Rightarrow> ('e, 'a) result" where
  "Ok \<equiv> Inr"

abbreviation Err :: "'e \<Rightarrow> ('e, 'a) result" where
  "Err \<equiv> Inl"

section \<open>Results: the \<open>?\<close> operator and its helpers\<close>

definition and_then :: "('e, 'a) result \<Rightarrow> ('a \<Rightarrow> ('e, 'b) result) \<Rightarrow> ('e, 'b) result" where
  "and_then r k = (case r of Inl e \<Rightarrow> Inl e | Inr x \<Rightarrow> k x)"

definition map_err :: "('e \<Rightarrow> 'f) \<Rightarrow> ('e, 'a) result \<Rightarrow> ('f, 'a) result" where
  "map_err f r = (case r of Inl e \<Rightarrow> Inl (f e) | Inr x \<Rightarrow> Inr x)"

definition map_ok :: "('a \<Rightarrow> 'b) \<Rightarrow> ('e, 'a) result \<Rightarrow> ('e, 'b) result" where
  "map_ok f r = (case r of Inl e \<Rightarrow> Inl e | Inr x \<Rightarrow> Inr (f x))"

definition ok_or :: "'e \<Rightarrow> 'a option \<Rightarrow> ('e, 'a) result" where
  "ok_or e x = (case x of None \<Rightarrow> Inl e | Some y \<Rightarrow> Inr y)"

definition ensure :: "bool \<Rightarrow> 'e \<Rightarrow> ('e, unit) result" where
  "ensure b e = (if b then Inr () else Inl e)"

lemma and_then_simps [simp, result_simps]:
  "and_then (Inr x) k = k x"
  "and_then (Inl e) k = Inl e"
  by (simp_all add: and_then_def)

lemma map_err_simps [simp, result_simps]:
  "map_err f (Inr x) = Inr x"
  "map_err f (Inl e) = Inl (f e)"
  by (simp_all add: map_err_def)

lemma map_ok_simps [simp, result_simps]:
  "map_ok g (Inr x) = Inr (g x)"
  "map_ok g (Inl e) = Inl e"
  by (simp_all add: map_ok_def)

lemma ok_or_simps [simp, result_simps]:
  "ok_or e (Some x) = Inr x"
  "ok_or e None = Inl e"
  by (simp_all add: ok_or_def)

lemma ensure_simps [simp, result_simps]:
  "ensure True e = Inr ()"
  "ensure False e = Inl e"
  by (simp_all add: ensure_def)

lemma and_then_eq_Inr: "and_then r k = Inr y \<longleftrightarrow> (\<exists>x. r = Inr x \<and> k x = Inr y)"
  by (cases r) auto

lemma map_err_eq_Inr: "map_err f r = Inr y \<longleftrightarrow> r = Inr y"
  by (cases r) auto

lemma map_ok_eq_Inr: "map_ok f r = Inr y \<longleftrightarrow> (\<exists>x. r = Inr x \<and> y = f x)"
  by (cases r) auto

lemma ok_or_eq_Inr: "ok_or e r = Inr y \<longleftrightarrow> r = Some y"
  by (cases r) auto

lemma ensure_eq_Inr: "ensure b e = Inr u \<longleftrightarrow> b"
  by (simp add: ensure_def)

lemmas result_Inr = and_then_eq_Inr map_err_eq_Inr map_ok_eq_Inr ok_or_eq_Inr ensure_eq_Inr

section \<open>\<open>usize\<close> and \<open>u64\<close> arithmetic\<close>

text \<open>
  The supported targets are 64-bit, so \<open>usize\<close> is a natural number below \<open>2 ^ 64\<close>; the checked and
  saturating operations of the standard library write that bound out. A Rust allocation never
  exceeds \<open>isize::MAX\<close> bytes (\<open>alloc_max\<close>).
\<close>

definition usize_max :: nat where
  "usize_max = 18446744073709551615"

definition alloc_max :: nat where
  "alloc_max = 9223372036854775807"

definition u32_max :: nat where
  "u32_max = 4294967295"

definition checked_add_usize :: "nat \<Rightarrow> nat \<Rightarrow> nat option" where
  "checked_add_usize a b = (if a + b \<le> usize_max then Some (a + b) else None)"

definition checked_mul_usize :: "nat \<Rightarrow> nat \<Rightarrow> nat option" where
  "checked_mul_usize a b = (if a * b \<le> usize_max then Some (a * b) else None)"

definition checked_sub_usize :: "nat \<Rightarrow> nat \<Rightarrow> nat option" where
  "checked_sub_usize a b = (if b \<le> a then Some (a - b) else None)"

definition saturating_add_usize :: "nat \<Rightarrow> nat \<Rightarrow> nat" where
  "saturating_add_usize a b = min (a + b) usize_max"

definition saturating_add_u64 :: "u64 \<Rightarrow> u64 \<Rightarrow> u64" where
  "saturating_add_u64 a b = (if unat a + unat b \<le> usize_max then a + b else - 1)"

definition saturating_sub_u64 :: "u64 \<Rightarrow> u64 \<Rightarrow> u64" where
  "saturating_sub_u64 a b = (if b \<le> a then a - b else 0)"

definition checked_add_u64 :: "u64 \<Rightarrow> u64 \<Rightarrow> u64 option" where
  "checked_add_u64 a b = (if unat a + unat b \<le> usize_max then Some (a + b) else None)"

definition u64_of_usize :: "nat \<Rightarrow> u64" where
  "u64_of_usize n = word_of_nat n"

definition u32_try_from :: "nat \<Rightarrow> u32 option" where
  "u32_try_from n = (if n \<le> u32_max then Some (word_of_nat n) else None)"

lemma checked_add_usize_ok [simp]:
  "a + b \<le> usize_max \<Longrightarrow> checked_add_usize a b = Some (a + b)"
  by (simp add: checked_add_usize_def)

lemma checked_mul_usize_ok [simp]:
  "a * b \<le> usize_max \<Longrightarrow> checked_mul_usize a b = Some (a * b)"
  by (simp add: checked_mul_usize_def)

lemma saturating_add_usize_ok [simp]:
  "a + b \<le> usize_max \<Longrightarrow> saturating_add_usize a b = a + b"
  by (simp add: saturating_add_usize_def)

lemma unat_lt2p: "unat (x :: 'a::len word) < 2 ^ LENGTH('a)"
  by (rule unsigned_less)

lemma usize_max_eq: "usize_max = 2 ^ 64 - 1"
  by (simp add: usize_max_def)

lemma u32_max_eq: "u32_max = 2 ^ 32 - 1"
  by (simp add: u32_max_def)

lemma unat_word_of_nat_u64: "n \<le> usize_max \<Longrightarrow> unat (word_of_nat n :: u64) = n"
  by (simp add: unat_of_nat usize_max_def)

lemma unat_seq_add: "unat s + i \<le> usize_max \<Longrightarrow> unat (s + word_of_nat i :: u64) = unat s + i"
  by (simp add: unat_word_ariths unat_of_nat usize_max_def)

lemma seq_add_mono:
  "unat s + j \<le> usize_max \<Longrightarrow> i \<le> j \<Longrightarrow> (s :: u64) + word_of_nat i \<le> s + word_of_nat j"
  by (simp add: word_le_nat_alt unat_seq_add)

lemma unat_word_of_nat_u32: "n \<le> u32_max \<Longrightarrow> unat (word_of_nat n :: u32) = n"
  by (simp add: unat_of_nat u32_max_def)

lemma unat_u64_le [simp]: "unat (x :: u64) \<le> usize_max"
  using unat_lt2p [of x] by (simp add: usize_max_def)

lemma unat_u32_le [simp]: "unat (x :: u32) \<le> u32_max"
  using unat_lt2p [of x] by (simp add: u32_max_def)

lemma unat_u64_of_usize: "n \<le> usize_max \<Longrightarrow> unat (u64_of_usize n) = n"
  by (simp add: u64_of_usize_def unat_word_of_nat_u64)

lemma u32_try_from_Some: "u32_try_from n = Some w \<longleftrightarrow> n \<le> u32_max \<and> w = word_of_nat n"
  by (auto simp: u32_try_from_def)

lemma u32_try_from_unat: "u32_try_from n = Some w \<Longrightarrow> unat w = n"
  by (auto simp: u32_try_from_Some unat_word_of_nat_u32)

lemma checked_add_u64_Some:
  "checked_add_u64 a b = Some c \<Longrightarrow> c = a + b \<and> unat c = unat a + unat b"
  by (auto simp: checked_add_u64_def unat_word_ariths usize_max_def split: if_splits)

section \<open>Checked slices\<close>

definition slice_range :: "'a list \<Rightarrow> nat \<Rightarrow> nat \<Rightarrow> 'a list option" where
  "slice_range xs s e = (if s \<le> e \<and> e \<le> length xs then Some (take (e - s) (drop s xs)) else None)"

definition slice_from :: "'a list \<Rightarrow> nat \<Rightarrow> 'a list option" where
  "slice_from xs s = (if s \<le> length xs then Some (drop s xs) else None)"

definition slice_to :: "'a list \<Rightarrow> nat \<Rightarrow> 'a list option" where
  "slice_to xs e = (if e \<le> length xs then Some (take e xs) else None)"

definition first_chunk :: "nat \<Rightarrow> 'a list \<Rightarrow> 'a list option" where
  "first_chunk n xs = (if n \<le> length xs then Some (take n xs) else None)"

lemma slice_range_length: "slice_range xs s e = Some ys \<Longrightarrow> length ys = e - s"
  by (auto simp: slice_range_def split: if_splits)

lemma slice_range_mid [simp]:
  "length pre = s \<Longrightarrow> e = s + length mid \<Longrightarrow> slice_range (pre @ mid @ post) s e = Some mid"
  by (simp add: slice_range_def)

text \<open>\<open>slice.get(i)\<close> on a vector.\<close>

definition list_get :: "'a list \<Rightarrow> nat \<Rightarrow> 'a option" where
  "list_get xs i = (if i < length xs then Some (xs ! i) else None)"

lemma list_get_simps [simp]:
  "i < length xs \<Longrightarrow> list_get xs i = Some (xs ! i)"
  "length xs \<le> i \<Longrightarrow> list_get xs i = None"
  by (simp_all add: list_get_def)

lemma list_get_map [simp]: "list_get (map f xs) i = map_option f (list_get xs i)"
  by (simp add: list_get_def)

lemma drop_split: "drop a xs = take b (drop a xs) @ drop (a + b) xs"
  by (metis append_take_drop_id drop_drop add.commute)

text \<open>\<open>Iterator::position\<close>: the index of the first element that satisfies the predicate.\<close>

primrec position :: "('a \<Rightarrow> bool) \<Rightarrow> 'a list \<Rightarrow> nat option" where
  "position P [] = None"
| "position P (x # xs) = (if P x then Some 0 else map_option Suc (position P xs))"

lemma position_None: "position P xs = None \<longleftrightarrow> (\<forall>x \<in> set xs. \<not> P x)"
  by (induction xs) auto

lemma position_Some: "position P xs = Some i \<Longrightarrow> i < length xs \<and> P (xs ! i) \<and> (\<forall>j < i. \<not> P (xs ! j))"
  by (induction xs arbitrary: i) (auto simp: nth_Cons' split: if_splits)

section \<open>Little-endian byte strings\<close>

primrec nat_to_le :: "nat \<Rightarrow> nat \<Rightarrow> bytes" where
  "nat_to_le 0 x = []"
| "nat_to_le (Suc n) x = word_of_nat (x mod 256) # nat_to_le n (x div 256)"

primrec le_to_nat :: "bytes \<Rightarrow> nat" where
  "le_to_nat [] = 0"
| "le_to_nat (b # bs) = unat b + 256 * le_to_nat bs"

definition to_le_bytes :: "'a::len word \<Rightarrow> bytes" where
  "to_le_bytes w = nat_to_le (LENGTH('a) div 8) (unat w)"

definition from_le_bytes :: "bytes \<Rightarrow> 'a::len word" where
  "from_le_bytes bs = word_of_nat (le_to_nat bs)"

lemma length_nat_to_le [simp]: "length (nat_to_le n x) = n"
  by (induction n arbitrary: x) auto

lemma le_to_nat_to_le: "le_to_nat (nat_to_le n x) = x mod 256 ^ n"
proof (induction n arbitrary: x)
  case 0
  then show ?case by simp
next
  case (Suc n)
  have "le_to_nat (nat_to_le (Suc n) x) = x mod 256 + 256 * (x div 256 mod 256 ^ n)"
    by (simp add: Suc.IH unat_of_nat)
  also have "\<dots> = x mod 256 ^ Suc n"
    by (simp add: mod_mult2_eq)
  finally show ?case .
qed

lemma le_to_nat_bound: "le_to_nat bs < 256 ^ length bs"
proof (induction bs)
  case Nil
  then show ?case by simp
next
  case (Cons b bs)
  have "unat b < 256"
    using unat_lt2p [of b] by simp
  with Cons show ?case by simp
qed

lemma nat_to_le_to_nat: "nat_to_le (length bs) (le_to_nat bs) = bs"
proof (induction bs)
  case Nil
  then show ?case by simp
next
  case (Cons b bs)
  have b: "unat b < 256"
    using unat_lt2p [of b] by simp
  then show ?case
    by (simp add: Cons.IH)
qed

lemma length_to_le_bytes [simp]: "length (to_le_bytes (w :: 'a::len word)) = LENGTH('a) div 8"
  by (simp add: to_le_bytes_def)

lemma pow256: "8 dvd n \<Longrightarrow> (256::nat) ^ (n div 8) = 2 ^ n"
proof -
  assume "8 dvd n"
  then obtain k where "n = 8 * k" by auto
  then show ?thesis by (simp add: power_mult)
qed

lemma from_to_le_bytes:
  assumes "8 dvd LENGTH('a::len)"
  shows "from_le_bytes (to_le_bytes (w :: 'a word)) = w"
proof -
  have "unat w < 2 ^ LENGTH('a)"
    by (rule unat_lt2p)
  then show ?thesis
    by (simp add: from_le_bytes_def to_le_bytes_def le_to_nat_to_le pow256 [OF assms])
qed

lemma to_from_le_bytes:
  assumes "8 dvd LENGTH('a::len)" "length bs = LENGTH('a) div 8"
  shows "to_le_bytes (from_le_bytes bs :: 'a word) = bs"
proof -
  have "le_to_nat bs < 2 ^ LENGTH('a)"
    using le_to_nat_bound [of bs] assms by (simp add: pow256)
  then have "unat (word_of_nat (le_to_nat bs) :: 'a word) = le_to_nat bs"
    by (simp add: unat_of_nat)
  then show ?thesis
    using nat_to_le_to_nat [of bs] assms(2) by (simp add: to_le_bytes_def from_le_bytes_def)
qed

lemma le_bytes_roundtrip [simp, codec_simps]:
  "from_le_bytes (to_le_bytes (a :: u16)) = a"
  "from_le_bytes (to_le_bytes (b :: u32)) = b"
  "from_le_bytes (to_le_bytes (c :: u64)) = c"
  "from_le_bytes (to_le_bytes (d :: u128)) = d"
  "from_le_bytes (to_le_bytes (e :: u8)) = e"
  by (rule from_to_le_bytes, simp)+

lemma to_le_bytes_inject [simp]:
  "to_le_bytes (a :: u16) = to_le_bytes a' \<longleftrightarrow> a = a'"
  "to_le_bytes (b :: u32) = to_le_bytes b' \<longleftrightarrow> b = b'"
  "to_le_bytes (c :: u64) = to_le_bytes c' \<longleftrightarrow> c = c'"
  "to_le_bytes (d :: u128) = to_le_bytes d' \<longleftrightarrow> d = d'"
  by (metis le_bytes_roundtrip(1), metis le_bytes_roundtrip(2), metis le_bytes_roundtrip(3),
      metis le_bytes_roundtrip(4))

section \<open>The external hash library\<close>

text \<open>
  \<open>xxhash_rust\<close> is third-party code, so both entry points the sources use are fields of a
  parameter: the one-shot \<open>xxh3_64\<close> and the streaming \<open>Xxh3::new().update(..).digest()\<close> over a
  list of chunks. The library documents that streaming equals the one-shot hash of the
  concatenation; \<open>xxh3_streaming\<close> names exactly that.
\<close>

record xxh3_lib =
  xxh3_64 :: "bytes \<Rightarrow> u64"
  xxh3_digest :: "bytes list \<Rightarrow> u64"

definition xxh3_streaming :: "xxh3_lib \<Rightarrow> bool" where
  "xxh3_streaming X \<longleftrightarrow> (\<forall>chunks. xxh3_digest X chunks = xxh3_64 X (concat chunks))"

lemma xxh3_streamingD: "xxh3_streaming X \<Longrightarrow> xxh3_digest X chunks = xxh3_64 X (concat chunks)"
  by (simp add: xxh3_streaming_def)

text \<open>A concrete library used by the witnesses: the byte sum.\<close>

definition sum_hash :: "bytes \<Rightarrow> u64" where
  "sum_hash bs = sum_list (map (\<lambda>b. ucast b) bs)"

definition sum_lib :: xxh3_lib where
  "sum_lib = \<lparr>xxh3_64 = sum_hash, xxh3_digest = (\<lambda>cs. sum_hash (concat cs))\<rparr>"

lemma sum_lib_streaming: "xxh3_streaming sum_lib"
  by (simp add: xxh3_streaming_def sum_lib_def)

section \<open>Operating system errors\<close>

text \<open>\<open>std::io::Error\<close> by its kind; the sources only distinguish \<open>NotFound\<close>.\<close>

datatype io_kind = NotFound | OtherIo nat

section \<open>Transition systems\<close>

text \<open>
  The concurrent components are step relations. A state is reachable when some interleaving of
  steps leads to it from an initial one; the locale is the contract of an inductive invariant.
\<close>

inductive reach :: "('s \<Rightarrow> bool) \<Rightarrow> ('s \<Rightarrow> 's \<Rightarrow> bool) \<Rightarrow> 's \<Rightarrow> bool" for init step where
  reach_init: "init s \<Longrightarrow> reach init step s"
| reach_step: "reach init step s \<Longrightarrow> step s t \<Longrightarrow> reach init step t"

locale invariant_system =
  fixes init :: "'s \<Rightarrow> bool"
    and step :: "'s \<Rightarrow> 's \<Rightarrow> bool"
    and inv :: "'s \<Rightarrow> bool"
  assumes inv_init: "init s \<Longrightarrow> inv s"
    and inv_step: "inv s \<Longrightarrow> step s t \<Longrightarrow> inv t"
begin

lemma reach_inv: "reach init step s \<Longrightarrow> inv s"
  by (induction rule: reach.induct) (auto intro: inv_init inv_step)

lemma steps_inv: "step\<^sup>*\<^sup>* s t \<Longrightarrow> inv s \<Longrightarrow> inv t"
  by (induction rule: rtranclp_induct) (auto intro: inv_step)

end

lemma reach_steps: "reach init step s \<Longrightarrow> step\<^sup>*\<^sup>* s t \<Longrightarrow> reach init step t"
  by (rotate_tac 1, induction rule: rtranclp_induct) (auto intro: reach_step)

end
