(* ===== verification/Format_Registry.thy ===== *)
theory Format_Registry
  imports Prelude
begin

text \<open>
  The append-only persisted-format registry (\<^verbatim>\<open>src/format/mod.rs\<close>): family identifiers, the
  static version table and the two admission checks.
\<close>

datatype format_family =
    FrameFamily | SegmentFamily | VectorCodes | VectorFactors | VectorRescore | ColumnsFamily | AliveFamily
  | Postings | ChecksumTable | ManifestFamily | WalFamily | GraphNodeBlocks | DocumentVersions
  | StoredMetadata | PurgeIntent | StoredText | NativeGraphObject | NativeGraphRoot | NativeGraphWal

fun family_id :: "format_family \<Rightarrow> u16" where
  "family_id FrameFamily = 1"
| "family_id SegmentFamily = 2"
| "family_id VectorCodes = 3"
| "family_id VectorFactors = 4"
| "family_id VectorRescore = 5"
| "family_id ColumnsFamily = 6"
| "family_id AliveFamily = 7"
| "family_id Postings = 8"
| "family_id ChecksumTable = 9"
| "family_id ManifestFamily = 10"
| "family_id WalFamily = 11"
| "family_id GraphNodeBlocks = 12"
| "family_id DocumentVersions = 13"
| "family_id StoredMetadata = 14"
| "family_id PurgeIntent = 15"
| "family_id StoredText = 16"
| "family_id NativeGraphObject = 17"
| "family_id NativeGraphRoot = 18"
| "family_id NativeGraphWal = 19"

fun current_version :: "format_family \<Rightarrow> u16" where
  "current_version ManifestFamily = 2"
| "current_version FrameFamily = 1"
| "current_version SegmentFamily = 1"
| "current_version VectorCodes = 1"
| "current_version VectorFactors = 1"
| "current_version VectorRescore = 1"
| "current_version ColumnsFamily = 1"
| "current_version AliveFamily = 1"
| "current_version Postings = 1"
| "current_version ChecksumTable = 1"
| "current_version WalFamily = 1"
| "current_version GraphNodeBlocks = 1"
| "current_version DocumentVersions = 1"
| "current_version StoredMetadata = 1"
| "current_version PurgeIntent = 1"
| "current_version StoredText = 1"
| "current_version NativeGraphObject = 1"
| "current_version NativeGraphRoot = 1"
| "current_version NativeGraphWal = 1"

record family_spec =
  spec_family :: format_family
  spec_current_version :: u16
  minimum_accepted_version :: u16
  maximum_accepted_version :: u16

datatype registry_error =
    UnknownFamily u16
  | UnsupportedVersion u16 u16 u16 u16
    \<comment> \<open>family, version, minimum, maximum\<close>
  | RetiredScheme u16
  | UnknownScheme u16

definition v1_spec :: "format_family \<Rightarrow> family_spec" where
  "v1_spec f = \<lparr>spec_family = f, spec_current_version = 1,
     minimum_accepted_version = 1, maximum_accepted_version = 1\<rparr>"

definition FAMILIES :: "family_spec list" where
  "FAMILIES =
    [v1_spec FrameFamily, v1_spec SegmentFamily, v1_spec VectorCodes, v1_spec VectorFactors,
     v1_spec VectorRescore, v1_spec ColumnsFamily, v1_spec AliveFamily, v1_spec Postings,
     v1_spec ChecksumTable,
     \<lparr>spec_family = ManifestFamily, spec_current_version = 2,
       minimum_accepted_version = 2, maximum_accepted_version = 3\<rparr>,
     v1_spec WalFamily, v1_spec GraphNodeBlocks, v1_spec DocumentVersions,
     v1_spec StoredMetadata, v1_spec PurgeIntent, v1_spec StoredText,
     v1_spec NativeGraphObject, v1_spec NativeGraphRoot, v1_spec NativeGraphWal]"

definition require_family :: "u16 \<Rightarrow> u16 \<Rightarrow> (registry_error, family_spec) result" where
  "require_family family version =
     and_then (ok_or (UnknownFamily family)
                 (find (\<lambda>candidate. family_id (spec_family candidate) = family) FAMILIES))
       (\<lambda>spec. if version < minimum_accepted_version spec
                  \<or> maximum_accepted_version spec < version
                then Err (UnsupportedVersion family version
                       (minimum_accepted_version spec) (maximum_accepted_version spec))
                else Ok spec)"

definition require_scheme :: "u16 \<Rightarrow> (registry_error, unit) result" where
  "require_scheme scheme =
     (if scheme \<in> {0, 1, 2, 4} then Ok ()
      else if scheme \<in> {3, 5} then Err (RetiredScheme scheme)
      else Err (UnknownScheme scheme))"

section \<open>The registry is complete, unambiguous and writable\<close>

lemma family_id_inject: "family_id f = family_id g \<Longrightarrow> f = g"
  by (cases f; cases g; simp)

text \<open>The spec the registry holds for a family: what the table scan finds.\<close>

definition spec_of :: "format_family \<Rightarrow> family_spec" where
  "spec_of f = (if f = ManifestFamily
     then \<lparr>spec_family = ManifestFamily, spec_current_version = 2,
            minimum_accepted_version = 2, maximum_accepted_version = 3\<rparr>
     else v1_spec f)"

lemma find_family: "find (\<lambda>c. family_id (spec_family c) = family_id f) FAMILIES = Some (spec_of f)"
  by (cases f) (simp_all add: FAMILIES_def v1_spec_def spec_of_def)

lemma find_family_eq: "find (\<lambda>c. spec_family c = f) FAMILIES = Some (spec_of f)"
  by (cases f) (simp_all add: FAMILIES_def v1_spec_def spec_of_def)

lemma require_family_id:
  "require_family (family_id f) v =
     (if v < minimum_accepted_version (spec_of f) \<or> maximum_accepted_version (spec_of f) < v
      then Err (UnsupportedVersion (family_id f) v
             (minimum_accepted_version (spec_of f)) (maximum_accepted_version (spec_of f)))
      else Ok (spec_of f))"
  by (simp add: require_family_def find_family)

lemma spec_of_current: "spec_current_version (spec_of f) = current_version f"
  by (cases f) (simp_all add: spec_of_def v1_spec_def)

lemma current_version_accepted:
  "minimum_accepted_version (spec_of f) \<le> current_version f"
  "current_version f \<le> maximum_accepted_version (spec_of f)"
  by (cases f; simp add: spec_of_def v1_spec_def)+

lemma require_current: "require_family (family_id f) (current_version f) = Ok (spec_of f)"
  using current_version_accepted [of f] by (simp add: require_family_id not_less)

end
