(* ===== verification/Frame.thy ===== *)
theory Frame
  imports Format_Registry
begin

text \<open>
  Length-prefixed, checksummed block framing shared by every persisted file
  (\<^verbatim>\<open>src/format/frame.rs\<close>). A \<open>FormatError\<close> keeps every typed field of the source
  (artifact name, failed check, value-bearing facts, version range); only the human-readable
  \<open>detail\<close> text is left out. The hash library is the parameter \<open>X\<close>.
\<close>

definition FILE_HEADER_LEN :: nat where
  "FILE_HEADER_LEN = 32"

definition FILE_TRAILER_LEN :: nat where
  "FILE_TRAILER_LEN = 8"

definition FILE_MAGIC :: bytes where
  "FILE_MAGIC = [90, 69, 80, 69, 77, 66, 69, 68]"
  \<comment> \<open>\<open>b"ZEPEMBED"\<close>\<close>

record file_header =
  magic :: bytes
  hdr_family :: u16
  hdr_version :: u16
  flags :: u32
  header_length :: u64
  file_length :: u64

datatype format_check =
    CheckLength | CheckMagic | CheckFamily | CheckVersion | CheckHeaderLength | CheckFileLength
  | CheckBlockLength | CheckBlockChecksum | CheckFileChecksum | CheckObjectIdentity

datatype format_values =
    NoValues
  | FamilyValues u16 u16
    \<comment> \<open>expected, actual\<close>
  | ChecksumValues u64 u64
    \<comment> \<open>expected, actual\<close>

record format_error =
  err_artifact :: string
  err_check :: format_check
  err_values :: format_values
  version_range :: "(u16 \<times> u16 \<times> u16) option"

definition format_error_new :: "string \<Rightarrow> format_check \<Rightarrow> format_error" where
  "format_error_new artifact check =
     \<lparr>err_artifact = artifact, err_check = check, err_values = NoValues, version_range = None\<rparr>"

definition wrong_family :: "string \<Rightarrow> u16 \<Rightarrow> u16 \<Rightarrow> format_error" where
  "wrong_family artifact expected actual =
     \<lparr>err_artifact = artifact, err_check = CheckFamily,
      err_values = FamilyValues expected actual, version_range = None\<rparr>"

definition checksum_mismatch :: "string \<Rightarrow> format_check \<Rightarrow> u64 \<Rightarrow> u64 \<Rightarrow> format_error" where
  "checksum_mismatch artifact check expected actual =
     \<lparr>err_artifact = artifact, err_check = check,
      err_values = ChecksumValues expected actual, version_range = None\<rparr>"

definition registry_error_at :: "string \<Rightarrow> registry_error \<Rightarrow> format_error" where
  "registry_error_at artifact e =
     (let result = format_error_new artifact CheckVersion in
      case e of
        UnsupportedVersion _ version minimum maximum \<Rightarrow>
          result\<lparr>version_range := Some (version, minimum, maximum)\<rparr>
      | _ \<Rightarrow> result)"

record decoded_artifact =
  art_header :: file_header
  art_payload :: bytes

definition read_u16 :: "string \<Rightarrow> bytes \<Rightarrow> nat \<Rightarrow> (format_error, u16) result" where
  "read_u16 artifact bs offset =
     map_ok from_le_bytes
       (ok_or (format_error_new artifact CheckLength)
          (Option.bind (slice_from bs offset) (first_chunk 2)))"

definition read_u32 :: "string \<Rightarrow> bytes \<Rightarrow> nat \<Rightarrow> (format_error, u32) result" where
  "read_u32 artifact bs offset =
     map_ok from_le_bytes
       (ok_or (format_error_new artifact CheckLength)
          (Option.bind (slice_from bs offset) (first_chunk 4)))"

definition read_u64 :: "string \<Rightarrow> bytes \<Rightarrow> nat \<Rightarrow> (format_error, u64) result" where
  "read_u64 artifact bs offset =
     map_ok from_le_bytes
       (ok_or (format_error_new artifact CheckLength)
          (Option.bind (slice_from bs offset) (first_chunk 8)))"

definition encode_header :: "file_header \<Rightarrow> bytes" where
  "encode_header header =
     magic header @ to_le_bytes (hdr_family header) @ to_le_bytes (hdr_version header)
     @ to_le_bytes (flags header) @ to_le_bytes (header_length header)
     @ to_le_bytes (file_length header)"

definition encode_artifact_version ::
  "xxh3_lib \<Rightarrow> format_family \<Rightarrow> u16 \<Rightarrow> u32 \<Rightarrow> bytes \<Rightarrow> bytes" where
  "encode_artifact_version X family version fl payload =
     (let block_overhead = 16;
          len = saturating_add_usize
                  (saturating_add_usize
                     (saturating_add_usize FILE_HEADER_LEN block_overhead) (length payload))
                  FILE_TRAILER_LEN;
          encoded =
            encode_header \<lparr>magic = FILE_MAGIC, hdr_family = family_id family,
              hdr_version = version, flags = fl,
              header_length = u64_of_usize FILE_HEADER_LEN, file_length = u64_of_usize len\<rparr>
            @ to_le_bytes (u64_of_usize (length payload)) @ payload
            @ to_le_bytes (xxh3_64 X payload)
      in encoded @ to_le_bytes (xxh3_64 X encoded))"

definition encode_artifact :: "xxh3_lib \<Rightarrow> format_family \<Rightarrow> u32 \<Rightarrow> bytes \<Rightarrow> bytes" where
  "encode_artifact X family fl payload =
     encode_artifact_version X family (current_version family) fl payload"

definition decode_header ::
  "string \<Rightarrow> format_family \<Rightarrow> bytes \<Rightarrow> (format_error, file_header) result" where
  "decode_header artifact expected_family bs =
     and_then (ok_or (format_error_new artifact CheckLength) (slice_to bs FILE_HEADER_LEN)) (\<lambda>fixed.
     and_then (ok_or (format_error_new artifact CheckLength) (slice_to fixed 8)) (\<lambda>mag.
     if mag \<noteq> FILE_MAGIC then Err (format_error_new artifact CheckMagic) else
     and_then (read_u16 artifact fixed 8) (\<lambda>family.
     if family \<noteq> family_id expected_family
     then Err (wrong_family artifact (family_id expected_family) family) else
     and_then (read_u16 artifact fixed 10) (\<lambda>version.
     and_then (map_err (registry_error_at artifact) (require_family family version)) (\<lambda>_.
     and_then (read_u32 artifact fixed 12) (\<lambda>fl.
     and_then (read_u64 artifact fixed 16) (\<lambda>hlen.
     and_then (read_u64 artifact fixed 24) (\<lambda>flen.
     let header = \<lparr>magic = FILE_MAGIC, hdr_family = family, hdr_version = version,
                   flags = fl, header_length = hlen, file_length = flen\<rparr>
     in if header_length header < u64_of_usize FILE_HEADER_LEN
        then Err (format_error_new artifact CheckHeaderLength)
        else Ok header))))))))"

definition decode_artifact ::
  "xxh3_lib \<Rightarrow> string \<Rightarrow> format_family \<Rightarrow> bytes \<Rightarrow> (format_error, decoded_artifact) result" where
  "decode_artifact X artifact expected_family bs =
     and_then (decode_header artifact expected_family bs) (\<lambda>header.
     and_then (ok_or (format_error_new artifact CheckFileLength)
                 (if length bs \<le> usize_max then Some (u64_of_usize (length bs)) else None)) (\<lambda>actual_len.
     if file_length header \<noteq> actual_len
     then Err (format_error_new artifact CheckFileLength) else
     if header_length header \<noteq> u64_of_usize FILE_HEADER_LEN
     then Err (format_error_new artifact CheckHeaderLength) else
     and_then (ok_or (format_error_new artifact CheckLength)
                 (checked_sub_usize (length bs) FILE_TRAILER_LEN)) (\<lambda>trailer_start.
     and_then (ok_or (format_error_new artifact CheckLength) (slice_to bs trailer_start)) (\<lambda>checksummed.
     and_then (read_u64 artifact bs trailer_start) (\<lambda>expected_file_checksum.
     let actual_file_checksum = xxh3_64 X checksummed in
     if actual_file_checksum \<noteq> expected_file_checksum
     then Err (checksum_mismatch artifact CheckFileChecksum
                 expected_file_checksum actual_file_checksum) else
     and_then (read_u64 artifact bs FILE_HEADER_LEN) (\<lambda>plen.
     let payload_length = unat plen; payload_start = saturating_add_usize FILE_HEADER_LEN 8 in
     and_then (ok_or (format_error_new artifact CheckBlockLength)
                 (checked_add_usize payload_start payload_length)) (\<lambda>payload_end.
     and_then (ok_or (format_error_new artifact CheckBlockLength)
                 (checked_add_usize payload_end 8)) (\<lambda>checksum_end.
     if checksum_end \<noteq> trailer_start
     then Err (format_error_new artifact CheckBlockLength) else
     and_then (ok_or (format_error_new artifact CheckLength)
                 (slice_range bs payload_start payload_end)) (\<lambda>payload.
     and_then (read_u64 artifact bs payload_end) (\<lambda>expected_block_checksum.
     let actual_block_checksum = xxh3_64 X payload in
     if actual_block_checksum \<noteq> expected_block_checksum
     then Err (checksum_mismatch artifact CheckBlockChecksum
                 expected_block_checksum actual_block_checksum)
     else Ok \<lparr>art_header = header, art_payload = payload\<rparr>))))))))))"

section \<open>Reading fixed-width fields\<close>

lemmas frame_consts = FILE_HEADER_LEN_def FILE_TRAILER_LEN_def

lemma length_FILE_MAGIC [simp]: "length FILE_MAGIC = 8"
  by (simp add: FILE_MAGIC_def)

lemma read_at [codec_simps]:
  "length pre = off \<Longrightarrow> read_u16 art (pre @ to_le_bytes a @ post) off = Ok a"
  "length pre = off \<Longrightarrow> read_u32 art (pre @ to_le_bytes b @ post) off = Ok b"
  "length pre = off \<Longrightarrow> read_u64 art (pre @ to_le_bytes c @ post) off = Ok c"
  by (simp_all add: read_u16_def read_u32_def read_u64_def slice_from_def first_chunk_def)

lemma read_ok_iff:
  "read_u16 art bs off = Ok a \<longleftrightarrow> off + 2 \<le> length bs \<and> a = from_le_bytes (take 2 (drop off bs))"
  "read_u32 art bs off = Ok b \<longleftrightarrow> off + 4 \<le> length bs \<and> b = from_le_bytes (take 4 (drop off bs))"
  "read_u64 art bs off = Ok c \<longleftrightarrow> off + 8 \<le> length bs \<and> c = from_le_bytes (take 8 (drop off bs))"
  by (auto simp: read_u16_def read_u32_def read_u64_def slice_from_def first_chunk_def)

lemma length_encode_header [simp]:
  "length (magic h) = 8 \<Longrightarrow> length (encode_header h) = FILE_HEADER_LEN"
  by (simp add: encode_header_def FILE_HEADER_LEN_def)

lemma header_fields:
  assumes "length (magic h) = 8"
  shows "slice_to (encode_header h) 8 = Some (magic h)"
    and "read_u16 art (encode_header h) 8 = Ok (hdr_family h)"
    and "read_u16 art (encode_header h) 10 = Ok (hdr_version h)"
    and "read_u32 art (encode_header h) 12 = Ok (flags h)"
    and "read_u64 art (encode_header h) 16 = Ok (header_length h)"
    and "read_u64 art (encode_header h) 24 = Ok (file_length h)"
  using assms
  by (simp_all add: encode_header_def slice_to_def read_u16_def read_u32_def read_u64_def
      slice_from_def first_chunk_def)

text \<open>What a decoded header says about the bytes, on every branch.\<close>

lemma decode_header_encode:
  assumes "magic h = FILE_MAGIC" "hdr_family h = family_id f"
    and "require_family (family_id f) (hdr_version h) = Ok spec"
    and "u64_of_usize FILE_HEADER_LEN \<le> header_length h"
  shows "decode_header art f (encode_header h @ rest) = Ok h"
proof -
  have len: "length (magic h) = 8" using assms(1) by simp
  have "slice_to (encode_header h @ rest) FILE_HEADER_LEN = Some (encode_header h)"
    using len by (simp add: slice_to_def)
  with header_fields [OF len] assms show ?thesis
    by (simp add: decode_header_def Let_def)
qed

lemma decode_header_OkD:
  assumes "decode_header art f bs = Ok h"
  shows "magic h = FILE_MAGIC \<and> hdr_family h = family_id f
    \<and> (\<exists>spec. require_family (family_id f) (hdr_version h) = Ok spec)
    \<and> u64_of_usize FILE_HEADER_LEN \<le> header_length h
    \<and> FILE_HEADER_LEN \<le> length bs \<and> take FILE_HEADER_LEN bs = encode_header h"
proof -
  let ?fx = "take 32 bs"
  have l: "32 \<le> length bs" and m: "take 8 bs = FILE_MAGIC" and mh: "magic h = FILE_MAGIC"
    and fam: "hdr_family h = family_id f"
    and f: "hdr_family h = from_le_bytes (take 2 (drop 8 ?fx))"
    and v: "hdr_version h = from_le_bytes (take 2 (drop 10 ?fx))"
    and req: "\<exists>spec. require_family (family_id f) (hdr_version h) = Ok spec"
    and fl: "flags h = from_le_bytes (take 4 (drop 12 ?fx))"
    and hl: "header_length h = from_le_bytes (take 8 (drop 16 ?fx))"
    and fi: "file_length h = from_le_bytes (take 8 (drop 24 ?fx))"
    and lo: "u64_of_usize 32 \<le> header_length h"
    using assms
    by (auto simp: decode_header_def result_Inr read_ok_iff slice_to_def Let_def
        FILE_HEADER_LEN_def not_less split: if_splits)
  have parts: "?fx = take 8 ?fx @ take 2 (drop 8 ?fx) @ take 2 (drop 10 ?fx)
      @ take 4 (drop 12 ?fx) @ take 8 (drop 16 ?fx) @ take 8 (drop 24 ?fx)"
    using drop_split [of 0 ?fx 8] drop_split [of 8 ?fx 2] drop_split [of 10 ?fx 2]
      drop_split [of 12 ?fx 4] drop_split [of 16 ?fx 8] l by simp
  have enc: "to_le_bytes (hdr_family h) = take 2 (drop 8 ?fx)"
      "to_le_bytes (hdr_version h) = take 2 (drop 10 ?fx)"
      "to_le_bytes (flags h) = take 4 (drop 12 ?fx)"
      "to_le_bytes (header_length h) = take 8 (drop 16 ?fx)"
      "to_le_bytes (file_length h) = take 8 (drop 24 ?fx)"
    using l by (simp_all only: f v fl hl fi) (simp_all add: to_from_le_bytes)
  show ?thesis
    unfolding encode_header_def enc FILE_HEADER_LEN_def
    using l m mh fam req lo parts by simp
qed

section \<open>Artifacts\<close>

definition artifact_body :: "xxh3_lib \<Rightarrow> file_header \<Rightarrow> bytes \<Rightarrow> bytes" where
  "artifact_body X h payload =
     encode_header h @ to_le_bytes (u64_of_usize (length payload)) @ payload
     @ to_le_bytes (xxh3_64 X payload)"

definition artifact_header :: "format_family \<Rightarrow> u16 \<Rightarrow> u32 \<Rightarrow> bytes \<Rightarrow> file_header" where
  "artifact_header f v fl payload =
     \<lparr>magic = FILE_MAGIC, hdr_family = family_id f, hdr_version = v, flags = fl,
      header_length = u64_of_usize FILE_HEADER_LEN,
      file_length = u64_of_usize (56 + length payload)\<rparr>"

lemma artifact_header_simps [simp]:
  "magic (artifact_header f v fl p) = FILE_MAGIC"
  "hdr_family (artifact_header f v fl p) = family_id f"
  "hdr_version (artifact_header f v fl p) = v"
  "flags (artifact_header f v fl p) = fl"
  "header_length (artifact_header f v fl p) = u64_of_usize FILE_HEADER_LEN"
  "file_length (artifact_header f v fl p) = u64_of_usize (56 + length p)"
  by (simp_all add: artifact_header_def)

lemma encode_artifact_version_eq:
  assumes "length payload + 56 \<le> usize_max"
  shows "encode_artifact_version X f v fl payload =
    artifact_body X (artifact_header f v fl payload) payload
    @ to_le_bytes (xxh3_64 X (artifact_body X (artifact_header f v fl payload) payload))"
  using assms
  by (simp add: encode_artifact_version_def artifact_body_def artifact_header_def frame_consts
      Let_def add.commute)

lemma length_artifact_body [simp]:
  "length (magic h) = 8 \<Longrightarrow> length (artifact_body X h payload) = 48 + length payload"
  by (simp add: artifact_body_def FILE_HEADER_LEN_def)

lemma body_fields:
  assumes "length (magic h) = 8" "length payload \<le> usize_max"
  shows "read_u64 art (artifact_body X h payload @ rest) 32 = Ok (u64_of_usize (length payload))"
    and "slice_range (artifact_body X h payload @ rest) 40 (40 + length payload) = Some payload"
    and "read_u64 art (artifact_body X h payload @ rest) (40 + length payload)
      = Ok (xxh3_64 X payload)"
proof -
  have l: "length (encode_header h) = 32"
    using assms(1) by (simp add: FILE_HEADER_LEN_def)
  show "read_u64 art (artifact_body X h payload @ rest) 32 = Ok (u64_of_usize (length payload))"
    using read_at(3) [of "encode_header h" 32 art] l by (simp add: artifact_body_def)
  show "slice_range (artifact_body X h payload @ rest) 40 (40 + length payload) = Some payload"
    using l by (simp add: artifact_body_def slice_range_def)
  show "read_u64 art (artifact_body X h payload @ rest) (40 + length payload)
      = Ok (xxh3_64 X payload)"
    using read_at(3) [of "encode_header h @ to_le_bytes (u64_of_usize (length payload)) @ payload"
        "40 + length payload" art "xxh3_64 X payload" rest] l
    by (simp add: artifact_body_def)
qed

lemma decode_encode_artifact_version:
  assumes len: "length payload + 56 \<le> usize_max"
    and req: "require_family (family_id f) v = Ok spec"
  shows "decode_artifact X art f (encode_artifact_version X f v fl payload) =
    Ok \<lparr>art_header = artifact_header f v fl payload, art_payload = payload\<rparr>"
proof -
  let ?h = "artifact_header f v fl payload"
  let ?b = "artifact_body X ?h payload"
  let ?bs = "?b @ to_le_bytes (xxh3_64 X ?b)"
  have mag: "length (magic ?h) = 8" by simp
  have bslen: "length ?bs = 56 + length payload" by simp
  have hdr: "decode_header art f ?bs = Ok ?h"
    using decode_header_encode [of ?h f spec art] req by (simp add: artifact_body_def)
  have trailer: "read_u64 art ?bs (48 + length payload) = Ok (xxh3_64 X ?b)"
    using read_at(3) [of ?b "48 + length payload" art "xxh3_64 X ?b" "[]"] by simp
  have pl: "unat (u64_of_usize (length payload)) = length payload"
    using len by (simp add: unat_u64_of_usize)
  have fields: "read_u64 art ?bs 32 = Ok (u64_of_usize (length payload))"
      "slice_range ?bs 40 (40 + length payload) = Some payload"
      "read_u64 art ?bs (40 + length payload) = Ok (xxh3_64 X payload)"
    using body_fields [OF mag] len by simp_all
  have "slice_to ?bs (48 + length payload) = Some ?b"
    by (simp add: slice_to_def)
  with hdr trailer fields pl len bslen show ?thesis
    by (simp add: encode_artifact_version_eq decode_artifact_def Let_def frame_consts
        checked_sub_usize_def)
qed

text \<open>Every accepted byte string is the encoding of what the decoder returned.\<close>

lemma decode_artifact_canonical:
  assumes "decode_artifact X art f bs = Ok d"
  shows "bs = encode_artifact_version X f (hdr_version (art_header d)) (flags (art_header d))
      (art_payload d)
    \<and> length bs = 56 + length (art_payload d)"
proof -
  let ?h = "art_header d" and ?n = "length bs"
  define p where "p = unat (from_le_bytes (take 8 (drop 32 bs)) :: u64)"
  from assms have hdr: "decode_header art f bs = Ok ?h"
    and fl: "file_length ?h = u64_of_usize ?n" and nmax: "?n \<le> usize_max"
    and hl: "header_length ?h = u64_of_usize 32"
    and n8: "8 \<le> ?n" and fc: "xxh3_64 X (take (?n - 8) bs) = from_le_bytes (drop (?n - 8) bs)"
    and pl: "40 + p + 8 = ?n - 8" and n40: "40 \<le> ?n"
    and pay: "art_payload d = take p (drop 40 bs)"
    and bc: "xxh3_64 X (art_payload d) = from_le_bytes (take 8 (drop (40 + p) bs))"
    by (auto simp: decode_artifact_def result_Inr read_ok_iff Let_def frame_consts p_def
        checked_sub_usize_def slice_to_def slice_range_def checked_add_usize_def
        saturating_add_usize_def usize_max_def split: if_splits)
  note H = decode_header_OkD [OF hdr]
  have len_pay: "length (art_payload d) = p"
    using pay pl n40 by simp
  have hd32: "take 32 bs = encode_header ?h"
    using H by (simp add: FILE_HEADER_LEN_def)
  have lenw: "to_le_bytes (u64_of_usize p) = take 8 (drop 32 bs)"
    unfolding p_def u64_of_usize_def using n40 by (simp add: to_from_le_bytes)
  have bcw: "to_le_bytes (xxh3_64 X (art_payload d)) = take 8 (drop (40 + p) bs)"
    using bc pl by (simp add: to_from_le_bytes)
  have fcw: "to_le_bytes (xxh3_64 X (take (?n - 8) bs)) = drop (?n - 8) bs"
    using fc n8 by (simp add: to_from_le_bytes)
  have split: "take (?n - 8) bs = artifact_body X ?h (art_payload d)"
  proof -
    have "take (?n - 8) bs = take 32 bs @ take 8 (drop 32 bs) @ take p (drop 40 bs)
        @ take 8 (drop (40 + p) bs)"
      unfolding pl [symmetric]
      using take_add [of "40 + p" 8 bs] take_add [of 40 p bs] take_add [of 32 8 bs] by simp
    then show ?thesis
      by (simp add: artifact_body_def hd32 len_pay lenw bcw pay [symmetric])
  qed
  have h_eq: "?h = artifact_header f (hdr_version ?h) (flags ?h) (art_payload d)"
  proof (rule file_header.equality)
    have "?n = 56 + p" using pl n40 by simp
    then show "file_length ?h
        = file_length (artifact_header f (hdr_version ?h) (flags ?h) (art_payload d))"
      using fl len_pay by simp
  qed (use H hl in \<open>simp_all add: FILE_HEADER_LEN_def\<close>)
  have "bs = take (?n - 8) bs @ drop (?n - 8) bs" by simp
  also have "\<dots> = artifact_body X ?h (art_payload d)
      @ to_le_bytes (xxh3_64 X (artifact_body X ?h (art_payload d)))"
    using split fcw by metis
  finally have "bs = artifact_body X ?h (art_payload d)
      @ to_le_bytes (xxh3_64 X (artifact_body X ?h (art_payload d)))" .
  then show ?thesis
    using h_eq pl n40 len_pay nmax by (simp add: encode_artifact_version_eq)
qed

end
