(* ===== verification/Wal_Record.thy ===== *)
theory Wal_Record
  imports Frame
begin

text \<open>
  Byte-exact framing of the append-only log: the file header
  (\<^verbatim>\<open>src/wal/header.rs\<close>) and one record (\<^verbatim>\<open>src/wal/record.rs\<close>).
  The record checksum is computed with the streaming hash on the way out and with the one-shot
  hash on the way in, so the round trips rest on \<open>xxh3_streaming\<close>.
\<close>

type_synonym log_seq = u64

section \<open>The file header\<close>

definition WAL_HEADER_LEN :: nat where
  "WAL_HEADER_LEN = FILE_HEADER_LEN + 8"

record wal_header =
  first_seq :: log_seq

datatype wal_header_error =
    HeaderMissing
  | HeaderTooShort nat nat
    \<comment> \<open>\<open>Truncated\<close>: needed, available\<close>
  | WrongMagic bytes bytes
  | WrongFamily u16 u16
  | HeaderUnsupportedVersion u16 u16 u16 u16
  | InvalidHeaderLength u64 u64
  | NonZeroFileLength u64
  | InvalidSharedHeader format_check

definition invalid_shared_header :: "format_error \<Rightarrow> wal_header_error" where
  "invalid_shared_header e = InvalidSharedHeader (err_check e)"

definition wal_encode_header :: "log_seq \<Rightarrow> (registry_error, bytes) result" where
  "wal_encode_header seq =
     and_then (ok_or (UnknownFamily (family_id WalFamily))
                 (find (\<lambda>candidate. spec_family candidate = WalFamily) FAMILIES)) (\<lambda>spec.
     Ok (encode_header \<lparr>magic = FILE_MAGIC, hdr_family = family_id WalFamily,
           hdr_version = spec_current_version spec, flags = 0,
           header_length = u64_of_usize WAL_HEADER_LEN, file_length = 0\<rparr>
         @ to_le_bytes seq))"

definition wal_header_map_error ::
  "bytes \<Rightarrow> u16 \<Rightarrow> u16 \<Rightarrow> u64 \<Rightarrow> format_error \<Rightarrow> wal_header_error" where
  "wal_header_map_error actual_magic family version hlen e =
     (case err_check e of
        CheckMagic \<Rightarrow> WrongMagic FILE_MAGIC actual_magic
      | CheckFamily \<Rightarrow> WrongFamily (family_id WalFamily) family
      | CheckVersion \<Rightarrow>
          (case require_family family version of
             Inl (UnsupportedVersion fam ver minimum maximum) \<Rightarrow>
               HeaderUnsupportedVersion fam ver minimum maximum
           | _ \<Rightarrow> InvalidSharedHeader CheckVersion)
      | CheckHeaderLength \<Rightarrow> InvalidHeaderLength (u64_of_usize WAL_HEADER_LEN) hlen
      | check \<Rightarrow> InvalidSharedHeader check)"

definition wal_decode_header :: "bytes \<Rightarrow> (wal_header_error, wal_header) result" where
  "wal_decode_header bs =
     (if bs = [] then Err HeaderMissing
      else if length bs < WAL_HEADER_LEN then Err (HeaderTooShort WAL_HEADER_LEN (length bs))
      else
      and_then (ok_or (HeaderTooShort WAL_HEADER_LEN (length bs)) (slice_to bs 8)) (\<lambda>actual_magic.
      and_then (map_err invalid_shared_header (read_u16 ''WAL'' bs 8)) (\<lambda>family.
      and_then (map_err invalid_shared_header (read_u16 ''WAL'' bs 10)) (\<lambda>version.
      and_then (map_err invalid_shared_header (read_u64 ''WAL'' bs 16)) (\<lambda>hlen.
      and_then (map_err (wal_header_map_error actual_magic family version hlen)
                  (decode_header ''WAL'' WalFamily bs)) (\<lambda>common.
      if header_length common \<noteq> u64_of_usize WAL_HEADER_LEN
      then Err (InvalidHeaderLength (u64_of_usize WAL_HEADER_LEN) (header_length common))
      else if file_length common \<noteq> 0 then Err (NonZeroFileLength (file_length common))
      else
      and_then (map_err invalid_shared_header (read_u64 ''WAL'' bs FILE_HEADER_LEN)) (\<lambda>seq.
      Ok \<lparr>first_seq = seq\<rparr>)))))))"

section \<open>One record\<close>

definition RECORD_HEADER_LEN :: nat where
  "RECORD_HEADER_LEN = 14"

definition RECORD_CHECKSUM_LEN :: nat where
  "RECORD_CHECKSUM_LEN = 8"

definition MIN_RECORD_LEN :: nat where
  "MIN_RECORD_LEN = RECORD_HEADER_LEN + RECORD_CHECKSUM_LEN"

record wal_record =
  rec_seq :: log_seq
  rec_op :: u16
  rec_payload :: bytes

record decoded_record =
  dec_record :: wal_record
  encoded_len :: nat

datatype record_encode_error = PayloadTooLarge nat

datatype record_error =
    HeaderTruncated nat nat
    \<comment> \<open>needed, available\<close>
  | LengthOverflow u32
  | BodyTruncated u32 nat nat
    \<comment> \<open>payload length, needed, available\<close>
  | ChecksumMismatch u64 u64 nat
    \<comment> \<open>expected, actual, record length\<close>

fun framed_length :: "record_error \<Rightarrow> nat option" where
  "framed_length (ChecksumMismatch _ _ record_length) = Some record_length"
| "framed_length (HeaderTruncated _ _) = None"
| "framed_length (LengthOverflow _) = None"
| "framed_length (BodyTruncated _ _ _) = None"

definition encoded_record_len :: "nat \<Rightarrow> (record_encode_error, nat) result" where
  "encoded_record_len payload_len =
     and_then (ok_or (PayloadTooLarge payload_len) (u32_try_from payload_len)) (\<lambda>_.
     Ok (saturating_add_usize MIN_RECORD_LEN payload_len))"

definition append_record_into ::
  "xxh3_lib \<Rightarrow> wal_record \<Rightarrow> bytes \<Rightarrow> (record_encode_error, bytes) result" where
  "append_record_into X r encoded =
     and_then (ok_or (PayloadTooLarge (length (rec_payload r)))
                 (u32_try_from (length (rec_payload r)))) (\<lambda>payload_length.
     let payload_length_bytes = to_le_bytes payload_length;
         sequence_bytes = to_le_bytes (rec_seq r);
         operation_bytes = to_le_bytes (rec_op r);
         checksum = xxh3_digest X
           [payload_length_bytes, sequence_bytes, operation_bytes, rec_payload r]
     in Ok (encoded @ payload_length_bytes @ sequence_bytes @ operation_bytes
            @ rec_payload r @ to_le_bytes checksum))"

definition encode_record_into ::
  "xxh3_lib \<Rightarrow> wal_record \<Rightarrow> bytes \<Rightarrow> (record_encode_error, bytes) result" where
  "encode_record_into X r encoded = append_record_into X r []"

definition encode_record :: "xxh3_lib \<Rightarrow> wal_record \<Rightarrow> (record_encode_error, bytes) result" where
  "encode_record X r =
     and_then (encoded_record_len (length (rec_payload r))) (\<lambda>_. encode_record_into X r [])"

definition rec_read_u16 :: "bytes \<Rightarrow> nat \<Rightarrow> (record_error, u16) result" where
  "rec_read_u16 bs offset =
     map_ok from_le_bytes
       (ok_or (HeaderTruncated RECORD_HEADER_LEN (length bs))
          (slice_range bs offset (saturating_add_usize offset 2)))"

definition rec_read_u32 :: "bytes \<Rightarrow> nat \<Rightarrow> (record_error, u32) result" where
  "rec_read_u32 bs offset =
     map_ok from_le_bytes
       (ok_or (HeaderTruncated RECORD_HEADER_LEN (length bs))
          (slice_range bs offset (saturating_add_usize offset 4)))"

definition rec_read_u64 :: "bytes \<Rightarrow> nat \<Rightarrow> (record_error, u64) result" where
  "rec_read_u64 bs offset =
     map_ok from_le_bytes
       (ok_or (BodyTruncated 0 (saturating_add_usize offset 8) (length bs))
          (slice_range bs offset (saturating_add_usize offset 8)))"

definition decode_record :: "xxh3_lib \<Rightarrow> bytes \<Rightarrow> (record_error, decoded_record) result" where
  "decode_record X bs =
     (if length bs < RECORD_HEADER_LEN
      then Err (HeaderTruncated RECORD_HEADER_LEN (length bs)) else
      and_then (rec_read_u32 bs 0) (\<lambda>payload_length.
      let payload_length_usize = unat payload_length in
      and_then (ok_or (LengthOverflow payload_length)
                  (checked_add_usize MIN_RECORD_LEN payload_length_usize)) (\<lambda>enc_len.
      if length bs < enc_len then Err (BodyTruncated payload_length enc_len (length bs)) else
      let payload_end = saturating_add_usize RECORD_HEADER_LEN payload_length_usize in
      and_then (ok_or (BodyTruncated payload_length enc_len (length bs))
                  (slice_range bs RECORD_HEADER_LEN payload_end)) (\<lambda>payload.
      and_then (rec_read_u64 bs payload_end) (\<lambda>expected.
      and_then (ok_or (BodyTruncated payload_length enc_len (length bs))
                  (slice_to bs payload_end)) (\<lambda>checksummed.
      let actual = xxh3_64 X checksummed in
      if actual \<noteq> expected then Err (ChecksumMismatch expected actual enc_len) else
      and_then (rec_read_u64 bs 4) (\<lambda>seq.
      and_then (rec_read_u16 bs 12) (\<lambda>op.
      Ok \<lparr>dec_record = \<lparr>rec_seq = seq, rec_op = op, rec_payload = payload\<rparr>,
           encoded_len = enc_len\<rparr>))))))))"

section \<open>The header round trip\<close>

lemmas wal_consts = WAL_HEADER_LEN_def FILE_HEADER_LEN_def RECORD_HEADER_LEN_def
  RECORD_CHECKSUM_LEN_def MIN_RECORD_LEN_def

definition wal_file_header :: file_header where
  "wal_file_header = \<lparr>magic = FILE_MAGIC, hdr_family = 11, hdr_version = 1, flags = 0,
     header_length = 40, file_length = 0\<rparr>"

definition header_bytes :: "log_seq \<Rightarrow> bytes" where
  "header_bytes seq = encode_header wal_file_header @ to_le_bytes seq"

lemma wal_encode_header_eq: "wal_encode_header seq = Ok (header_bytes seq)"
  by (simp add: wal_encode_header_def find_family_eq spec_of_def v1_spec_def header_bytes_def
      wal_file_header_def wal_consts u64_of_usize_def)

lemma length_header_bytes [simp]: "length (header_bytes seq) = 40"
  by (simp add: header_bytes_def wal_file_header_def FILE_HEADER_LEN_def)

lemma wal_decode_header_bytes: "wal_decode_header (header_bytes seq @ rest) = Ok \<lparr>first_seq = seq\<rparr>"
proof -
  have req: "require_family (family_id WalFamily) 1 = Ok (spec_of WalFamily)"
    by (simp only: require_family_id) (simp add: spec_of_def v1_spec_def)
  have hdr: "decode_header ''WAL'' WalFamily (header_bytes seq @ rest) = Ok wal_file_header"
    unfolding header_bytes_def append_assoc
    by (rule decode_header_encode [OF _ _ _]) (use req in
        \<open>simp_all add: wal_file_header_def FILE_HEADER_LEN_def u64_of_usize_def\<close>)
  have reads: "read_u16 ''WAL'' (header_bytes seq @ rest) 8 = Ok 11"
      "read_u16 ''WAL'' (header_bytes seq @ rest) 10 = Ok 1"
      "read_u64 ''WAL'' (header_bytes seq @ rest) 16 = Ok 40"
      "read_u64 ''WAL'' (header_bytes seq @ rest) 32 = Ok seq"
    by (simp_all add: read_ok_iff header_bytes_def encode_header_def wal_file_header_def)
  have "slice_to (header_bytes seq @ rest) 8 = Some FILE_MAGIC"
    by (simp add: slice_to_def header_bytes_def encode_header_def wal_file_header_def)
  moreover have "header_bytes seq @ rest \<noteq> []"
    by (metis length_header_bytes append_is_Nil_conv list.size(3) zero_neq_numeral)
  ultimately show ?thesis
    using hdr reads
    by (simp add: wal_decode_header_def wal_consts wal_file_header_def u64_of_usize_def)
qed

lemma wal_decode_header_short: "length bs < 40 \<Longrightarrow> \<exists>e. wal_decode_header bs = Err e"
  by (auto simp: wal_decode_header_def wal_consts)

section \<open>The record round trip\<close>

definition record_prefix :: "wal_record \<Rightarrow> bytes" where
  "record_prefix r =
     to_le_bytes (word_of_nat (length (rec_payload r)) :: u32) @ to_le_bytes (rec_seq r)
     @ to_le_bytes (rec_op r) @ rec_payload r"

definition record_bytes :: "xxh3_lib \<Rightarrow> wal_record \<Rightarrow> bytes" where
  "record_bytes X r = record_prefix r @ to_le_bytes (xxh3_64 X (record_prefix r))"

lemma length_record_prefix [simp]: "length (record_prefix r) = 14 + length (rec_payload r)"
  by (simp add: record_prefix_def)

lemma length_record_bytes [simp]: "length (record_bytes X r) = 22 + length (rec_payload r)"
  by (simp add: record_bytes_def)

lemma append_record_into_eq:
  assumes "xxh3_streaming X"
  shows "append_record_into X r encoded =
    (if length (rec_payload r) \<le> u32_max then Ok (encoded @ record_bytes X r)
     else Err (PayloadTooLarge (length (rec_payload r))))"
  using assms
  by (simp add: append_record_into_def u32_try_from_def xxh3_streamingD Let_def record_bytes_def
      record_prefix_def)

lemma encode_record_eq:
  assumes "xxh3_streaming X"
  shows "encode_record X r =
    (if length (rec_payload r) \<le> u32_max then Ok (record_bytes X r)
     else Err (PayloadTooLarge (length (rec_payload r))))"
  using assms
  by (simp add: encode_record_def encode_record_into_def append_record_into_eq
      encoded_record_len_def u32_try_from_def)

lemma encoded_record_len_eq:
  "encoded_record_len n = (if n \<le> u32_max then Ok (22 + n) else Err (PayloadTooLarge n))"
  by (simp add: encoded_record_len_def u32_try_from_def wal_consts usize_max_def u32_max_def)

text \<open>The decoder in closed form: the unreachable error arms of the checked reads are gone.\<close>

lemma decode_record_eq:
  "decode_record X bs =
    (if length bs < 14 then Err (HeaderTruncated 14 (length bs)) else
     let w = from_le_bytes (take 4 bs) :: u32; n = unat w in
     if length bs < 22 + n then Err (BodyTruncated w (22 + n) (length bs)) else
     let expected = from_le_bytes (take 8 (drop (14 + n) bs));
         actual = xxh3_64 X (take (14 + n) bs) in
     if actual \<noteq> expected then Err (ChecksumMismatch expected actual (22 + n)) else
     Ok \<lparr>dec_record = \<lparr>rec_seq = from_le_bytes (take 8 (drop 4 bs)),
           rec_op = from_le_bytes (take 2 (drop 12 bs)), rec_payload = take n (drop 14 bs)\<rparr>,
         encoded_len = 22 + n\<rparr>)"
proof -
  have small: "4294967295 \<le> k \<Longrightarrow> unat (w :: u32) \<le> k" for w k
    using unat_u32_le [of w] by (simp add: u32_max_def)
  show ?thesis
    by (simp add: decode_record_def rec_read_u32_def rec_read_u64_def rec_read_u16_def
        slice_range_def slice_to_def wal_consts small Let_def saturating_add_usize_def
        checked_add_usize_def min_def add.commute usize_max_def)
qed

lemma decode_record_bytes:
  assumes "length (rec_payload r) \<le> u32_max"
  shows "decode_record X (record_bytes X r @ rest) =
    Ok \<lparr>dec_record = r, encoded_len = 22 + length (rec_payload r)\<rparr>"
  using assms
  by (simp add: decode_record_eq record_bytes_def record_prefix_def Let_def unat_word_of_nat_u32)

lemma decode_record_canonical:
  assumes "decode_record X bs = Ok d"
  shows "bs = record_bytes X (dec_record d) @ drop (encoded_len d) bs
    \<and> encoded_len d = 22 + length (rec_payload (dec_record d))
    \<and> length (rec_payload (dec_record d)) \<le> u32_max"
proof -
  define w where "w = (from_le_bytes (take 4 bs) :: u32)"
  define n where "n = unat w"
  from assms have l14: "14 \<le> length bs" and ln: "22 + n \<le> length bs"
    and ck: "xxh3_64 X (take (14 + n) bs) = from_le_bytes (take 8 (drop (14 + n) bs))"
    and sq: "rec_seq (dec_record d) = from_le_bytes (take 8 (drop 4 bs))"
    and op: "rec_op (dec_record d) = from_le_bytes (take 2 (drop 12 bs))"
    and pl: "rec_payload (dec_record d) = take n (drop 14 bs)"
    and el: "encoded_len d = 22 + n"
    by (auto simp: decode_record_eq Let_def w_def n_def split: if_splits)
  have len: "length (rec_payload (dec_record d)) = n"
    using pl ln by simp
  have wn: "word_of_nat n = w" by (simp add: n_def)
  have w: "to_le_bytes w = take 4 bs"
    unfolding w_def using l14 by (simp add: to_from_le_bytes)
  have pre: "record_prefix (dec_record d) = take (14 + n) bs"
  proof -
    have "take (14 + n) bs = take 4 bs @ take 8 (drop 4 bs) @ take 2 (drop 12 bs) @ take n (drop 14 bs)"
      using take_add [of 14 n bs] take_add [of 12 2 bs] take_add [of 4 8 bs] by simp
    moreover have "to_le_bytes (rec_seq (dec_record d)) = take 8 (drop 4 bs)"
      "to_le_bytes (rec_op (dec_record d)) = take 2 (drop 12 bs)"
      using l14 by (simp_all add: sq op to_from_le_bytes)
    ultimately show ?thesis
      unfolding record_prefix_def len wn w by (simp add: pl)
  qed
  have "to_le_bytes (xxh3_64 X (take (14 + n) bs)) = take 8 (drop (14 + n) bs)"
    using ck ln by (simp add: to_from_le_bytes)
  then have "record_bytes X (dec_record d) = take (22 + n) bs"
    using take_add [of "14 + n" 8 bs] by (simp add: record_bytes_def pre)
  then show ?thesis
    using el len unat_u32_le [of w] by (metis append_take_drop_id n_def)
qed

lemma decode_record_torn:
  assumes "length (rec_payload r) \<le> u32_max" "k < 22 + length (rec_payload r)"
  shows "decode_record X (take k (record_bytes X r)) =
    Err (if k < 14 then HeaderTruncated 14 k
         else BodyTruncated (word_of_nat (length (rec_payload r))) (22 + length (rec_payload r)) k)"
proof (cases "k < 14")
  case True
  then show ?thesis by (simp add: decode_record_eq)
next
  case False
  then have "take 4 (take k (record_bytes X r)) =
      to_le_bytes (word_of_nat (length (rec_payload r)) :: u32)"
    by (simp add: record_bytes_def record_prefix_def)
  with False assms show ?thesis
    by (simp add: decode_record_eq Let_def unat_word_of_nat_u32)
qed

end
