(* ===== verification/Wal_Replay.thy ===== *)
theory Wal_Replay
  imports Wal_Record
begin

text \<open>
  Checked prefix replay (\<^verbatim>\<open>src/wal/replay.rs\<close>), the log image encoder and the recovery
  reader of \<^verbatim>\<open>src/wal/mod.rs\<close>. A filesystem read is a parameter value: its bytes, or
  the kind of its error.
\<close>

datatype corruption_location = Tail | Middle

datatype corruption_reason =
    RecordCorruption corruption_location record_error
  | FirstSequenceMismatch log_seq log_seq corruption_location
    \<comment> \<open>expected, actual\<close>
  | SequenceGap log_seq log_seq corruption_location
  | SequenceRegression log_seq log_seq corruption_location

datatype replay_terminator =
    InvalidHeader wal_header_error
  | CleanEnd
  | CorruptAt nat corruption_reason

record replay_result =
  rep_records :: "wal_record list"
  rep_terminator :: replay_terminator

definition nonempty_from :: "bytes \<Rightarrow> nat \<Rightarrow> bytes option" where
  "nonempty_from bs offset =
     (case slice_from bs offset of
        None \<Rightarrow> None
      | Some rest \<Rightarrow> if rest = [] then None else Some rest)"

definition successor_location :: "xxh3_lib \<Rightarrow> bytes \<Rightarrow> nat \<Rightarrow> corruption_location" where
  "successor_location X bs offset =
     (case nonempty_from bs offset of
        None \<Rightarrow> Tail
      | Some successor \<Rightarrow> (case decode_record X successor of Inl _ \<Rightarrow> Tail | Inr _ \<Rightarrow> Middle))"

definition sequence_reason ::
  "wal_record list \<Rightarrow> log_seq \<Rightarrow> log_seq \<Rightarrow> corruption_location \<Rightarrow> corruption_reason" where
  "sequence_reason records expected actual location =
     (if records = [] then FirstSequenceMismatch expected actual location
      else if expected < actual then SequenceGap expected actual location
      else SequenceRegression expected actual location)"

text \<open>
  The loop of \<open>replay\<close>. \<open>offset.saturating_add(encoded_len)\<close> is written \<open>+\<close>: the decoded record
  lies inside \<open>bs\<close>, whose length is at most \<open>isize::MAX\<close>, so it never saturates.
\<close>

function replay_loop ::
  "xxh3_lib \<Rightarrow> bytes \<Rightarrow> nat \<Rightarrow> log_seq \<Rightarrow> wal_record list \<Rightarrow> replay_result" where
  "replay_loop X bs offset expected records =
     (case nonempty_from bs offset of
        None \<Rightarrow> \<lparr>rep_records = records, rep_terminator = CleanEnd\<rparr>
      | Some remaining \<Rightarrow>
          (case decode_record X remaining of
             Inl e \<Rightarrow>
               (let location =
                      (case Option.bind (framed_length e) (checked_add_usize offset) of
                         None \<Rightarrow> Tail
                       | Some nxt \<Rightarrow> successor_location X bs nxt)
                in \<lparr>rep_records = records,
                    rep_terminator = CorruptAt offset (RecordCorruption location e)\<rparr>)
           | Inr decoded \<Rightarrow>
               (let nxt = offset + encoded_len decoded;
                    actual = rec_seq (dec_record decoded)
                in if actual \<noteq> expected
                   then \<lparr>rep_records = records,
                         rep_terminator = CorruptAt offset
                           (sequence_reason records expected actual (successor_location X bs nxt))\<rparr>
                   else replay_loop X bs nxt (saturating_add_u64 expected 1)
                          (records @ [dec_record decoded]))))"
  by pat_completeness auto
termination
proof (relation "measure (\<lambda>(X, bs, offset, e, rs). length bs - offset)", goal_cases)
  case (2 X bs offset expected records remaining decoded nxt actual)
  then have "encoded_len decoded = 22 + length (rec_payload (dec_record decoded))"
    using decode_record_canonical by blast
  moreover have "offset < length bs"
    using 2(1) by (auto simp: nonempty_from_def slice_from_def split: if_splits)
  ultimately show ?case using 2(3) by simp
qed simp

declare replay_loop.simps [simp del]

definition replay :: "xxh3_lib \<Rightarrow> bytes \<Rightarrow> replay_result" where
  "replay X bs =
     (case wal_decode_header bs of
        Inl e \<Rightarrow> \<lparr>rep_records = [], rep_terminator = InvalidHeader e\<rparr>
      | Inr header \<Rightarrow> replay_loop X bs WAL_HEADER_LEN (first_seq header) [])"

section \<open>Writing a log image\<close>

datatype wal_write_error =
    NonEmptyWal u64
  | RecoveredBytesOverflow
  | GroupTooLarge nat nat
    \<comment> \<open>encoded bytes, maximum\<close>
  | SequenceExhausted
  | HeaderError registry_error
  | RecordEncodeFailed record_encode_error
  | Poisoned string
  | WriterFailed io_kind

primrec encode_wal_records ::
  "xxh3_lib \<Rightarrow> (u16 \<times> bytes) list \<Rightarrow> log_seq \<Rightarrow> bytes \<Rightarrow> (wal_write_error, bytes) result" where
  "encode_wal_records X [] sequence encoded = Ok encoded"
| "encode_wal_records X (r # rs) sequence encoded =
     and_then (map_err RecordEncodeFailed
                 (append_record_into X
                    \<lparr>rec_seq = sequence, rec_op = fst r, rec_payload = snd r\<rparr> encoded)) (\<lambda>encoded'.
     and_then (ok_or SequenceExhausted (checked_add_u64 sequence 1)) (\<lambda>sequence'.
     encode_wal_records X rs sequence' encoded'))"

definition encode_wal_image ::
  "xxh3_lib \<Rightarrow> log_seq \<Rightarrow> (u16 \<times> bytes) list \<Rightarrow> (wal_write_error, bytes) result" where
  "encode_wal_image X seq records =
     and_then (map_err HeaderError (wal_encode_header seq)) (\<lambda>encoded.
     encode_wal_records X records seq encoded)"

section \<open>Visible records and the recovery reader\<close>

record visible_record =
  vr_seq :: log_seq
  vr_op :: u16
  vr_encoded :: bytes
  vr_range :: "nat \<times> nat"

datatype visible_record_error =
    InvalidEncodedRange nat nat nat
  | VisibleRecordCorrupt record_error

definition vr_bytes :: "visible_record \<Rightarrow> (visible_record_error, bytes) result" where
  "vr_bytes v =
     ok_or (InvalidEncodedRange (fst (vr_range v)) (snd (vr_range v)) (length (vr_encoded v)))
       (slice_range (vr_encoded v) (fst (vr_range v)) (snd (vr_range v)))"

definition vr_payload :: "xxh3_lib \<Rightarrow> visible_record \<Rightarrow> (visible_record_error, bytes) result" where
  "vr_payload X v =
     and_then (vr_bytes v) (\<lambda>encoded.
     map_err VisibleRecordCorrupt
       (map_ok (\<lambda>d. rec_payload (dec_record d)) (decode_record X encoded)))"

definition vr_encoded_len :: "visible_record \<Rightarrow> nat" where
  "vr_encoded_len v = snd (vr_range v) - fst (vr_range v)"

datatype wal_read_error =
    ReadIo io_kind
  | ReadHeader wal_header_error
  | InvalidRecoveredRange nat nat nat

record wal_reader =
  rd_records :: "visible_record list"
  rd_next_seq :: u64
  rd_durable_end :: u64
  rd_terminator :: "replay_terminator option"

primrec recovered_ranges :: "wal_record list \<Rightarrow> nat \<Rightarrow> (log_seq \<times> u16 \<times> nat \<times> nat) list" where
  "recovered_ranges [] offset = []"
| "recovered_ranges (r # rs) offset =
     (let enc_len = saturating_add_usize MIN_RECORD_LEN (length (rec_payload r));
          stop = saturating_add_usize offset enc_len
      in (rec_seq r, rec_op r, offset, stop) # recovered_ranges rs stop)"

primrec recover_visible ::
  "bytes \<Rightarrow> (log_seq \<times> u16 \<times> nat \<times> nat) list \<Rightarrow> (wal_read_error, visible_record list) result" where
  "recover_visible bs [] = Ok []"
| "recover_visible bs (q # qs) =
     (let (seq, op, start, stop) = q in
      and_then (ok_or (InvalidRecoveredRange start stop (length bs)) (slice_range bs start stop))
        (\<lambda>encoded.
      and_then (recover_visible bs qs) (\<lambda>vs.
      Ok (\<lparr>vr_seq = seq, vr_op = op, vr_encoded = encoded, vr_range = (0, length encoded)\<rparr> # vs))))"

definition wal_reader_open ::
  "xxh3_lib \<Rightarrow> (io_kind, bytes) result \<Rightarrow> (wal_read_error, wal_reader) result" where
  "wal_reader_open X read =
     (case read of
        Inl NotFound \<Rightarrow>
          Ok \<lparr>rd_records = [], rd_next_seq = 0, rd_durable_end = 0, rd_terminator = None\<rparr>
      | Inl e \<Rightarrow> Err (ReadIo e)
      | Inr bs \<Rightarrow>
          (let replayed = replay X bs; terminator = rep_terminator replayed in
           case terminator of
             InvalidHeader _ \<Rightarrow>
               Ok \<lparr>rd_records = [], rd_next_seq = 0, rd_durable_end = 0,
                   rd_terminator = Some terminator\<rparr>
           | _ \<Rightarrow>
               and_then (map_err ReadHeader (wal_decode_header bs)) (\<lambda>header.
               and_then (recover_visible bs
                           (recovered_ranges (rep_records replayed) WAL_HEADER_LEN)) (\<lambda>records.
               let durable =
                     (if records = [] then saturating_sub_u64 (first_seq header) 1
                      else vr_seq (last records));
                   nxt =
                     (if records = [] then first_seq header
                      else saturating_add_u64 (vr_seq (last records)) 1)
               in Ok \<lparr>rd_records = records, rd_next_seq = nxt, rd_durable_end = durable,
                       rd_terminator = Some terminator\<rparr>))))"

datatype wal_recovery_error =
    MissingFile
  | RecoveryInvalidHeader wal_header_error
  | RecoveryCorruptAt nat corruption_reason

record clean_wal_reader =
  cl_records :: "visible_record list"
  cl_next_seq :: u64
  cl_durable_end :: "log_seq option"

definition into_clean :: "wal_reader \<Rightarrow> (wal_recovery_error, clean_wal_reader) result" where
  "into_clean rd =
     (case rd_terminator rd of
        Some CleanEnd \<Rightarrow>
          Ok \<lparr>cl_records = rd_records rd, cl_next_seq = rd_next_seq rd,
              cl_durable_end = Some (rd_durable_end rd)\<rparr>
      | Some (InvalidHeader e) \<Rightarrow> Err (RecoveryInvalidHeader e)
      | Some (CorruptAt offset reason) \<Rightarrow> Err (RecoveryCorruptAt offset reason)
      | None \<Rightarrow> Err MissingFile)"

definition DEFAULT_MAX_GROUP_BYTES_DURABLE :: nat where
  "DEFAULT_MAX_GROUP_BYTES_DURABLE = 16 * 1048576"

definition torn_body_tail :: "replay_terminator option \<Rightarrow> bool" where
  "torn_body_tail t =
     (case t of
        Some (CorruptAt _ (RecordCorruption Tail (BodyTruncated _ needed _))) \<Rightarrow>
          needed \<le> DEFAULT_MAX_GROUP_BYTES_DURABLE
      | _ \<Rightarrow> False)"

definition into_graph_prefix :: "wal_reader \<Rightarrow> (wal_recovery_error, clean_wal_reader) result" where
  "into_graph_prefix rd =
     into_clean (if torn_body_tail (rd_terminator rd)
                 then rd\<lparr>rd_terminator := Some CleanEnd\<rparr> else rd)"

section \<open>The log as a list of operations\<close>

primrec seq_records :: "log_seq \<Rightarrow> (u16 \<times> bytes) list \<Rightarrow> wal_record list" where
  "seq_records s [] = []"
| "seq_records s (r # rs) = \<lparr>rec_seq = s, rec_op = fst r, rec_payload = snd r\<rparr> # seq_records (s + 1) rs"

definition records_image :: "xxh3_lib \<Rightarrow> wal_record list \<Rightarrow> bytes" where
  "records_image X rs = concat (map (record_bytes X) rs)"

definition wal_image :: "xxh3_lib \<Rightarrow> log_seq \<Rightarrow> (u16 \<times> bytes) list \<Rightarrow> bytes" where
  "wal_image X s log = header_bytes s @ records_image X (seq_records s log)"

definition log_fits :: "log_seq \<Rightarrow> (u16 \<times> bytes) list \<Rightarrow> bool" where
  "log_fits s log \<longleftrightarrow> unat s + length log \<le> usize_max \<and> (\<forall>r \<in> set log. length (snd r) \<le> u32_max)"

lemma records_image_simps [simp]:
  "records_image X [] = []"
  "records_image X (r # rs) = record_bytes X r @ records_image X rs"
  "records_image X (rs @ qs) = records_image X rs @ records_image X qs"
  by (simp_all add: records_image_def)

lemma length_seq_records [simp]: "length (seq_records s log) = length log"
  by (induction log arbitrary: s) auto

lemma seq_records_append:
  "seq_records s (xs @ ys) = seq_records s xs @ seq_records (s + word_of_nat (length xs)) ys"
  by (induction xs arbitrary: s) (simp_all add: algebra_simps)

lemma seq_records_nth:
  "i < length log \<Longrightarrow>
   seq_records s log ! i = \<lparr>rec_seq = s + word_of_nat i, rec_op = fst (log ! i), rec_payload = snd (log ! i)\<rparr>"
  by (induction log arbitrary: s i) (auto simp: nth_Cons' algebra_simps split: if_splits)

lemma log_fits_Cons:
  assumes "log_fits s (r # rs)"
  shows "log_fits (s + 1) rs \<and> length (snd r) \<le> u32_max \<and> saturating_add_u64 s 1 = s + 1
    \<and> checked_add_u64 s 1 = Some (s + 1) \<and> unat (s + 1) = Suc (unat s)"
proof -
  from assms have b: "unat s + 1 \<le> usize_max" by (simp add: log_fits_def)
  then have "unat (s + 1) = unat s + 1"
    by (simp add: unat_word_ariths usize_max_def)
  with assms b show ?thesis
    by (auto simp: log_fits_def saturating_add_u64_def checked_add_u64_def)
qed

lemma encode_wal_records_eq:
  assumes "xxh3_streaming X" "log_fits s log"
  shows "encode_wal_records X log s encoded = Ok (encoded @ records_image X (seq_records s log))"
  using assms(2)
proof (induction log arbitrary: s encoded)
  case Nil
  then show ?case by simp
next
  case (Cons r rs)
  then show ?case
    using log_fits_Cons [OF Cons.prems] assms(1) by (simp add: append_record_into_eq)
qed

lemma encode_wal_image_eq:
  assumes "xxh3_streaming X" "log_fits s log"
  shows "encode_wal_image X s log = Ok (wal_image X s log)"
  using assms
  by (simp add: encode_wal_image_def wal_encode_header_eq encode_wal_records_eq wal_image_def)

section \<open>Replay of a torn image\<close>

text \<open>
  What recovery promises of a log cut after \<open>k\<close> record bytes: every whole record is returned, and
  the terminator names the torn record, classified as tail corruption.
\<close>

fun whole_records :: "nat \<Rightarrow> (u16 \<times> bytes) list \<Rightarrow> nat" where
  "whole_records k [] = 0"
| "whole_records k (r # rs) =
     (if 22 + length (snd r) \<le> k then Suc (whole_records (k - (22 + length (snd r))) rs) else 0)"

definition torn_error :: "bytes \<Rightarrow> nat \<Rightarrow> record_error" where
  "torn_error payload k =
     (if k < 14 then HeaderTruncated 14 k
      else BodyTruncated (word_of_nat (length payload)) (22 + length payload) k)"

fun prefix_terminator :: "nat \<Rightarrow> nat \<Rightarrow> (u16 \<times> bytes) list \<Rightarrow> replay_terminator" where
  "prefix_terminator off k [] = CleanEnd"
| "prefix_terminator off k (r # rs) =
     (if 22 + length (snd r) \<le> k
      then prefix_terminator (off + 22 + length (snd r)) (k - (22 + length (snd r))) rs
      else if k = 0 then CleanEnd
      else CorruptAt off (RecordCorruption Tail (torn_error (snd r) k)))"

lemma nonempty_from_append [simp]:
  "nonempty_from (pre @ rest) (length pre) = (if rest = [] then None else Some rest)"
  by (simp add: nonempty_from_def slice_from_def)

lemma replay_loop_end: "replay_loop X bs (length bs) e acc = \<lparr>rep_records = acc, rep_terminator = CleanEnd\<rparr>"
  using nonempty_from_append [of bs "[]"] by (simp add: replay_loop.simps)

lemma replay_loop_record:
  assumes "length (rec_payload r) \<le> u32_max" "rec_seq r = e" "off = length pre"
  shows "replay_loop X (pre @ record_bytes X r @ rest) off e acc =
    replay_loop X (pre @ record_bytes X r @ rest) (off + 22 + length (rec_payload r))
      (saturating_add_u64 e 1) (acc @ [r])"
proof -
  have "record_bytes X r \<noteq> []"
    by (metis length_record_bytes add_is_0 list.size(3) zero_neq_numeral)
  then show ?thesis
    using assms
    by (simp add: replay_loop.simps [of X _ "length pre"] decode_record_bytes add.assoc)
qed

lemma replay_loop_torn:
  assumes "length (rec_payload r) \<le> u32_max" "0 < k" "k < 22 + length (rec_payload r)"
  shows "replay_loop X (pre @ take k (record_bytes X r)) (length pre) e acc =
    \<lparr>rep_records = acc,
     rep_terminator = CorruptAt (length pre) (RecordCorruption Tail (torn_error (rec_payload r) k))\<rparr>"
proof -
  have "take k (record_bytes X r) \<noteq> []"
    using assms(2) by (metis length_record_bytes add_is_0 list.size(3) take_eq_Nil
        less_numeral_extra(3) zero_neq_numeral)
  then show ?thesis
    using assms by (simp add: replay_loop.simps decode_record_torn torn_error_def)
qed

lemma replay_loop_prefix:
  assumes "log_fits e log"
  shows "replay_loop X (pre @ take k (records_image X (seq_records e log))) (length pre) e acc =
    \<lparr>rep_records = acc @ seq_records e (take (whole_records k log) log),
     rep_terminator = prefix_terminator (length pre) k log\<rparr>"
  using assms
proof (induction log arbitrary: e pre k acc)
  case Nil
  then show ?case
    using replay_loop_end [of X pre] by simp
next
  case (Cons r rs)
  let ?r = "\<lparr>rec_seq = e, rec_op = fst r, rec_payload = snd r\<rparr>"
  note fit = log_fits_Cons [OF Cons.prems]
  show ?case
  proof (cases "22 + length (snd r) \<le> k")
    case True
    then have img: "take k (records_image X (seq_records e (r # rs))) =
        record_bytes X ?r @ take (k - (22 + length (snd r))) (records_image X (seq_records (e + 1) rs))"
      by simp
    show ?thesis
      unfolding img
      using True fit Cons.IH [of "e + 1" "pre @ record_bytes X ?r"]
      by (simp add: replay_loop_record add.assoc)
  next
    case False
    then have img: "take k (records_image X (seq_records e (r # rs))) = take k (record_bytes X ?r)"
      by simp
    show ?thesis
    proof (cases "k = 0")
      case True
      then show ?thesis using replay_loop_end [of X pre] by simp
    next
      case k: False
      show ?thesis
        unfolding img using False k fit by (simp add: replay_loop_torn)
    qed
  qed
qed

lemma replay_prefix:
  assumes "log_fits s log"
  shows "replay X (take (40 + k) (wal_image X s log)) =
    \<lparr>rep_records = seq_records s (take (whole_records k log) log),
     rep_terminator = prefix_terminator 40 k log\<rparr>"
proof -
  have "take (40 + k) (wal_image X s log) =
      header_bytes s @ take k (records_image X (seq_records s log))"
    by (simp add: wal_image_def)
  then show ?thesis
    using replay_loop_prefix [OF assms, of X "header_bytes s" k "[]"]
    by (simp add: replay_def wal_decode_header_bytes wal_consts)
qed

lemma length_records_image_take:
  "length (records_image X (seq_records s log)) = (\<Sum>r\<leftarrow>log. 22 + length (snd r))"
  by (induction log arbitrary: s) auto

lemma whole_records_all: "(\<Sum>r\<leftarrow>log. 22 + length (snd r)) \<le> k \<Longrightarrow> whole_records k log = length log"
  by (induction log arbitrary: k) auto

lemma prefix_terminator_all: "(\<Sum>r\<leftarrow>log. 22 + length (snd r)) \<le> k \<Longrightarrow> prefix_terminator off k log = CleanEnd"
  by (induction log arbitrary: off k) auto

lemma whole_records_ge:
  "n \<le> length log \<Longrightarrow> (\<Sum>r\<leftarrow>take n log. 22 + length (snd r)) \<le> k \<Longrightarrow> n \<le> whole_records k log"
proof (induction log arbitrary: n k)
  case Nil
  then show ?case by simp
next
  case (Cons r rs)
  then show ?case by (cases n) auto
qed

lemma whole_records_le: "whole_records k log \<le> length log"
  by (induction log arbitrary: k) auto

lemma replay_image:
  assumes "log_fits s log"
  shows "replay X (wal_image X s log) = \<lparr>rep_records = seq_records s log, rep_terminator = CleanEnd\<rparr>"
proof -
  let ?k = "\<Sum>r\<leftarrow>log. 22 + length (snd r)"
  have "take (40 + ?k) (wal_image X s log) = wal_image X s log"
    by (simp add: wal_image_def length_records_image_take)
  then show ?thesis
    using replay_prefix [OF assms, of X ?k] by (simp add: whole_records_all prefix_terminator_all)
qed

end
