(* ===== verification/Durability.thy ===== *)
theory Durability
  imports Prelude
begin

text \<open>
  The per-store durability policy (\<^verbatim>\<open>src/lifecycle/durability.rs\<close>): which
  synchronization primitive a commit owes to its data file and its directory.
\<close>

datatype sync_kind = Barrier | Full

datatype durability_mode = Derived | Durable | Attached

datatype commit_tier = TierNone | TierOrdered | TierDurable

datatype sync_requirement = Skip | Sync sync_kind

record durability_policy =
  data_file :: sync_requirement
  directory :: sync_requirement

datatype durability_policy_error = AttachedNotYetSupported

definition durability_policy_new ::
  "durability_mode \<Rightarrow> commit_tier \<Rightarrow> (durability_policy_error, durability_policy) result" where
  "durability_policy_new mode tier =
     map_ok (\<lambda>requirement. \<lparr>data_file = requirement, directory = requirement\<rparr>)
       (case (mode, tier) of
          (Attached, _) \<Rightarrow> Err AttachedNotYetSupported
        | (Derived, _) \<Rightarrow> Ok Skip
        | (Durable, TierNone) \<Rightarrow> Ok Skip
        | (Durable, TierOrdered) \<Rightarrow> Ok (Sync Barrier)
        | (Durable, TierDurable) \<Rightarrow> Ok (Sync Full))"

lemma policy_same_requirement:
  "durability_policy_new mode tier = Ok p \<Longrightarrow> directory p = data_file p"
  by (auto simp: durability_policy_new_def result_Inr)

lemma policy_full_iff:
  "durability_policy_new mode tier = Ok p \<Longrightarrow>
   data_file p = Sync Full \<longleftrightarrow> mode = Durable \<and> tier = TierDurable"
  by (auto simp: durability_policy_new_def result_Inr split: durability_mode.splits commit_tier.splits)

end
