(* ===== verification/Wal_Writer.thy ===== *)
theory Wal_Writer
  imports Wal_Replay Durability
begin

text \<open>
  The single-store log writer with leader/follower group commit
  (\<^verbatim>\<open>src/wal/mod.rs\<close>, \<open>WalWriter\<close>). Every critical section of the state mutex is one
  definition; the condition-variable wait is the outcome \<open>StageWait\<close>. Allocation capacities and
  \<open>Arc\<close> sharing are not observable and are left out; a chunk keeps its buffer and byte range.
  Filesystem results are arguments.
\<close>

definition DEFAULT_MAX_GROUP_BYTES :: nat where
  "DEFAULT_MAX_GROUP_BYTES = 1048576"

definition GROUP_SIZE_HISTOGRAM_BUCKETS :: nat where
  "GROUP_SIZE_HISTOGRAM_BUCKETS = 18"

definition RECENT_GROUP_LIMIT :: nat where
  "RECENT_GROUP_LIMIT = 64"

record encoded_chunk =
  ch_encoded :: bytes
  ch_range :: "nat \<times> nat"

record group =
  g_chunks :: "encoded_chunk list"
  g_encoded_bytes :: nat
  g_records :: nat
  g_last_seq :: "log_seq option"

record completed_group =
  cg_records :: nat
  cg_encoded_bytes :: nat

record writer_state =
  next_seq :: u64
  visible :: "visible_record list"
  retained_bytes :: nat
  durable_end :: "log_seq option"
  pending_groups :: "group list"
  spare_chunks :: "encoded_chunk list"
  barrier_in_flight :: bool
  failure :: "io_kind option"
  completed_groups :: u64
  completed_records :: u64
  completed_bytes :: u64
  encoded_buffer_allocations :: u64
  group_size_histogram :: "u64 list"
  recent_groups :: "completed_group list"

record wal_writer =
  wfile :: bytes
  wstate :: writer_state
  wsync :: sync_requirement
  max_group_bytes :: nat
  durable_progress :: u64
  created_directory_sync :: "sync_kind option"
  io_work :: "u64 list"

definition default_max_group_bytes :: "durability_policy \<Rightarrow> nat" where
  "default_max_group_bytes policy =
     (case data_file policy of
        Sync Full \<Rightarrow> DEFAULT_MAX_GROUP_BYTES_DURABLE
      | Skip \<Rightarrow> DEFAULT_MAX_GROUP_BYTES
      | Sync Barrier \<Rightarrow> DEFAULT_MAX_GROUP_BYTES)"

section \<open>Group-size histogram\<close>

fun bit_length :: "nat \<Rightarrow> nat" where
  "bit_length n = (if n = 0 then 0 else Suc (bit_length (n div 2)))"

declare bit_length.simps [simp del]

definition leading_zeros_usize :: "nat \<Rightarrow> nat" where
  "leading_zeros_usize n = 64 - bit_length n"

definition histogram_bucket :: "nat \<Rightarrow> nat" where
  "histogram_bucket records =
     (if records = 0 then 0
      else min (64 - leading_zeros_usize records - 1) (GROUP_SIZE_HISTOGRAM_BUCKETS - 1))"

definition histogram_record :: "nat \<Rightarrow> u64 list \<Rightarrow> u64 list" where
  "histogram_record records buckets =
     (let bucket = histogram_bucket records in
      if bucket < length buckets
      then buckets[bucket := saturating_add_u64 (buckets ! bucket) 1] else buckets)"

section \<open>Creating and resuming a writer\<close>

definition initial_state :: "u64 \<Rightarrow> visible_record list \<Rightarrow> nat \<Rightarrow> log_seq option \<Rightarrow> group list \<Rightarrow> writer_state" where
  "initial_state seq vis retained dend groups =
     \<lparr>next_seq = seq, visible = vis, retained_bytes = retained, durable_end = dend,
      pending_groups = groups, spare_chunks = [], barrier_in_flight = False, failure = None,
      completed_groups = 0, completed_records = 0, completed_bytes = 0,
      encoded_buffer_allocations = 0,
      group_size_histogram = replicate GROUP_SIZE_HISTOGRAM_BUCKETS 0, recent_groups = []\<rparr>"

definition wal_create ::
  "(io_kind, u64) result \<Rightarrow> (io_kind, unit) result \<Rightarrow> log_seq \<Rightarrow> durability_policy \<Rightarrow> nat
   \<Rightarrow> (wal_write_error, wal_writer) result" where
  "wal_create vfs_open vfs_open_append seq policy maxb =
     and_then (case vfs_open of
                 Inr len \<Rightarrow> if len = 0 then Ok () else Err (NonEmptyWal len)
               | Inl NotFound \<Rightarrow> Ok ()
               | Inl e \<Rightarrow> Err (WriterFailed e)) (\<lambda>_.
     and_then (map_err HeaderError (wal_encode_header seq)) (\<lambda>header.
     if maxb < length header then Err (GroupTooLarge (length header) maxb) else
     and_then (map_err WriterFailed vfs_open_append) (\<lambda>_.
     Ok \<lparr>wfile = [],
         wstate = initial_state seq [] 0 None
           [\<lparr>g_chunks = [\<lparr>ch_encoded = header, ch_range = (0, length header)\<rparr>],
             g_encoded_bytes = length header, g_records = 0, g_last_seq = None\<rparr>],
         wsync = data_file policy, max_group_bytes = maxb,
         durable_progress = saturating_sub_u64 seq 1, created_directory_sync = None,
         io_work = [0, 0, 0, 0]\<rparr>)))"

definition wal_create_store ::
  "(io_kind, u64) result \<Rightarrow> (io_kind, unit) result \<Rightarrow> log_seq \<Rightarrow> durability_policy
   \<Rightarrow> (wal_write_error, wal_writer) result" where
  "wal_create_store vfs_open vfs_open_append seq policy =
     and_then (wal_create vfs_open vfs_open_append seq policy (default_max_group_bytes policy)) (\<lambda>writer.
     Ok (case directory policy of
           Sync kind \<Rightarrow> writer\<lparr>created_directory_sync := Some kind\<rparr>
         | Skip \<Rightarrow> writer))"

primrec checked_sum :: "nat list \<Rightarrow> nat \<Rightarrow> nat option" where
  "checked_sum [] acc = Some acc"
| "checked_sum (n # ns) acc = Option.bind (checked_add_usize acc n) (checked_sum ns)"

definition wal_resume ::
  "(io_kind, bytes) result \<Rightarrow> clean_wal_reader \<Rightarrow> durability_policy
   \<Rightarrow> (wal_write_error, wal_writer) result" where
  "wal_resume vfs_open_append recovered policy =
     and_then (ok_or RecoveredBytesOverflow
                 (checked_sum (map vr_encoded_len (cl_records recovered)) 0)) (\<lambda>retained.
     and_then (map_err WriterFailed vfs_open_append) (\<lambda>content.
     Ok \<lparr>wfile = content,
         wstate = initial_state (cl_next_seq recovered) (cl_records recovered) retained
           (cl_durable_end recovered) [],
         wsync = data_file policy, max_group_bytes = default_max_group_bytes policy,
         durable_progress = (case cl_durable_end recovered of None \<Rightarrow> 0 | Some d \<Rightarrow> d),
         created_directory_sync = None, io_work = [0, 0, 0, 0]\<rparr>))"

section \<open>Staging one record\<close>

definition push_empty_pending_group :: "writer_state \<Rightarrow> writer_state" where
  "push_empty_pending_group st =
     st\<lparr>spare_chunks := [],
        pending_groups := pending_groups st
          @ [\<lparr>g_chunks = spare_chunks st, g_encoded_bytes = 0, g_records = 0, g_last_seq = None\<rparr>]\<rparr>"

definition ensure_pending_group :: "writer_state \<Rightarrow> writer_state" where
  "ensure_pending_group st =
     (if pending_groups st = [] then push_empty_pending_group st else st)"

definition update_current_group :: "(group \<Rightarrow> group) \<Rightarrow> writer_state \<Rightarrow> writer_state" where
  "update_current_group f st =
     st\<lparr>pending_groups := butlast (pending_groups st) @ [f (last (pending_groups st))]\<rparr>"

datatype stage_outcome =
    Staged log_seq bool
    \<comment> \<open>assigned sequence, whether the caller became leader\<close>
  | StageFailed wal_write_error
  | StageWait

definition stage_once ::
  "xxh3_lib \<Rightarrow> nat \<Rightarrow> u16 \<Rightarrow> bytes \<Rightarrow> nat \<Rightarrow> writer_state \<Rightarrow> stage_outcome \<times> writer_state" where
  "stage_once X maxb op payload enc_len st0 =
     (case failure st0 of
        Some f \<Rightarrow> (StageFailed (WriterFailed f), st0)
      | None \<Rightarrow>
        (let st = ensure_pending_group st0; seq = next_seq st in
         if pending_groups st = [] then (StageFailed (Poisoned ''pending WAL group''), st)
         else
         let g = last (pending_groups st);
             required = saturating_add_usize (g_encoded_bytes g) enc_len
         in if required \<le> maxb then
              (case checked_add_u64 (next_seq st) 1 of
                 None \<Rightarrow> (StageFailed SequenceExhausted, st)
               | Some nxt \<Rightarrow>
                   (case encode_record_into X
                           \<lparr>rec_seq = seq, rec_op = op, rec_payload = payload\<rparr> [] of
                      Inl e \<Rightarrow> (StageFailed (RecordEncodeFailed e), st)
                    | Inr encoded \<Rightarrow>
                        (let st1 = st\<lparr>next_seq := nxt, encoded_buffer_allocations :=
                                      saturating_add_u64 (encoded_buffer_allocations st) 1\<rparr>;
                             st2 = update_current_group (\<lambda>g.
                                     g\<lparr>g_chunks := g_chunks g @
                                         [\<lparr>ch_encoded = encoded, ch_range = (0, enc_len)\<rparr>],
                                       g_encoded_bytes := required,
                                       g_records := saturating_add_usize (g_records g) 1,
                                       g_last_seq := Some seq\<rparr>) st1;
                             st3 = st2\<lparr>retained_bytes :=
                                       saturating_add_usize (retained_bytes st2) enc_len,
                                     visible := visible st2 @
                                       [\<lparr>vr_seq = seq, vr_op = op, vr_encoded = encoded,
                                         vr_range = (0, enc_len)\<rparr>]\<rparr>;
                             leader = \<not> barrier_in_flight st3
                         in (Staged seq leader,
                             if leader then st3\<lparr>barrier_in_flight := True\<rparr> else st3))))
            else if g_records g = 0 then (StageFailed (GroupTooLarge required maxb), st)
            else (StageWait, st)))"

definition stage ::
  "xxh3_lib \<Rightarrow> nat \<Rightarrow> u16 \<Rightarrow> bytes \<Rightarrow> writer_state \<Rightarrow> stage_outcome \<times> writer_state" where
  "stage X maxb op payload st =
     (case encoded_record_len (length payload) of
        Inl e \<Rightarrow> (StageFailed (RecordEncodeFailed e), st)
      | Inr enc_len \<Rightarrow> stage_once X maxb op payload enc_len st)"

section \<open>Staging a batch\<close>

text \<open>
  \<open>fill_record\<close> is the inner loop of \<open>stage_many\<close>: it spreads the bytes up to \<open>record_end\<close> over the
  open group and, when that is full, closes its chunk and opens the next group. It does not end
  when the cap is zero, so it is a partial function; the batch guard excludes that case. The error
  value is the state in which the pending queue was found empty.
\<close>

partial_function (option) fill_record ::
  "nat \<Rightarrow> bytes \<Rightarrow> nat \<Rightarrow> writer_state \<Rightarrow> nat \<Rightarrow> nat \<Rightarrow> (writer_state, writer_state \<times> nat \<times> nat) result option" where
  "fill_record maxb encoded record_end st offset chunk_start =
     (if offset < record_end then
        (if pending_groups st = [] then Some (Err st) else
         let available = maxb - g_encoded_bytes (last (pending_groups st)) in
         if available = 0 then
           (let st' = (if chunk_start < offset
                       then update_current_group (\<lambda>g. g\<lparr>g_chunks := g_chunks g @
                              [\<lparr>ch_encoded = encoded, ch_range = (chunk_start, offset)\<rparr>]\<rparr>) st
                       else st)
            in fill_record maxb encoded record_end (push_empty_pending_group st') offset offset)
         else
           (let written = min available (record_end - offset)
            in fill_record maxb encoded record_end
                 (update_current_group (\<lambda>g. g\<lparr>g_encoded_bytes :=
                    saturating_add_usize (g_encoded_bytes g) written\<rparr>) st)
                 (saturating_add_usize offset written) chunk_start))
      else Some (Ok (st, offset, chunk_start)))"

declare fill_record.simps [code]

primrec stage_records ::
  "nat \<Rightarrow> bytes \<Rightarrow> (u16 \<times> bytes \<times> nat) list \<Rightarrow> u64 \<Rightarrow> writer_state \<Rightarrow> nat \<Rightarrow> nat
   \<Rightarrow> (writer_state, writer_state \<times> nat \<times> nat) result option" where
  "stage_records maxb encoded [] seq st offset chunk_start = Some (Ok (st, offset, chunk_start))"
| "stage_records maxb encoded (r # rs) seq st offset chunk_start =
     (let (op, payload, enc_len) = r;
          record_start = offset;
          record_end = saturating_add_usize offset enc_len
      in case fill_record maxb encoded record_end st offset chunk_start of
           None \<Rightarrow> None
         | Some (Inl st') \<Rightarrow> Some (Err st')
         | Some (Inr (st1, offset1, chunk_start1)) \<Rightarrow>
             if pending_groups st1 = [] then Some (Err st1) else
             (let st2 = update_current_group (\<lambda>g.
                          g\<lparr>g_records := saturating_add_usize (g_records g) 1,
                            g_last_seq := Some seq\<rparr>) st1;
                  st3 = st2\<lparr>retained_bytes := saturating_add_usize (retained_bytes st2) enc_len,
                            visible := visible st2 @
                              [\<lparr>vr_seq = seq, vr_op = op, vr_encoded = encoded,
                                vr_range = (record_start, record_end)\<rparr>]\<rparr>
              in stage_records maxb encoded rs (saturating_add_u64 seq 1) st3 offset1 chunk_start1))"

primrec encode_batch ::
  "xxh3_lib \<Rightarrow> (u16 \<times> bytes \<times> nat) list \<Rightarrow> u64 \<Rightarrow> bytes \<Rightarrow> (record_encode_error, bytes) result" where
  "encode_batch X [] seq storage = Ok storage"
| "encode_batch X (r # rs) seq storage =
     and_then (append_record_into X
                 \<lparr>rec_seq = seq, rec_op = fst r, rec_payload = fst (snd r)\<rparr> storage) (\<lambda>storage'.
     encode_batch X rs (saturating_add_u64 seq 1) storage')"

primrec encoded_lengths ::
  "(u16 \<times> bytes) list \<Rightarrow> (record_encode_error, (u16 \<times> bytes \<times> nat) list) result" where
  "encoded_lengths [] = Ok []"
| "encoded_lengths (r # rs) =
     and_then (encoded_record_len (length (snd r))) (\<lambda>enc_len.
     and_then (encoded_lengths rs) (\<lambda>rest.
     Ok ((fst r, snd r, enc_len) # rest)))"

definition stage_many ::
  "xxh3_lib \<Rightarrow> nat \<Rightarrow> (u16 \<times> bytes) list \<Rightarrow> writer_state
   \<Rightarrow> ((wal_write_error, (log_seq \<times> log_seq) \<times> bool) result \<times> writer_state) option" where
  "stage_many X maxb records st0 =
     (if records = [] then
        Some (case failure st0 of
                Some f \<Rightarrow> (Err (WriterFailed f), st0)
              | None \<Rightarrow> (Ok ((next_seq st0, next_seq st0), False), st0))
      else
      case encoded_lengths records of
        Inl e \<Rightarrow> Some (Err (RecordEncodeFailed e), st0)
      | Inr ls \<Rightarrow>
        (case find (\<lambda>(_, _, n). maxb < n) ls of
           Some (_, _, n) \<Rightarrow> Some (Err (GroupTooLarge n maxb), st0)
         | None \<Rightarrow>
           (case failure st0 of
              Some f \<Rightarrow> Some (Err (WriterFailed f), st0)
            | None \<Rightarrow>
              (let st = ensure_pending_group st0;
                   first_encoded_len = snd (snd (hd ls))
               in if pending_groups st = []
                  then Some (Err (Poisoned ''pending WAL group''), st) else
               let first_required =
                     saturating_add_usize (g_encoded_bytes (last (pending_groups st)))
                       first_encoded_len
               in if g_records (last (pending_groups st)) = 0 \<and> maxb < first_required
                  then Some (Err (GroupTooLarge first_required maxb), st) else
               if usize_max < length records then Some (Err SequenceExhausted, st) else
               case checked_add_u64 (next_seq st) (u64_of_usize (length records)) of
                 None \<Rightarrow> Some (Err SequenceExhausted, st)
               | Some stop \<Rightarrow>
                 (case encode_batch X ls (next_seq st) [] of
                    Inl e \<Rightarrow> Some (Err (RecordEncodeFailed e), st)
                  | Inr encoded \<Rightarrow>
                    (case stage_records maxb encoded ls (next_seq st) st 0 0 of
                       None \<Rightarrow> None
                     | Some (Inl st') \<Rightarrow> Some (Err (Poisoned ''pending WAL group''), st')
                     | Some (Inr (st1, offset, chunk_start)) \<Rightarrow>
                       (let st2 = update_current_group (\<lambda>g. g\<lparr>g_chunks := g_chunks g @
                                    [\<lparr>ch_encoded = encoded, ch_range = (chunk_start, offset)\<rparr>]\<rparr>) st1;
                            st3 = st2\<lparr>next_seq := stop, encoded_buffer_allocations :=
                                      saturating_add_u64 (encoded_buffer_allocations st2) 1\<rparr>;
                            leader = \<not> barrier_in_flight st3
                        in Some (Ok ((next_seq st, stop), leader),
                             if leader then st3\<lparr>barrier_in_flight := True\<rparr> else st3))))))))"

section \<open>The leader: taking, writing and completing a group\<close>

definition leader_take ::
  "writer_state \<Rightarrow> (wal_write_error, group \<times> log_seq) result \<times> writer_state" where
  "leader_take st =
     (case pending_groups st of
        [] \<Rightarrow> (Err (Poisoned ''WAL leader found no pending group''), st)
      | g # gs \<Rightarrow>
          (let st' = st\<lparr>pending_groups := gs\<rparr> in
           case g_last_seq g of
             None \<Rightarrow> (Err (Poisoned ''WAL leader found no pending sequence''), st')
           | Some last_seq \<Rightarrow> (Ok (g, last_seq), st')))"

definition chunk_bytes :: "encoded_chunk \<Rightarrow> (io_kind, bytes) result" where
  "chunk_bytes c = ok_or (OtherIo 0) (slice_range (ch_encoded c) (fst (ch_range c)) (snd (ch_range c)))"

primrec collect_chunks :: "encoded_chunk list \<Rightarrow> (io_kind, bytes list) result" where
  "collect_chunks [] = Ok []"
| "collect_chunks (c # cs) =
     and_then (chunk_bytes c) (\<lambda>b. and_then (collect_chunks cs) (\<lambda>bs. Ok (b # bs)))"

text \<open>
  What the operating system answers to one group write: how the append ended (a failed append may
  have written any number of bytes), the result of the data sync and of the directory sync.
\<close>

datatype append_outcome = AppendOk | AppendFailed nat io_kind

record io_outcome =
  io_append :: append_outcome
  io_sync :: "(io_kind, unit) result"
  io_directory_sync :: "(io_kind, unit) result"

definition bump :: "nat \<Rightarrow> u64 \<Rightarrow> wal_writer \<Rightarrow> wal_writer" where
  "bump i n w = w\<lparr>io_work := (io_work w)[i := io_work w ! i + n]\<rparr>"

definition sync_directory :: "io_outcome \<Rightarrow> wal_writer \<Rightarrow> (io_kind, unit) result \<times> wal_writer" where
  "sync_directory env w =
     (case created_directory_sync w of
        None \<Rightarrow> (Ok (), w)
      | Some kind \<Rightarrow>
          (case io_directory_sync env of
             Inl e \<Rightarrow> (Err e, w)
           | Inr _ \<Rightarrow> (Ok (), w\<lparr>created_directory_sync := None\<rparr>)))"

definition sync_file :: "io_outcome \<Rightarrow> wal_writer \<Rightarrow> (io_kind, unit) result \<times> wal_writer" where
  "sync_file env w =
     (case wsync w of
        Skip \<Rightarrow> (Ok (), w)
      | Sync kind \<Rightarrow>
          (let w1 = (if kind = Full then bump 2 1 w else w);
               w2 = (if kind = Full \<and> io_sync env = Ok () then bump 3 1 w1 else w1)
           in (io_sync env, w2)))"

definition write_group :: "io_outcome \<Rightarrow> group \<Rightarrow> wal_writer \<Rightarrow> (io_kind, unit) result \<times> wal_writer" where
  "write_group env g w =
     (case collect_chunks (g_chunks g) of
        Inl e \<Rightarrow> (Err e, w)
      | Inr buffers \<Rightarrow>
          (let w1 = bump 0 1 w in
           case io_append env of
             AppendFailed n e \<Rightarrow> (Err e, w1\<lparr>wfile := wfile w1 @ take n (concat buffers)\<rparr>)
           | AppendOk \<Rightarrow>
               (let w2 = bump 1 (u64_of_usize (g_encoded_bytes g))
                           (w1\<lparr>wfile := wfile w1 @ concat buffers\<rparr>)
                in case sync_file env w2 of
                     (Inl e, w3) \<Rightarrow> (Err e, w3)
                   | (Inr _, w3) \<Rightarrow> sync_directory env w3)))"

datatype leader_next = LeaderDone | LeaderContinue | LeaderFailed wal_write_error

definition leader_finish ::
  "group \<Rightarrow> log_seq \<Rightarrow> io_kind option \<Rightarrow> wal_writer \<Rightarrow> leader_next \<times> wal_writer" where
  "leader_finish g last_seq fault w =
     (let st = (wstate w)\<lparr>spare_chunks := []\<rparr> in
      case fault of
        None \<Rightarrow>
          (let recent = (if length (recent_groups st) = RECENT_GROUP_LIMIT
                         then tl (recent_groups st) else recent_groups st);
               st1 = st\<lparr>durable_end := Some last_seq,
                 completed_groups := saturating_add_u64 (completed_groups st) 1,
                 completed_records :=
                   saturating_add_u64 (completed_records st) (u64_of_usize (g_records g)),
                 completed_bytes :=
                   saturating_add_u64 (completed_bytes st) (u64_of_usize (g_encoded_bytes g)),
                 group_size_histogram :=
                   histogram_record (g_records g) (group_size_histogram st),
                 recent_groups := recent @
                   [\<lparr>cg_records = g_records g, cg_encoded_bytes = g_encoded_bytes g\<rparr>]\<rparr>;
               w1 = w\<lparr>durable_progress := last_seq\<rparr>
           in if pending_groups st1 = []
              then (LeaderDone, w1\<lparr>wstate := st1\<lparr>barrier_in_flight := False\<rparr>\<rparr>)
              else (LeaderContinue, w1\<lparr>wstate := st1\<rparr>))
      | Some e \<Rightarrow>
          (LeaderFailed (WriterFailed e),
           w\<lparr>wstate := st\<lparr>failure := Some e, barrier_in_flight := False\<rparr>\<rparr>))"

section \<open>Flush, wait, retirement and poisoning\<close>

datatype flush_outcome =
    FlushDone
  | FlushFailed wal_write_error
  | FlushTarget log_seq bool
    \<comment> \<open>sequence to wait for, whether the caller became leader\<close>

definition flush_enter :: "writer_state \<Rightarrow> flush_outcome \<times> writer_state" where
  "flush_enter st =
     (case failure st of
        Some f \<Rightarrow> (FlushFailed (WriterFailed f), st)
      | None \<Rightarrow>
        if visible st = [] then (FlushDone, st)
        else
        (let target = vr_seq (last (visible st)) in
         if (case durable_end st of None \<Rightarrow> False | Some d \<Rightarrow> target \<le> d) then (FlushDone, st)
         else if barrier_in_flight st then (FlushTarget target False, st)
         else if (\<exists>g \<in> set (pending_groups st). g_records g \<noteq> 0)
         then (FlushTarget target True, st\<lparr>barrier_in_flight := True\<rparr>)
         else (FlushFailed (Poisoned
           ''non-durable WAL record has neither a pending group nor a leader''), st)))"

datatype wait_outcome = WaitDone | WaitFailed wal_write_error | WaitAgain

definition wait_durable_once :: "log_seq \<Rightarrow> writer_state \<Rightarrow> wait_outcome" where
  "wait_durable_once seq st =
     (if (case durable_end st of None \<Rightarrow> True | Some d \<Rightarrow> d < seq)
      then (case failure st of Some f \<Rightarrow> WaitFailed (WriterFailed f) | None \<Rightarrow> WaitAgain)
      else WaitDone)"

record wal_retirement =
  absorbed_through :: log_seq
  records_released :: nat
  encoded_bytes_released :: nat
  retained_records_after :: nat
  retained_bytes_after :: nat
  durable_end_at :: "log_seq option"

datatype wal_retire_error = BeyondDurable log_seq "log_seq option"

definition retire_visible_through ::
  "log_seq \<Rightarrow> writer_state \<Rightarrow> (wal_retire_error, wal_retirement) result \<times> writer_state" where
  "retire_visible_through absorbed st =
     (if (case durable_end st of None \<Rightarrow> True | Some d \<Rightarrow> d < absorbed)
      then (Err (BeyondDurable absorbed (durable_end st)), st)
      else
      (let retired = takeWhile (\<lambda>r. vr_seq r \<le> absorbed) (visible st);
           st1 = st\<lparr>visible := dropWhile (\<lambda>r. vr_seq r \<le> absorbed) (visible st),
                    retained_bytes :=
                      foldl (\<lambda>acc r. acc - vr_encoded_len r) (retained_bytes st) retired\<rparr>
       in (Ok \<lparr>absorbed_through = absorbed, records_released = length retired,
               encoded_bytes_released =
                 foldl (\<lambda>acc r. saturating_add_usize acc (vr_encoded_len r)) 0 retired,
               retained_records_after = length (visible st1),
               retained_bytes_after = retained_bytes st1, durable_end_at = durable_end st1\<rparr>,
           st1)))"

definition poison :: "io_kind \<Rightarrow> writer_state \<Rightarrow> writer_state" where
  "poison e st = (case failure st of None \<Rightarrow> st\<lparr>failure := Some e\<rparr> | Some _ \<Rightarrow> st)"

definition visible_records :: "log_seq \<Rightarrow> nat \<Rightarrow> writer_state \<Rightarrow> visible_record list" where
  "visible_records seq limit st = take limit (filter (\<lambda>r. seq \<le> vr_seq r) (visible st))"

record wal_writer_stats =
  st_completed_groups :: u64
  st_completed_records :: u64
  st_completed_bytes :: u64
  st_group_size_histogram :: "u64 list"
  st_recent_groups :: "completed_group list"
  st_pending_records :: nat
  st_visible_end :: "log_seq option"
  st_durable_end :: "log_seq option"
  st_retained_records :: nat
  st_retained_bytes :: nat
  st_encoded_buffer_allocations :: u64

definition wal_stats :: "writer_state \<Rightarrow> wal_writer_stats" where
  "wal_stats st =
     \<lparr>st_completed_groups = completed_groups st, st_completed_records = completed_records st,
      st_completed_bytes = completed_bytes st,
      st_group_size_histogram = group_size_histogram st, st_recent_groups = recent_groups st,
      st_pending_records =
        foldl (\<lambda>acc g. saturating_add_usize acc (g_records g)) 0 (pending_groups st),
      st_visible_end = (if visible st = [] then None else Some (vr_seq (last (visible st)))),
      st_durable_end = durable_end st, st_retained_records = length (visible st),
      st_retained_bytes = retained_bytes st,
      st_encoded_buffer_allocations = encoded_buffer_allocations st\<rparr>"

definition atomic_run_bound :: "wal_writer \<Rightarrow> nat \<times> nat" where
  "atomic_run_bound w =
     (foldl (\<lambda>acc g. saturating_add_usize acc (g_encoded_bytes g)) 0 (pending_groups (wstate w)),
      max_group_bytes w)"

section \<open>The writer as a transition system\<close>

text \<open>
  Callers on any thread interleave at mutex granularity. The leader is the thread that runs
  \<open>flush_as_leader\<close>: it takes a group, writes it with the state mutex released, then completes it.
  \<open>sys_first\<close> and \<open>sys_log\<close> record what was staged, \<open>sys_synced\<close> how much of the file the last
  completed flush covered; no step reads them. A batch larger than \<open>isize::MAX\<close> bytes cannot be
  staged because its buffer cannot be allocated.
\<close>

datatype leader_phase =
    NoLeader
  | LeaderTaking
  | LeaderWriting group log_seq
  | LeaderWrote group log_seq "io_kind option"

record wal_sys =
  sys_writer :: wal_writer
  sys_leader :: leader_phase
  sys_first :: log_seq
  sys_log :: "(u16 \<times> bytes) list"
  sys_synced :: nat

definition sys_state :: "wal_sys \<Rightarrow> writer_state" where
  "sys_state s = wstate (sys_writer s)"

definition set_state :: "writer_state \<Rightarrow> wal_sys \<Rightarrow> wal_sys" where
  "set_state st s = s\<lparr>sys_writer := (sys_writer s)\<lparr>wstate := st\<rparr>\<rparr>"

definition lead :: "bool \<Rightarrow> wal_sys \<Rightarrow> wal_sys" where
  "lead b s = (if b then s\<lparr>sys_leader := LeaderTaking\<rparr> else s)"

inductive wal_step :: "xxh3_lib \<Rightarrow> wal_sys \<Rightarrow> wal_sys \<Rightarrow> bool" for X where
  step_stage:
    "stage X (max_group_bytes (sys_writer s)) op payload (sys_state s) = (Staged seq leader, st) \<Longrightarrow>
     wal_step X s (lead leader ((set_state st s)\<lparr>sys_log := sys_log s @ [(op, payload)]\<rparr>))"
| step_stage_fail:
    "stage X (max_group_bytes (sys_writer s)) op payload (sys_state s) = (StageFailed e, st) \<Longrightarrow>
     wal_step X s (set_state st s)"
| step_stage_wait:
    "stage X (max_group_bytes (sys_writer s)) op payload (sys_state s) = (StageWait, st) \<Longrightarrow>
     wal_step X s (set_state st s)"
| step_stage_many:
    "(\<Sum>r\<leftarrow>records. 22 + length (snd r)) \<le> alloc_max \<Longrightarrow>
     stage_many X (max_group_bytes (sys_writer s)) records (sys_state s) = Some (Ok (span, leader), st) \<Longrightarrow>
     wal_step X s (lead leader ((set_state st s)\<lparr>sys_log := sys_log s @ records\<rparr>))"
| step_stage_many_fail:
    "(\<Sum>r\<leftarrow>records. 22 + length (snd r)) \<le> alloc_max \<Longrightarrow>
     stage_many X (max_group_bytes (sys_writer s)) records (sys_state s) = Some (Err e, st) \<Longrightarrow>
     wal_step X s (set_state st s)"
| step_take:
    "sys_leader s = LeaderTaking \<Longrightarrow> leader_take (sys_state s) = (Ok (g, q), st) \<Longrightarrow>
     wal_step X s ((set_state st s)\<lparr>sys_leader := LeaderWriting g q\<rparr>)"
| step_take_fail:
    "sys_leader s = LeaderTaking \<Longrightarrow> leader_take (sys_state s) = (Err e, st) \<Longrightarrow>
     wal_step X s ((set_state st s)\<lparr>sys_leader := NoLeader\<rparr>)"
| step_write:
    "sys_leader s = LeaderWriting g q \<Longrightarrow> write_group env g (sys_writer s) = (r, w) \<Longrightarrow>
     wal_step X s (s\<lparr>sys_writer := w,
       sys_leader := LeaderWrote g q (case r of Inl e \<Rightarrow> Some e | Inr _ \<Rightarrow> None)\<rparr>)"
| step_finish:
    "sys_leader s = LeaderWrote g q fault \<Longrightarrow> leader_finish g q fault (sys_writer s) = (nxt, w) \<Longrightarrow>
     wal_step X s (s\<lparr>sys_writer := w,
       sys_leader := (if nxt = LeaderContinue then LeaderTaking else NoLeader),
       sys_synced := (if fault = None then length (wfile w) else sys_synced s)\<rparr>)"
| step_flush:
    "flush_enter (sys_state s) = (FlushTarget target leader, st) \<Longrightarrow>
     wal_step X s (lead leader (set_state st s))"
| step_retire:
    "retire_visible_through absorbed (sys_state s) = (r, st) \<Longrightarrow> wal_step X s (set_state st s)"
| step_poison:
    "wal_step X s (set_state (poison e (sys_state s)) s)"

definition wal_init :: "wal_sys \<Rightarrow> bool" where
  "wal_init s \<longleftrightarrow>
     (\<exists>vo va policy maxb. wal_create vo va (sys_first s) policy maxb = Ok (sys_writer s))
     \<and> max_group_bytes (sys_writer s) < usize_max
     \<and> sys_leader s = NoLeader \<and> sys_log s = [] \<and> sys_synced s = 0"

abbreviation wal_reachable :: "xxh3_lib \<Rightarrow> wal_sys \<Rightarrow> bool" where
  "wal_reachable X \<equiv> reach wal_init (wal_step X)"

end
