(* ===== verification/Format_Theorems.thy ===== *)
theory Format_Theorems
  imports Frame Wal_Record Wal_Writer
begin

text \<open>
  The properties of the framed artifact format, of its version registry and of the durability
  policy, with the group-size histogram the writer reports.
\<close>

section \<open>Artifacts\<close>

lemma encode_header_inject:
  assumes "encode_header h @ xs = encode_header k @ ys" "length (magic h) = 8" "length (magic k) = 8"
  shows "h = k"
proof -
  have "encode_header h = encode_header k" using assms by (simp add: FILE_HEADER_LEN_def)
  then show ?thesis
    using assms(2,3) by (intro file_header.equality) (simp_all add: encode_header_def)
qed

text \<open>A decoder reads the header of an artifact of its family from any extension of its first bytes.\<close>

lemma decode_header_artifact:
  assumes "length payload + 56 \<le> usize_max"
  shows "decode_header art f (take k (encode_artifact X f fl payload)) =
    (if k < 32 then Err (format_error_new art CheckLength)
     else Ok (artifact_header f (current_version f) fl payload))"
proof (cases "k < 32")
  case True
  then show ?thesis
    by (simp add: decode_header_def slice_to_def FILE_HEADER_LEN_def)
next
  case False
  let ?h = "artifact_header f (current_version f) fl payload"
  let ?b = "artifact_body X ?h payload"
  have "length (encode_header ?h) = 32" by (simp add: FILE_HEADER_LEN_def)
  then have "take k (encode_artifact X f fl payload) = encode_header ?h @
      take (k - 32) (to_le_bytes (u64_of_usize (length payload)) @ payload
        @ to_le_bytes (xxh3_64 X payload) @ to_le_bytes (xxh3_64 X ?b))"
    using False encode_artifact_version_eq [OF assms]
    by (simp add: encode_artifact_def artifact_body_def)
  then show ?thesis
    using False decode_header_encode [of ?h f "spec_of f" art] require_current [of f] by simp
qed

text \<open>
  An artifact written by the encoder of any family decodes to its flags and payload.
\<close>

theorem artifact_roundtrip:
  assumes "length payload + 56 \<le> usize_max"
  shows "decode_artifact X art f (encode_artifact X f fl payload) =
    Ok \<lparr>art_header = artifact_header f (current_version f) fl payload, art_payload = payload\<rparr>"
  unfolding encode_artifact_def
  by (rule decode_encode_artifact_version [OF assms require_current])

theorem artifact_roundtrip_witness:
  "decode_artifact sum_lib ''manifest'' ManifestFamily (encode_artifact sum_lib ManifestFamily 3 [1, 2]) =
     Ok \<lparr>art_header = artifact_header ManifestFamily 2 3 [1, 2], art_payload = [1, 2]\<rparr>"
  using artifact_roundtrip [of "[1, 2]" sum_lib "''manifest''" ManifestFamily 3]
  by (simp add: usize_max_def)

text \<open>
  C37: The format is canonical: whatever the decoder accepts is byte for byte the encoding of the
  version, flags and payload it returns, and the registry accepts that version.
\<close>

theorem artifact_canonical:
  assumes "decode_artifact X art f bs = Ok d"
  shows "bs = encode_artifact_version X f (hdr_version (art_header d)) (flags (art_header d)) (art_payload d)
    \<and> (\<exists>spec. require_family (family_id f) (hdr_version (art_header d)) = Ok spec)"
proof -
  have "decode_header art f bs = Ok (art_header d)"
    using assms by (auto simp: decode_artifact_def result_Inr Let_def split: if_splits)
  then show ?thesis
    using decode_artifact_canonical [OF assms] decode_header_OkD by blast
qed

theorem artifact_canonical_witness:
  "\<exists>spec. require_family (family_id SegmentFamily) (current_version SegmentFamily) = Ok spec"
proof -
  have "decode_artifact sum_lib ''graph'' SegmentFamily (encode_artifact sum_lib SegmentFamily 0 [9]) =
      Ok \<lparr>art_header = artifact_header SegmentFamily (current_version SegmentFamily) 0 [9], art_payload = [9]\<rparr>"
    unfolding encode_artifact_def
    by (rule decode_encode_artifact_version [OF _ require_current]) (simp add: usize_max_def)
  from artifact_canonical [OF this] show ?thesis by simp
qed

text \<open>
  A truncated artifact is always refused, whatever its checksums happen to be: the length
  field in the header disagrees with every proper prefix.
\<close>

theorem artifact_truncation_refused:
  assumes "length payload + 56 \<le> usize_max" "k < length payload + 56"
  shows "decode_artifact X art f (take k (encode_artifact X f fl payload)) =
    Err (format_error_new art (if k < 32 then CheckLength else CheckFileLength))"
proof -
  have "length (encode_artifact X f fl payload) = 56 + length payload"
    using encode_artifact_version_eq [OF assms(1)] by (simp add: encode_artifact_def)
  then have len: "length (take k (encode_artifact X f fl payload)) = k" using assms(2) by simp
  have "u64_of_usize (56 + length payload) \<noteq> u64_of_usize k"
    using assms unat_u64_of_usize [of "56 + length payload"] unat_u64_of_usize [of k]
    by (metis add.commute less_irrefl less_le_trans order_less_imp_le)
  then show ?thesis
    using len assms decode_header_artifact [OF assms(1), of art f k X fl]
    by (simp add: decode_artifact_def)
qed

theorem artifact_truncation_refused_witness:
  "decode_artifact sum_lib ''s'' SegmentFamily (take 50 (encode_artifact sum_lib SegmentFamily 0 [9])) =
     Err (format_error_new ''s'' CheckFileLength)"
  using artifact_truncation_refused [of "[9]" 50 sum_lib "''s''" SegmentFamily 0] by (simp add: usize_max_def)

text \<open>
  An artifact of one family is never read as another: the reader reports both family numbers.
\<close>

theorem artifact_family_confusion:
  assumes "length payload + 56 \<le> usize_max" "f \<noteq> g"
  shows "decode_artifact X art g (encode_artifact X f fl payload) =
    Err (wrong_family art (family_id g) (family_id f))"
proof -
  let ?h = "artifact_header f (current_version f) fl payload"
  let ?b = "artifact_body X ?h payload"
  have l: "length (encode_header ?h) = 32" by (simp add: FILE_HEADER_LEN_def)
  have neq: "family_id f \<noteq> family_id g" using assms(2) family_id_inject by blast
  have e: "encode_artifact X f fl payload = encode_header ?h @
      (to_le_bytes (u64_of_usize (length payload)) @ payload
        @ to_le_bytes (xxh3_64 X payload) @ to_le_bytes (xxh3_64 X ?b))"
    using encode_artifact_version_eq [OF assms(1)] by (simp add: encode_artifact_def artifact_body_def)
  have "read_u16 art (encode_header ?h) 8 = Ok (family_id f)"
    using read_at(1) [of FILE_MAGIC 8 art "family_id f"] by (simp add: encode_header_def)
  moreover have "slice_to (encode_header ?h) 8 = Some FILE_MAGIC"
    by (simp add: encode_header_def slice_to_def)
  ultimately have "decode_header art g (encode_artifact X f fl payload) =
      Err (wrong_family art (family_id g) (family_id f))"
    using neq l
    by (simp add: e decode_header_def slice_to_def FILE_HEADER_LEN_def)
  then show ?thesis by (simp add: decode_artifact_def)
qed

theorem artifact_family_confusion_witness:
  "decode_artifact sum_lib ''m'' ManifestFamily (encode_artifact sum_lib SegmentFamily 0 [9]) =
     Err (wrong_family ''m'' (family_id ManifestFamily) (family_id SegmentFamily))"
  using artifact_family_confusion [of "[9]" SegmentFamily ManifestFamily sum_lib "''m''" 0]
  by (simp add: usize_max_def)

section \<open>The registry\<close>

text \<open>
  The registry accepts exactly the versions of its table: a family number is known iff some
  family has it, the version each writer stamps is accepted, and only manifests have a second
  accepted version.
\<close>

theorem registry_accepts:
  "(\<exists>spec. require_family n v = Ok spec) \<longleftrightarrow>
     (\<exists>f. n = family_id f \<and> (v = current_version f \<or> f = ManifestFamily \<and> v = 3))"
proof
  assume "\<exists>spec. require_family n v = Ok spec"
  then obtain c where c: "find (\<lambda>c. family_id (spec_family c) = n) FAMILIES = Some c"
    by (auto simp: require_family_def result_Inr ok_or_def split: option.splits)
  then have n: "n = family_id (spec_family c)" by (auto simp: find_Some_iff)
  let ?f = "spec_family c"
  have r: "\<exists>spec. require_family (family_id ?f) v = Ok spec"
    using \<open>\<exists>spec. require_family n v = Ok spec\<close> n by simp
  have "v = current_version ?f \<or> ?f = ManifestFamily \<and> v = 3"
  proof (cases "?f = ManifestFamily")
    case True
    then have "2 \<le> v" "v \<le> 3"
      using r unfolding require_family_id by (auto simp: spec_of_def split: if_splits)
    then have "v = 2 \<or> v = 3" by (simp add: word_le_nat_alt word_unat_eq_iff) linarith
    then show ?thesis using True by simp
  next
    case False
    then have "current_version ?f = 1" by (cases ?f) simp_all
    moreover have "\<not> v < 1" "\<not> 1 < v"
      using r False unfolding require_family_id by (auto simp: spec_of_def v1_spec_def split: if_splits)
    ultimately have "\<not> v < current_version ?f" "\<not> current_version ?f < v" by simp_all
    then show ?thesis by simp
  qed
  then show "\<exists>f. n = family_id f \<and> (v = current_version f \<or> f = ManifestFamily \<and> v = 3)" using n by blast
next
  assume "\<exists>f. n = family_id f \<and> (v = current_version f \<or> f = ManifestFamily \<and> v = 3)"
  then show "\<exists>spec. require_family n v = Ok spec"
    using require_current require_family_id [of ManifestFamily 3] by (auto simp: spec_of_def)
qed

section \<open>Durability policy and group sizes\<close>

text \<open>
  The policy a store runs under: a full flush is owed exactly in durable mode at the durable
  tier, file and directory owe the same, and only then is the group cap sixteen times larger.
\<close>

theorem policy_full_flush:
  assumes "durability_policy_new mode tier = Ok p"
  shows "(data_file p = Sync Full \<longleftrightarrow> mode = Durable \<and> tier = TierDurable)
    \<and> directory p = data_file p
    \<and> default_max_group_bytes p = (if mode = Durable \<and> tier = TierDurable then 16 else 1) * 1048576"
proof -
  have "default_max_group_bytes p = (if data_file p = Sync Full then 16 else 1) * 1048576"
    by (auto simp: default_max_group_bytes_def DEFAULT_MAX_GROUP_BYTES_def DEFAULT_MAX_GROUP_BYTES_DURABLE_def
        split: sync_requirement.splits sync_kind.splits)
  then show ?thesis using policy_full_iff [OF assms] policy_same_requirement [OF assms] by simp
qed

theorem policy_full_flush_witness:
  "\<exists>p. durability_policy_new Durable TierDurable = Ok p \<and> default_max_group_bytes p = 16777216"
proof -
  obtain p where p: "durability_policy_new Durable TierDurable = Ok p"
    by (simp add: durability_policy_new_def)
  from policy_full_flush [OF p] p show ?thesis by simp
qed

lemma bit_length_bounds: "0 < n \<Longrightarrow> 2 ^ (bit_length n - 1) \<le> n \<and> n < 2 ^ bit_length n \<and> 0 < bit_length n"
proof (induction n rule: bit_length.induct)
  case (1 n)
  show ?case
  proof (cases "n div 2 = 0")
    case True
    then have "n = 1" using "1.prems" by simp
    then show ?thesis by (simp add: bit_length.simps)
  next
    case False
    then have "2 ^ (bit_length (n div 2) - 1) \<le> n div 2" "n div 2 < 2 ^ bit_length (n div 2)"
      "0 < bit_length (n div 2)" using 1 by simp_all
    moreover have "bit_length n = Suc (bit_length (n div 2))" using "1.prems" by (simp add: bit_length.simps [of n])
    ultimately show ?thesis by (cases "bit_length (n div 2)") auto
  qed
qed

text \<open>
  The histogram counts a completed group of \<open>n\<close> records in the bucket \<open>b\<close> with
  \<open>2^b \<le> n < 2^(b+1)\<close>, the last bucket taking everything larger; no count is lost.
\<close>

theorem histogram_bucket_range:
  assumes "0 < n" "n \<le> usize_max" "length buckets = GROUP_SIZE_HISTOGRAM_BUCKETS"
  shows "\<exists>b < GROUP_SIZE_HISTOGRAM_BUCKETS.
    histogram_record n buckets = buckets[b := saturating_add_u64 (buckets ! b) 1]
    \<and> 2 ^ b \<le> n \<and> (b < GROUP_SIZE_HISTOGRAM_BUCKETS - 1 \<longrightarrow> n < 2 ^ (b + 1))"
proof -
  let ?l = "bit_length n"
  let ?b = "histogram_bucket n"
  note L = bit_length_bounds [OF assms(1)]
  have "(2 :: nat) ^ (?l - 1) < 2 ^ 64"
    using L assms(2) by (simp add: usize_max_def)
  then have "?l - 1 < 64" by (subst (asm) power_strict_increasing_iff) simp_all
  then have l: "?l \<le> 64" by simp
  have b: "?b = min (?l - 1) 17"
    using l assms(1) by (simp add: histogram_bucket_def leading_zeros_usize_def GROUP_SIZE_HISTOGRAM_BUCKETS_def)
  have "(2 :: nat) ^ ?b \<le> 2 ^ (?l - 1)" unfolding b by (rule power_increasing) simp_all
  then have lo: "2 ^ ?b \<le> n" using L by linarith
  have hi: "n < 2 ^ (?b + 1)" if "?b < 17"
    using L b that by (cases ?l) (auto simp: min_def split: if_splits)
  have bb: "?b < GROUP_SIZE_HISTOGRAM_BUCKETS" by (simp add: b GROUP_SIZE_HISTOGRAM_BUCKETS_def)
  then have "histogram_record n buckets = buckets[?b := saturating_add_u64 (buckets ! ?b) 1]"
    using assms(3) by (simp add: histogram_record_def Let_def)
  then show ?thesis
    using lo hi bb by (intro exI [of _ ?b]) (simp add: GROUP_SIZE_HISTOGRAM_BUCKETS_def)
qed

theorem histogram_bucket_range_witness:
  "\<exists>b < GROUP_SIZE_HISTOGRAM_BUCKETS. 2 ^ b \<le> (5 :: nat) \<and> (5 :: nat) < 2 ^ (b + 1) \<or> b = 17"
  using histogram_bucket_range [of 5 "replicate 18 0"]
  by (auto simp: GROUP_SIZE_HISTOGRAM_BUCKETS_def usize_max_def)

section \<open>Records\<close>

text \<open>
  Record framing is canonical: the decoder accepts a byte string exactly when it starts with
  the encoding of the record it returns, and it reports how much it consumed.
\<close>

theorem record_accepts:
  "decode_record X bs = Ok d \<longleftrightarrow>
     length (rec_payload (dec_record d)) \<le> u32_max
     \<and> encoded_len d = 22 + length (rec_payload (dec_record d))
     \<and> (\<exists>rest. bs = record_bytes X (dec_record d) @ rest)"
proof
  assume "decode_record X bs = Ok d"
  from decode_record_canonical [OF this] show "length (rec_payload (dec_record d)) \<le> u32_max
     \<and> encoded_len d = 22 + length (rec_payload (dec_record d))
     \<and> (\<exists>rest. bs = record_bytes X (dec_record d) @ rest)" by blast
next
  assume a: "length (rec_payload (dec_record d)) \<le> u32_max
     \<and> encoded_len d = 22 + length (rec_payload (dec_record d))
     \<and> (\<exists>rest. bs = record_bytes X (dec_record d) @ rest)"
  then obtain rest where "bs = record_bytes X (dec_record d) @ rest" by blast
  with a decode_record_bytes [of "dec_record d" X rest] show "decode_record X bs = Ok d" by simp
qed

end
