(* ===== verification/Wal_Groups.thy ===== *)
theory Wal_Groups
  imports Wal_Writer
begin

text \<open>
  Byte and record accounting of the pending group queue: which image bytes a list of groups
  carries, and which records are complete once each of them has been written.
\<close>

definition chunk_slice :: "encoded_chunk \<Rightarrow> bytes" where
  "chunk_slice c = take (snd (ch_range c) - fst (ch_range c)) (drop (fst (ch_range c)) (ch_encoded c))"

definition chunk_valid :: "encoded_chunk \<Rightarrow> bool" where
  "chunk_valid c \<longleftrightarrow> fst (ch_range c) \<le> snd (ch_range c) \<and> snd (ch_range c) \<le> length (ch_encoded c)"

definition group_data :: "group \<Rightarrow> bytes" where
  "group_data g = concat (map chunk_slice (g_chunks g))"

abbreviation groups_data :: "group list \<Rightarrow> bytes" where
  "groups_data gs \<equiv> concat (map group_data gs)"

abbreviation groups_bytes :: "group list \<Rightarrow> nat" where
  "groups_bytes gs \<equiv> sum_list (map g_encoded_bytes gs)"

abbreviation groups_records :: "group list \<Rightarrow> nat" where
  "groups_records gs \<equiv> sum_list (map g_records gs)"

definition group_wf :: "nat \<Rightarrow> group \<Rightarrow> bool" where
  "group_wf maxb g \<longleftrightarrow>
     (\<forall>c \<in> set (g_chunks g). chunk_valid c)
     \<and> g_encoded_bytes g = length (group_data g) \<and> g_encoded_bytes g \<le> maxb
     \<and> (g_records g = 0 \<longleftrightarrow> g_last_seq g = None)"

definition image_len :: "(u16 \<times> bytes) list \<Rightarrow> nat \<Rightarrow> nat" where
  "image_len log n = 40 + (\<Sum>r\<leftarrow>take n log. 22 + length (snd r))"

text \<open>\<open>covers log n L\<close>: the first \<open>L\<close> image bytes hold the first \<open>n\<close> records completely.\<close>

definition covers :: "(u16 \<times> bytes) list \<Rightarrow> nat \<Rightarrow> nat \<Rightarrow> bool" where
  "covers log n L \<longleftrightarrow> n \<le> length log \<and> (0 < n \<longrightarrow> image_len log n \<le> L)"

fun acct :: "log_seq \<Rightarrow> (u16 \<times> bytes) list \<Rightarrow> nat \<Rightarrow> nat \<Rightarrow> group list \<Rightarrow> bool" where
  "acct f log L n [] = covers log n L"
| "acct f log L n (g # gs) =
     (covers log n L
      \<and> (0 < g_records g \<longrightarrow> g_last_seq g = Some (f + word_of_nat (n + g_records g - 1)))
      \<and> acct f log (L + g_encoded_bytes g) (n + g_records g) gs)"

lemma collect_chunks_valid:
  "\<forall>c \<in> set cs. chunk_valid c \<Longrightarrow> collect_chunks cs = Ok (map chunk_slice cs)"
  by (induction cs) (auto simp: chunk_bytes_def chunk_valid_def chunk_slice_def slice_range_def)

lemma groups_data_length:
  "\<forall>g \<in> set gs. group_wf maxb g \<Longrightarrow> length (groups_data gs) = groups_bytes gs"
proof (induction gs)
  case (Cons g gs)
  then have "g_encoded_bytes g = length (group_data g)"
    by (simp add: group_wf_def)
  then show ?case using Cons by simp
qed simp

lemma image_len_append [simp]: "n \<le> length log \<Longrightarrow> image_len (log @ xs) n = image_len log n"
  by (simp add: image_len_def)

lemma image_len_snoc: "image_len (log @ r # xs) (Suc (length log)) =
    image_len log (length log) + 22 + length (snd r)"
  by (simp add: image_len_def)

lemma image_len_Suc:
  "n < length log \<Longrightarrow> image_len log (Suc n) = image_len log n + (22 + length (snd (log ! n)))"
  by (simp add: image_len_def take_Suc_conv_app_nth)

lemma length_wal_image: "length (wal_image X f log) = image_len log (length log)"
  by (simp add: wal_image_def length_records_image_take image_len_def)

lemma wal_image_append:
  "wal_image X f (log @ xs) =
   wal_image X f log @ records_image X (seq_records (f + word_of_nat (length log)) xs)"
  by (simp add: wal_image_def seq_records_append)

lemma covers_append: "covers log n L \<Longrightarrow> covers (log @ xs) n L"
  by (auto simp: covers_def)

lemma covers_mono: "covers log n L \<Longrightarrow> L \<le> L' \<Longrightarrow> covers log n L'"
  by (auto simp: covers_def)

lemma acct_covers: "acct f log L n gs \<Longrightarrow> covers log n L"
  by (cases gs) auto

lemma acct_append_log: "acct f log L n gs \<Longrightarrow> acct f (log @ xs) L n gs"
  by (induction gs arbitrary: L n) (auto simp: covers_append)

lemma acct_append:
  "acct f log L n (gs @ hs) \<longleftrightarrow>
   acct f log L n gs \<and> acct f log (L + groups_bytes gs) (n + groups_records gs) hs"
  by (induction gs arbitrary: L n) (auto simp: add.assoc dest: acct_covers)

lemma acct_end: "acct f log L n gs \<Longrightarrow> covers log (n + groups_records gs) (L + groups_bytes gs)"
proof (induction gs arbitrary: L n)
  case (Cons g gs)
  then show ?case
    using Cons.IH [of "L + g_encoded_bytes g" "n + g_records g"] by (simp add: add.assoc)
qed simp

text \<open>Replacing the open (last) group.\<close>

lemma acct_replace_last:
  assumes "acct f log L n (gs @ [g])"
    and "0 < g_records g' \<longrightarrow>
      g_last_seq g' = Some (f + word_of_nat (n + groups_records gs + g_records g' - 1))"
    and "covers log (n + groups_records gs + g_records g') (L + groups_bytes gs + g_encoded_bytes g')"
  shows "acct f log L n (gs @ [g'])"
  using assms by (auto simp: acct_append)

lemma split_last: "gs \<noteq> [] \<Longrightarrow> gs = butlast gs @ [last gs]"
  by simp

section \<open>Closing the open chunk\<close>

definition close_chunk :: "bytes \<Rightarrow> nat \<Rightarrow> nat \<Rightarrow> group \<Rightarrow> group" where
  "close_chunk encoded cs off g =
     g\<lparr>g_chunks := g_chunks g @ [\<lparr>ch_encoded = encoded, ch_range = (cs, off)\<rparr>]\<rparr>"

definition close_last :: "bytes \<Rightarrow> nat \<Rightarrow> nat \<Rightarrow> group list \<Rightarrow> group list" where
  "close_last encoded cs off gs = butlast gs @ [close_chunk encoded cs off (last gs)]"

definition empty_group :: group where
  "empty_group = \<lparr>g_chunks = [], g_encoded_bytes = 0, g_records = 0, g_last_seq = None\<rparr>"

lemma close_chunk_simps [simp]:
  "g_encoded_bytes (close_chunk e cs off g) = g_encoded_bytes g"
  "g_records (close_chunk e cs off g) = g_records g"
  "g_last_seq (close_chunk e cs off g) = g_last_seq g"
  "group_data (close_chunk e cs off g) = group_data g @ take (off - cs) (drop cs e)"
  by (simp_all add: close_chunk_def group_data_def chunk_slice_def)

lemma close_chunk_valid:
  "(\<forall>c \<in> set (g_chunks (close_chunk e cs off g)). chunk_valid c) \<longleftrightarrow>
   (\<forall>c \<in> set (g_chunks g). chunk_valid c) \<and> cs \<le> off \<and> off \<le> length e"
  by (auto simp: close_chunk_def chunk_valid_def)

lemma empty_group_simps [simp]:
  "g_encoded_bytes empty_group = 0" "g_records empty_group = 0" "g_last_seq empty_group = None"
  "group_data empty_group = []" "group_wf maxb empty_group"
  by (simp_all add: empty_group_def group_data_def group_wf_def)

lemma close_last_snoc [simp]: "close_last e cs off (gs @ [g]) = gs @ [close_chunk e cs off g]"
  by (simp add: close_last_def)

lemma push_empty_eq:
  "spare_chunks st = [] \<Longrightarrow>
   push_empty_pending_group st = st\<lparr>pending_groups := pending_groups st @ [empty_group]\<rparr>"
  by (simp add: push_empty_pending_group_def empty_group_def)

lemma ensure_pending_group_eq:
  "spare_chunks st = [] \<Longrightarrow>
   ensure_pending_group st =
     (if pending_groups st = [] then st\<lparr>pending_groups := [empty_group]\<rparr> else st)"
  by (simp add: ensure_pending_group_def push_empty_eq)

section \<open>Staging a batch terminates and lays its bytes out in order\<close>

definition fill_inv ::
  "nat \<Rightarrow> bytes \<Rightarrow> log_seq \<Rightarrow> (u16 \<times> bytes) list \<Rightarrow> nat \<Rightarrow> nat \<Rightarrow> bytes \<Rightarrow> nat
   \<Rightarrow> group list \<Rightarrow> nat \<Rightarrow> nat \<Rightarrow> bool" where
  "fill_inv maxb encoded f log L n D m gs off cs \<longleftrightarrow>
     gs \<noteq> [] \<and> cs \<le> off \<and> off \<le> length encoded
     \<and> (\<forall>g \<in> set (close_last encoded cs off gs). group_wf maxb g)
     \<and> groups_data (close_last encoded cs off gs) = D @ take off encoded
     \<and> acct f log L n gs \<and> n + groups_records gs = m
     \<and> (\<forall>g \<in> set (butlast gs). 0 < g_records g)"

lemma acct_close: "acct f log L n (gs @ [close_chunk e cs off g]) \<longleftrightarrow> acct f log L n (gs @ [g])"
  by (simp add: acct_append)

lemma fill_record_spec:
  assumes "fill_inv maxb encoded f log L n D m (pending_groups st) off cs"
    and "spare_chunks st = []" "off \<le> stop" "stop \<le> length encoded" "length encoded \<le> usize_max"
    and "stop - off \<le> maxb" "0 < maxb" "maxb < usize_max"
    and "g_records (last (pending_groups st)) = 0 \<longrightarrow>
      g_encoded_bytes (last (pending_groups st)) + (stop - off) \<le> maxb"
  shows "\<exists>gs cs'. fill_record maxb encoded stop st off cs = Some (Ok (st\<lparr>pending_groups := gs\<rparr>, stop, cs'))
    \<and> fill_inv maxb encoded f log L n D m gs stop cs'"
  using assms
proof (induction "2 * (stop - off) + (if maxb \<le> g_encoded_bytes (last (pending_groups st)) then 1 else 0)"
    arbitrary: st off cs rule: less_induct)
  case less
  note prems = less.prems
  define gs where "gs = pending_groups st"
  have inv: "fill_inv maxb encoded f log L n D m gs off cs"
    using prems(1) by (simp add: gs_def)
  then obtain init g where g: "gs = init @ [g]"
    by (metis fill_inv_def split_last)
  show ?case
  proof (cases "off < stop")
    case False
    then have "off = stop" using prems(3) by simp
    then show ?thesis
      using inv by (subst fill_record.simps) (auto simp: gs_def intro: exI [of _ gs])
  next
    case True
    have gsne: "pending_groups st \<noteq> []" using g gs_def by simp
    have lastg: "last (pending_groups st) = g" using g gs_def by simp
    have wf: "group_wf maxb (close_chunk encoded cs off g)" and wfi: "\<forall>h \<in> set init. group_wf maxb h"
      and data: "groups_data init @ group_data g @ take (off - cs) (drop cs encoded) = D @ take off encoded"
      and acc: "acct f log L n (init @ [g])" and cnt: "n + groups_records init + g_records g = m"
      and cs: "cs \<le> off" and offe: "off \<le> length encoded" and nl: "\<forall>h \<in> set init. 0 < g_records h"
      using inv by (auto simp: fill_inv_def g add.assoc)
    show ?thesis
    proof (cases "maxb \<le> g_encoded_bytes g")
      case full: True
      then have rec: "0 < g_records g"
        using prems(9) True lastg by (cases "g_records g = 0") auto
      let ?g' = "if cs < off then close_chunk encoded cs off g else g"
      let ?st = "st\<lparr>pending_groups := init @ [?g', empty_group]\<rparr>"
      have wf': "group_wf maxb ?g'"
        using wf cs by (auto simp: group_wf_def close_chunk_valid)
      have d': "group_data ?g' = group_data g @ take (off - cs) (drop cs encoded)"
        using cs by auto
      have acc': "acct f log L n (init @ [?g', empty_group])"
        using acc acct_end [OF acc] by (auto simp: acct_append add.assoc)
      have inv': "fill_inv maxb encoded f log L n D m (init @ [?g', empty_group]) off off"
      proof -
        have cl: "close_last encoded off off (init @ [?g', empty_group]) =
            init @ [?g', close_chunk encoded off off empty_group]"
          using close_last_snoc [of encoded off off "init @ [?g']" empty_group] by simp
        have "group_wf maxb (close_chunk encoded off off empty_group)"
          using offe by (simp add: group_wf_def close_chunk_valid) (simp add: empty_group_def)
        moreover have "groups_data (init @ [?g', close_chunk encoded off off empty_group]) = D @ take off encoded"
          using data unfolding map_append concat_append list.map d' by simp
        moreover have "n + groups_records (init @ [?g', empty_group]) = m"
          using cnt by (auto simp: add.assoc)
        ultimately show ?thesis
          using wf' wfi acc' offe nl rec unfolding fill_inv_def cl
          by (auto simp: butlast_append)
      qed
      have step: "fill_record maxb encoded stop st off cs = fill_record maxb encoded stop ?st off off"
        using True gsne full prems(2)
        by (subst fill_record.simps)
          (auto simp: lastg Let_def push_empty_eq update_current_group_def g [folded gs_def, unfolded gs_def]
            close_chunk_def)
      have "\<exists>gs cs'. fill_record maxb encoded stop ?st off off = Some (Ok (?st\<lparr>pending_groups := gs\<rparr>, stop, cs'))
          \<and> fill_inv maxb encoded f log L n D m gs stop cs'"
        by (rule less.hyps) (use full prems inv' True lastg in auto)
      then show ?thesis using step by simp
    next
      case room: False
      define wr where "wr = min (maxb - g_encoded_bytes g) (stop - off)"
      let ?g' = "g\<lparr>g_encoded_bytes := g_encoded_bytes g + wr\<rparr>"
      let ?st = "st\<lparr>pending_groups := init @ [?g']\<rparr>"
      have wr: "0 < wr" "off + wr \<le> stop" "g_encoded_bytes g + wr \<le> maxb"
        using room True by (auto simp: wr_def)
      have offu: "saturating_add_usize off wr = off + wr"
        using wr prems(4,5) by simp
      have gu: "saturating_add_usize (g_encoded_bytes g) wr = g_encoded_bytes g + wr"
        using wr prems(8) by simp
      have step: "fill_record maxb encoded stop st off cs =
          fill_record maxb encoded stop ?st (off + wr) cs"
        using True gsne room offu gu
        by (subst fill_record.simps)
          (auto simp: lastg Let_def update_current_group_def g [unfolded gs_def] wr_def [symmetric])
      have ext: "take (off + wr - cs) (drop cs encoded) =
          take (off - cs) (drop cs encoded) @ take wr (drop off encoded)"
        using take_add [of "off - cs" wr "drop cs encoded"] cs by simp
      have data': "group_data (close_chunk encoded cs (off + wr) ?g') =
          group_data (close_chunk encoded cs off g) @ take wr (drop off encoded)"
        using ext by (simp add: group_data_def close_chunk_def chunk_slice_def)
      have len: "length (take wr (drop off encoded)) = wr"
        using wr prems(4) by simp
      have wf': "group_wf maxb (close_chunk encoded cs (off + wr) ?g')"
      proof -
        have "group_wf maxb (close_chunk encoded cs off g)" by (rule wf)
        then have "g_encoded_bytes g = length (group_data (close_chunk encoded cs off g))"
          and "\<forall>c \<in> set (g_chunks g). chunk_valid c" and "(g_records g = 0) = (g_last_seq g = None)"
          by (auto simp: group_wf_def close_chunk_valid)
        moreover have "g_chunks ?g' = g_chunks g" by simp
        ultimately show ?thesis
          using data' len wr prems(4) cs
          by (simp add: group_wf_def close_chunk_valid del: close_chunk_simps(4))
      qed
      have acc': "acct f log L n (init @ [?g'])"
        by (rule acct_replace_last [OF acc])
          (use acc acct_end [OF acc] in \<open>auto simp: acct_append add.assoc intro: covers_mono\<close>)
      have inv': "fill_inv maxb encoded f log L n D m (init @ [?g']) (off + wr) cs"
        using wf' wfi data acc' cnt wr prems(4) cs nl data' take_add [of off wr encoded]
        by (auto simp: fill_inv_def add.assoc simp del: close_chunk_simps(4))
          (simp add: close_chunk_simps(4))
      have "\<exists>gs cs'. fill_record maxb encoded stop ?st (off + wr) cs = Some (Ok (?st\<lparr>pending_groups := gs\<rparr>, stop, cs'))
          \<and> fill_inv maxb encoded f log L n D m gs stop cs'"
        by (rule less.hyps) (use room prems inv' wr lastg in auto)
      then show ?thesis using step by simp
    qed
  qed
qed

end
