(* ===== verification/Wal_Writer_Inv.thy ===== *)
theory Wal_Writer_Inv
  imports Wal_Groups
begin

text \<open>
  The invariant of the log writer. At every moment the file is the staged log's image up to the
  queued groups; a failed write leaves a prefix of it. The proofs are by rule induction over the
  interleaved steps of \<open>Wal_Writer\<close>.
\<close>

definition queue_ok ::
  "xxh3_lib \<Rightarrow> nat \<Rightarrow> log_seq \<Rightarrow> (u16 \<times> bytes) list \<Rightarrow> bytes \<Rightarrow> nat \<Rightarrow> group list \<Rightarrow> bool" where
  "queue_ok X maxb f log pre n gs \<longleftrightarrow>
     pre @ groups_data gs = wal_image X f log
     \<and> acct f log (length pre) n gs \<and> n + groups_records gs = length log
     \<and> (\<forall>g \<in> set gs. group_wf maxb g) \<and> (\<forall>g \<in> set (butlast gs). 0 < g_records g)
     \<and> (log \<noteq> [] \<longrightarrow> gs \<noteq> [] \<longrightarrow> g_records (last gs) = 0 \<longrightarrow> g_encoded_bytes (last gs) = 0)"

definition vr_matches :: "xxh3_lib \<Rightarrow> visible_record \<Rightarrow> wal_record \<Rightarrow> bool" where
  "vr_matches X v r \<longleftrightarrow>
     vr_seq v = rec_seq r \<and> vr_op v = rec_op r \<and> vr_bytes v = Ok (record_bytes X r)"

section \<open>One staged record\<close>

lemma queue_ok_bytes:
  "queue_ok X maxb f log pre n gs \<Longrightarrow> length pre + groups_bytes gs = image_len log (length log)"
  unfolding queue_ok_def by (metis groups_data_length length_append length_wal_image)

lemma queue_ok_push:
  assumes "queue_ok X maxb f log pre n gs" "gs = [] \<or> 0 < g_records (last gs)"
  shows "queue_ok X maxb f log pre n (gs @ [empty_group])"
proof -
  have "\<forall>g \<in> set gs. 0 < g_records g"
    using assms unfolding queue_ok_def by (cases gs rule: rev_cases) auto
  then show ?thesis
    using assms(1) acct_end [of f log "length pre" n gs] unfolding queue_ok_def
    by (simp add: acct_append)
qed

definition add_record :: "bytes \<Rightarrow> nat \<Rightarrow> log_seq \<Rightarrow> group \<Rightarrow> group" where
  "add_record encoded enc_len seq g =
     g\<lparr>g_chunks := g_chunks g @ [\<lparr>ch_encoded = encoded, ch_range = (0, enc_len)\<rparr>],
       g_encoded_bytes := g_encoded_bytes g + enc_len,
       g_records := Suc (g_records g), g_last_seq := Some seq\<rparr>"

lemma group_data_add_record [simp]:
  "group_data (add_record e k q g) = group_data g @ take k e"
  by (simp add: add_record_def group_data_def chunk_slice_def)

lemma group_wf_add_record:
  assumes "group_wf maxb g" "k = length e" "g_encoded_bytes g + k \<le> maxb"
  shows "group_wf maxb (add_record e k q g)"
proof -
  have "\<forall>c \<in> set (g_chunks (add_record e k q g)). chunk_valid c"
    using assms by (auto simp: group_wf_def add_record_def chunk_valid_def)
  then show ?thesis
    using assms by (auto simp: group_wf_def) (auto simp: add_record_def)
qed

lemma acct_covers_log: "acct f log L n gs \<Longrightarrow> n \<le> length log"
  using acct_covers by (auto simp: covers_def)

lemma queue_ok_stage:
  assumes q: "queue_ok X maxb f log pre n (gs @ [g])"
    and e: "e = record_bytes X \<lparr>rec_seq = f + word_of_nat (length log), rec_op = fst r, rec_payload = snd r\<rparr>"
    and k: "k = 22 + length (snd r)" "g_encoded_bytes g + k \<le> maxb"
  shows "queue_ok X maxb f (log @ [r]) pre n (gs @ [add_record e k (f + word_of_nat (length log)) g])"
proof -
  let ?g = "add_record e k (f + word_of_nat (length log)) g"
  have le: "length e = k" using e k by simp
  have img: "pre @ groups_data (gs @ [?g]) = wal_image X f (log @ [r])"
    using q e le by (simp add: queue_ok_def wal_image_append)
  have cnt: "n + groups_records gs + g_records g = length log"
    using q by (simp add: queue_ok_def add.assoc)
  have tot: "length pre + groups_bytes gs + g_encoded_bytes g = image_len log (length log)"
    using queue_ok_bytes [OF q] by simp
  have acc: "acct f (log @ [r]) (length pre) n (gs @ [g])"
    using q by (simp add: queue_ok_def acct_append_log)
  have "acct f (log @ [r]) (length pre) n (gs @ [?g])"
    by (rule acct_replace_last [OF acc])
      (use cnt tot k in \<open>simp_all add: add_record_def covers_def image_len_snoc flip: add.assoc\<close>)
  then show ?thesis
    using q img cnt group_wf_add_record [of maxb g k e] le k(2)
    by (auto simp: queue_ok_def add.assoc) (auto simp: add_record_def)
qed

section \<open>A staged batch\<close>

definition bump_last :: "log_seq \<Rightarrow> group list \<Rightarrow> group list" where
  "bump_last q gs = butlast gs @
     [(last gs)\<lparr>g_records := Suc (g_records (last gs)), g_last_seq := Some q\<rparr>]"

lemma close_chunk_bump:
  "close_chunk e cs off (g\<lparr>g_records := a, g_last_seq := b\<rparr>) =
   (close_chunk e cs off g)\<lparr>g_records := a, g_last_seq := b\<rparr>"
  by (simp add: close_chunk_def)

lemma group_data_bump [simp]: "group_data (g\<lparr>g_records := a, g_last_seq := b\<rparr>) = group_data g"
  by (simp add: group_data_def)

lemma fill_inv_bytes:
  assumes "fill_inv maxb encoded f log L n D m gs off cs"
  shows "groups_bytes gs = length D + off"
proof -
  obtain init g where g: "gs = init @ [g]"
    using assms by (metis fill_inv_def split_last)
  have "length (groups_data (close_last encoded cs off gs)) = groups_bytes (close_last encoded cs off gs)"
    by (rule groups_data_length [where maxb = maxb]) (use assms in \<open>simp add: fill_inv_def\<close>)
  moreover have "length (groups_data (close_last encoded cs off gs)) = length D + off"
    using assms by (simp add: fill_inv_def)
  ultimately show ?thesis by (simp add: g)
qed

lemma fill_inv_records:
  assumes "fill_inv maxb encoded f log L n D m gs off cs"
  shows "g_records (last gs) \<le> m"
  using assms by (cases gs rule: rev_cases) (auto simp: fill_inv_def)

lemma fill_inv_record:
  assumes inv: "fill_inv maxb encoded f log L n D (length log) gs off cs"
    and len: "L + length D + off = image_len log (length log) + 22 + length (snd r)"
  shows "fill_inv maxb encoded f (log @ [r]) L n D (Suc (length log))
    (bump_last (f + word_of_nat (length log)) gs) off cs"
proof -
  obtain init g where g: "gs = init @ [g]"
    using inv by (metis fill_inv_def split_last)
  let ?g = "g\<lparr>g_records := Suc (g_records g), g_last_seq := Some (f + word_of_nat (length log))\<rparr>"
  have bl: "bump_last (f + word_of_nat (length log)) gs = init @ [?g]"
    by (simp add: bump_last_def g)
  have cnt: "n + groups_records init + g_records g = length log"
    using inv by (simp add: fill_inv_def g add.assoc)
  have tot: "groups_bytes init + g_encoded_bytes g = length D + off"
    using fill_inv_bytes [OF inv] by (simp add: g)
  have acc: "acct f (log @ [r]) L n (init @ [g])"
    using inv by (simp add: fill_inv_def g acct_append_log)
  have acc': "acct f (log @ [r]) L n (init @ [?g])"
    by (rule acct_replace_last [OF acc])
      (use cnt tot len in \<open>simp_all add: covers_def image_len_snoc add.assoc\<close>)
  have "group_wf maxb (close_chunk encoded cs off g)"
    using inv by (simp add: fill_inv_def g)
  then have "group_wf maxb (close_chunk encoded cs off ?g)"
    unfolding close_chunk_bump by (simp add: group_wf_def)
  then show ?thesis
    using inv acc' cnt unfolding bl
    by (auto simp: fill_inv_def g add.assoc)
qed

lemma update_current_group_snoc:
  "pending_groups st = gs @ [g] \<Longrightarrow> update_current_group h st = st\<lparr>pending_groups := gs @ [h g]\<rparr>"
  by (simp add: update_current_group_def)

abbreviation with_lengths :: "(u16 \<times> bytes) list \<Rightarrow> (u16 \<times> bytes \<times> nat) list" where
  "with_lengths rs \<equiv> map (\<lambda>r. (fst r, snd r, 22 + length (snd r))) rs"

lemma stage_records_spec:
  assumes "fill_inv maxb encoded f log L n D (length log) (pending_groups st) off cs"
    and "spare_chunks st = []" "L + length D + off = image_len log (length log)"
    and "drop off encoded = records_image X (seq_records (f + word_of_nat (length log)) rs)"
    and "length encoded \<le> usize_max" "maxb < usize_max" "log_fits f (log @ rs)"
    and "\<forall>r \<in> set rs. 22 + length (snd r) \<le> maxb"
    and "rs \<noteq> [] \<longrightarrow> g_records (last (pending_groups st)) = 0 \<longrightarrow>
      g_encoded_bytes (last (pending_groups st)) + (22 + length (snd (hd rs))) \<le> maxb"
  shows "\<exists>gs cs' R vs. stage_records maxb encoded (with_lengths rs) (f + word_of_nat (length log)) st off cs =
      Some (Ok (st\<lparr>pending_groups := gs, retained_bytes := R, visible := visible st @ vs\<rparr>, length encoded, cs'))
    \<and> fill_inv maxb encoded f (log @ rs) L n D (length (log @ rs)) gs (length encoded) cs'
    \<and> list_all2 (vr_matches X) vs (seq_records (f + word_of_nat (length log)) rs)
    \<and> (rs \<noteq> [] \<longrightarrow> 0 < g_records (last gs))"
  using assms
proof (induction rs arbitrary: log st off cs)
  case Nil
  have "off = length encoded"
    using Nil.prems(1,4) by (simp add: fill_inv_def)
  then show ?case
    using Nil.prems(1) by (auto intro!: exI [of _ "pending_groups st"] exI [of _ "retained_bytes st"])
next
  case (Cons r rs)
  note p = Cons.prems
  let ?q = "f + word_of_nat (length log)"
  let ?r = "\<lparr>rec_seq = ?q, rec_op = fst r, rec_payload = snd r\<rparr>"
  let ?k = "22 + length (snd r)"
  let ?log = "log @ [r]"
  have off: "off \<le> length encoded" using p(1) by (simp add: fill_inv_def)
  have enc: "drop off encoded = record_bytes X ?r @ records_image X (seq_records (?q + 1) rs)"
    using p(4) by simp
  then have le: "length encoded - off = ?k + length (records_image X (seq_records (?q + 1) rs))"
    by (metis length_append length_drop length_record_bytes wal_record.select_convs(3))
  then have stop: "off + ?k \<le> length encoded" using off by simp
  have fit: "unat f + Suc (length log + length rs) \<le> usize_max"
    using p(7) by (simp add: log_fits_def)
  have sat: "saturating_add_usize off ?k = off + ?k" using stop p(5) by simp
  have "\<exists>gs cs'. fill_record maxb encoded (off + ?k) st off cs =
      Some (Ok (st\<lparr>pending_groups := gs\<rparr>, off + ?k, cs'))
    \<and> fill_inv maxb encoded f log L n D (length log) gs (off + ?k) cs'"
    by (rule fill_record_spec [OF p(1,2)]) (use p stop in auto)
  then obtain gs cs1 where fr: "fill_record maxb encoded (off + ?k) st off cs =
      Some (Ok (st\<lparr>pending_groups := gs\<rparr>, off + ?k, cs1))"
    and inv1: "fill_inv maxb encoded f log L n D (length log) gs (off + ?k) cs1"
    by blast
  have gsne: "gs \<noteq> []" using inv1 by (simp add: fill_inv_def)
  have recs: "g_records (last gs) \<le> length log"
    by (rule fill_inv_records [OF inv1])
  let ?v = "\<lparr>vr_seq = ?q, vr_op = fst r, vr_encoded = encoded, vr_range = (off, off + ?k)\<rparr>"
  let ?st = "st\<lparr>pending_groups := bump_last ?q gs,
      retained_bytes := saturating_add_usize (retained_bytes st) ?k, visible := visible st @ [?v]\<rparr>"
  have satr: "saturating_add_usize (g_records (last gs)) 1 = Suc (g_records (last gs))"
    using recs fit by simp
  have satq: "saturating_add_u64 ?q 1 = f + word_of_nat (length ?log)"
  proof -
    have "unat ?q = unat f + length log"
      using fit by (simp add: unat_seq_add)
    then show ?thesis
      using fit by (simp add: saturating_add_u64_def algebra_simps)
  qed
  have step: "stage_records maxb encoded (with_lengths (r # rs)) ?q st off cs =
      stage_records maxb encoded (with_lengths rs) (f + word_of_nat (length ?log)) ?st (off + ?k) cs1"
    using fr gsne satr satq sat
    by (simp add: Let_def update_current_group_def bump_last_def)
  have inv2: "fill_inv maxb encoded f ?log L n D (length ?log) (pending_groups ?st) (off + ?k) cs1"
    using fill_inv_record [OF inv1, of r] p(3) by simp
  have "\<exists>gs cs' R vs. stage_records maxb encoded (with_lengths rs) (f + word_of_nat (length ?log)) ?st (off + ?k) cs1 =
      Some (Ok (?st\<lparr>pending_groups := gs, retained_bytes := R, visible := visible ?st @ vs\<rparr>, length encoded, cs'))
    \<and> fill_inv maxb encoded f (?log @ rs) L n D (length (?log @ rs)) gs (length encoded) cs'
    \<and> list_all2 (vr_matches X) vs (seq_records (f + word_of_nat (length ?log)) rs)
    \<and> (rs \<noteq> [] \<longrightarrow> 0 < g_records (last gs))"
  proof (rule Cons.IH [OF inv2])
    show "L + length D + (off + ?k) = image_len ?log (length ?log)"
      using p(3) by (simp add: image_len_def)
    have "drop (off + ?k) encoded = drop ?k (drop off encoded)"
      by (simp add: add.commute)
    also have "\<dots> = records_image X (seq_records (?q + 1) rs)"
      unfolding enc by simp
    finally show "drop (off + ?k) encoded = records_image X (seq_records (f + word_of_nat (length ?log)) rs)"
      by (simp add: algebra_simps)
    show "rs \<noteq> [] \<longrightarrow> g_records (last (pending_groups ?st)) = 0 \<longrightarrow>
      g_encoded_bytes (last (pending_groups ?st)) + (22 + length (snd (hd rs))) \<le> maxb"
      by (simp add: bump_last_def)
  qed (use p in simp_all)
  then obtain gs' cs' R vs where IH: "stage_records maxb encoded (with_lengths rs)
        (f + word_of_nat (length ?log)) ?st (off + ?k) cs1 =
      Some (Ok (?st\<lparr>pending_groups := gs', retained_bytes := R, visible := visible ?st @ vs\<rparr>, length encoded, cs'))"
    "fill_inv maxb encoded f (?log @ rs) L n D (length (?log @ rs)) gs' (length encoded) cs'"
    "list_all2 (vr_matches X) vs (seq_records (f + word_of_nat (length ?log)) rs)"
    "rs \<noteq> [] \<longrightarrow> 0 < g_records (last gs')"
    by blast
  have vm: "vr_matches X ?v ?r"
    using stop enc by (simp add: vr_matches_def vr_bytes_def slice_range_def)
  have rec: "0 < g_records (last gs')"
  proof (cases "rs = []")
    case True
    then have "gs' = pending_groups ?st"
      using IH(1) by (auto dest: arg_cong [where f = pending_groups])
    then show ?thesis by (simp add: bump_last_def)
  qed (use IH(4) in simp)
  have "list_all2 (vr_matches X) (?v # vs) (seq_records ?q (r # rs))"
    using vm IH(3) by (simp add: algebra_simps)
  then show ?case
    using step IH(1,2) rec
    by (intro exI [of _ gs'] exI [of _ cs'] exI [of _ R] exI [of _ "?v # vs"]) simp
qed

section \<open>The state part of the invariant\<close>

definition durable_count :: "log_seq \<Rightarrow> nat \<Rightarrow> log_seq option" where
  "durable_count f n = (if n = 0 then None else Some (f + word_of_nat (n - 1)))"

definition state_ok ::
  "xxh3_lib \<Rightarrow> nat \<Rightarrow> log_seq \<Rightarrow> (u16 \<times> bytes) list \<Rightarrow> bytes \<Rightarrow> nat \<Rightarrow> group list \<Rightarrow> writer_state \<Rightarrow> bool" where
  "state_ok X maxb f log pre n gs0 st \<longleftrightarrow>
     queue_ok X maxb f log pre n (gs0 @ pending_groups st)
     \<and> log_fits f log \<and> next_seq st = f + word_of_nat (length log) \<and> spare_chunks st = []
     \<and> 40 \<le> maxb \<and> maxb < usize_max \<and> (\<forall>g \<in> set gs0. 0 < g_records g)
     \<and> durable_end st = durable_count f n
     \<and> (\<exists>k \<le> n. list_all2 (vr_matches X) (visible st) (drop k (seq_records f log)))"

lemma state_ok_cong:
  assumes "state_ok X maxb f log pre n gs0 st" "pending_groups st' = pending_groups st"
    "next_seq st' = next_seq st" "spare_chunks st' = spare_chunks st"
    "durable_end st' = durable_end st" "visible st' = visible st"
  shows "state_ok X maxb f log pre n gs0 st'"
  using assms by (simp add: state_ok_def)

lemma state_ok_ensure:
  assumes "state_ok X maxb f log pre n gs0 st"
  shows "state_ok X maxb f log pre n gs0 (ensure_pending_group st)"
proof (cases "pending_groups st = []")
  case True
  then have "queue_ok X maxb f log pre n (gs0 @ [empty_group])"
    using assms by (intro queue_ok_push) (auto simp: state_ok_def dest: bspec [OF _ last_in_set])
  then show ?thesis
    using assms True by (simp add: state_ok_def ensure_pending_group_eq)
qed (use assms in \<open>simp add: state_ok_def ensure_pending_group_eq\<close>)

lemma ensure_pending_group_simps [simp]:
  "next_seq (ensure_pending_group st) = next_seq st"
  "visible (ensure_pending_group st) = visible st"
  "durable_end (ensure_pending_group st) = durable_end st"
  "failure (ensure_pending_group st) = failure st"
  "barrier_in_flight (ensure_pending_group st) = barrier_in_flight st"
  "pending_groups (ensure_pending_group st) \<noteq> []"
  by (auto simp: ensure_pending_group_def push_empty_pending_group_def)

lemma visible_extend:
  assumes "\<exists>k \<le> n. list_all2 (vr_matches X) vs (drop k (seq_records f log))" "n \<le> length log"
    "list_all2 (vr_matches X) us (seq_records (f + word_of_nat (length log)) rs)"
  shows "\<exists>k \<le> n. list_all2 (vr_matches X) (vs @ us) (drop k (seq_records f (log @ rs)))"
proof -
  obtain k where "k \<le> n" "list_all2 (vr_matches X) vs (drop k (seq_records f log))"
    using assms(1) by blast
  then show ?thesis
    using assms(2,3) by (intro exI [of _ k]) (simp add: seq_records_append list_all2_appendI)
qed

lemma state_ok_count: "state_ok X maxb f log pre n gs0 st \<Longrightarrow> n \<le> length log"
  by (auto simp: state_ok_def queue_ok_def)

lemma state_ok_records:
  assumes "state_ok X maxb f log pre n gs0 st" "pending_groups st = gs @ [g]"
  shows "g_records g \<le> length log"
  using assms by (auto simp: state_ok_def queue_ok_def)

text \<open>Staging one record: what a successful call does, and that every other outcome only opens a group.\<close>

lemma stage_Staged:
  assumes X: "xxh3_streaming X" and ok: "state_ok X maxb f log pre n gs0 st"
    and st: "stage X maxb op payload st = (Staged seq leader, st')"
  shows "state_ok X maxb f (log @ [(op, payload)]) pre n gs0 st'
    \<and> failure st = None \<and> failure st' = None \<and> leader = (\<not> barrier_in_flight st)
    \<and> barrier_in_flight st' \<and> seq = f + word_of_nat (length log)"
proof -
  let ?s = "ensure_pending_group st"
  let ?k = "22 + length payload"
  let ?q = "f + word_of_nat (length log)"
  let ?r = "\<lparr>rec_seq = ?q, rec_op = op, rec_payload = payload\<rparr>"
  let ?e = "record_bytes X ?r"
  have oks: "state_ok X maxb f log pre n gs0 ?s" by (rule state_ok_ensure [OF ok])
  obtain gs g where g: "pending_groups ?s = gs @ [g]"
    by (metis ensure_pending_group_simps(6) rev_exhaust)
  have nx: "next_seq ?s = ?q" and fits: "log_fits f log" and mb: "maxb < usize_max"
    using oks by (simp_all add: state_ok_def)
  have u32: "length payload \<le> u32_max"
    using st by (auto simp: stage_def encoded_record_len_eq split: if_splits)
  have fa: "failure st = None"
    using st u32 by (auto simp: stage_def encoded_record_len_eq stage_once_def split: option.splits)
  have room: "saturating_add_usize (g_encoded_bytes g) ?k \<le> maxb"
    using st u32 fa g by (auto simp: stage_def encoded_record_len_eq stage_once_def Let_def split: if_splits)
  then have room': "g_encoded_bytes g + ?k \<le> maxb" and sat: "saturating_add_usize (g_encoded_bytes g) ?k = g_encoded_bytes g + ?k"
    using mb by (auto simp: saturating_add_usize_def)
  obtain nxt where nxt: "checked_add_u64 ?q 1 = Some nxt"
    using st u32 fa g room nx
    by (auto simp: stage_def encoded_record_len_eq stage_once_def Let_def split: option.splits)
  have uq: "unat ?q = unat f + length log"
    using fits by (simp add: log_fits_def unat_seq_add)
  have fits': "log_fits f (log @ [(op, payload)])" and nq: "nxt = f + word_of_nat (Suc (length log))"
    using nxt fits u32 uq by (auto simp: log_fits_def checked_add_u64_def algebra_simps split: if_splits)
  have satr: "saturating_add_usize (g_records g) 1 = Suc (g_records g)"
    using state_ok_records [OF oks g] fits' by (simp add: log_fits_def)
  have enc: "encode_record_into X ?r [] = Ok ?e"
    using X u32 by (simp add: encode_record_into_def append_record_into_eq)
  let ?v = "\<lparr>vr_seq = ?q, vr_op = op, vr_encoded = ?e, vr_range = (0, ?k)\<rparr>"
  have fin: "pending_groups st' = gs @ [add_record ?e ?k ?q g]" "next_seq st' = nxt"
    "spare_chunks st' = spare_chunks ?s" "durable_end st' = durable_end st" "visible st' = visible st @ [?v]"
    "failure st' = None" "leader = (\<not> barrier_in_flight st)" "barrier_in_flight st'" "seq = ?q"
    using st u32 fa g room sat nxt enc satr nx
    by (auto simp: stage_def encoded_record_len_eq stage_once_def Let_def update_current_group_snoc
        add_record_def)
  have "vr_matches X ?v ?r"
    by (simp add: vr_matches_def vr_bytes_def slice_range_def)
  then have vis: "\<exists>k \<le> n. list_all2 (vr_matches X) (visible st @ [?v]) (drop k (seq_records f (log @ [(op, payload)])))"
    using oks state_ok_count [OF oks] by (intro visible_extend) (auto simp: state_ok_def)
  have "queue_ok X maxb f (log @ [(op, payload)]) pre n ((gs0 @ gs) @ [add_record ?e ?k ?q g])"
    by (rule queue_ok_stage) (use oks g room' in \<open>simp_all add: state_ok_def\<close>)
  then show ?thesis
    using oks fits' nq vis fin fa by (simp add: state_ok_def)
qed

lemma stage_other:
  assumes "stage X maxb op payload st = (out, st')" "\<forall>seq leader. out \<noteq> Staged seq leader"
  shows "st' = st \<or> st' = ensure_pending_group st"
  using assms
  by (auto simp: stage_def stage_once_def Let_def split: sum.splits option.splits if_splits)

section \<open>A staged batch keeps the invariant\<close>

lemma encoded_lengths_Ok:
  "encoded_lengths rs = Ok ls \<Longrightarrow> ls = with_lengths rs \<and> (\<forall>r \<in> set rs. length (snd r) \<le> u32_max)"
  by (induction rs arbitrary: ls) (auto simp: result_Inr encoded_record_len_eq split: if_splits)

lemma encode_batch_eq:
  assumes "xxh3_streaming X" "log_fits s rs"
  shows "encode_batch X (with_lengths rs) s storage = Ok (storage @ records_image X (seq_records s rs))"
  using assms(2)
proof (induction rs arbitrary: s storage)
  case (Cons r rs)
  then show ?case
    using log_fits_Cons [OF Cons.prems] assms(1) by (simp add: append_record_into_eq)
qed simp

lemma queue_to_fill:
  assumes "queue_ok X maxb f log pre n (gs0 @ gs)" "gs \<noteq> []"
  shows "fill_inv maxb encoded f log (length pre + groups_bytes gs0) (n + groups_records gs0)
    (groups_data gs) (length log) gs 0 0"
proof -
  obtain init g where g: "gs = init @ [g]" using assms(2) by (metis rev_exhaust)
  have wf: "group_wf maxb g" using assms(1) by (simp add: queue_ok_def g)
  have "group_wf maxb (close_chunk encoded 0 0 g)"
    using wf by (simp add: group_wf_def close_chunk_valid)
  moreover have "acct f log (length pre + groups_bytes gs0) (n + groups_records gs0) (init @ [g])"
    using assms(1) acct_append [of f log "length pre" n gs0 gs] by (simp add: queue_ok_def g)
  ultimately show ?thesis
    using assms(1) by (simp add: fill_inv_def queue_ok_def g butlast_append add.assoc ball_Un)
qed

lemma fill_to_queue:
  assumes fill: "fill_inv maxb encoded f log (length pre + groups_bytes gs0) (n + groups_records gs0)
      D (length log) gs (length encoded) cs"
    and gs0: "\<forall>g \<in> set gs0. 0 < g_records g \<and> group_wf maxb g" "acct f log (length pre) n gs0"
    and img: "pre @ groups_data gs0 @ D @ encoded = wal_image X f log"
    and rec: "0 < g_records (last gs)"
  shows "queue_ok X maxb f log pre n (gs0 @ close_last encoded cs (length encoded) gs)"
proof -
  obtain init g where g: "gs = init @ [g]" using fill by (metis fill_inv_def split_last)
  let ?new = "init @ [close_chunk encoded cs (length encoded) g]"
  have "pre @ groups_data (gs0 @ ?new) = wal_image X f log"
    using fill img by (simp add: fill_inv_def g del: close_chunk_simps(4))
  moreover have "acct f log (length pre) n (gs0 @ ?new)"
    unfolding acct_append [of _ _ _ _ gs0 ?new] using fill gs0(2) by (simp add: fill_inv_def g acct_close)
  ultimately show ?thesis
    using fill gs0(1) rec
    by (auto simp: queue_ok_def fill_inv_def g add.assoc butlast_append simp del: close_chunk_simps(4))
qed

lemma log_fits_appendD: "log_fits f (log @ rs) \<Longrightarrow> log_fits (f + word_of_nat (length log)) rs"
  by (auto simp: log_fits_def unat_seq_add)

lemma acct_state:
  "state_ok X maxb f log pre n gs0 st \<Longrightarrow> acct f log (length pre) n gs0"
  by (simp add: state_ok_def queue_ok_def acct_append)

lemma stage_records_ok:
  assumes X: "xxh3_streaming X" and ok: "state_ok X maxb f log pre n gs0 st"
    and ne: "pending_groups st \<noteq> []" "rs \<noteq> []"
    and fits: "log_fits f (log @ rs)" and small: "(\<Sum>r\<leftarrow>rs. 22 + length (snd r)) \<le> alloc_max"
    and each: "\<forall>r \<in> set rs. 22 + length (snd r) \<le> maxb"
    and first: "g_records (last (pending_groups st)) = 0 \<longrightarrow>
      g_encoded_bytes (last (pending_groups st)) + (22 + length (snd (hd rs))) \<le> maxb"
    and enc: "encoded = records_image X (seq_records (f + word_of_nat (length log)) rs)"
  shows "\<exists>gs cs R vs. stage_records maxb encoded (with_lengths rs) (next_seq st) st 0 0 =
      Some (Ok (st\<lparr>pending_groups := gs, retained_bytes := R, visible := visible st @ vs\<rparr>, length encoded, cs))
    \<and> gs \<noteq> [] \<and> queue_ok X maxb f (log @ rs) pre n (gs0 @ close_last encoded cs (length encoded) gs)
    \<and> list_all2 (vr_matches X) vs (seq_records (f + word_of_nat (length log)) rs)"
proof -
  have q: "queue_ok X maxb f log pre n (gs0 @ pending_groups st)" and nx: "next_seq st = f + word_of_nat (length log)"
    using ok by (simp_all add: state_ok_def)
  let ?L = "length pre + groups_bytes gs0" and ?n = "n + groups_records gs0" and ?D = "groups_data (pending_groups st)"
  have le: "length encoded \<le> usize_max"
    using small by (simp add: enc length_records_image_take alloc_max_def usize_max_def)
  have wf: "\<forall>g \<in> set (pending_groups st). group_wf maxb g" using q by (simp add: queue_ok_def)
  have len: "?L + length ?D + 0 = image_len log (length log)"
    using queue_ok_bytes [OF q] groups_data_length [OF wf] by simp
  have "\<exists>gs cs' R vs. stage_records maxb encoded (with_lengths rs) (f + word_of_nat (length log)) st 0 0 =
      Some (Ok (st\<lparr>pending_groups := gs, retained_bytes := R, visible := visible st @ vs\<rparr>, length encoded, cs'))
    \<and> fill_inv maxb encoded f (log @ rs) ?L ?n ?D (length (log @ rs)) gs (length encoded) cs'
    \<and> list_all2 (vr_matches X) vs (seq_records (f + word_of_nat (length log)) rs)
    \<and> (rs \<noteq> [] \<longrightarrow> 0 < g_records (last gs))"
    by (rule stage_records_spec [OF queue_to_fill [OF q ne(1)] _ len])
      (use ok fits each first le enc in \<open>simp_all add: state_ok_def\<close>)
  then obtain gs cs R vs where r: "stage_records maxb encoded (with_lengths rs) (f + word_of_nat (length log)) st 0 0 =
      Some (Ok (st\<lparr>pending_groups := gs, retained_bytes := R, visible := visible st @ vs\<rparr>, length encoded, cs))"
    and fi: "fill_inv maxb encoded f (log @ rs) ?L ?n ?D (length (log @ rs)) gs (length encoded) cs"
    and vs: "list_all2 (vr_matches X) vs (seq_records (f + word_of_nat (length log)) rs)"
    and rec: "0 < g_records (last gs)"
    using ne by blast
  have img: "pre @ groups_data gs0 @ ?D @ encoded = wal_image X f (log @ rs)"
    using q by (simp add: queue_ok_def wal_image_append enc flip: append_assoc)
  have "queue_ok X maxb f (log @ rs) pre n (gs0 @ close_last encoded cs (length encoded) gs)"
    by (rule fill_to_queue [OF fi _ acct_append_log [OF acct_state [OF ok]] img rec])
      (use ok in \<open>auto simp: state_ok_def queue_ok_def\<close>)
  moreover have "gs \<noteq> []" using fi by (simp add: fill_inv_def)
  ultimately show ?thesis
    using r vs nx by auto
qed

definition batch_staged ::
  "xxh3_lib \<Rightarrow> nat \<Rightarrow> log_seq \<Rightarrow> (u16 \<times> bytes) list \<Rightarrow> bytes \<Rightarrow> nat \<Rightarrow> group list \<Rightarrow> writer_state
   \<Rightarrow> (u16 \<times> bytes) list \<Rightarrow> (log_seq \<times> log_seq) \<times> bool \<Rightarrow> writer_state \<Rightarrow> bool" where
  "batch_staged X maxb f log pre n gs0 st rs out st' \<longleftrightarrow>
     state_ok X maxb f (log @ rs) pre n gs0 st' \<and> failure st = None \<and> failure st' = None
     \<and> fst out = (f + word_of_nat (length log), f + word_of_nat (length (log @ rs)))
     \<and> snd out = (rs \<noteq> [] \<and> \<not> barrier_in_flight st)
     \<and> (\<exists>vs. visible st' = visible st @ vs
          \<and> list_all2 (vr_matches X) vs (seq_records (f + word_of_nat (length log)) rs))
     \<and> barrier_in_flight st' = (rs \<noteq> [] \<or> barrier_in_flight st)"

end
