(* ===== verification/Wal_Writer_Steps.thy ===== *)
theory Wal_Writer_Steps
  imports Wal_Writer_Inv
begin

text \<open>
  Every step of the writer keeps its invariant: batches, the leader's three phases, flush,
  retirement and poisoning; then reachability.
\<close>

section \<open>When a batch is admitted\<close>

definition batch_admitted :: "nat \<Rightarrow> (u16 \<times> bytes) list \<Rightarrow> writer_state \<Rightarrow> bool" where
  "batch_admitted maxb rs st \<longleftrightarrow>
     (let g = last (pending_groups (ensure_pending_group st)) in
      failure st = None \<and> (\<forall>r \<in> set rs. length (snd r) \<le> u32_max \<and> 22 + length (snd r) \<le> maxb)
      \<and> (g_records g = 0 \<longrightarrow> g_encoded_bytes g + (22 + length (snd (hd rs))) \<le> maxb)
      \<and> unat (next_seq st) + length rs \<le> usize_max)"

lemma find_None_all: "find P xs = None \<longleftrightarrow> (\<forall>x \<in> set xs. \<not> P x)"
  by (induction xs) auto

lemma encoded_lengths_eq:
  "\<forall>r \<in> set rs. length (snd r) \<le> u32_max \<Longrightarrow> encoded_lengths rs = Ok (with_lengths rs)"
  by (induction rs) (auto simp: encoded_record_len_eq)

lemma stage_many_reject:
  assumes "rs \<noteq> []" "\<not> batch_admitted maxb rs st" "maxb < usize_max"
  shows "\<exists>e st'. stage_many X maxb rs st = Some (Err e, st') \<and> (st' = st \<or> st' = ensure_pending_group st)"
proof (cases "failure st = None \<and> (\<forall>r \<in> set rs. length (snd r) \<le> u32_max \<and> 22 + length (snd r) \<le> maxb)")
  case False
  have "find (\<lambda>(_, _, n). maxb < n) (with_lengths rs) = None \<longleftrightarrow>
      (\<forall>r \<in> set rs. 22 + length (snd r) \<le> maxb)"
    by (auto simp: find_None_all)
  with False assms(1) show ?thesis
    by (auto simp: stage_many_def dest!: encoded_lengths_Ok split: sum.splits option.splits)
next
  case True
  let ?s = "ensure_pending_group st"
  let ?g = "last (pending_groups ?s)"
  have fn: "find (\<lambda>(_, _, n). maxb < n) (with_lengths rs) = None"
    using True by (auto simp: find_None_all)
  have hd: "snd (snd (hd (with_lengths rs))) = 22 + length (snd (hd rs))"
    using assms(1) by (simp add: hd_map)
  have "(g_records ?g = 0 \<and> maxb < saturating_add_usize (g_encoded_bytes ?g) (22 + length (snd (hd rs))))
      \<or> usize_max < length rs \<or> checked_add_u64 (next_seq st) (u64_of_usize (length rs)) = None"
    using assms(2,3) True
    by (auto simp: batch_admitted_def Let_def saturating_add_usize_def checked_add_u64_def unat_u64_of_usize)
  then show ?thesis
    using True assms(1) fn hd encoded_lengths_eq [of rs] by (auto simp: stage_many_def Let_def)
qed

lemma stage_many_admit:
  assumes X: "xxh3_streaming X" and ok: "state_ok X maxb f log pre n gs0 st" and ne: "rs \<noteq> []"
    and adm: "batch_admitted maxb rs st" and small: "(\<Sum>r\<leftarrow>rs. 22 + length (snd r)) \<le> alloc_max"
  shows "\<exists>out st'. stage_many X maxb rs st = Some (Ok out, st')
    \<and> batch_staged X maxb f log pre n gs0 st rs out st'"
proof -
  let ?s = "ensure_pending_group st"
  let ?g = "last (pending_groups ?s)"
  have oks: "state_ok X maxb f log pre n gs0 ?s" by (rule state_ok_ensure [OF ok])
  have nx: "next_seq st = f + word_of_nat (length log)" and fits: "log_fits f log" and mb: "maxb < usize_max"
    using ok by (simp_all add: state_ok_def)
  have fa: "failure st = None" and u32: "\<forall>r \<in> set rs. length (snd r) \<le> u32_max"
    and each: "\<forall>r \<in> set rs. 22 + length (snd r) \<le> maxb"
    and first: "g_records ?g = 0 \<longrightarrow> g_encoded_bytes ?g + (22 + length (snd (hd rs))) \<le> maxb"
    and room: "unat (next_seq st) + length rs \<le> usize_max"
    using adm by (auto simp: batch_admitted_def Let_def)
  have first0: "\<not> (g_records ?g = 0 \<and> maxb < saturating_add_usize (g_encoded_bytes ?g) (22 + length (snd (hd rs))))"
    using first mb by (auto simp: saturating_add_usize_def)
  have lu: "\<not> usize_max < length rs" using room by simp
  have uq: "unat (next_seq st) = unat f + length log"
    using fits by (simp add: nx log_fits_def unat_seq_add)
  have fits': "log_fits f (log @ rs)"
    using fits u32 uq room by (auto simp: log_fits_def)
  define stop where "stop = f + word_of_nat (length (log @ rs))"
  have st: "checked_add_u64 (next_seq st) (u64_of_usize (length rs)) = Some stop"
    using room nx lu unat_word_of_nat_u64 [of "length rs"]
    by (simp add: checked_add_u64_def stop_def u64_of_usize_def algebra_simps)
  define encoded where "encoded = records_image X (seq_records (f + word_of_nat (length log)) rs)"
  have enc: "encode_batch X (with_lengths rs) (next_seq st) [] = Ok encoded"
    using encode_batch_eq [OF X log_fits_appendD [OF fits'], of "[]"] by (simp add: nx encoded_def)
  obtain gs cs R vs where sr: "stage_records maxb encoded (with_lengths rs) (next_seq ?s) ?s 0 0 =
      Some (Ok (?s\<lparr>pending_groups := gs, retained_bytes := R, visible := visible ?s @ vs\<rparr>, length encoded, cs))"
    and gsne: "gs \<noteq> []"
    and qok: "queue_ok X maxb f (log @ rs) pre n (gs0 @ close_last encoded cs (length encoded) gs)"
    and vs: "list_all2 (vr_matches X) vs (seq_records (f + word_of_nat (length log)) rs)"
    using stage_records_ok [OF X oks _ ne fits' small each first encoded_def] by auto
  let ?st1 = "?s\<lparr>pending_groups := close_last encoded cs (length encoded) gs, retained_bytes := R,
      visible := visible ?s @ vs, next_seq := stop, encoded_buffer_allocations :=
        saturating_add_u64 (encoded_buffer_allocations ?s) 1, barrier_in_flight := True\<rparr>"
  have fn: "find (\<lambda>(_, _, n). maxb < n) (with_lengths rs) = None"
    using each by (auto simp: find_None_all)
  have hd: "snd (snd (hd (with_lengths rs))) = 22 + length (snd (hd rs))"
    using ne by (simp add: hd_map)
  have res: "stage_many X maxb rs st = Some (Ok ((next_seq st, stop), \<not> barrier_in_flight st), ?st1)"
    using ne encoded_lengths_eq [OF u32] fn fa hd first0 lu st enc sr gsne
    by (simp add: stage_many_def Let_def update_current_group_def close_last_def close_chunk_def)
  have "\<exists>k \<le> n. list_all2 (vr_matches X) (visible st @ vs) (drop k (seq_records f (log @ rs)))"
    using oks state_ok_count [OF oks] vs by (intro visible_extend) (auto simp: state_ok_def)
  then have "state_ok X maxb f (log @ rs) pre n gs0 ?st1"
    using oks qok fits' by (simp add: state_ok_def stop_def)
  then have "batch_staged X maxb f log pre n gs0 st rs ((next_seq st, stop), \<not> barrier_in_flight st) ?st1"
    using fa ne nx vs by (simp add: batch_staged_def stop_def)
  then show ?thesis using res by blast
qed

lemma stage_many_Nil:
  assumes "state_ok X maxb f log pre n gs0 st"
  shows "stage_many X maxb [] st =
    Some (case failure st of None \<Rightarrow> (Ok ((next_seq st, next_seq st), False), st)
          | Some e \<Rightarrow> (Err (WriterFailed e), st))"
  by (simp add: stage_many_def split: option.splits)

lemma stage_many_Ok:
  assumes X: "xxh3_streaming X" and ok: "state_ok X maxb f log pre n gs0 st"
    and small: "(\<Sum>r\<leftarrow>rs. 22 + length (snd r)) \<le> alloc_max"
    and r: "stage_many X maxb rs st = Some (Ok out, st')"
  shows "batch_staged X maxb f log pre n gs0 st rs out st'"
proof (cases "rs = []")
  case True
  then show ?thesis
    using ok r stage_many_Nil [OF ok] by (auto simp: batch_staged_def state_ok_def split: option.splits)
next
  case False
  have "maxb < usize_max" using ok by (simp add: state_ok_def)
  then have "batch_admitted maxb rs st"
    using stage_many_reject [OF False, of maxb st X] r by auto
  then show ?thesis
    using stage_many_admit [OF X ok False _ small] r by auto
qed

lemma stage_many_Err:
  assumes X: "xxh3_streaming X" and ok: "state_ok X maxb f log pre n gs0 st"
    and small: "(\<Sum>r\<leftarrow>rs. 22 + length (snd r)) \<le> alloc_max"
    and r: "stage_many X maxb rs st = Some (Err e, st')"
  shows "st' = st \<or> st' = ensure_pending_group st"
proof (cases "rs = []")
  case True
  then show ?thesis
    using r stage_many_Nil [OF ok] by (auto split: option.splits)
next
  case False
  have "maxb < usize_max" using ok by (simp add: state_ok_def)
  moreover have "\<not> batch_admitted maxb rs st"
    using stage_many_admit [OF X ok False _ small] r by auto
  ultimately show ?thesis
    using stage_many_reject [OF False, of maxb st X] r by auto
qed

section \<open>The leader\<close>

lemma state_ok_take:
  assumes "state_ok X maxb f log pre n [] st" "leader_take st = (Ok (g, q), st')"
  shows "state_ok X maxb f log pre n [g] st' \<and> g_last_seq g = Some q
    \<and> failure st' = failure st \<and> barrier_in_flight st' = barrier_in_flight st"
proof -
  obtain gs where gs: "pending_groups st = g # gs" and st': "st' = st\<lparr>pending_groups := gs\<rparr>"
    and q: "g_last_seq g = Some q"
    using assms(2) by (auto simp: leader_take_def Let_def split: list.splits option.splits)
  have "group_wf maxb g" using assms(1) by (simp add: state_ok_def queue_ok_def gs)
  then have "0 < g_records g" using q by (auto simp: group_wf_def)
  then show ?thesis using assms(1) q by (simp add: state_ok_def gs st')
qed

text \<open>
  A leader that finds a group without a sequence drops it; by the invariant that group is the
  empty one a rejected record left behind, so no staged byte is lost.
\<close>

lemma state_ok_take_fail:
  assumes ok: "state_ok X maxb f log pre n [] st" and "log \<noteq> []" and t: "leader_take st = (Err e, st')"
  shows "state_ok X maxb f log pre n [] st' \<and> failure st' = failure st
    \<and> barrier_in_flight st' = barrier_in_flight st"
proof (cases "pending_groups st")
  case Nil
  then show ?thesis using assms by (auto simp: leader_take_def)
next
  case (Cons g gs)
  have st': "st' = st\<lparr>pending_groups := gs\<rparr>" and nq: "g_last_seq g = None"
    using t Cons by (auto simp: leader_take_def Let_def split: option.splits)
  have wf: "group_wf maxb g" using ok by (simp add: state_ok_def queue_ok_def Cons)
  then have r0: "g_records g = 0" using nq by (simp add: group_wf_def)
  then have gs: "gs = []" using ok by (cases gs) (auto simp: state_ok_def queue_ok_def Cons)
  have "g_encoded_bytes g = 0"
    using ok assms(2) r0 by (simp add: state_ok_def queue_ok_def Cons gs)
  then have "group_data g = []" using wf by (simp add: group_wf_def)
  then have "queue_ok X maxb f log pre n []"
    using ok r0 by (auto simp: state_ok_def queue_ok_def Cons gs)
  then show ?thesis using ok by (simp add: state_ok_def st' gs)
qed

lemma write_group_result:
  assumes "group_wf maxb g" "write_group env g w = (r, w')"
  shows "wstate w' = wstate w \<and> max_group_bytes w' = max_group_bytes w
    \<and> (case r of Inr _ \<Rightarrow> wfile w' = wfile w @ group_data g
       | Inl _ \<Rightarrow> \<exists>part. wfile w' = wfile w @ part \<and> prefix part (group_data g))"
proof -
  have c: "collect_chunks (g_chunks g) = Ok (map chunk_slice (g_chunks g))"
    using assms(1) by (intro collect_chunks_valid) (simp add: group_wf_def)
  have d: "concat (map chunk_slice (g_chunks g)) = group_data g" by (simp add: group_data_def)
  show ?thesis
    using assms(2) unfolding write_group_def c
    by (auto simp: d bump_def sync_file_def sync_directory_def Let_def
        split: append_outcome.splits sync_requirement.splits option.splits sum.splits if_splits
        intro: take_is_prefix)
qed

lemma state_ok_finish:
  assumes ok: "state_ok X maxb f log pre n [g] st" and q: "g_last_seq g = Some q"
    and st': "pending_groups st' = pending_groups st" "next_seq st' = next_seq st" "spare_chunks st' = []"
      "durable_end st' = Some q" "visible st' = visible st"
  shows "state_ok X maxb f log (pre @ group_data g) (n + g_records g) [] st'
    \<and> covers log (n + g_records g) (length (pre @ group_data g))"
proof -
  have r: "0 < g_records g" and wf: "group_wf maxb g"
    using ok by (simp_all add: state_ok_def queue_ok_def)
  then have b: "g_encoded_bytes g = length (group_data g)" by (simp add: group_wf_def)
  have acc: "acct f log (length pre) n (g # pending_groups st)"
    and Q: "queue_ok X maxb f log pre n (g # pending_groups st)"
    using ok by (simp_all add: state_ok_def queue_ok_def)
  then have acc': "acct f log (length (pre @ group_data g)) (n + g_records g) (pending_groups st)"
    and "q = f + word_of_nat (n + g_records g - 1)"
    using r q b by simp_all
  then have d: "durable_end st' = durable_count f (n + g_records g)"
    using st'(4) r by (simp add: durable_count_def)
  have "queue_ok X maxb f log (pre @ group_data g) (n + g_records g) (pending_groups st)"
    using Q acc' by (auto simp: queue_ok_def add.assoc dest: in_set_butlastD split: if_splits)
  moreover have "\<exists>k \<le> n + g_records g. list_all2 (vr_matches X) (visible st) (drop k (seq_records f log))"
    using ok by (auto simp: state_ok_def intro: le_trans [OF _ le_add1])
  ultimately show ?thesis
    using ok d st' acct_covers [OF acc'] by (simp add: state_ok_def)
qed

section \<open>Retirement, flush and poisoning\<close>

lemma takeWhile_list_all2:
  "list_all2 P xs ys \<Longrightarrow> (\<And>x y. P x y \<Longrightarrow> Q x = R y) \<Longrightarrow>
   length (takeWhile Q xs) = length (takeWhile R ys)"
  by (induction rule: list_all2_induct) auto

lemma dropWhile_eq_drop_length: "dropWhile P xs = drop (length (takeWhile P xs)) xs"
  by (rule dropWhile_eq_drop)

lemma seq_records_seq_unat:
  assumes "log_fits f log" "i < length log"
  shows "unat (rec_seq (seq_records f log ! i)) = unat f + i"
  using assms by (simp add: seq_records_nth log_fits_def unat_seq_add)

lemma retire_stays_durable:
  assumes fits: "log_fits f log" and "n \<le> length log" "k \<le> n"
    and "absorbed \<le> f + word_of_nat (n - 1)" "0 < n"
  shows "k + length (takeWhile (\<lambda>r. rec_seq r \<le> absorbed) (drop k (seq_records f log))) \<le> n"
proof (rule ccontr)
  let ?t = "takeWhile (\<lambda>r. rec_seq r \<le> absorbed) (drop k (seq_records f log))"
  assume "\<not> ?thesis"
  then have i: "n - k < length ?t" using assms(3) by simp
  then have "?t ! (n - k) \<in> set ?t" by (rule nth_mem)
  then have le: "rec_seq (?t ! (n - k)) \<le> absorbed" by (auto dest: set_takeWhileD)
  have n: "n < length log"
    using i length_takeWhile_le [of "\<lambda>r. rec_seq r \<le> absorbed" "drop k (seq_records f log)"] assms(3) by simp
  have "?t ! (n - k) = seq_records f log ! n"
    using i n assms(3) by (simp add: takeWhile_nth)
  then have "unat (rec_seq (seq_records f log ! n)) \<le> unat (f + word_of_nat (n - 1))"
    using le assms(4) by (simp add: word_le_nat_alt)
  moreover have "unat (f + word_of_nat (n - 1)) = unat f + (n - 1)"
    using fits n by (intro unat_seq_add) (auto simp: log_fits_def)
  ultimately show False
    using seq_records_seq_unat [OF fits n] assms(5) by simp
qed

lemma state_ok_retire:
  assumes ok: "state_ok X maxb f log pre n gs0 st"
    and r: "retire_visible_through absorbed st = (out, st')"
  shows "state_ok X maxb f log pre n gs0 st' \<and> failure st' = failure st
    \<and> barrier_in_flight st' = barrier_in_flight st"
proof (cases "case durable_end st of None \<Rightarrow> True | Some d \<Rightarrow> d < absorbed")
  case True
  then show ?thesis using assms by (simp add: retire_visible_through_def)
next
  case False
  then have n: "0 < n" and ab: "absorbed \<le> f + word_of_nat (n - 1)"
    using ok by (auto simp: state_ok_def durable_count_def split: if_splits option.splits)
  obtain k where k: "k \<le> n" and v: "list_all2 (vr_matches X) (visible st) (drop k (seq_records f log))"
    using ok by (auto simp: state_ok_def)
  let ?W = "\<lambda>v. vr_seq v \<le> absorbed" and ?R = "\<lambda>r. rec_seq r \<le> absorbed"
  have len: "length (takeWhile ?W (visible st)) = length (takeWhile ?R (drop k (seq_records f log)))"
    by (rule takeWhile_list_all2 [OF v]) (simp add: vr_matches_def)
  have le: "k + length (takeWhile ?W (visible st)) \<le> n"
    unfolding len by (rule retire_stays_durable)
      (use ok n k ab state_ok_count [OF ok] in \<open>simp_all add: state_ok_def\<close>)
  have "list_all2 (vr_matches X) (dropWhile ?W (visible st))
      (drop (k + length (takeWhile ?W (visible st))) (seq_records f log))"
    using list_all2_dropI [OF v, of "length (takeWhile ?W (visible st))"]
    by (simp add: dropWhile_eq_drop_length add.commute)
  then have "\<exists>k \<le> n. list_all2 (vr_matches X) (dropWhile ?W (visible st)) (drop k (seq_records f log))"
    using le by blast
  moreover have "visible st' = dropWhile ?W (visible st)" "pending_groups st' = pending_groups st"
      "next_seq st' = next_seq st" "spare_chunks st' = spare_chunks st" "durable_end st' = durable_end st"
      "failure st' = failure st" "barrier_in_flight st' = barrier_in_flight st"
    using r False by (auto simp: retire_visible_through_def Let_def)
  ultimately show ?thesis
    using ok by (simp add: state_ok_def)
qed

lemma state_ok_poison:
  "state_ok X maxb f log pre n gs0 st \<Longrightarrow> state_ok X maxb f log pre n gs0 (poison e st)
    \<and> failure (poison e st) \<noteq> None \<and> barrier_in_flight (poison e st) = barrier_in_flight st"
  by (auto simp: poison_def state_ok_def split: option.splits)

lemma state_ok_flush:
  assumes "state_ok X maxb f log pre n gs0 st" "flush_enter st = (FlushTarget target leader, st')"
  shows "state_ok X maxb f log pre n gs0 st' \<and> failure st = None \<and> failure st' = None
    \<and> leader = (\<not> barrier_in_flight st) \<and> barrier_in_flight st' \<and> visible st \<noteq> []"
  using assms by (auto simp: flush_enter_def Let_def state_ok_def split: option.splits if_splits)

section \<open>The system invariant\<close>

definition phase_ok :: "wal_sys \<Rightarrow> bytes \<Rightarrow> group list \<Rightarrow> bool" where
  "phase_ok s pre gs0 =
     (let content = wfile (sys_writer s) in
      case sys_leader s of
        NoLeader \<Rightarrow>
          if failure (sys_state s) = None then gs0 = [] \<and> content = pre
          else prefix content (pre @ groups_data gs0)
      | LeaderTaking \<Rightarrow> gs0 = [] \<and> content = pre
      | LeaderWriting g q \<Rightarrow> gs0 = [g] \<and> content = pre \<and> g_last_seq g = Some q
      | LeaderWrote g q r \<Rightarrow>
          gs0 = [g] \<and> g_last_seq g = Some q
          \<and> (case r of None \<Rightarrow> content = pre @ group_data g
             | Some _ \<Rightarrow> prefix content (pre @ group_data g)))"

definition wal_inv :: "xxh3_lib \<Rightarrow> wal_sys \<Rightarrow> bool" where
  "wal_inv X s \<longleftrightarrow>
     (\<exists>pre n gs0.
        state_ok X (max_group_bytes (sys_writer s)) (sys_first s) (sys_log s) pre n gs0 (sys_state s)
        \<and> phase_ok s pre gs0 \<and> covers (sys_log s) n (sys_synced s))
     \<and> sys_synced s \<le> length (wfile (sys_writer s))
     \<and> (sys_leader s \<noteq> NoLeader \<longrightarrow> sys_log s \<noteq> [] \<and> barrier_in_flight (sys_state s))"

lemma wal_invI:
  assumes "state_ok X (max_group_bytes (sys_writer s)) (sys_first s) (sys_log s) pre n gs0 (sys_state s)"
    "phase_ok s pre gs0" "covers (sys_log s) n (sys_synced s)"
    "sys_synced s \<le> length (wfile (sys_writer s))"
    "sys_leader s \<noteq> NoLeader \<Longrightarrow> sys_log s \<noteq> [] \<and> barrier_in_flight (sys_state s)"
  shows "wal_inv X s"
  using assms by (auto simp: wal_inv_def)

lemma wal_invE:
  assumes "wal_inv X s"
  obtains pre n gs0 where
    "state_ok X (max_group_bytes (sys_writer s)) (sys_first s) (sys_log s) pre n gs0 (sys_state s)"
    "phase_ok s pre gs0" "covers (sys_log s) n (sys_synced s)"
    "sys_synced s \<le> length (wfile (sys_writer s))"
    "sys_leader s \<noteq> NoLeader \<Longrightarrow> sys_log s \<noteq> [] \<and> barrier_in_flight (sys_state s)"
  using assms by (auto simp: wal_inv_def)

lemma sys_simps [simp]:
  "sys_state (set_state st s) = st"
  "sys_writer (set_state st s) = (sys_writer s)\<lparr>wstate := st\<rparr>"
  "sys_leader (set_state st s) = sys_leader s" "sys_first (set_state st s) = sys_first s"
  "sys_log (set_state st s) = sys_log s" "sys_synced (set_state st s) = sys_synced s"
  "sys_state (lead b t) = sys_state t" "sys_writer (lead b t) = sys_writer t"
  "sys_first (lead b t) = sys_first t" "sys_log (lead b t) = sys_log t"
  "sys_synced (lead b t) = sys_synced t"
  "sys_leader (lead b t) = (if b then LeaderTaking else sys_leader t)"
  "sys_state (t\<lparr>sys_log := l\<rparr>) = sys_state t" "sys_state (t\<lparr>sys_leader := p\<rparr>) = sys_state t"
  by (simp_all add: sys_state_def set_state_def lead_def)

text \<open>A step of a caller: the state changes, the file does not, and at most a leader is elected.\<close>

lemma wal_inv_caller:
  assumes inv: "wal_inv X s"
    and ok: "\<And>pre n gs0. state_ok X (max_group_bytes (sys_writer s)) (sys_first s) (sys_log s) pre n gs0 (sys_state s)
      \<Longrightarrow> state_ok X (max_group_bytes (sys_writer s)) (sys_first s) (sys_log s @ rs) pre n gs0 st"
    and lead: "leader \<longrightarrow> \<not> barrier_in_flight (sys_state s) \<and> barrier_in_flight st
      \<and> failure (sys_state s) = None \<and> sys_log s @ rs \<noteq> []"
    and fail: "failure (sys_state s) \<noteq> None \<longrightarrow> failure st \<noteq> None"
    and bar: "barrier_in_flight (sys_state s) \<longrightarrow> barrier_in_flight st"
    and t: "t = lead leader ((set_state st s)\<lparr>sys_log := sys_log s @ rs\<rparr>)"
  shows "wal_inv X t"
  using inv
proof (rule wal_invE)
  fix pre n gs0
  assume st: "state_ok X (max_group_bytes (sys_writer s)) (sys_first s) (sys_log s) pre n gs0 (sys_state s)"
    and ph: "phase_ok s pre gs0" and cov: "covers (sys_log s) n (sys_synced s)"
    and syn: "sys_synced s \<le> length (wfile (sys_writer s))"
    and ld: "sys_leader s \<noteq> NoLeader \<Longrightarrow> sys_log s \<noteq> [] \<and> barrier_in_flight (sys_state s)"
  have eq: "wfile (sys_writer t) = wfile (sys_writer s)" "sys_state t = st" "sys_log t = sys_log s @ rs"
    "sys_leader t = (if leader then LeaderTaking else sys_leader s)" "sys_first t = sys_first s"
    "max_group_bytes (sys_writer t) = max_group_bytes (sys_writer s)" "sys_synced t = sys_synced s"
    by (simp_all add: t)
  have "phase_ok t pre gs0"
    using ph lead fail ld
    by (cases "sys_leader s") (auto simp: phase_ok_def eq Let_def split: if_splits)
  then show "wal_inv X t"
    by (rule wal_invI [rotated]) (use ok [OF st] cov lead bar ld syn in \<open>auto simp: eq intro: covers_append\<close>)
qed

lemma wal_inv_set_state:
  assumes "wal_inv X s"
    and "\<And>pre n gs0. state_ok X (max_group_bytes (sys_writer s)) (sys_first s) (sys_log s) pre n gs0 (sys_state s)
      \<Longrightarrow> state_ok X (max_group_bytes (sys_writer s)) (sys_first s) (sys_log s) pre n gs0 st"
    and "failure (sys_state s) \<noteq> None \<longrightarrow> failure st \<noteq> None"
    and "barrier_in_flight (sys_state s) \<longrightarrow> barrier_in_flight st"
  shows "wal_inv X (set_state st s)"
  by (rule wal_inv_caller [OF assms(1), of "[]" st False]) (use assms in \<open>simp_all add: lead_def\<close>)

lemma wal_inv_write:
  assumes inv: "wal_inv X s" and ph: "sys_leader s = LeaderWriting g q"
    and wr: "write_group env g (sys_writer s) = (r, w)"
  shows "wal_inv X (s\<lparr>sys_writer := w,
    sys_leader := LeaderWrote g q (case r of Inl e \<Rightarrow> Some e | Inr _ \<Rightarrow> None)\<rparr>)"
  using inv
proof (rule wal_invE)
  fix pre n gs0
  assume st: "state_ok X (max_group_bytes (sys_writer s)) (sys_first s) (sys_log s) pre n gs0 (sys_state s)"
    and "phase_ok s pre gs0" and cov: "covers (sys_log s) n (sys_synced s)"
    and syn: "sys_synced s \<le> length (wfile (sys_writer s))"
    and ld: "sys_leader s \<noteq> NoLeader \<Longrightarrow> sys_log s \<noteq> [] \<and> barrier_in_flight (sys_state s)"
  then have p: "gs0 = [g]" "wfile (sys_writer s) = pre" "g_last_seq g = Some q"
    using ph by (simp_all add: phase_ok_def)
  have wf: "group_wf (max_group_bytes (sys_writer s)) g"
    using st by (simp add: state_ok_def queue_ok_def p)
  note res = write_group_result [OF wf wr]
  let ?t = "s\<lparr>sys_writer := w, sys_leader := LeaderWrote g q (case r of Inl e \<Rightarrow> Some e | Inr _ \<Rightarrow> None)\<rparr>"
  have eq: "sys_state ?t = sys_state s" using res by (simp add: sys_state_def)
  have "phase_ok ?t pre gs0"
    using res p by (auto simp: phase_ok_def split: sum.splits)
  then show "wal_inv X ?t"
    by (rule wal_invI [rotated]) (use st cov syn ld ph res eq in \<open>auto split: sum.splits\<close>)
qed

lemma leader_finish_simps:
  assumes "leader_finish g q fault w = (nxt, w')"
  shows "wfile w' = wfile w \<and> max_group_bytes w' = max_group_bytes w
    \<and> pending_groups (wstate w') = pending_groups (wstate w) \<and> next_seq (wstate w') = next_seq (wstate w)
    \<and> spare_chunks (wstate w') = [] \<and> visible (wstate w') = visible (wstate w)
    \<and> durable_end (wstate w') = (if fault = None then Some q else durable_end (wstate w))
    \<and> failure (wstate w') = (case fault of None \<Rightarrow> failure (wstate w) | Some e \<Rightarrow> Some e)
    \<and> (nxt = LeaderContinue \<longrightarrow> barrier_in_flight (wstate w') = barrier_in_flight (wstate w) \<and> fault = None)"
  using assms by (auto simp: leader_finish_def Let_def split: option.splits if_splits)

lemma wal_inv_finish:
  assumes inv: "wal_inv X s" and ph: "sys_leader s = LeaderWrote g q fault"
    and fin: "leader_finish g q fault (sys_writer s) = (nxt, w)"
  shows "wal_inv X (s\<lparr>sys_writer := w,
    sys_leader := (if nxt = LeaderContinue then LeaderTaking else NoLeader),
    sys_synced := (if fault = None then length (wfile w) else sys_synced s)\<rparr>)"
  using inv
proof (rule wal_invE)
  let ?t = "s\<lparr>sys_writer := w, sys_leader := (if nxt = LeaderContinue then LeaderTaking else NoLeader),
    sys_synced := (if fault = None then length (wfile w) else sys_synced s)\<rparr>"
  fix pre n gs0
  assume st: "state_ok X (max_group_bytes (sys_writer s)) (sys_first s) (sys_log s) pre n gs0 (sys_state s)"
    and p: "phase_ok s pre gs0" and cov: "covers (sys_log s) n (sys_synced s)"
    and syn: "sys_synced s \<le> length (wfile (sys_writer s))"
    and ld: "sys_leader s \<noteq> NoLeader \<Longrightarrow> sys_log s \<noteq> [] \<and> barrier_in_flight (sys_state s)"
  note eqs = leader_finish_simps [OF fin]
  have t: "sys_state ?t = wstate w" by (simp add: sys_state_def)
  have gs0: "gs0 = [g]" and q: "g_last_seq g = Some q"
    using p ph by (simp_all add: phase_ok_def Let_def)
  show "wal_inv X ?t"
  proof (cases fault)
    case None
    then have fl: "wfile (sys_writer s) = pre @ group_data g" using p ph by (simp add: phase_ok_def)
    have "state_ok X (max_group_bytes (sys_writer s)) (sys_first s) (sys_log s)
        (pre @ group_data g) (n + g_records g) [] (wstate w)
      \<and> covers (sys_log s) (n + g_records g) (length (pre @ group_data g))"
      by (rule state_ok_finish [OF st [unfolded gs0] q]) (use eqs None in \<open>simp_all add: sys_state_def\<close>)
    moreover have "phase_ok ?t (pre @ group_data g) []"
      using eqs None fl by (simp add: phase_ok_def t)
    ultimately show ?thesis
      by (intro wal_invI [of X ?t "pre @ group_data g" "n + g_records g" "[]"])
        (use eqs None fl ld ph in \<open>auto simp: t sys_state_def split: if_splits\<close>)
  next
    case (Some e)
    have "state_ok X (max_group_bytes (sys_writer s)) (sys_first s) (sys_log s) pre n [g] (wstate w)"
      using st eqs Some gs0 by (simp add: state_ok_def sys_state_def)
    moreover have "phase_ok ?t pre [g]"
      using eqs Some p ph by (simp add: phase_ok_def sys_state_def)
    ultimately show ?thesis
      by (intro wal_invI [of X ?t pre n "[g]"])
        (use eqs Some syn cov in \<open>auto simp: t sys_state_def split: if_splits\<close>)
  qed
qed

lemma wal_create_Ok:
  assumes "wal_create vo va f policy maxb = Ok w"
  shows "wstate w = initial_state f [] 0 None
      [\<lparr>g_chunks = [\<lparr>ch_encoded = header_bytes f, ch_range = (0, 40)\<rparr>],
        g_encoded_bytes = 40, g_records = 0, g_last_seq = None\<rparr>]
    \<and> wfile w = [] \<and> max_group_bytes w = maxb \<and> 40 \<le> maxb"
  using assms by (auto simp: wal_create_def result_Inr wal_encode_header_eq split: if_splits)

lemma wal_inv_init:
  assumes "wal_init s"
  shows "wal_inv X s"
proof -
  let ?m = "max_group_bytes (sys_writer s)"
  let ?g = "\<lparr>g_chunks = [\<lparr>ch_encoded = header_bytes (sys_first s), ch_range = (0, 40)\<rparr>],
    g_encoded_bytes = 40, g_records = 0, g_last_seq = None\<rparr>"
  have st: "sys_state s = initial_state (sys_first s) [] 0 None [?g]" and "wfile (sys_writer s) = []"
    and m: "40 \<le> ?m" "?m < usize_max" and s: "sys_leader s = NoLeader" "sys_log s = []" "sys_synced s = 0"
    using assms by (auto simp: wal_init_def sys_state_def dest: wal_create_Ok)
  have "queue_ok X ?m (sys_first s) [] [] 0 [?g]"
    using m by (simp add: queue_ok_def group_data_def chunk_slice_def wal_image_def covers_def
        group_wf_def chunk_valid_def)
  then have "state_ok X ?m (sys_first s) [] [] 0 [] (sys_state s)"
    using m by (simp add: state_ok_def st initial_state_def log_fits_def durable_count_def)
  then show ?thesis
    using s \<open>wfile (sys_writer s) = []\<close>
    by (auto simp: wal_inv_def phase_ok_def covers_def st initial_state_def intro!: exI [of _ "[]"] exI [of _ 0])
qed

lemma wal_inv_take:
  assumes inv: "wal_inv X s" and ph: "sys_leader s = LeaderTaking"
    and take: "leader_take (sys_state s) = (r, st)"
  shows "wal_inv X ((set_state st s)\<lparr>sys_leader :=
    (case r of Inl _ \<Rightarrow> NoLeader | Inr (g, q) \<Rightarrow> LeaderWriting g q)\<rparr>)"
  using inv
proof (rule wal_invE)
  fix pre n gs0
  assume st: "state_ok X (max_group_bytes (sys_writer s)) (sys_first s) (sys_log s) pre n gs0 (sys_state s)"
    and p: "phase_ok s pre gs0" and cov: "covers (sys_log s) n (sys_synced s)"
    and syn: "sys_synced s \<le> length (wfile (sys_writer s))"
    and "sys_leader s \<noteq> NoLeader \<Longrightarrow> sys_log s \<noteq> [] \<and> barrier_in_flight (sys_state s)"
  then have ld: "sys_log s \<noteq> []" "barrier_in_flight (sys_state s)" using ph by simp_all
  have gs0: "gs0 = []" "wfile (sys_writer s) = pre" using p ph by (simp_all add: phase_ok_def)
  show ?thesis
  proof (cases r)
    case (Inl e)
    then show ?thesis
      using state_ok_take_fail [OF st [unfolded gs0] ld(1)] take cov syn
      by (intro wal_invI [of _ _ pre n "[]"]) (auto simp: phase_ok_def gs0 Let_def)
  next
    case (Inr y)
    obtain g q where "y = (g, q)" by fastforce
    then show ?thesis
      using state_ok_take [OF st [unfolded gs0]] take Inr cov syn ld
      by (intro wal_invI [of _ _ pre n "[g]"]) (auto simp: phase_ok_def gs0)
  qed
qed

lemma wal_inv_stage:
  assumes X: "xxh3_streaming X" and inv: "wal_inv X s"
    and st: "stage X (max_group_bytes (sys_writer s)) op payload (sys_state s) = (Staged seq leader, st)"
  shows "wal_inv X (lead leader ((set_state st s)\<lparr>sys_log := sys_log s @ [(op, payload)]\<rparr>))"
  using inv
proof (rule wal_invE)
  fix pre n gs0
  assume "state_ok X (max_group_bytes (sys_writer s)) (sys_first s) (sys_log s) pre n gs0 (sys_state s)"
  from stage_Staged [OF X this st] show ?thesis
    by (intro wal_inv_caller [OF inv _ _ _ _ refl]) (auto dest: stage_Staged [OF X _ st])
qed

lemma wal_inv_stage_many:
  assumes X: "xxh3_streaming X" and inv: "wal_inv X s"
    and small: "(\<Sum>r\<leftarrow>rs. 22 + length (snd r)) \<le> alloc_max"
    and st: "stage_many X (max_group_bytes (sys_writer s)) rs (sys_state s) = Some (Ok (span, leader), st)"
  shows "wal_inv X (lead leader ((set_state st s)\<lparr>sys_log := sys_log s @ rs\<rparr>))"
  using inv
proof (rule wal_invE)
  fix pre n gs0
  assume "state_ok X (max_group_bytes (sys_writer s)) (sys_first s) (sys_log s) pre n gs0 (sys_state s)"
  from stage_many_Ok [OF X this small st] show ?thesis
    by (intro wal_inv_caller [OF inv _ _ _ _ refl])
      (auto simp: batch_staged_def dest: stage_many_Ok [OF X _ small st])
qed

lemma wal_inv_reject:
  assumes "wal_inv X s" "st = sys_state s \<or> st = ensure_pending_group (sys_state s)"
  shows "wal_inv X (set_state st s)"
  using assms(2) by (intro wal_inv_set_state [OF assms(1)]) (auto intro: state_ok_ensure)

lemma wal_inv_flush:
  assumes inv: "wal_inv X s" and fl: "flush_enter (sys_state s) = (FlushTarget target leader, st)"
  shows "wal_inv X (lead leader (set_state st s))"
  using inv
proof (rule wal_invE)
  fix pre n gs0
  assume ok: "state_ok X (max_group_bytes (sys_writer s)) (sys_first s) (sys_log s) pre n gs0 (sys_state s)"
  note f = state_ok_flush [OF ok fl]
  have "sys_log s \<noteq> []"
    using f ok by (auto simp: state_ok_def)
  then show ?thesis
    using f by (intro wal_inv_caller [OF inv, of "[]" st leader]) (auto dest: state_ok_flush [OF _ fl])
qed

lemma wal_inv_retire:
  assumes inv: "wal_inv X s" and r: "retire_visible_through absorbed (sys_state s) = (out, st)"
  shows "wal_inv X (set_state st s)"
  using inv
proof (rule wal_invE)
  fix pre n gs0
  assume ok: "state_ok X (max_group_bytes (sys_writer s)) (sys_first s) (sys_log s) pre n gs0 (sys_state s)"
  from state_ok_retire [OF this r] show ?thesis
    by (intro wal_inv_set_state [OF inv]) (auto dest: state_ok_retire [OF _ r])
qed

lemma wal_inv_step:
  assumes X: "xxh3_streaming X" and "wal_step X s t" and inv: "wal_inv X s"
  shows "wal_inv X t"
  using assms(2)
proof (cases rule: wal_step.cases)
  case (step_stage op payload seq leader st)
  then show ?thesis using wal_inv_stage [OF X inv] by simp
next
  case (step_stage_fail op payload e st)
  then show ?thesis using wal_inv_reject [OF inv] stage_other by fastforce
next
  case (step_stage_wait op payload st)
  then show ?thesis using wal_inv_reject [OF inv] stage_other by fastforce
next
  case (step_stage_many records span leader st)
  then show ?thesis using wal_inv_stage_many [OF X inv] by simp
next
  case (step_stage_many_fail records e st)
  from inv show ?thesis
    by (rule wal_invE) (use stage_many_Err [OF X _ step_stage_many_fail(2,3)] wal_inv_reject [OF inv]
        step_stage_many_fail(1) in blast)
next
  case (step_take g q st)
  then show ?thesis using wal_inv_take [OF inv] by fastforce
next
  case (step_take_fail e st)
  then show ?thesis using wal_inv_take [OF inv] by fastforce
next
  case (step_write g q env r w)
  then show ?thesis using wal_inv_write [OF inv] by simp
next
  case (step_finish g q fault nxt w)
  then show ?thesis using wal_inv_finish [OF inv] by simp
next
  case (step_flush target leader st)
  then show ?thesis using wal_inv_flush [OF inv] by simp
next
  case (step_retire absorbed r st)
  then show ?thesis using wal_inv_retire [OF inv] by simp
next
  case (step_poison e)
  have "wal_inv X (set_state (poison e (sys_state s)) s)"
    by (rule wal_inv_set_state [OF inv])
      (use state_ok_poison in \<open>blast, auto simp: poison_def split: option.splits\<close>)
  then show ?thesis using step_poison by simp
qed

interpretation wal_system: invariant_system wal_init "wal_step X" "\<lambda>s. xxh3_streaming X \<longrightarrow> wal_inv X s" for X
  by unfold_locales (use wal_inv_init wal_inv_step in blast)+

lemma wal_reachable_inv: "xxh3_streaming X \<Longrightarrow> wal_reachable X s \<Longrightarrow> wal_inv X s"
  using wal_system.reach_inv by blast

end
