(* ===== verification/Wal_Properties.thy ===== *)
theory Wal_Properties
  imports Wal_Writer_Steps
begin

text \<open>What the write-ahead log promises, from the invariant and the replay lemmas.\<close>

lemma wal_inv_prefix:
  assumes "wal_inv X s"
  shows "prefix (wfile (sys_writer s)) (wal_image X (sys_first s) (sys_log s))"
  using assms
proof (rule wal_invE)
  fix pre n gs0
  assume st: "state_ok X (max_group_bytes (sys_writer s)) (sys_first s) (sys_log s) pre n gs0 (sys_state s)"
    and p: "phase_ok s pre gs0"
  have img: "wal_image X (sys_first s) (sys_log s) = (pre @ groups_data gs0) @ groups_data (pending_groups (sys_state s))"
    using st by (simp add: state_ok_def queue_ok_def)
  have "prefix (wfile (sys_writer s)) (pre @ groups_data gs0)"
    using p by (auto simp: phase_ok_def Let_def split: leader_phase.splits if_splits option.splits)
  then show ?thesis
    unfolding img by (rule prefix_prefix)
qed

lemma take_prefix_image:
  assumes "prefix xs ys" "k \<le> length xs"
  shows "take k xs = take k ys"
  using assms by (auto simp: prefix_def)

text \<open>What recovery reads after a crash that kept at least the synced bytes.\<close>

lemma crash_replay:
  assumes X: "xxh3_streaming X" and r: "wal_reachable X s"
    and k: "sys_synced s \<le> k" "k \<le> length (wfile (sys_writer s))" "40 \<le> k"
  obtains m where "rep_records (replay X (take k (wfile (sys_writer s)))) =
      seq_records (sys_first s) (take m (sys_log s))"
    "m \<le> length (sys_log s)"
    "\<forall>d. durable_end (sys_state s) = Some d \<longrightarrow> 0 < m \<and> d \<le> sys_first s + word_of_nat (m - 1)"
    "rep_terminator (replay X (take k (wfile (sys_writer s)))) = prefix_terminator 40 (k - 40) (sys_log s)"
proof -
  have inv: "wal_inv X s" by (rule wal_reachable_inv [OF X r])
  from inv obtain pre n gs0 where
    st: "state_ok X (max_group_bytes (sys_writer s)) (sys_first s) (sys_log s) pre n gs0 (sys_state s)"
    and cov: "covers (sys_log s) n (sys_synced s)"
    by (rule wal_invE)
  have fits: "log_fits (sys_first s) (sys_log s)" and d: "durable_end (sys_state s) = durable_count (sys_first s) n"
    using st by (simp_all add: state_ok_def)
  let ?m = "whole_records (k - 40) (sys_log s)"
  have rep: "replay X (take k (wfile (sys_writer s))) =
      \<lparr>rep_records = seq_records (sys_first s) (take ?m (sys_log s)),
       rep_terminator = prefix_terminator 40 (k - 40) (sys_log s)\<rparr>"
    using replay_prefix [OF fits, of X "k - 40"] take_prefix_image [OF wal_inv_prefix [OF inv] k(2)] k(3)
    by simp
  have nm: "n \<le> ?m"
    by (rule whole_records_ge) (use cov k in \<open>auto simp: covers_def image_len_def\<close>)
  have mono: "sys_first s + word_of_nat (n - 1) \<le> sys_first s + word_of_nat (?m - 1)" if "0 < n"
  proof -
    have "unat (sys_first s) + (?m - 1) \<le> usize_max"
      using fits whole_records_le [of "k - 40" "sys_log s"] by (auto simp: log_fits_def)
    then show ?thesis
      using nm by (intro seq_add_mono) simp_all
  qed
  show thesis
  proof (rule that [of ?m])
    show "\<forall>d. durable_end (sys_state s) = Some d \<longrightarrow> 0 < ?m \<and> d \<le> sys_first s + word_of_nat (?m - 1)"
      using d nm mono by (auto simp: durable_count_def split: if_splits)
  qed (use rep whole_records_le in auto)
qed

section \<open>Replay of arbitrary bytes\<close>

primrec saturating_chain :: "u64 \<Rightarrow> wal_record list \<Rightarrow> bool" where
  "saturating_chain e [] = True"
| "saturating_chain e (r # rs) = (rec_seq r = e \<and> saturating_chain (saturating_add_u64 e 1) rs)"

lemma replay_loop_sound:
  assumes "offset \<le> length bs"
  shows "\<exists>new rest. rep_records (replay_loop X bs offset e acc) = acc @ new
    \<and> drop offset bs = records_image X new @ rest \<and> saturating_chain e new
    \<and> (case rep_terminator (replay_loop X bs offset e acc) of
         InvalidHeader _ \<Rightarrow> False
       | CleanEnd \<Rightarrow> rest = []
       | CorruptAt at _ \<Rightarrow> at = offset + length (records_image X new) \<and> rest \<noteq> [])"
  using assms
proof (induction X bs offset e acc rule: replay_loop.induct)
  case (1 X bs offset e acc)
  show ?case
  proof (cases "nonempty_from bs offset")
    case None
    then have "drop offset bs = []"
      using "1.prems" by (auto simp: nonempty_from_def slice_from_def split: if_splits)
    then show ?thesis
      using None by (intro exI [of _ "[]"]) (simp add: replay_loop.simps)
  next
    case (Some remaining)
    then have rem: "remaining = drop offset bs" "remaining \<noteq> []"
      by (auto simp: nonempty_from_def slice_from_def split: if_splits)
    show ?thesis
    proof (cases "decode_record X remaining")
      case (Inl err)
      then show ?thesis
        using Some rem by (intro exI [of _ "[] :: wal_record list"] exI [of _ remaining]) (simp add: replay_loop.simps Let_def)
    next
      case (Inr d)
      note can = decode_record_canonical [OF Inr]
      show ?thesis
      proof (cases "rec_seq (dec_record d) = e")
        case False
        then show ?thesis
          using Some rem Inr by (intro exI [of _ "[] :: wal_record list"] exI [of _ remaining]) (simp add: replay_loop.simps Let_def)
      next
        case True
        have img: "remaining = record_bytes X (dec_record d) @ drop (offset + encoded_len d) bs"
          using can rem by (metis drop_drop add.commute)
        have "offset + encoded_len d \<le> length bs"
          using arg_cong [OF img, of length] can rem by simp
        with "1.IH" [OF Some Inr refl refl] True obtain new rest where
          IH: "rep_records (replay_loop X bs (offset + encoded_len d) (saturating_add_u64 e 1)
              (acc @ [dec_record d])) = (acc @ [dec_record d]) @ new"
          "drop (offset + encoded_len d) bs = records_image X new @ rest"
          "saturating_chain (saturating_add_u64 e 1) new"
          "case rep_terminator (replay_loop X bs (offset + encoded_len d) (saturating_add_u64 e 1)
              (acc @ [dec_record d])) of
            InvalidHeader _ \<Rightarrow> False | CleanEnd \<Rightarrow> rest = []
          | CorruptAt at _ \<Rightarrow> at = offset + encoded_len d + length (records_image X new) \<and> rest \<noteq> []"
          by auto
        moreover have "replay_loop X bs offset e acc =
            replay_loop X bs (offset + encoded_len d) (saturating_add_u64 e 1) (acc @ [dec_record d])"
          using Some Inr True by (simp add: replay_loop.simps [of X bs offset e acc])
        moreover have "drop offset bs = records_image X (dec_record d # new) @ rest"
          using img rem(1) IH(2) by simp
        moreover have "encoded_len d = length (record_bytes X (dec_record d))" using can by simp
        ultimately show ?thesis
          using True
          by (intro exI [of _ "dec_record d # new"] exI [of _ rest])
            (simp add: add.assoc split: replay_terminator.splits)
      qed
    qed
  qed
qed

section \<open>An executable driver for the transition system\<close>

datatype wal_action =
    DoStage u16 bytes
  | DoStageMany "(u16 \<times> bytes) list"
  | DoTake
  | DoWrite io_outcome
  | DoFinish
  | DoFlush
  | DoRetire log_seq
  | DoPoison io_kind

fun wal_exec :: "xxh3_lib \<Rightarrow> wal_action \<Rightarrow> wal_sys \<Rightarrow> wal_sys option" where
  "wal_exec X (DoStage op payload) s =
     (case stage X (max_group_bytes (sys_writer s)) op payload (sys_state s) of
        (Staged seq leader, st) \<Rightarrow>
          Some (lead leader ((set_state st s)\<lparr>sys_log := sys_log s @ [(op, payload)]\<rparr>))
      | (StageFailed e, st) \<Rightarrow> Some (set_state st s)
      | (StageWait, st) \<Rightarrow> Some (set_state st s))"
| "wal_exec X (DoStageMany rs) s =
     (if (\<Sum>r\<leftarrow>rs. 22 + length (snd r)) \<le> alloc_max then
        (case stage_many X (max_group_bytes (sys_writer s)) rs (sys_state s) of
           None \<Rightarrow> None
         | Some (Inl e, st) \<Rightarrow> Some (set_state st s)
         | Some (Inr (span, leader), st) \<Rightarrow>
             Some (lead leader ((set_state st s)\<lparr>sys_log := sys_log s @ rs\<rparr>)))
      else None)"
| "wal_exec X DoTake s =
     (case sys_leader s of
        LeaderTaking \<Rightarrow>
          (case leader_take (sys_state s) of
             (Inr (g, q), st) \<Rightarrow> Some ((set_state st s)\<lparr>sys_leader := LeaderWriting g q\<rparr>)
           | (Inl e, st) \<Rightarrow> Some ((set_state st s)\<lparr>sys_leader := NoLeader\<rparr>))
      | _ \<Rightarrow> None)"
| "wal_exec X (DoWrite env) s =
     (case sys_leader s of
        LeaderWriting g q \<Rightarrow>
          (case write_group env g (sys_writer s) of
             (r, w) \<Rightarrow> Some (s\<lparr>sys_writer := w,
               sys_leader := LeaderWrote g q (case r of Inl e \<Rightarrow> Some e | Inr _ \<Rightarrow> None)\<rparr>))
      | _ \<Rightarrow> None)"
| "wal_exec X DoFinish s =
     (case sys_leader s of
        LeaderWrote g q fault \<Rightarrow>
          (case leader_finish g q fault (sys_writer s) of
             (nxt, w) \<Rightarrow> Some (s\<lparr>sys_writer := w,
               sys_leader := (if nxt = LeaderContinue then LeaderTaking else NoLeader),
               sys_synced := (if fault = None then length (wfile w) else sys_synced s)\<rparr>))
      | _ \<Rightarrow> None)"
| "wal_exec X DoFlush s =
     (case flush_enter (sys_state s) of
        (FlushTarget target leader, st) \<Rightarrow> Some (lead leader (set_state st s))
      | _ \<Rightarrow> None)"
| "wal_exec X (DoRetire absorbed) s =
     Some (set_state (snd (retire_visible_through absorbed (sys_state s))) s)"
| "wal_exec X (DoPoison e) s = Some (set_state (poison e (sys_state s)) s)"

fun wal_run :: "xxh3_lib \<Rightarrow> wal_action list \<Rightarrow> wal_sys \<Rightarrow> wal_sys option" where
  "wal_run X [] s = Some s"
| "wal_run X (a # as) s = Option.bind (wal_exec X a s) (wal_run X as)"

lemma wal_exec_step:
  assumes "wal_exec X a s = Some t"
  shows "wal_step X s t"
proof (cases a)
  case (DoWrite env)
  with assms obtain g q r w where "sys_leader s = LeaderWriting g q"
    "write_group env g (sys_writer s) = (r, w)"
    "t = s\<lparr>sys_writer := w, sys_leader := LeaderWrote g q (case r of Inl e \<Rightarrow> Some e | Inr _ \<Rightarrow> None)\<rparr>"
    by (auto split: leader_phase.splits prod.splits)
  then show ?thesis using step_write by simp
next
  case DoFinish
  with assms obtain g q fault nxt w where "sys_leader s = LeaderWrote g q fault"
    "leader_finish g q fault (sys_writer s) = (nxt, w)"
    "t = s\<lparr>sys_writer := w, sys_leader := (if nxt = LeaderContinue then LeaderTaking else NoLeader),
       sys_synced := (if fault = None then length (wfile w) else sys_synced s)\<rparr>"
    by (auto split: leader_phase.splits prod.splits)
  then show ?thesis using step_finish by simp
next
  case (DoRetire absorbed)
  with assms show ?thesis
    by (auto intro: step_retire [OF prod.collapse [symmetric]])
qed (use assms in \<open>auto intro: wal_step.intros
      split: prod.splits stage_outcome.splits option.splits sum.splits leader_phase.splits
        flush_outcome.splits if_splits\<close>)

lemma wal_run_reachable:
  "wal_reachable X s \<Longrightarrow> wal_run X as s = Some t \<Longrightarrow> wal_reachable X t"
  by (induction as arbitrary: s) (auto simp: bind_eq_Some_conv dest: wal_exec_step intro: reach_step)

section \<open>Recovered readers\<close>

definition visible_of :: "xxh3_lib \<Rightarrow> wal_record \<Rightarrow> visible_record" where
  "visible_of X r = \<lparr>vr_seq = rec_seq r, vr_op = rec_op r, vr_encoded = record_bytes X r,
     vr_range = (0, 22 + length (rec_payload r))\<rparr>"

lemma recover_visible_image:
  assumes "length pre + length (records_image X rs) \<le> usize_max"
  shows "recover_visible (pre @ records_image X rs @ rest) (recovered_ranges rs (length pre)) =
    Ok (map (visible_of X) rs)"
  using assms
proof (induction rs arbitrary: pre)
  case (Cons r rs)
  then show ?case
    using Cons.IH [of "pre @ record_bytes X r"]
    by (simp add: Let_def wal_consts visible_of_def slice_range_def add.assoc)
qed simp

lemma take_wal_image:
  assumes "m = whole_records k log"
  shows "\<exists>rest. take (40 + k) (wal_image X f log) =
    header_bytes f @ records_image X (seq_records f (take m log)) @ rest"
proof -
  have "\<exists>rest. take k (records_image X (seq_records e log)) =
      records_image X (seq_records e (take (whole_records k log) log)) @ rest" for e
  proof (induction log arbitrary: k e)
    case (Cons r rs)
    then show ?case
      using Cons.IH [of "k - (22 + length (snd r))" "e + 1"] by auto
  qed simp
  then show ?thesis using assms by (auto simp: wal_image_def)
qed

lemma seq_records_last:
  assumes "log \<noteq> []"
  shows "rec_seq (last (seq_records f log)) = f + word_of_nat (length log - 1)"
  using assms seq_records_nth [of "length log - 1" log f]
  by (metis last_conv_nth length_greater_0_conv length_seq_records diff_less zero_less_one
      wal_record.select_convs(1))

lemma prefix_terminator_header: "prefix_terminator off k log \<noteq> InvalidHeader e"
  by (induction off k log rule: prefix_terminator.induct) auto

lemma wal_reader_open_prefix:
  assumes fits: "log_fits f log" and len: "40 + k \<le> usize_max" "40 + k \<le> length (wal_image X f log)"
    and m: "m = whole_records k log"
  shows "wal_reader_open X (Ok (take (40 + k) (wal_image X f log))) =
    Ok \<lparr>rd_records = map (visible_of X) (seq_records f (take m log)),
        rd_next_seq = f + word_of_nat m,
        rd_durable_end = (if m = 0 then saturating_sub_u64 f 1 else f + word_of_nat (m - 1)),
        rd_terminator = Some (prefix_terminator 40 k log)\<rparr>"
proof -
  let ?bs = "take (40 + k) (wal_image X f log)" and ?rs = "seq_records f (take m log)"
  obtain rest where img: "?bs = header_bytes f @ records_image X ?rs @ rest"
    using take_wal_image [OF m] by blast
  have rep: "replay X ?bs = \<lparr>rep_records = ?rs, rep_terminator = prefix_terminator 40 k log\<rparr>"
    using replay_prefix [OF fits] m by simp
  have hdr: "wal_decode_header ?bs = Ok \<lparr>first_seq = f\<rparr>"
    unfolding img by (rule wal_decode_header_bytes)
  have "length ?bs \<le> usize_max" using len by simp
  then have "length (header_bytes f) + length (records_image X ?rs) \<le> usize_max"
    unfolding img by simp
  then have rec: "recover_visible ?bs (recovered_ranges ?rs 40) = Ok (map (visible_of X) ?rs)"
    unfolding img using recover_visible_image [of "header_bytes f" X ?rs rest] by simp
  have ml: "m \<le> length log" using m whole_records_le by simp
  have lst: "vr_seq (last (map (visible_of X) ?rs)) = f + word_of_nat (m - 1)" if "0 < m"
  proof -
    have ne: "take m log \<noteq> []" using that ml by auto
    then have "?rs \<noteq> []" by (metis length_seq_records length_0_conv)
    then show ?thesis
      using seq_records_last [OF ne, of f] ml by (simp add: last_map visible_of_def min_absorb2)
  qed
  have emp: "(?rs = []) = (m = 0)"
    using ml by (metis length_0_conv length_seq_records length_take min_absorb2)
  have nxt: "saturating_add_u64 (f + word_of_nat (m - 1)) 1 = f + word_of_nat m" if pos: "0 < m"
  proof -
    from pos obtain j where j: "m = Suc j" by (cases m) auto
    have "unat f + j + 1 \<le> usize_max" using fits ml j by (auto simp: log_fits_def)
    then show ?thesis
      using unat_seq_add [of f j] by (simp add: j saturating_add_u64_def algebra_simps)
  qed
  show ?thesis
    unfolding wal_reader_open_def
    using rep hdr rec emp lst nxt prefix_terminator_header [of 40 k log]
    by (auto simp: Let_def wal_consts split: replay_terminator.splits)
qed

section \<open>The wedged writer\<close>

text \<open>
  No thread leads, yet the barrier flag is set: nobody will ever be elected again.
\<close>

definition wal_wedged :: "wal_sys \<Rightarrow> bool" where
  "wal_wedged s \<longleftrightarrow> sys_leader s = NoLeader \<and> barrier_in_flight (sys_state s)"

lemma stage_barrier:
  "stage X maxb op payload st = (out, st') \<Longrightarrow> barrier_in_flight st \<Longrightarrow>
   barrier_in_flight st' \<and> durable_end st' = durable_end st \<and> (\<forall>seq. out \<noteq> Staged seq True)"
  by (auto simp: stage_def stage_once_def Let_def update_current_group_def
      split: sum.splits option.splits if_splits)

lemma wal_wedged_step:
  assumes X: "xxh3_streaming X" and inv: "wal_inv X s" and w: "wal_wedged s" and st: "wal_step X s t"
  shows "wal_wedged t \<and> durable_end (sys_state t) = durable_end (sys_state s)
    \<and> wfile (sys_writer t) = wfile (sys_writer s)"
proof -
  obtain pre n gs0 where
    ok: "state_ok X (max_group_bytes (sys_writer s)) (sys_first s) (sys_log s) pre n gs0 (sys_state s)"
    using inv by (rule wal_invE)
  have b: "barrier_in_flight (sys_state s)" and l: "sys_leader s = NoLeader"
    using w by (simp_all add: wal_wedged_def)
  from st show ?thesis
  proof (cases rule: wal_step.cases)
    case (step_stage_many records span leader st)
    from stage_many_Ok [OF X ok step_stage_many(2,3)] ok show ?thesis
      using step_stage_many(1) b l by (auto simp: wal_wedged_def batch_staged_def state_ok_def)
  next
    case (step_stage_many_fail records e st)
    from stage_many_Err [OF X ok step_stage_many_fail(2,3)] show ?thesis
      using step_stage_many_fail(1) b l by (auto simp: wal_wedged_def)
  next
    case (step_retire absorbed r st)
    from state_ok_retire [OF ok step_retire(2)] ok show ?thesis
      using step_retire(1) b l by (simp add: wal_wedged_def state_ok_def)
  next
    case (step_flush target leader st)
    from state_ok_flush [OF ok step_flush(2)] ok show ?thesis
      using step_flush(1) b l by (simp add: wal_wedged_def state_ok_def)
  next
    case (step_poison e)
    then show ?thesis using b l by (simp add: wal_wedged_def poison_def split: option.splits)
  next
    case (step_stage op payload seq leader st)
    from stage_barrier [OF step_stage(2) b] show ?thesis
      using step_stage(1) b l by (auto simp: wal_wedged_def)
  next
    case (step_stage_fail op payload e st)
    from stage_barrier [OF step_stage_fail(2) b] show ?thesis
      using step_stage_fail(1) b l by (simp add: wal_wedged_def)
  next
    case (step_stage_wait op payload st)
    from stage_barrier [OF step_stage_wait(2) b] show ?thesis
      using step_stage_wait(1) b l by (simp add: wal_wedged_def)
  qed (use l in simp_all)
qed

lemma wal_wedged_forever_inv:
  assumes X: "xxh3_streaming X" and "(wal_step X)\<^sup>*\<^sup>* s t" "wal_inv X s" "wal_wedged s"
  shows "wal_wedged t \<and> durable_end (sys_state t) = durable_end (sys_state s)
    \<and> wfile (sys_writer t) = wfile (sys_writer s) \<and> wal_inv X t"
  using assms(2-)
proof (induction rule: rtranclp_induct)
  case (step y z)
  then have "wal_inv X y" "wal_wedged y" by simp_all
  then show ?case
    using step wal_wedged_step [OF X _ _ step.hyps(2)] wal_inv_step [OF X step.hyps(2)] by simp
qed simp

section \<open>A failed writer\<close>

lemma failed_step:
  assumes X: "xxh3_streaming X" and inv: "wal_inv X s" and f: "failure (sys_state s) \<noteq> None"
    and st: "wal_step X s t"
  shows "failure (sys_state t) \<noteq> None \<and> sys_log t = sys_log s"
proof -
  obtain pre n gs0 where
    ok: "state_ok X (max_group_bytes (sys_writer s)) (sys_first s) (sys_log s) pre n gs0 (sys_state s)"
    using inv by (rule wal_invE)
  from st show ?thesis
  proof (cases rule: wal_step.cases)
    case (step_stage op payload seq leader st)
    from stage_Staged [OF X ok step_stage(2)] f show ?thesis by simp
  next
    case (step_stage_fail op payload e st)
    then show ?thesis using f stage_other by fastforce
  next
    case (step_stage_wait op payload st)
    then show ?thesis using f stage_other by fastforce
  next
    case (step_stage_many records span leader st)
    from stage_many_Ok [OF X ok step_stage_many(2,3)] f show ?thesis by (simp add: batch_staged_def)
  next
    case (step_stage_many_fail records e st)
    from stage_many_Err [OF X ok step_stage_many_fail(2,3)] f show ?thesis
      using step_stage_many_fail(1) by auto
  next
    case (step_take g q st)
    then show ?thesis using f by (auto simp: leader_take_def Let_def split: list.splits option.splits)
  next
    case (step_take_fail e st)
    then show ?thesis using f by (auto simp: leader_take_def Let_def split: list.splits option.splits)
  next
    case (step_write g q env r w)
    have "wstate w = wstate (sys_writer s)"
      using step_write(3)
      by (auto simp: write_group_def bump_def sync_file_def sync_directory_def Let_def
          split: append_outcome.splits sync_requirement.splits option.splits sum.splits if_splits)
    then show ?thesis using f step_write(1) by (simp add: sys_state_def)
  next
    case (step_finish g q fault nxt w)
    then show ?thesis
      using f leader_finish_simps [OF step_finish(3)] by (auto simp: sys_state_def split: option.splits)
  next
    case (step_flush target leader st)
    from state_ok_flush [OF ok step_flush(2)] f show ?thesis by simp
  next
    case (step_retire absorbed r st)
    from state_ok_retire [OF ok step_retire(2)] f show ?thesis using step_retire(1) by simp
  next
    case (step_poison e)
    then show ?thesis using f by (simp add: poison_def split: option.splits)
  qed
qed

lemma failed_steps:
  assumes X: "xxh3_streaming X" and "(wal_step X)\<^sup>*\<^sup>* s t" "wal_inv X s" "failure (sys_state s) \<noteq> None"
  shows "failure (sys_state t) \<noteq> None \<and> sys_log t = sys_log s \<and> wal_inv X t"
  using assms(2-)
proof (induction rule: rtranclp_induct)
  case (step y z)
  then have "wal_inv X y" "failure (sys_state y) \<noteq> None" by simp_all
  then show ?case
    using step failed_step [OF X _ _ step.hyps(2)] wal_inv_step [OF X step.hyps(2)] by simp
qed simp

section \<open>A concrete run\<close>

definition demo_init :: "nat \<Rightarrow> wal_sys" where
  "demo_init maxb =
     \<lparr>sys_writer = \<lparr>wfile = [],
        wstate = initial_state 1 [] 0 None
          [\<lparr>g_chunks = [\<lparr>ch_encoded = header_bytes 1, ch_range = (0, 40)\<rparr>],
            g_encoded_bytes = 40, g_records = 0, g_last_seq = None\<rparr>],
        wsync = Sync Full, max_group_bytes = maxb, durable_progress = 0,
        created_directory_sync = None, io_work = [0, 0, 0, 0]\<rparr>,
      sys_leader = NoLeader, sys_first = 1, sys_log = [], sys_synced = 0\<rparr>"

definition demo_io :: io_outcome where
  "demo_io = \<lparr>io_append = AppendOk, io_sync = Ok (), io_directory_sync = Ok ()\<rparr>"

text \<open>One record is committed while an oversized one is refused during the leader's write.\<close>

definition demo_wedge :: "wal_action list" where
  "demo_wedge = [DoStage 7 [1, 2, 3], DoTake, DoStage 7 (replicate 80 0), DoWrite demo_io, DoFinish,
     DoTake, DoStage 7 [4]]"

definition demo_commit :: "wal_action list" where
  "demo_commit = [DoStage 7 [1, 2, 3], DoTake, DoWrite demo_io, DoFinish, DoStageMany [(7, [4]), (8, [])]]"

definition demo_state :: "xxh3_lib \<Rightarrow> wal_action list \<Rightarrow> wal_sys" where
  "demo_state X acts = the (wal_run X acts (demo_init 100))"

lemmas wal_eval = stage_def stage_once_def encoded_record_len_eq ensure_pending_group_def
  push_empty_pending_group_def update_current_group_def encode_record_into_def
  append_record_into_eq sys_state_def set_state_def lead_def initial_state_def Let_def
  saturating_add_usize_def usize_max_def u32_max_def alloc_max_def checked_add_u64_def
  saturating_add_u64_def leader_take_def write_group_def chunk_bytes_def slice_range_def bump_def
  sync_file_def sync_directory_def leader_finish_def demo_io_def u64_of_usize_def
  RECENT_GROUP_LIMIT_def

lemma demo_init_reachable: "wal_reachable X (demo_init 100)"
proof (rule reach_init)
  have "wal_create (Err NotFound) (Ok ()) 1 \<lparr>data_file = Sync Full, directory = Sync Full\<rparr> 100 =
      Ok (sys_writer (demo_init 100))"
    by (simp add: demo_init_def wal_create_def wal_encode_header_eq saturating_sub_u64_def)
  moreover have "sys_first (demo_init 100) = 1" by (simp add: demo_init_def)
  ultimately show "wal_init (demo_init 100)"
    unfolding wal_init_def by (auto simp: demo_init_def usize_max_def)
qed

lemma demo_wedge_facts:
  assumes "xxh3_streaming X"
  shows "wal_reachable X (demo_state X demo_wedge) \<and> wal_wedged (demo_state X demo_wedge)
    \<and> durable_end (sys_state (demo_state X demo_wedge)) = Some 1
    \<and> sys_log (demo_state X demo_wedge) = [(7, [1, 2, 3]), (7, [4])]"
proof -
  have "\<exists>s. wal_run X demo_wedge (demo_init 100) = Some s \<and> wal_wedged s
      \<and> durable_end (sys_state s) = Some 1 \<and> sys_log s = [(7, [1, 2, 3]), (7, [4])]"
    using assms by (simp add: demo_init_def demo_wedge_def wal_eval wal_wedged_def)
  then show ?thesis
    using wal_run_reachable [OF demo_init_reachable] by (auto simp: demo_state_def)
qed

lemma demo_commit_facts:
  assumes "xxh3_streaming X"
  shows "wal_reachable X (demo_state X demo_commit)
    \<and> durable_end (sys_state (demo_state X demo_commit)) = Some 1
    \<and> sys_synced (demo_state X demo_commit) = 65 \<and> sys_first (demo_state X demo_commit) = 1
    \<and> max_group_bytes (sys_writer (demo_state X demo_commit)) = 100
    \<and> pending_groups (sys_state (demo_state X demo_commit)) \<noteq> []
    \<and> sys_log (demo_state X demo_commit) = [(7, [1, 2, 3]), (7, [4]), (8, [])]"
proof -
  have "\<exists>s. wal_run X demo_commit (demo_init 100) = Some s \<and> durable_end (sys_state s) = Some 1
      \<and> sys_synced s = 65 \<and> sys_first s = 1 \<and> max_group_bytes (sys_writer s) = 100
      \<and> pending_groups (sys_state s) \<noteq> [] \<and> sys_log s = [(7, [1, 2, 3]), (7, [4]), (8, [])]"
    using assms by (simp add: demo_init_def demo_commit_def wal_eval stage_many_def fill_record.simps)
  then show ?thesis
    using wal_run_reachable [OF demo_init_reachable] by (auto simp: demo_state_def)
qed

end
