(* ===== verification/Wal_Theorems.thy ===== *)
theory Wal_Theorems
  imports Wal_Properties
begin

text \<open>
  The properties of the write-ahead log, each with a concrete instance of its hypotheses.
\<close>

section \<open>Properties of the log\<close>




text \<open>
  C34: A group never exceeds the writer's byte cap, in any reachable state, and its accounted size
  is the number of bytes its chunks carry; so one vectored append writes at most the cap.
\<close>

theorem wal_group_cap:
  assumes "xxh3_streaming X" "wal_reachable X s" "g \<in> set (pending_groups (sys_state s))"
  shows "g_encoded_bytes g \<le> max_group_bytes (sys_writer s)
    \<and> (\<exists>bufs. collect_chunks (g_chunks g) = Ok bufs \<and> length (concat bufs) = g_encoded_bytes g)"
  using wal_reachable_inv [OF assms(1,2)]
proof (rule wal_invE)
  fix pre n gs0
  assume "state_ok X (max_group_bytes (sys_writer s)) (sys_first s) (sys_log s) pre n gs0 (sys_state s)"
  then have "group_wf (max_group_bytes (sys_writer s)) g"
    using assms(3) by (auto simp: state_ok_def queue_ok_def)
  then show ?thesis
    using collect_chunks_valid [of "g_chunks g"] by (auto simp: group_wf_def group_data_def)
qed

theorem wal_group_cap_witness:
  "g_encoded_bytes (hd (pending_groups (sys_state (demo_state sum_lib demo_commit)))) \<le> 100"
  using wal_group_cap [OF sum_lib_streaming, of "demo_state sum_lib demo_commit"]
    demo_commit_facts [OF sum_lib_streaming] hd_in_set by fastforce

text \<open>
  C4: Read-your-writes and retirement. The writer's visible records are a suffix of everything
  committed: consecutive sequences, each decoding to the committed payload, ending with the newest
  record. Whatever retirement removed is covered by the durable end.
\<close>

theorem wal_visible_suffix:
  assumes "xxh3_streaming X" "wal_reachable X s"
  shows "\<exists>k. k + length (visible (sys_state s)) = length (sys_log s)
    \<and> (\<forall>i < length (visible (sys_state s)).
         vr_seq (visible (sys_state s) ! i) = sys_first s + word_of_nat (k + i)
         \<and> vr_op (visible (sys_state s) ! i) = fst (sys_log s ! (k + i))
         \<and> vr_payload X (visible (sys_state s) ! i) = Ok (snd (sys_log s ! (k + i))))
    \<and> (0 < k \<longrightarrow> (\<exists>d. durable_end (sys_state s) = Some d \<and> sys_first s + word_of_nat (k - 1) \<le> d))"
  using wal_reachable_inv [OF assms]
proof (rule wal_invE)
  fix pre n gs0
  assume ok: "state_ok X (max_group_bytes (sys_writer s)) (sys_first s) (sys_log s) pre n gs0 (sys_state s)"
  let ?f = "sys_first s" and ?log = "sys_log s" and ?vs = "visible (sys_state s)"
  obtain k where k: "k \<le> n" and m: "list_all2 (vr_matches X) ?vs (drop k (seq_records ?f ?log))"
    using ok by (auto simp: state_ok_def)
  have fits: "log_fits ?f ?log" and d: "durable_end (sys_state s) = durable_count ?f n"
    using ok by (simp_all add: state_ok_def)
  have n: "n \<le> length ?log" by (rule state_ok_count [OF ok])
  have len: "k + length ?vs = length ?log"
    using list_all2_lengthD [OF m] k n by simp
  have "vr_seq (?vs ! i) = ?f + word_of_nat (k + i) \<and> vr_op (?vs ! i) = fst (?log ! (k + i))
      \<and> vr_payload X (?vs ! i) = Ok (snd (?log ! (k + i)))" if "i < length ?vs" for i
  proof -
    have "vr_matches X (?vs ! i) (seq_records ?f ?log ! (k + i))"
      using list_all2_nthD [OF m that] len k n by simp
    moreover have "length (snd (?log ! (k + i))) \<le> u32_max"
      using fits len that by (auto simp: log_fits_def)
    ultimately show ?thesis
      using len that decode_record_bytes [of "seq_records ?f ?log ! (k + i)" X "[]"]
      by (simp add: vr_matches_def seq_records_nth vr_payload_def)
  qed
  moreover have "?f + word_of_nat (k - 1) \<le> ?f + word_of_nat (n - 1)"
    using fits n k by (intro seq_add_mono) (auto simp: log_fits_def)
  ultimately show ?thesis
    using len d k by (intro exI [of _ k]) (auto simp: durable_count_def)
qed

theorem wal_visible_suffix_witness:
  "\<exists>k. k + length (visible (sys_state (demo_state sum_lib demo_commit))) =
     length (sys_log (demo_state sum_lib demo_commit))"
  using wal_visible_suffix [OF sum_lib_streaming, of "demo_state sum_lib demo_commit"]
    demo_commit_facts [OF sum_lib_streaming] by blast





text \<open>
  Encoding a log image and replaying it returns every record with its sequence and a clean
  end, for any payloads that fit their 32-bit length field and any sequence range that fits in
  64 bits.
\<close>

theorem wal_image_roundtrip:
  assumes "xxh3_streaming X" "log_fits s log"
  shows "\<exists>bs. encode_wal_image X s log = Ok bs
    \<and> replay X bs = \<lparr>rep_records = seq_records s log, rep_terminator = CleanEnd\<rparr>"
  using encode_wal_image_eq [OF assms] replay_image [OF assms(2)] by blast

theorem wal_image_roundtrip_witness:
  "\<exists>bs. encode_wal_image sum_lib 1 [(7, [1, 2]), (8, [])] = Ok bs
     \<and> replay sum_lib bs = \<lparr>rep_records = [\<lparr>rec_seq = 1, rec_op = 7, rec_payload = [1, 2]\<rparr>,
         \<lparr>rec_seq = 2, rec_op = 8, rec_payload = []\<rparr>], rep_terminator = CleanEnd\<rparr>"
  using wal_image_roundtrip [OF sum_lib_streaming, of 1 "[(7, [1, 2]), (8, [])]"]
  by (simp add: log_fits_def usize_max_def u32_max_def)

text \<open>
  C24: Opening a log that was cut at any byte after its header recovers exactly the records that
  are whole, resumes at the sequence after the last of them, and reports the cut.
\<close>

theorem wal_torn_open:
  assumes "log_fits f log" "40 + k \<le> usize_max" "40 + k \<le> length (wal_image X f log)"
  shows "wal_reader_open X (Ok (take (40 + k) (wal_image X f log))) =
    (let m = whole_records k log in
     Ok \<lparr>rd_records = map (visible_of X) (seq_records f (take m log)),
         rd_next_seq = f + word_of_nat m,
         rd_durable_end = (if m = 0 then saturating_sub_u64 f 1 else f + word_of_nat (m - 1)),
         rd_terminator = Some (prefix_terminator 40 k log)\<rparr>)"
  using wal_reader_open_prefix [OF assms refl] by (simp add: Let_def)

theorem wal_torn_open_witness:
  "wal_reader_open sum_lib (Ok (take 70 (wal_image sum_lib 1 [(7, [1, 2]), (8, [3])]))) =
     Ok \<lparr>rd_records = [visible_of sum_lib \<lparr>rec_seq = 1, rec_op = 7, rec_payload = [1, 2]\<rparr>],
         rd_next_seq = 2, rd_durable_end = 1,
         rd_terminator = Some (CorruptAt 64 (RecordCorruption Tail (HeaderTruncated 14 6)))\<rparr>"
  using wal_torn_open [of 1 "[(7, [1, 2]), (8, [3])]" 30 sum_lib]
  by (simp add: log_fits_def usize_max_def u32_max_def length_wal_image image_len_def torn_error_def)

text \<open>
  C39: Failure is final. Once the writer has recorded a failure, no later interleaving of steps
  clears it or admits another record.
\<close>

theorem wal_failure_final:
  assumes "xxh3_streaming X" "wal_reachable X s" "failure (sys_state s) = Some e" "(wal_step X)\<^sup>*\<^sup>* s t"
  shows "failure (sys_state t) \<noteq> None \<and> sys_log t = sys_log s"
  using failed_steps [OF assms(1,4) wal_reachable_inv [OF assms(1,2)]] assms(3) by simp

theorem wal_failure_final_witness:
  "failure (sys_state (set_state (poison NotFound (sys_state (demo_init 100))) (demo_init 100))) \<noteq> None"
proof -
  let ?s = "set_state (poison NotFound (sys_state (demo_init 100))) (demo_init 100)"
  have "wal_reachable sum_lib ?s"
    using demo_init_reachable by (rule reach_step) (rule step_poison)
  moreover have "failure (sys_state ?s) = Some NotFound"
    by (simp add: demo_init_def poison_def sys_state_def initial_state_def)
  ultimately show ?thesis
    using wal_failure_final [OF sum_lib_streaming _ _ rtranclp.rtrancl_refl] by blast
qed

text \<open>
  C27: The wedged writer. After a leader has dropped the empty group that a rejected record left in
  the queue, no thread leads while the barrier flag stays set; from then on no step of any thread
  writes a byte or advances the durable end, so a caller that waits for a newer sequence is never
  answered. The witness reaches such a state with an accepted, non-durable record.
\<close>

theorem wal_wedged_forever:
  assumes "xxh3_streaming X" "wal_reachable X s" "wal_wedged s" "(wal_step X)\<^sup>*\<^sup>* s t"
    "durable_end (sys_state s) = Some d" "d < q"
  shows "wal_wedged t \<and> wfile (sys_writer t) = wfile (sys_writer s)
    \<and> wait_durable_once q (sys_state t) \<noteq> WaitDone"
  using wal_wedged_forever_inv [OF assms(1,4) wal_reachable_inv [OF assms(1,2)] assms(3)] assms(5,6)
  by (simp add: wait_durable_once_def split: option.splits)

theorem wal_wedged_forever_witness:
  "wal_reachable sum_lib (demo_state sum_lib demo_wedge)
   \<and> sys_log (demo_state sum_lib demo_wedge) = [(7, [1, 2, 3]), (7, [4])]
   \<and> wait_durable_once 2 (sys_state (demo_state sum_lib demo_wedge)) \<noteq> WaitDone"
  using wal_wedged_forever [OF sum_lib_streaming, of "demo_state sum_lib demo_wedge"
      "demo_state sum_lib demo_wedge" 1 2] demo_wedge_facts [OF sum_lib_streaming]
  by simp

end
