(* ===== verification/Codec.thy ===== *)
theory Codec
  imports Prelude
begin

text \<open>
  The interface every binary field codec of the store follows: a reader over a byte cursor and
  the byte string it accepts. \<open>codec\<close> is the round-trip contract, \<open>strict_codec\<close> adds that
  nothing else is accepted; repetition preserves both. Also the UTF-8 check of
  \<open>str::from_utf8\<close>, and the cursor both payload decoders use.
\<close>

record cursor =
  cur_bytes :: bytes
  cur_offset :: nat

definition cursor_at :: "bytes \<Rightarrow> bytes \<Rightarrow> cursor" where
  "cursor_at pre rest = \<lparr>cur_bytes = pre @ rest, cur_offset = length pre\<rparr>"

text \<open>A Rust slice is never longer than \<open>isize::MAX\<close>, so offsets into it fit in \<open>usize\<close>.\<close>

definition addressable :: "bytes \<Rightarrow> bytes \<Rightarrow> bool" where
  "addressable pre rest \<longleftrightarrow> length pre + length rest \<le> alloc_max"

lemma addressable_append [simp]: "addressable (pre @ xs) rest \<longleftrightarrow> addressable pre (xs @ rest)"
  by (simp add: addressable_def add.assoc)

lemma addressable_Nil [simp]: "addressable [] (xs @ rest) \<longleftrightarrow> addressable xs rest"
  by (simp add: addressable_def)

lemma addressableD: "addressable pre (xs @ rest) \<Longrightarrow> length pre + length xs \<le> usize_max"
  by (simp add: addressable_def alloc_max_def usize_max_def)

text \<open>Repeating a reader, as \<open>for _ in 0..count\<close> does.\<close>

primrec read_many :: "nat \<Rightarrow> (cursor \<Rightarrow> ('e, 'a \<times> cursor) result) \<Rightarrow> cursor \<Rightarrow> ('e, 'a list \<times> cursor) result" where
  "read_many 0 rd c = Ok ([], c)"
| "read_many (Suc n) rd c =
     and_then (rd c) (\<lambda>(x, c1). and_then (read_many n rd c1) (\<lambda>(xs, c2). Ok (x # xs, c2)))"

text \<open>Reading a field that a presence bit announces.\<close>

definition read_if :: "bool \<Rightarrow> (cursor \<Rightarrow> ('e, 'a \<times> cursor) result) \<Rightarrow> cursor \<Rightarrow> ('e, 'a option \<times> cursor) result" where
  "read_if present rd c =
     (if present then and_then (rd c) (\<lambda>(x, c1). Ok (Some x, c1)) else Ok (None, c))"

definition enc_opt :: "('a \<Rightarrow> bytes) \<Rightarrow> 'a option \<Rightarrow> bytes" where
  "enc_opt enc x = (case x of None \<Rightarrow> [] | Some y \<Rightarrow> enc y)"

lemma enc_opt_simps [simp]: "enc_opt enc None = []" "enc_opt enc (Some y) = enc y"
  by (simp_all add: enc_opt_def)

locale codec =
  fixes enc :: "'a \<Rightarrow> bytes"
    and rd :: "cursor \<Rightarrow> ('e, 'a \<times> cursor) result"
    and valid :: "'a \<Rightarrow> bool"
  assumes rd_enc: "valid x \<Longrightarrow> addressable pre (enc x @ rest) \<Longrightarrow>
    rd (cursor_at pre (enc x @ rest)) = Ok (x, cursor_at (pre @ enc x) rest)"
begin

lemma rd_enc_end: "valid x \<Longrightarrow> addressable pre (enc x) \<Longrightarrow>
    rd (cursor_at pre (enc x)) = Ok (x, cursor_at (pre @ enc x) [])"
  using rd_enc [of x pre "[]"] by simp

lemma read_many_enc:
  assumes "\<forall>x \<in> set xs. valid x" "addressable pre (concat (map enc xs) @ rest)"
  shows "read_many (length xs) rd (cursor_at pre (concat (map enc xs) @ rest)) =
    Ok (xs, cursor_at (pre @ concat (map enc xs)) rest)"
  using assms
proof (induction xs arbitrary: pre)
  case (Cons x xs)
  then show ?case
    using rd_enc [of x pre "concat (map enc xs) @ rest"] by simp
qed simp

lemma read_if_enc:
  assumes "\<forall>y. x = Some y \<longrightarrow> valid y" "addressable pre (enc_opt enc x @ rest)"
  shows "read_if (x \<noteq> None) rd (cursor_at pre (enc_opt enc x @ rest)) =
    Ok (x, cursor_at (pre @ enc_opt enc x) rest)"
  using assms rd_enc by (cases x) (auto simp: read_if_def)

text \<open>Encodings are prefix-free: a codec never reads past a shorter valid encoding.\<close>

lemma enc_prefix_free:
  assumes "valid x" "valid y" "enc x @ r = enc y @ s" "length (enc x @ r) \<le> alloc_max"
  shows "x = y \<and> r = s"
proof -
  have "rd (cursor_at [] (enc x @ r)) = Ok (x, cursor_at (enc x) r)"
    using rd_enc [of x "[]" r] assms(1,4) by (simp add: addressable_def)
  moreover have "rd (cursor_at [] (enc y @ s)) = Ok (y, cursor_at (enc y) s)"
    using rd_enc [of y "[]" s] assms(2,3,4) by (simp add: addressable_def)
  ultimately show ?thesis using assms(3) by simp
qed

end

locale strict_codec = codec +
  assumes rd_canon: "rd (cursor_at pre bs) = Ok (x, c) \<Longrightarrow> addressable pre bs \<Longrightarrow>
    valid x \<and> (\<exists>rest. bs = enc x @ rest \<and> c = cursor_at (pre @ enc x) rest)"
begin

lemma read_many_canon:
  assumes "read_many n rd (cursor_at pre bs) = Ok (xs, c)" "addressable pre bs"
  shows "length xs = n \<and> (\<forall>x \<in> set xs. valid x)
    \<and> (\<exists>rest. bs = concat (map enc xs) @ rest \<and> c = cursor_at (pre @ concat (map enc xs)) rest)"
  using assms
proof (induction n arbitrary: pre bs xs)
  case (Suc n)
  then obtain x c1 xs' where r: "rd (cursor_at pre bs) = Ok (x, c1)" "read_many n rd c1 = Ok (xs', c)"
    and xs: "xs = x # xs'"
    by (auto simp: result_Inr split: prod.splits)
  from rd_canon [OF r(1) Suc.prems(2)] obtain rest where
    x: "valid x" "bs = enc x @ rest" "c1 = cursor_at (pre @ enc x) rest" by blast
  from Suc.IH [of "pre @ enc x" rest xs'] show ?case
    using r(2) x xs Suc.prems(2) by auto
qed simp

lemma read_if_canon:
  assumes "read_if b rd (cursor_at pre bs) = Ok (x, c)" "addressable pre bs"
  shows "b = (x \<noteq> None) \<and> (\<forall>y. x = Some y \<longrightarrow> valid y)
    \<and> (\<exists>rest. bs = enc_opt enc x @ rest \<and> c = cursor_at (pre @ enc_opt enc x) rest)"
  using assms rd_canon [OF _ assms(2)] by (auto simp: read_if_def result_Inr split: if_splits)

end

section \<open>Building codecs from codecs\<close>

text \<open>Reading two fields in order, and rejecting or converting a field after reading it.\<close>

definition read_pair ::
  "(cursor \<Rightarrow> ('e, 'a \<times> cursor) result) \<Rightarrow> (cursor \<Rightarrow> ('e, 'b \<times> cursor) result)
   \<Rightarrow> cursor \<Rightarrow> ('e, ('a \<times> 'b) \<times> cursor) result" where
  "read_pair r1 r2 c = and_then (r1 c) (\<lambda>(x, c). and_then (r2 c) (\<lambda>(y, c). Ok ((x, y), c)))"

definition read_check ::
  "('a \<Rightarrow> ('e, 'b) result) \<Rightarrow> (cursor \<Rightarrow> ('e, 'a \<times> cursor) result) \<Rightarrow> cursor \<Rightarrow> ('e, 'b \<times> cursor) result" where
  "read_check f rd c = and_then (rd c) (\<lambda>(x, c). and_then (f x) (\<lambda>y. Ok (y, c)))"

lemma strict_codec_pair:
  assumes "strict_codec e1 r1 v1" "strict_codec e2 r2 v2"
  shows "strict_codec (\<lambda>(x, y). e1 x @ e2 y) (read_pair r1 r2) (\<lambda>(x, y). v1 x \<and> v2 y)"
proof
  show "read_pair r1 r2 (cursor_at pre ((case x of (a, b) \<Rightarrow> e1 a @ e2 b) @ rest)) =
      Ok (x, cursor_at (pre @ (case x of (a, b) \<Rightarrow> e1 a @ e2 b)) rest)"
    if "case x of (a, b) \<Rightarrow> v1 a \<and> v2 b" "addressable pre ((case x of (a, b) \<Rightarrow> e1 a @ e2 b) @ rest)"
    for x pre rest
  proof (cases x)
    case (Pair a b)
    have "r1 (cursor_at pre (e1 a @ e2 b @ rest)) = Ok (a, cursor_at (pre @ e1 a) (e2 b @ rest))"
      "r2 (cursor_at (pre @ e1 a) (e2 b @ rest)) = Ok (b, cursor_at ((pre @ e1 a) @ e2 b) rest)"
      using that Pair codec.rd_enc [OF strict_codec.axioms(1) [OF assms(1)], of a pre "e2 b @ rest"]
        codec.rd_enc [OF strict_codec.axioms(1) [OF assms(2)], of b "pre @ e1 a" rest]
      by simp_all
    then show ?thesis using Pair by (simp add: read_pair_def)
  qed
  show "(case x of (a, b) \<Rightarrow> v1 a \<and> v2 b) \<and> (\<exists>rest. bs = (case x of (a, b) \<Rightarrow> e1 a @ e2 b) @ rest
      \<and> c = cursor_at (pre @ (case x of (a, b) \<Rightarrow> e1 a @ e2 b)) rest)"
    if r: "read_pair r1 r2 (cursor_at pre bs) = Ok (x, c)" and ad: "addressable pre bs" for pre bs x c
  proof -
    from r obtain a c1 b where ab: "r1 (cursor_at pre bs) = Ok (a, c1)" "r2 c1 = Ok (b, c)" "x = (a, b)"
      by (auto simp: read_pair_def result_Inr)
    from strict_codec.rd_canon [OF assms(1) ab(1) ad] obtain r1' where
      1: "v1 a" "bs = e1 a @ r1'" "c1 = cursor_at (pre @ e1 a) r1'" by blast
    from strict_codec.rd_canon [OF assms(2), of "pre @ e1 a" r1' b c] ab(2) 1 ad obtain r2' where
      2: "v2 b" "r1' = e2 b @ r2'" "c = cursor_at ((pre @ e1 a) @ e2 b) r2'" by auto
    show ?thesis using 1 2 ab(3) by simp
  qed
qed

lemma strict_codec_check:
  assumes "strict_codec e r v"
    and enc: "\<And>y. v' y \<Longrightarrow> v (g y) \<and> f (g y) = Ok y"
    and dec: "\<And>x y. v x \<Longrightarrow> f x = Ok y \<Longrightarrow> v' y \<and> g y = x"
  shows "strict_codec (\<lambda>y. e (g y)) (read_check f r) v'"
proof
  show "read_check f r (cursor_at pre (e (g y) @ rest)) = Ok (y, cursor_at (pre @ e (g y)) rest)"
    if "v' y" "addressable pre (e (g y) @ rest)" for y pre rest
    using codec.rd_enc [OF strict_codec.axioms(1) [OF assms(1)], of "g y" pre rest] that enc
    by (simp add: read_check_def)
  show "v' y \<and> (\<exists>rest. bs = e (g y) @ rest \<and> c = cursor_at (pre @ e (g y)) rest)"
    if "read_check f r (cursor_at pre bs) = Ok (y, c)" "addressable pre bs" for pre bs y c
  proof -
    from that obtain x where x: "r (cursor_at pre bs) = Ok (x, c)" "f x = Ok y"
      by (auto simp: read_check_def result_Inr)
    from strict_codec.rd_canon [OF assms(1) x(1) that(2)] dec [OF _ x(2)] show ?thesis by auto
  qed
qed

text \<open>
  The contract of a cursor's raw read. Every decoder of the store is built on one such function;
  fixed-width integers, fixed-length fields and length-prefixed fields follow from it.
\<close>

locale byte_source =
  fixes tk :: "nat \<Rightarrow> cursor \<Rightarrow> ('e, bytes \<times> cursor) result"
  assumes tk_enc: "addressable pre (bs @ rest) \<Longrightarrow> n = length bs \<Longrightarrow>
      tk n (cursor_at pre (bs @ rest)) = Ok (bs, cursor_at (pre @ bs) rest)"
    and tk_canon: "tk n (cursor_at pre bs) = Ok (x, c) \<Longrightarrow>
      length x = n \<and> (\<exists>rest. bs = x @ rest \<and> c = cursor_at (pre @ x) rest)"
begin

lemma raw_codec: "strict_codec (\<lambda>x. x) (tk n) (\<lambda>x. length x = n)"
  by unfold_locales (use tk_enc tk_canon in blast)+

lemma int_codec:
  assumes rd: "\<And>c. rd c = map_ok (\<lambda>(bs, c1). (from_le_bytes bs, c1)) (tk n c)"
    and w: "8 dvd LENGTH('a::len)" "n = LENGTH('a) div 8"
  shows "strict_codec (to_le_bytes :: 'a word \<Rightarrow> bytes) rd (\<lambda>_. True)"
proof
  show "rd (cursor_at pre (to_le_bytes x @ rest)) = Ok (x, cursor_at (pre @ to_le_bytes x) rest)"
    if "addressable pre (to_le_bytes x @ rest)" for x pre rest
    using tk_enc [OF that, of n] w by (simp add: rd from_to_le_bytes)
  show "True \<and> (\<exists>rest. bs = to_le_bytes x @ rest \<and> c = cursor_at (pre @ to_le_bytes x) rest)"
    if "rd (cursor_at pre bs) = Ok (x, c)" for pre bs x c
  proof -
    from that obtain b rest where b: "length b = n" "x = from_le_bytes b" "bs = b @ rest"
      "c = cursor_at (pre @ b) rest"
      by (auto simp: rd result_Inr dest!: tk_canon)
    have "b = to_le_bytes x" using to_from_le_bytes [of b, where 'a = 'a] b w by simp
    then show ?thesis using b by auto
  qed
qed

lemma prefixed_codec:
  assumes "strict_codec (to_le_bytes :: u32 \<Rightarrow> bytes) rd32 (\<lambda>_. True)"
    and rd: "\<And>c. rd c = and_then (rd32 c) (\<lambda>(n, c). tk (unat n) c)"
  shows "strict_codec (\<lambda>x. to_le_bytes (word_of_nat (length x) :: u32) @ x) rd (\<lambda>x. length x \<le> u32_max)"
proof
  show "rd (cursor_at pre ((to_le_bytes (word_of_nat (length x) :: u32) @ x) @ rest)) =
      Ok (x, cursor_at (pre @ to_le_bytes (word_of_nat (length x) :: u32) @ x) rest)"
    if "length x \<le> u32_max" "addressable pre ((to_le_bytes (word_of_nat (length x) :: u32) @ x) @ rest)"
    for x pre rest
    using that codec.rd_enc [OF strict_codec.axioms(1) [OF assms(1)] TrueI, of pre "word_of_nat (length x)" "x @ rest"]
      tk_enc [of "pre @ to_le_bytes (word_of_nat (length x) :: u32)" x rest]
    by (simp add: rd unat_word_of_nat_u32)
  show "length x \<le> u32_max \<and> (\<exists>rest. bs = (to_le_bytes (word_of_nat (length x) :: u32) @ x) @ rest
      \<and> c = cursor_at (pre @ to_le_bytes (word_of_nat (length x) :: u32) @ x) rest)"
    if r: "rd (cursor_at pre bs) = Ok (x, c)" and ad: "addressable pre bs" for pre bs x c
  proof -
    from r obtain n c1 where n: "rd32 (cursor_at pre bs) = Ok (n, c1)" "tk (unat n) c1 = Ok (x, c)"
      by (auto simp: rd result_Inr)
    from strict_codec.rd_canon [OF assms(1) n(1) ad] obtain r1 where
      1: "bs = to_le_bytes n @ r1" "c1 = cursor_at (pre @ to_le_bytes n) r1" by blast
    from tk_canon [OF n(2) [unfolded 1(2)]] obtain r2 where
      2: "length x = unat n" "r1 = x @ r2" "c = cursor_at ((pre @ to_le_bytes n) @ x) r2" by blast
    show ?thesis using 1 2 unat_u32_le [of n] by simp
  qed
qed

end

section \<open>UTF-8\<close>

definition utf8_cont :: "u8 \<Rightarrow> bool" where
  "utf8_cont b \<longleftrightarrow> 0x80 \<le> b \<and> b \<le> 0xBF"

text \<open>
  The well-formed byte sequences of Unicode table 3-7, which is what \<open>str::from_utf8\<close> accepts:
  no overlong forms, no surrogates, nothing above U+10FFFF.
\<close>

fun utf8_valid :: "bytes \<Rightarrow> bool" where
  "utf8_valid [] = True"
| "utf8_valid (b # bs) =
     (if b < 0x80 then utf8_valid bs
      else if 0xC2 \<le> b \<and> b \<le> 0xDF then
        (case bs of c # r \<Rightarrow> utf8_cont c \<and> utf8_valid r | [] \<Rightarrow> False)
      else if 0xE0 \<le> b \<and> b \<le> 0xEF then
        (case bs of
           c # d # r \<Rightarrow> utf8_cont c \<and> utf8_cont d \<and> (b = 0xE0 \<longrightarrow> 0xA0 \<le> c)
             \<and> (b = 0xED \<longrightarrow> c \<le> 0x9F) \<and> utf8_valid r
         | _ \<Rightarrow> False)
      else if 0xF0 \<le> b \<and> b \<le> 0xF4 then
        (case bs of
           c # d # e # r \<Rightarrow> utf8_cont c \<and> utf8_cont d \<and> utf8_cont e \<and> (b = 0xF0 \<longrightarrow> 0x90 \<le> c)
             \<and> (b = 0xF4 \<longrightarrow> c \<le> 0x8F) \<and> utf8_valid r
         | _ \<Rightarrow> False)
      else False)"

end
