(* ===== verification/Payload.thy ===== *)
theory Payload
  imports Codec Wal_Replay
begin

text \<open>
  Versioned mutation payloads inside WAL records (\<^verbatim>\<open>src/ingest/wal_payload.rs\<close>) and the document
  they carry (\<^verbatim>\<open>src/ingest/mod.rs\<close>), for the default build (feature \<open>graph-cypher\<close> off, so
  operation 10 has no decoder). Strings are their UTF-8 bytes; floats are their IEEE-754 bits.
  A \<open>usize::try_from(u32)\<close> cannot fail on the 64-bit targets.
\<close>

unbundle bit_operations_syntax

section \<open>Documents\<close>

record document_version =
  dv_doc_id :: u128
  dv_revision :: u64

datatype expected_revision = Exactly u64 | Absent

datatype predicate_value =
    PvU64 u64
  | PvId128 u128
  | PvI64 i64
  | PvF64 f64
  | PvBool bool
  | PvString bytes

record ingest_document =
  doc_version :: document_version
  expected_rev :: "expected_revision option"
  doc_vector :: "f32 list"
  doc_timestamp :: i64
  timestamp_present :: bool
  doc_metadata :: bytes
  metadata_present :: bool
  doc_text :: "bytes option"
  doc_columns :: "(u32 \<times> predicate_value) list"
  columns_present :: bool

definition ingest_document_new :: "document_version \<Rightarrow> f32 list \<Rightarrow> ingest_document" where
  "ingest_document_new version vector =
     \<lparr>doc_version = version, expected_rev = None, doc_vector = vector, doc_timestamp = 0,
      timestamp_present = False, doc_metadata = [], metadata_present = False, doc_text = None,
      doc_columns = [], columns_present = False\<rparr>"

definition with_timestamp :: "i64 \<Rightarrow> ingest_document \<Rightarrow> ingest_document" where
  "with_timestamp ts d = d\<lparr>doc_timestamp := ts, timestamp_present := True\<rparr>"

definition with_metadata :: "bytes \<Rightarrow> ingest_document \<Rightarrow> ingest_document" where
  "with_metadata m d = d\<lparr>doc_metadata := m, metadata_present := True\<rparr>"

definition with_text :: "bytes \<Rightarrow> ingest_document \<Rightarrow> ingest_document" where
  "with_text t d = d\<lparr>doc_text := Some t\<rparr>"

definition with_columns :: "(u32 \<times> predicate_value) list \<Rightarrow> ingest_document \<Rightarrow> ingest_document" where
  "with_columns cs d = d\<lparr>doc_columns := cs, columns_present := True\<rparr>"

definition with_expected_revision :: "expected_revision \<Rightarrow> ingest_document \<Rightarrow> ingest_document" where
  "with_expected_revision e d = d\<lparr>expected_rev := Some e\<rparr>"

section \<open>Operation ids, field bits and errors\<close>

definition UPSERT_V1 :: u16 where "UPSERT_V1 = 1"
definition DELETE_V1 :: u16 where "DELETE_V1 = 2"
definition METADATA_EDIT_V1 :: u16 where "METADATA_EDIT_V1 = 3"
definition UPSERT_WITH_TIMESTAMP_V1 :: u16 where "UPSERT_WITH_TIMESTAMP_V1 = 4"
definition UPSERT_WITH_METADATA_V1 :: u16 where "UPSERT_WITH_METADATA_V1 = 5"
definition UPSERT_WITH_TIMESTAMP_AND_METADATA_V1 :: u16 where "UPSERT_WITH_TIMESTAMP_AND_METADATA_V1 = 6"
definition UPSERT_V2 :: u16 where "UPSERT_V2 = 7"
definition UPSERT_V2_BATCH_MEMBER :: u16 where "UPSERT_V2_BATCH_MEMBER = 8"
definition GRAPH_COMMIT_V1 :: u16 where "GRAPH_COMMIT_V1 = 10"
definition MIXED_BATCH_MEMBER_V1 :: u16 where "MIXED_BATCH_MEMBER_V1 = 11"

definition MIXED_BATCH_MEMBER_FRAMED_OVERHEAD :: nat where
  "MIXED_BATCH_MEMBER_FRAMED_OVERHEAD = 10 + MIN_RECORD_LEN"

definition UPSERT_V2_VECTOR :: u32 where "UPSERT_V2_VECTOR = push_bit 0 1"
definition UPSERT_V2_TEXT :: u32 where "UPSERT_V2_TEXT = push_bit 1 1"
definition UPSERT_V2_TIMESTAMP :: u32 where "UPSERT_V2_TIMESTAMP = push_bit 2 1"
definition UPSERT_V2_METADATA :: u32 where "UPSERT_V2_METADATA = push_bit 3 1"
definition UPSERT_V2_TYPED_COLUMNS :: u32 where "UPSERT_V2_TYPED_COLUMNS = push_bit 4 1"

definition UPSERT_V2_KNOWN_FIELDS :: u32 where
  "UPSERT_V2_KNOWN_FIELDS = UPSERT_V2_VECTOR OR UPSERT_V2_TEXT OR UPSERT_V2_TIMESTAMP
     OR UPSERT_V2_METADATA OR UPSERT_V2_TYPED_COLUMNS"

definition PAYLOAD_VERSION :: u16 where "PAYLOAD_VERSION = 1"

definition VALUE_NULL :: u8 where "VALUE_NULL = 0"
definition VALUE_U64 :: u8 where "VALUE_U64 = 1"
definition VALUE_I64 :: u8 where "VALUE_I64 = 2"
definition VALUE_F64 :: u8 where "VALUE_F64 = 3"
definition VALUE_BOOL :: u8 where "VALUE_BOOL = 4"
definition VALUE_STRING :: u8 where "VALUE_STRING = 5"
definition VALUE_ID128 :: u8 where "VALUE_ID128 = 6"

lemmas payload_consts = UPSERT_V1_def DELETE_V1_def METADATA_EDIT_V1_def UPSERT_WITH_TIMESTAMP_V1_def
  UPSERT_WITH_METADATA_V1_def UPSERT_WITH_TIMESTAMP_AND_METADATA_V1_def UPSERT_V2_def
  UPSERT_V2_BATCH_MEMBER_def GRAPH_COMMIT_V1_def MIXED_BATCH_MEMBER_V1_def PAYLOAD_VERSION_def
  VALUE_NULL_def VALUE_U64_def VALUE_I64_def VALUE_F64_def VALUE_BOOL_def VALUE_STRING_def
  VALUE_ID128_def

lemmas field_bits = UPSERT_V2_VECTOR_def UPSERT_V2_TEXT_def UPSERT_V2_TIMESTAMP_def
  UPSERT_V2_METADATA_def UPSERT_V2_TYPED_COLUMNS_def UPSERT_V2_KNOWN_FIELDS_def

datatype payload_error =
    UnknownOperation u16
  | TransactionBinding
  | PayloadLengthOverflow
  | PayloadTruncated
  | PayloadVersion u16
  | PayloadFlags u16
  | PayloadReserved u32
  | EmptyVector
  | EmptyDelete
  | NonFiniteVector nat
  | ValueKind u8
  | ValueLength u8 nat nat
    \<comment> \<open>kind, expected, actual\<close>
  | BooleanByte u8
  | Utf8Invalid
  | PayloadTrailingBytes nat
  | FieldBitmap u32
  | LexicalReplay string
  | ColumnReplay string
  | BatchPosition u32 u32
    \<comment> \<open>index, count\<close>
  | OrphanBatchMember u32 u32

datatype metadata_value =
    MvNull
  | MvU64 u64
  | MvId128 u128
  | MvI64 i64
  | MvF64 f64
  | MvBool bool
  | MvString bytes

record metadata_edit =
  me_version :: document_version
  me_column :: u32
  me_value :: metadata_value

datatype mutation_payload =
    MixedBatchMember u32 u32 u16 mutation_payload
    \<comment> \<open>index, count, inner operation, inner mutation\<close>
  | Upsert ingest_document
  | Delete "u128 list"
  | MetadataEdit metadata_edit
  | BatchMember u32 u32 ingest_document

text \<open>\<open>try_fold\<close> over the inner lengths: an overflow anywhere makes the whole sum \<open>None\<close>.\<close>

primrec mixed_sum :: "nat list \<Rightarrow> nat \<Rightarrow> nat option" where
  "mixed_sum [] acc = Some acc"
| "mixed_sum (len # lens) acc =
     Option.bind (Option.bind (checked_add_usize acc len)
        (\<lambda>s. checked_add_usize s MIXED_BATCH_MEMBER_FRAMED_OVERHEAD)) (mixed_sum lens)"

definition mixed_batch_group_bytes :: "nat \<Rightarrow> nat list \<Rightarrow> nat \<Rightarrow> (wal_write_error, nat) result" where
  "mixed_batch_group_bytes hdr_bytes inner maxb =
     (case mixed_sum inner hdr_bytes of
        Some n \<Rightarrow> if n \<le> maxb then Ok n else Err (GroupTooLarge n maxb)
      | None \<Rightarrow> Err (GroupTooLarge usize_max maxb))"

section \<open>Encoding\<close>

definition f32_is_finite :: "f32 \<Rightarrow> bool" where
  "f32_is_finite bits \<longleftrightarrow> bits AND 0x7F800000 \<noteq> 0x7F800000"

definition append_header :: bytes where
  "append_header = to_le_bytes PAYLOAD_VERSION @ to_le_bytes (0 :: u16)"

definition append_version :: "document_version \<Rightarrow> bytes" where
  "append_version v = to_le_bytes (dv_doc_id v) @ to_le_bytes (dv_revision v)"

definition append_length_prefixed :: "bytes \<Rightarrow> bytes \<Rightarrow> (payload_error, bytes) result" where
  "append_length_prefixed bs output =
     and_then (ok_or PayloadLengthOverflow (u32_try_from (length bs))) (\<lambda>len.
     Ok (output @ to_le_bytes len @ bs))"

definition validate_vector :: "f32 list \<Rightarrow> (payload_error, unit) result" where
  "validate_vector v =
     (if v = [] then Err EmptyVector
      else case position (\<lambda>x. \<not> f32_is_finite x) v of
             Some i \<Rightarrow> Err (NonFiniteVector i)
           | None \<Rightarrow> Ok ())"

definition vector_bytes :: "f32 list \<Rightarrow> bytes" where
  "vector_bytes v = concat (map to_le_bytes v)"

fun predicate_to_metadata :: "predicate_value \<Rightarrow> metadata_value" where
  "predicate_to_metadata (PvId128 v) = MvId128 v"
| "predicate_to_metadata (PvU64 v) = MvU64 v"
| "predicate_to_metadata (PvI64 v) = MvI64 v"
| "predicate_to_metadata (PvF64 v) = MvF64 v"
| "predicate_to_metadata (PvBool v) = MvBool v"
| "predicate_to_metadata (PvString v) = MvString v"

fun encode_metadata_value :: "metadata_value \<Rightarrow> (payload_error, u8 \<times> bytes) result" where
  "encode_metadata_value MvNull = Ok (VALUE_NULL, [])"
| "encode_metadata_value (MvId128 v) = Ok (VALUE_ID128, to_le_bytes v)"
| "encode_metadata_value (MvU64 v) = Ok (VALUE_U64, to_le_bytes v)"
| "encode_metadata_value (MvI64 v) = Ok (VALUE_I64, to_le_bytes v)"
| "encode_metadata_value (MvF64 v) = Ok (VALUE_F64, to_le_bytes v)"
| "encode_metadata_value (MvBool v) = Ok (VALUE_BOOL, [if v then 1 else 0])"
| "encode_metadata_value (MvString v) =
     and_then (ok_or PayloadLengthOverflow (u32_try_from (length v))) (\<lambda>_. Ok (VALUE_STRING, v))"

primrec encode_column_entries ::
  "(u32 \<times> predicate_value) list \<Rightarrow> bytes \<Rightarrow> (payload_error, bytes) result" where
  "encode_column_entries [] output = Ok output"
| "encode_column_entries (e # es) output =
     and_then (encode_metadata_value (predicate_to_metadata (snd e))) (\<lambda>(kind, body).
     and_then (append_length_prefixed body (output @ to_le_bytes (fst e) @ [kind] @ [0, 0, 0])) (\<lambda>output'.
     encode_column_entries es output'))"

definition encode_typed_columns ::
  "(u32 \<times> predicate_value) list \<Rightarrow> bytes \<Rightarrow> (payload_error, bytes) result" where
  "encode_typed_columns columns output =
     and_then (ok_or PayloadLengthOverflow (u32_try_from (length columns))) (\<lambda>count.
     encode_column_entries columns (output @ to_le_bytes count))"

definition encode_column_values :: "(u32 \<times> predicate_value) list \<Rightarrow> (payload_error, bytes) result" where
  "encode_column_values columns = encode_typed_columns columns []"

definition upsert_v2_bitmap :: "ingest_document \<Rightarrow> u32" where
  "upsert_v2_bitmap d =
     UPSERT_V2_VECTOR
     OR (if doc_text d \<noteq> None then UPSERT_V2_TEXT else 0)
     OR (if timestamp_present d then UPSERT_V2_TIMESTAMP else 0)
     OR (if metadata_present d then UPSERT_V2_METADATA else 0)
     OR (if columns_present d then UPSERT_V2_TYPED_COLUMNS else 0)"

definition encode_upsert_v2 :: "ingest_document \<Rightarrow> (payload_error, bytes) result" where
  "encode_upsert_v2 d =
     (let bitmap = upsert_v2_bitmap d in
      and_then (validate_vector (doc_vector d)) (\<lambda>_.
      and_then (ok_or PayloadLengthOverflow (u32_try_from (length (doc_vector d)))) (\<lambda>dims.
      let payload = to_le_bytes bitmap @ append_version (doc_version d) @ to_le_bytes dims
            @ vector_bytes (doc_vector d) in
      and_then (case doc_text d of
                  Some text \<Rightarrow> append_length_prefixed text payload
                | None \<Rightarrow> Ok payload) (\<lambda>payload.
      let payload = (if timestamp_present d then payload @ to_le_bytes (doc_timestamp d) else payload) in
      and_then (if metadata_present d then append_length_prefixed (doc_metadata d) payload
                else Ok payload) (\<lambda>payload.
      if columns_present d then encode_typed_columns (doc_columns d) payload else Ok payload)))))"

definition encode_upsert_body ::
  "ingest_document \<Rightarrow> i64 option \<Rightarrow> bool \<Rightarrow> (payload_error, bytes) result" where
  "encode_upsert_body d timestamp include_metadata =
     (if doc_vector d = [] then Err EmptyVector else
      and_then (ok_or PayloadLengthOverflow (u32_try_from (length (doc_vector d)))) (\<lambda>dims.
      case position (\<lambda>x. \<not> f32_is_finite x) (doc_vector d) of
        Some i \<Rightarrow> Err (NonFiniteVector i)
      | None \<Rightarrow>
        and_then (ok_or PayloadLengthOverflow (checked_mul_usize (length (doc_vector d)) 4)) (\<lambda>vb.
        let prefix_len = 4 + 24 + (if timestamp \<noteq> None then 8 else 0)
              + (if include_metadata then 4 else 0) + 4 in
        and_then (ok_or PayloadLengthOverflow
          (Option.bind (checked_add_usize prefix_len
                          (if include_metadata then length (doc_metadata d) else 0))
             (\<lambda>n. checked_add_usize n vb))) (\<lambda>capacity.
        let payload = append_header @ append_version (doc_version d)
              @ (case timestamp of Some ts \<Rightarrow> to_le_bytes ts | None \<Rightarrow> []) in
        and_then (if include_metadata
                  then and_then (ok_or PayloadLengthOverflow (u32_try_from (length (doc_metadata d))))
                         (\<lambda>n. Ok (payload @ to_le_bytes n))
                  else Ok payload) (\<lambda>payload.
        Ok (payload @ to_le_bytes dims
            @ (if include_metadata then doc_metadata d else [])
            @ vector_bytes (doc_vector d)))))))"

definition encode_upsert :: "ingest_document \<Rightarrow> (payload_error, bytes) result" where
  "encode_upsert d = encode_upsert_body d None False"

definition encode_upsert_with_timestamp :: "ingest_document \<Rightarrow> (payload_error, bytes) result" where
  "encode_upsert_with_timestamp d = encode_upsert_body d (Some (doc_timestamp d)) False"

definition encode_upsert_with_metadata :: "ingest_document \<Rightarrow> (payload_error, bytes) result" where
  "encode_upsert_with_metadata d = encode_upsert_body d None True"

definition encode_upsert_with_timestamp_and_metadata ::
  "ingest_document \<Rightarrow> (payload_error, bytes) result" where
  "encode_upsert_with_timestamp_and_metadata d = encode_upsert_body d (Some (doc_timestamp d)) True"

definition encode_delete :: "u128 list \<Rightarrow> (payload_error, bytes) result" where
  "encode_delete ids =
     (if ids = [] then Err EmptyDelete else
      and_then (ok_or PayloadLengthOverflow (u32_try_from (length ids))) (\<lambda>count.
      and_then (ok_or PayloadLengthOverflow (checked_mul_usize (length ids) 16)) (\<lambda>body.
      and_then (ok_or PayloadLengthOverflow (checked_add_usize 8 body)) (\<lambda>capacity.
      Ok (append_header @ to_le_bytes count @ concat (map to_le_bytes ids))))))"

definition encode_metadata_edit :: "metadata_edit \<Rightarrow> (payload_error, bytes) result" where
  "encode_metadata_edit edit =
     and_then (encode_metadata_value (me_value edit)) (\<lambda>(kind, body).
     and_then (ok_or PayloadLengthOverflow (u32_try_from (length body))) (\<lambda>value_len.
     and_then (ok_or PayloadLengthOverflow (checked_add_usize 40 (length body))) (\<lambda>capacity.
     Ok (append_header @ append_version (me_version edit) @ to_le_bytes (me_column edit)
         @ [kind] @ [0, 0, 0] @ to_le_bytes value_len @ body))))"

definition validate_batch_position :: "u32 \<Rightarrow> u32 \<Rightarrow> (payload_error, unit) result" where
  "validate_batch_position index count =
     (if count < 2 \<or> count \<le> index then Err (BatchPosition index count) else Ok ())"

definition validate_mixed_operation :: "u16 \<Rightarrow> (payload_error, unit) result" where
  "validate_mixed_operation op =
     (if op = DELETE_V1 \<or> op = UPSERT_V2 \<or> op = GRAPH_COMMIT_V1 then Ok ()
      else Err (UnknownOperation op))"

text \<open>\<open>Vec::try_reserve_exact\<close> refuses a capacity above \<open>isize::MAX\<close>; memory is otherwise available.\<close>

definition try_reserve_exact :: "nat \<Rightarrow> (payload_error, unit) result" where
  "try_reserve_exact n = ensure (n \<le> alloc_max) PayloadLengthOverflow"

definition encode_mixed_batch_member :: "u32 \<Rightarrow> u32 \<Rightarrow> u16 \<Rightarrow> bytes \<Rightarrow> (payload_error, bytes) result" where
  "encode_mixed_batch_member index count op inner =
     and_then (validate_batch_position index count) (\<lambda>_.
     and_then (validate_mixed_operation op) (\<lambda>_.
     and_then (ok_or PayloadLengthOverflow (checked_add_usize (length inner) 10)) (\<lambda>len.
     and_then (try_reserve_exact len) (\<lambda>_.
     Ok (to_le_bytes index @ to_le_bytes count @ to_le_bytes op @ inner)))))"

definition encode_upsert_v2_batch_member :: "u32 \<Rightarrow> u32 \<Rightarrow> bytes \<Rightarrow> (payload_error, bytes) result" where
  "encode_upsert_v2_batch_member index count upsert_v2 =
     and_then (validate_batch_position index count) (\<lambda>_.
     and_then (try_reserve_exact (saturating_add_usize (length upsert_v2) 8)) (\<lambda>_.
     Ok (to_le_bytes index @ to_le_bytes count @ upsert_v2)))"

section \<open>The cursor\<close>

definition pl_new :: "bytes \<Rightarrow> cursor" where
  "pl_new bs = \<lparr>cur_bytes = bs, cur_offset = 0\<rparr>"

definition pl_read_bytes :: "nat \<Rightarrow> cursor \<Rightarrow> (payload_error, bytes \<times> cursor) result" where
  "pl_read_bytes len c =
     and_then (ok_or PayloadLengthOverflow (checked_add_usize (cur_offset c) len)) (\<lambda>stop.
     and_then (ok_or PayloadTruncated (slice_range (cur_bytes c) (cur_offset c) stop)) (\<lambda>bs.
     Ok (bs, c\<lparr>cur_offset := stop\<rparr>)))"

definition read_array :: "nat \<Rightarrow> bytes \<Rightarrow> (payload_error, bytes) result" where
  "read_array n bs = (if length bs = n then Ok bs else Err PayloadTruncated)"

definition pl_take :: "nat \<Rightarrow> cursor \<Rightarrow> (payload_error, bytes \<times> cursor) result" where
  "pl_take n c =
     and_then (pl_read_bytes n c) (\<lambda>(bs, c1). map_ok (\<lambda>arr. (arr, c1)) (read_array n bs))"

definition pl_u8 :: "cursor \<Rightarrow> (payload_error, u8 \<times> cursor) result" where
  "pl_u8 c = map_ok (\<lambda>(bs, c1). (from_le_bytes bs, c1)) (pl_take 1 c)"

definition pl_u16 :: "cursor \<Rightarrow> (payload_error, u16 \<times> cursor) result" where
  "pl_u16 c = map_ok (\<lambda>(bs, c1). (from_le_bytes bs, c1)) (pl_take 2 c)"

definition pl_u24 :: "cursor \<Rightarrow> (payload_error, u32 \<times> cursor) result" where
  "pl_u24 c =
     map_ok (\<lambda>(bs, c1). (ucast (bs ! 0) OR push_bit 8 (ucast (bs ! 1)) OR push_bit 16 (ucast (bs ! 2)), c1))
       (pl_take 3 c)"

definition pl_u32 :: "cursor \<Rightarrow> (payload_error, u32 \<times> cursor) result" where
  "pl_u32 c = map_ok (\<lambda>(bs, c1). (from_le_bytes bs, c1)) (pl_take 4 c)"

definition pl_u64 :: "cursor \<Rightarrow> (payload_error, u64 \<times> cursor) result" where
  "pl_u64 c = map_ok (\<lambda>(bs, c1). (from_le_bytes bs, c1)) (pl_take 8 c)"

definition pl_u128 :: "cursor \<Rightarrow> (payload_error, u128 \<times> cursor) result" where
  "pl_u128 c = map_ok (\<lambda>(bs, c1). (from_le_bytes bs, c1)) (pl_take 16 c)"

definition pl_require_header :: "cursor \<Rightarrow> (payload_error, cursor) result" where
  "pl_require_header c =
     and_then (pl_u16 c) (\<lambda>(version, c1).
     if version \<noteq> PAYLOAD_VERSION then Err (PayloadVersion version) else
     and_then (pl_u16 c1) (\<lambda>(flags, c2).
     if flags \<noteq> 0 then Err (PayloadFlags flags) else Ok c2))"

definition pl_read_version :: "cursor \<Rightarrow> (payload_error, document_version \<times> cursor) result" where
  "pl_read_version c =
     and_then (pl_u128 c) (\<lambda>(doc, c1).
     and_then (pl_u64 c1) (\<lambda>(rev, c2).
     Ok (\<lparr>dv_doc_id = doc, dv_revision = rev\<rparr>, c2)))"

definition pl_length_prefixed :: "cursor \<Rightarrow> (payload_error, bytes \<times> cursor) result" where
  "pl_length_prefixed c = and_then (pl_u32 c) (\<lambda>(n, c1). pl_read_bytes (unat n) c1)"

definition pl_read_string :: "cursor \<Rightarrow> (payload_error, bytes \<times> cursor) result" where
  "pl_read_string c =
     and_then (pl_length_prefixed c) (\<lambda>(bs, c1). if utf8_valid bs then Ok (bs, c1) else Err Utf8Invalid)"

definition pl_remaining :: "cursor \<Rightarrow> nat" where
  "pl_remaining c = length (cur_bytes c) - cur_offset c"

definition pl_require_remaining :: "nat \<Rightarrow> cursor \<Rightarrow> (payload_error, unit) result" where
  "pl_require_remaining n c = (if pl_remaining c < n then Err PayloadTruncated else Ok ())"

definition pl_finish :: "cursor \<Rightarrow> (payload_error, unit) result" where
  "pl_finish c = (if pl_remaining c = 0 then Ok () else Err (PayloadTrailingBytes (pl_remaining c)))"

section \<open>Decoding\<close>

definition require_value_len :: "u8 \<Rightarrow> bytes \<Rightarrow> nat \<Rightarrow> (payload_error, unit) result" where
  "require_value_len kind body expected =
     ensure (length body = expected) (ValueLength kind expected (length body))"

definition decode_metadata_value :: "u8 \<Rightarrow> bytes \<Rightarrow> (payload_error, metadata_value) result" where
  "decode_metadata_value kind body =
     (if kind = VALUE_NULL then
        and_then (require_value_len kind body 0) (\<lambda>_. Ok MvNull)
      else if kind = VALUE_ID128 then
        and_then (require_value_len kind body 16) (\<lambda>_.
        map_ok (\<lambda>b. MvId128 (from_le_bytes b)) (read_array 16 body))
      else if kind = VALUE_U64 then
        and_then (require_value_len kind body 8) (\<lambda>_.
        map_ok (\<lambda>b. MvU64 (from_le_bytes b)) (read_array 8 body))
      else if kind = VALUE_I64 then
        and_then (require_value_len kind body 8) (\<lambda>_.
        map_ok (\<lambda>b. MvI64 (from_le_bytes b)) (read_array 8 body))
      else if kind = VALUE_F64 then
        and_then (require_value_len kind body 8) (\<lambda>_.
        map_ok (\<lambda>b. MvF64 (from_le_bytes b)) (read_array 8 body))
      else if kind = VALUE_BOOL then
        and_then (require_value_len kind body 1) (\<lambda>_.
        case body of
          [] \<Rightarrow> Err PayloadTruncated
        | b # _ \<Rightarrow> if b = 0 then Ok (MvBool False) else if b = 1 then Ok (MvBool True)
                  else Err (BooleanByte b))
      else if kind = VALUE_STRING then
        (if utf8_valid body then Ok (MvString body) else Err Utf8Invalid)
      else Err (ValueKind kind))"

fun metadata_to_predicate :: "metadata_value \<Rightarrow> (payload_error, predicate_value) result" where
  "metadata_to_predicate MvNull = Err (ValueKind VALUE_NULL)"
| "metadata_to_predicate (MvId128 v) = Ok (PvId128 v)"
| "metadata_to_predicate (MvU64 v) = Ok (PvU64 v)"
| "metadata_to_predicate (MvI64 v) = Ok (PvI64 v)"
| "metadata_to_predicate (MvF64 v) = Ok (PvF64 v)"
| "metadata_to_predicate (MvBool v) = Ok (PvBool v)"
| "metadata_to_predicate (MvString v) = Ok (PvString v)"

definition read_column_entry :: "cursor \<Rightarrow> (payload_error, (u32 \<times> predicate_value) \<times> cursor) result" where
  "read_column_entry c =
     and_then (pl_u32 c) (\<lambda>(column, c1).
     and_then (pl_u8 c1) (\<lambda>(kind, c2).
     and_then (pl_u24 c2) (\<lambda>(reserved, c3).
     if reserved \<noteq> 0 then Err (PayloadReserved reserved) else
     and_then (pl_length_prefixed c3) (\<lambda>(body, c4).
     and_then (decode_metadata_value kind body) (\<lambda>mv.
     and_then (metadata_to_predicate mv) (\<lambda>v.
     Ok ((column, v), c4)))))))"

definition decode_typed_columns ::
  "cursor \<Rightarrow> (payload_error, (u32 \<times> predicate_value) list \<times> cursor) result" where
  "decode_typed_columns c =
     and_then (pl_u32 c) (\<lambda>(count, c1). read_many (unat count) read_column_entry c1)"

definition decode_column_values :: "bytes \<Rightarrow> (payload_error, (u32 \<times> predicate_value) list) result" where
  "decode_column_values encoded =
     and_then (decode_typed_columns (pl_new encoded)) (\<lambda>(columns, c).
     and_then (pl_finish c) (\<lambda>_. Ok columns))"

primrec read_coordinates :: "nat \<Rightarrow> nat \<Rightarrow> cursor \<Rightarrow> (payload_error, f32 list \<times> cursor) result" where
  "read_coordinates 0 index c = Ok ([], c)"
| "read_coordinates (Suc n) index c =
     and_then (pl_u32 c) (\<lambda>(value, c1).
     if \<not> f32_is_finite value then Err (NonFiniteVector index) else
     and_then (read_coordinates n (Suc index) c1) (\<lambda>(vs, c2). Ok (value # vs, c2)))"

definition read_v2_vector :: "cursor \<Rightarrow> (payload_error, f32 list \<times> cursor) result" where
  "read_v2_vector c =
     and_then (pl_u32 c) (\<lambda>(dims, c1).
     if dims = 0 then Err EmptyVector else read_coordinates (unat dims) 0 c1)"

definition read_vector_field :: "bool \<Rightarrow> cursor \<Rightarrow> (payload_error, f32 list \<times> cursor) result" where
  "read_vector_field present c = (if present then read_v2_vector c else Ok ([], c))"

definition apply_opt :: "('a \<Rightarrow> 'b \<Rightarrow> 'b) \<Rightarrow> 'a option \<Rightarrow> 'b \<Rightarrow> 'b" where
  "apply_opt f x d = (case x of None \<Rightarrow> d | Some y \<Rightarrow> f y d)"

definition decode_upsert_v2 :: "bytes \<Rightarrow> (payload_error, ingest_document) result" where
  "decode_upsert_v2 payload =
     and_then (pl_u32 (pl_new payload)) (\<lambda>(bitmap, c).
     let reserved = bitmap AND NOT UPSERT_V2_KNOWN_FIELDS in
     if reserved \<noteq> 0 then Err (FieldBitmap reserved) else
     and_then (pl_read_version c) (\<lambda>(version, c).
     and_then (read_vector_field (bitmap AND UPSERT_V2_VECTOR \<noteq> 0) c) (\<lambda>(vector, c).
     and_then (read_if (bitmap AND UPSERT_V2_TEXT \<noteq> 0) pl_read_string c) (\<lambda>(text, c).
     and_then (read_if (bitmap AND UPSERT_V2_TIMESTAMP \<noteq> 0) pl_u64 c) (\<lambda>(timestamp, c).
     and_then (read_if (bitmap AND UPSERT_V2_METADATA \<noteq> 0) pl_length_prefixed c) (\<lambda>(metadata, c).
     and_then (read_if (bitmap AND UPSERT_V2_TYPED_COLUMNS \<noteq> 0) decode_typed_columns c) (\<lambda>(columns, c).
     and_then (pl_finish c) (\<lambda>_.
     Ok (apply_opt with_columns columns (apply_opt with_metadata metadata
          (apply_opt with_timestamp timestamp (apply_opt with_text text
            (ingest_document_new version vector)))))))))))))"

definition decode_upsert_body :: "bytes \<Rightarrow> bool \<Rightarrow> bool \<Rightarrow> (payload_error, ingest_document) result" where
  "decode_upsert_body payload has_timestamp has_metadata =
     and_then (pl_require_header (pl_new payload)) (\<lambda>c.
     and_then (pl_read_version c) (\<lambda>(version, c).
     and_then (if has_timestamp then pl_u64 c else Ok (0, c)) (\<lambda>(timestamp, c).
     and_then (if has_metadata then map_ok (\<lambda>(n, c). (unat n, c)) (pl_u32 c) else Ok (0, c)) (\<lambda>(metadata_len, c).
     and_then (pl_u32 c) (\<lambda>(dims, c).
     if dims = 0 then Err EmptyVector else
     and_then (ok_or PayloadLengthOverflow (checked_mul_usize (unat dims) 4)) (\<lambda>body_bytes.
     and_then (ok_or PayloadLengthOverflow (checked_add_usize metadata_len body_bytes)) (\<lambda>remaining.
     and_then (pl_require_remaining remaining c) (\<lambda>_.
     and_then (pl_read_bytes metadata_len c) (\<lambda>(metadata, c).
     and_then (read_coordinates (unat dims) 0 c) (\<lambda>(vector, c).
     and_then (pl_finish c) (\<lambda>_.
     let d = ingest_document_new version vector;
         d = (if has_timestamp then with_timestamp timestamp d else d)
     in Ok (if has_metadata then with_metadata metadata d else d))))))))))))"

definition decode_delete :: "bytes \<Rightarrow> (payload_error, u128 list) result" where
  "decode_delete payload =
     and_then (pl_require_header (pl_new payload)) (\<lambda>c.
     and_then (pl_u32 c) (\<lambda>(count, c).
     if count = 0 then Err EmptyDelete else
     and_then (ok_or PayloadLengthOverflow (checked_mul_usize (unat count) 16)) (\<lambda>body_bytes.
     and_then (pl_require_remaining body_bytes c) (\<lambda>_.
     and_then (read_many (unat count) pl_u128 c) (\<lambda>(ids, c).
     and_then (pl_finish c) (\<lambda>_. Ok ids))))))"

definition decode_metadata_edit :: "bytes \<Rightarrow> (payload_error, metadata_edit) result" where
  "decode_metadata_edit payload =
     and_then (pl_require_header (pl_new payload)) (\<lambda>c.
     and_then (pl_read_version c) (\<lambda>(version, c).
     and_then (pl_u32 c) (\<lambda>(column, c).
     and_then (pl_u8 c) (\<lambda>(kind, c).
     and_then (pl_u24 c) (\<lambda>(reserved, c).
     if reserved \<noteq> 0 then Err (PayloadReserved reserved) else
     and_then (pl_u32 c) (\<lambda>(value_len, c).
     and_then (pl_read_bytes (unat value_len) c) (\<lambda>(body, c).
     and_then (decode_metadata_value kind body) (\<lambda>value.
     and_then (pl_finish c) (\<lambda>_.
     Ok \<lparr>me_version = version, me_column = column, me_value = value\<rparr>)))))))))"

definition decode_upsert_v2_batch_member ::
  "bytes \<Rightarrow> (payload_error, u32 \<times> u32 \<times> ingest_document) result" where
  "decode_upsert_v2_batch_member payload =
     and_then (pl_u32 (pl_new payload)) (\<lambda>(index, c).
     and_then (pl_u32 c) (\<lambda>(count, c).
     and_then (validate_batch_position index count) (\<lambda>_.
     and_then (ok_or PayloadTruncated (slice_from payload 8)) (\<lambda>body.
     map_ok (\<lambda>d. (index, count, d)) (decode_upsert_v2 body)))))"

function (sequential) decode_mutation :: "u16 \<Rightarrow> bytes \<Rightarrow> (payload_error, mutation_payload) result"
  and decode_mixed_batch_member :: "bytes \<Rightarrow> (payload_error, mutation_payload) result" where
  "decode_mutation op payload =
     (if op = MIXED_BATCH_MEMBER_V1 then decode_mixed_batch_member payload
      else if op = UPSERT_V1 then map_ok Upsert (decode_upsert_body payload False False)
      else if op = DELETE_V1 then map_ok Delete (decode_delete payload)
      else if op = METADATA_EDIT_V1 then map_ok MetadataEdit (decode_metadata_edit payload)
      else if op = UPSERT_WITH_TIMESTAMP_V1 then map_ok Upsert (decode_upsert_body payload True False)
      else if op = UPSERT_WITH_METADATA_V1 then map_ok Upsert (decode_upsert_body payload False True)
      else if op = UPSERT_WITH_TIMESTAMP_AND_METADATA_V1
      then map_ok Upsert (decode_upsert_body payload True True)
      else if op = UPSERT_V2 then map_ok Upsert (decode_upsert_v2 payload)
      else if op = UPSERT_V2_BATCH_MEMBER
      then map_ok (\<lambda>(index, count, d). BatchMember index count d) (decode_upsert_v2_batch_member payload)
      else Err (UnknownOperation op))"
| "decode_mixed_batch_member payload =
     (case pl_u32 (pl_new payload) of
        Inl e \<Rightarrow> Err e
      | Inr (index, c) \<Rightarrow>
     (case pl_u32 c of
        Inl e \<Rightarrow> Err e
      | Inr (count, c) \<Rightarrow>
     (case validate_batch_position index count of
        Inl e \<Rightarrow> Err e
      | Inr _ \<Rightarrow>
     (case pl_u16 c of
        Inl e \<Rightarrow> Err e
      | Inr (op, c) \<Rightarrow>
     (case validate_mixed_operation op of
        Inl e \<Rightarrow> Err e
      | Inr _ \<Rightarrow>
     (case slice_from payload 10 of
        None \<Rightarrow> Err PayloadTruncated
      | Some inner \<Rightarrow>
          map_ok (MixedBatchMember index count op) (decode_mutation op inner)))))))"
  by pat_completeness auto
termination
  by (relation "measure (\<lambda>x. case x of Inl (op, p) \<Rightarrow> 2 * length p + 1 | Inr p \<Rightarrow> 2 * length p)")
    (auto simp: slice_from_def split: if_splits)

declare decode_mutation.simps [simp del] decode_mixed_batch_member.simps [simp del]

end
