(* ===== verification/Payload_Codec.thy ===== *)
theory Payload_Codec
  imports Payload
begin

text \<open>
  The payload readers are strict codecs: every field reader inverts its encoding and accepts
  nothing else. Round trip and canonicity of whole payloads follow field by field.
\<close>

section \<open>Cursor primitives\<close>

lemma pl_new_at: "pl_new bs = cursor_at [] bs"
  by (simp add: pl_new_def cursor_at_def)

lemma pl_remaining_at [simp]: "pl_remaining (cursor_at pre rest) = length rest"
  by (simp add: pl_remaining_def cursor_at_def)

lemma pl_finish_at: "pl_finish (cursor_at pre rest) = Ok u \<longleftrightarrow> rest = []"
  by (auto simp: pl_finish_def)

lemma pl_finish_end [simp]: "pl_finish (cursor_at pre []) = Ok ()"
  by (simp add: pl_finish_at)

lemma pl_read_bytes_enc:
  assumes "addressable pre (bs @ rest)" "n = length bs"
  shows "pl_read_bytes n (cursor_at pre (bs @ rest)) = Ok (bs, cursor_at (pre @ bs) rest)"
  using addressableD [OF assms(1)] assms(2)
  by (simp add: pl_read_bytes_def cursor_at_def slice_range_def)

lemma pl_read_bytes_canon:
  assumes "pl_read_bytes n (cursor_at pre bs) = Ok (x, c)"
  shows "length x = n \<and> (\<exists>rest. bs = x @ rest \<and> c = cursor_at (pre @ x) rest)"
proof -
  from assms have len: "n \<le> length bs" and x: "x = take n bs"
    and c: "c = \<lparr>cur_bytes = pre @ bs, cur_offset = length pre + n\<rparr>"
    by (auto simp: pl_read_bytes_def cursor_at_def result_Inr slice_range_def checked_add_usize_def
        split: if_splits)
  have "bs = x @ drop n bs" using x by simp
  moreover have "c = cursor_at (pre @ x) (drop n bs)"
    using len c x by (simp add: cursor_at_def)
  ultimately show ?thesis using len x by (intro conjI exI [of _ "drop n bs"]) simp_all
qed

lemma pl_take_enc:
  assumes "addressable pre (bs @ rest)" "n = length bs"
  shows "pl_take n (cursor_at pre (bs @ rest)) = Ok (bs, cursor_at (pre @ bs) rest)"
  using pl_read_bytes_enc [OF assms] assms(2) by (simp add: pl_take_def read_array_def)

lemma pl_take_canon:
  assumes "pl_take n (cursor_at pre bs) = Ok (x, c)"
  shows "length x = n \<and> (\<exists>rest. bs = x @ rest \<and> c = cursor_at (pre @ x) rest)"
  using assms by (auto simp: pl_take_def result_Inr read_array_def dest!: pl_read_bytes_canon split: if_splits)

lemma to_le_bytes_u8: "to_le_bytes (w :: u8) = [w]"
  using unat_lt2p [of w] by (simp add: to_le_bytes_def)

section \<open>Integer codecs\<close>

interpretation c8: strict_codec "\<lambda>x :: u8. [x]" pl_u8 "\<lambda>_. True"
proof
  show "pl_u8 (cursor_at pre ([x] @ rest)) = Ok (x, cursor_at (pre @ [x]) rest)"
    if "addressable pre ([x] @ rest)" for x pre rest
    using pl_take_enc [OF that, of 1] le_bytes_roundtrip(5) [of x]
    by (simp add: pl_u8_def to_le_bytes_u8)
  show "True \<and> (\<exists>rest. bs = [x] @ rest \<and> c = cursor_at (pre @ [x]) rest)"
    if "pl_u8 (cursor_at pre bs) = Ok (x, c)" for pre bs x c
  proof -
    from that obtain b rest where b: "length b = 1" "x = from_le_bytes b" "bs = b @ rest"
      "c = cursor_at (pre @ b) rest"
      by (auto simp: pl_u8_def result_Inr dest!: pl_take_canon)
    have "b = [x]" using to_from_le_bytes [of b, where 'a = 8] b by (simp add: to_le_bytes_u8)
    then show ?thesis using b by auto
  qed
qed

interpretation payload_source: byte_source pl_take
  by unfold_locales (use pl_take_enc pl_take_canon in blast)+

interpretation c16: strict_codec "to_le_bytes :: u16 \<Rightarrow> bytes" pl_u16 "\<lambda>_. True"
  by (rule payload_source.int_codec [OF pl_u16_def]) simp_all

interpretation c32: strict_codec "to_le_bytes :: u32 \<Rightarrow> bytes" pl_u32 "\<lambda>_. True"
  by (rule payload_source.int_codec [OF pl_u32_def]) simp_all

interpretation c64: strict_codec "to_le_bytes :: u64 \<Rightarrow> bytes" pl_u64 "\<lambda>_. True"
  by (rule payload_source.int_codec [OF pl_u64_def]) simp_all

interpretation c128: strict_codec "to_le_bytes :: u128 \<Rightarrow> bytes" pl_u128 "\<lambda>_. True"
  by (rule payload_source.int_codec [OF pl_u128_def]) simp_all

lemmas int_rd = c8.rd_enc [OF TrueI] c16.rd_enc [OF TrueI] c32.rd_enc [OF TrueI]
  c64.rd_enc [OF TrueI] c128.rd_enc [OF TrueI]

lemma pl_u24_zero:
  assumes "addressable pre ([0, 0, 0] @ rest)"
  shows "pl_u24 (cursor_at pre ([0, 0, 0] @ rest)) = Ok (0, cursor_at (pre @ [0, 0, 0]) rest)"
  using pl_take_enc [OF assms, of 3] by (simp add: pl_u24_def)

lemma u24_eq_0:
  "(ucast l OR push_bit 8 (ucast m) OR push_bit 16 (ucast h) :: u32) = 0 \<longleftrightarrow> l = (0::u8) \<and> m = (0::u8) \<and> h = (0::u8)"
proof -
  have sh: "push_bit k (ucast b :: u32) = 0 \<longleftrightarrow> b = 0" if "k \<le> 24" for k and b :: u8
  proof
    assume z: "push_bit k (ucast b :: u32) = 0"
    show "b = 0"
    proof (rule bit_word_eqI)
      fix i assume "i < LENGTH(8)"
      then have "bit b i = bit (push_bit k (ucast b :: u32)) (k + i)"
        using that by (simp add: bit_simps)
      then show "bit b i = bit (0 :: u8) i" using z by simp
    qed
  qed simp
  show ?thesis
    using sh [of 0 l] sh [of 8 m] sh [of 16 h] by (simp add: or_eq_0_iff)
qed

lemma pl_u24_canon:
  assumes "pl_u24 (cursor_at pre bs) = Ok (0, c)"
  shows "\<exists>rest. bs = [0, 0, 0] @ rest \<and> c = cursor_at (pre @ [0, 0, 0]) rest"
proof -
  from assms obtain b rest where b: "length b = 3" "bs = b @ rest" "c = cursor_at (pre @ b) rest"
    and z: "(ucast (b ! 0) OR push_bit 8 (ucast (b ! 1)) OR push_bit 16 (ucast (b ! 2)) :: u32) = 0"
    by (auto simp: pl_u24_def result_Inr dest!: pl_take_canon)
  from b(1) obtain x y w where "b = [x, y, w]" by (auto simp: numeral_3_eq_3 length_Suc_conv)
  with z have "b = [0, 0, 0]" by (simp add: u24_eq_0)
  then show ?thesis using b by auto
qed

section \<open>Length-prefixed fields, strings and versions\<close>

definition enc_lp :: "bytes \<Rightarrow> bytes" where
  "enc_lp bs = to_le_bytes (word_of_nat (length bs) :: u32) @ bs"

lemma append_length_prefixed_eq:
  "append_length_prefixed bs output =
    (if length bs \<le> u32_max then Ok (output @ enc_lp bs) else Err PayloadLengthOverflow)"
  by (simp add: append_length_prefixed_def u32_try_from_def enc_lp_def)

lemma length_enc_lp [simp]: "length (enc_lp bs) = 4 + length bs"
  by (simp add: enc_lp_def)

interpretation lp: strict_codec enc_lp pl_length_prefixed "\<lambda>bs. length bs \<le> u32_max"
proof
  show "pl_length_prefixed (cursor_at pre (enc_lp x @ rest)) = Ok (x, cursor_at (pre @ enc_lp x) rest)"
    if "length x \<le> u32_max" "addressable pre (enc_lp x @ rest)" for x pre rest
    using that c32.rd_enc [OF TrueI, of pre "word_of_nat (length x)" "x @ rest"]
      pl_read_bytes_enc [of "pre @ to_le_bytes (word_of_nat (length x) :: u32)" x rest]
    by (simp add: pl_length_prefixed_def enc_lp_def unat_word_of_nat_u32)
  show "length x \<le> u32_max \<and> (\<exists>rest. bs = enc_lp x @ rest \<and> c = cursor_at (pre @ enc_lp x) rest)"
    if r: "pl_length_prefixed (cursor_at pre bs) = Ok (x, c)" and a: "addressable pre bs" for pre bs x c
  proof -
    from r obtain n c1 where n: "pl_u32 (cursor_at pre bs) = Ok (n, c1)" "pl_read_bytes (unat n) c1 = Ok (x, c)"
      by (auto simp: pl_length_prefixed_def result_Inr)
    from c32.rd_canon [OF n(1) a] obtain r1 where
      1: "bs = to_le_bytes n @ r1" "c1 = cursor_at (pre @ to_le_bytes n) r1" by blast
    from pl_read_bytes_canon [OF n(2) [unfolded 1(2)]] obtain rest where
      2: "length x = unat n" "r1 = x @ rest" "c = cursor_at ((pre @ to_le_bytes n) @ x) rest" by blast
    have "n = word_of_nat (length x)" using 2(1) by simp
    then show ?thesis using 1 2 by (auto simp: enc_lp_def)
  qed
qed

interpretation str: strict_codec enc_lp pl_read_string "\<lambda>bs. length bs \<le> u32_max \<and> utf8_valid bs"
proof
  show "pl_read_string (cursor_at pre (enc_lp x @ rest)) = Ok (x, cursor_at (pre @ enc_lp x) rest)"
    if "length x \<le> u32_max \<and> utf8_valid x" "addressable pre (enc_lp x @ rest)" for x pre rest
    using that lp.rd_enc by (simp add: pl_read_string_def)
  show "(length x \<le> u32_max \<and> utf8_valid x)
      \<and> (\<exists>rest. bs = enc_lp x @ rest \<and> c = cursor_at (pre @ enc_lp x) rest)"
    if "pl_read_string (cursor_at pre bs) = Ok (x, c)" "addressable pre bs" for pre bs x c
    using that lp.rd_canon by (auto simp: pl_read_string_def result_Inr split: if_splits)
qed

interpretation ver: strict_codec append_version pl_read_version "\<lambda>_. True"
proof
  show "pl_read_version (cursor_at pre (append_version x @ rest)) =
      Ok (x, cursor_at (pre @ append_version x) rest)"
    if "addressable pre (append_version x @ rest)" for x pre rest
    using that by (simp add: pl_read_version_def append_version_def int_rd)
  show "True \<and> (\<exists>rest. bs = append_version x @ rest \<and> c = cursor_at (pre @ append_version x) rest)"
    if r: "pl_read_version (cursor_at pre bs) = Ok (x, c)" and a: "addressable pre bs" for pre bs x c
  proof -
    from r obtain d c1 v where d: "pl_u128 (cursor_at pre bs) = Ok (d, c1)" "pl_u64 c1 = Ok (v, c)"
      and x: "x = \<lparr>dv_doc_id = d, dv_revision = v\<rparr>"
      by (auto simp: pl_read_version_def result_Inr)
    from c128.rd_canon [OF d(1) a] obtain r1 where
      1: "bs = to_le_bytes d @ r1" "c1 = cursor_at (pre @ to_le_bytes d) r1" by blast
    from c64.rd_canon [OF d(2) [unfolded 1(2)]] a 1 show ?thesis
      by (auto simp: append_version_def x)
  qed
qed

section \<open>Typed values and columns\<close>

fun value_ok :: "metadata_value \<Rightarrow> bool" where
  "value_ok (MvString s) = (length s \<le> u32_max \<and> utf8_valid s)"
| "value_ok _ = True"

lemma encode_value_Ok: "value_ok v \<Longrightarrow> \<exists>kind body. encode_metadata_value v = Ok (kind, body) \<and> length body \<le> u32_max"
  by (cases v) (auto simp: u32_try_from_def u32_max_def)

lemma decode_encode_value:
  "value_ok v \<Longrightarrow> encode_metadata_value v = Ok (kind, body) \<Longrightarrow> decode_metadata_value kind body = Ok v"
  by (cases v) (auto simp: decode_metadata_value_def payload_consts require_value_len_def
      read_array_def u32_try_from_def result_Inr split: if_splits)

lemma encode_decode_value:
  assumes "decode_metadata_value kind body = Ok v" "length body \<le> u32_max"
  shows "value_ok v \<and> encode_metadata_value v = Ok (kind, body)"
  using assms to_from_le_bytes [of body, where 'a = 64] to_from_le_bytes [of body, where 'a = 128]
  by (auto simp: decode_metadata_value_def require_value_len_def read_array_def result_Inr
      u32_try_from_def length_Suc_conv split: if_splits list.splits)

lemma predicate_metadata_roundtrip [simp]: "metadata_to_predicate (predicate_to_metadata v) = Ok v"
  by (cases v) auto

lemma metadata_predicate_canon: "metadata_to_predicate m = Ok v \<Longrightarrow> m = predicate_to_metadata v"
  by (cases m) auto

definition enc_column :: "u32 \<times> predicate_value \<Rightarrow> bytes" where
  "enc_column e =
     (case encode_metadata_value (predicate_to_metadata (snd e)) of
        Inr (kind, body) \<Rightarrow> to_le_bytes (fst e) @ [kind] @ [0, 0, 0] @ enc_lp body
      | Inl _ \<Rightarrow> [])"

definition column_ok :: "u32 \<times> predicate_value \<Rightarrow> bool" where
  "column_ok e \<longleftrightarrow> value_ok (predicate_to_metadata (snd e))"

lemmas field_rd = int_rd lp.rd_enc str.rd_enc ver.rd_enc [OF TrueI]

interpretation col: strict_codec enc_column read_column_entry column_ok
proof
  show "read_column_entry (cursor_at pre (enc_column x @ rest)) = Ok (x, cursor_at (pre @ enc_column x) rest)"
    if ok: "column_ok x" and a: "addressable pre (enc_column x @ rest)" for x pre rest
  proof -
    let ?m = "predicate_to_metadata (snd x)"
    from ok have v: "value_ok ?m" by (simp add: column_ok_def)
    from encode_value_Ok [OF v] obtain kind body where
      e: "encode_metadata_value ?m = Ok (kind, body)" "length body \<le> u32_max" by blast
    have enc: "enc_column x = to_le_bytes (fst x) @ [kind] @ [0, 0, 0] @ enc_lp body"
      using e by (simp add: enc_column_def)
    note z = pl_u24_zero [of "(pre @ to_le_bytes (fst x)) @ [kind]" "enc_lp body @ rest"]
    note l = lp.rd_enc [of body "((pre @ to_le_bytes (fst x)) @ [kind]) @ [0, 0, 0]" rest]
    note k = c8.rd_enc [OF TrueI, of "pre @ to_le_bytes (fst x)" kind "[0, 0, 0] @ enc_lp body @ rest"]
    show ?thesis
      using a e z l k decode_encode_value [OF v e(1)]
      unfolding enc read_column_entry_def by (simp add: c32.rd_enc)
  qed
  show "column_ok x \<and> (\<exists>rest. bs = enc_column x @ rest \<and> c = cursor_at (pre @ enc_column x) rest)"
    if r: "read_column_entry (cursor_at pre bs) = Ok (x, c)" and a: "addressable pre bs" for pre bs x c
  proof -
    from r obtain column c1 kind c2 c3 body mv v where
      s: "pl_u32 (cursor_at pre bs) = Ok (column, c1)" "pl_u8 c1 = Ok (kind, c2)" "pl_u24 c2 = Ok (0, c3)"
        "pl_length_prefixed c3 = Ok (body, c)" "decode_metadata_value kind body = Ok mv"
        "metadata_to_predicate mv = Ok v" and x: "x = (column, v)"
      by (auto simp: read_column_entry_def result_Inr split: if_splits)
    from c32.rd_canon [OF s(1) a] obtain r1 where
      1: "bs = to_le_bytes column @ r1" "c1 = cursor_at (pre @ to_le_bytes column) r1" by blast
    have a1: "addressable (pre @ to_le_bytes column) r1" using a 1 by simp
    from c8.rd_canon [OF s(2) [unfolded 1(2)] a1] obtain r2 where
      2: "r1 = [kind] @ r2" "c2 = cursor_at ((pre @ to_le_bytes column) @ [kind]) r2" by blast
    from pl_u24_canon [OF s(3) [unfolded 2(2)]] obtain r3 where
      3: "r2 = [0, 0, 0] @ r3" "c3 = cursor_at (((pre @ to_le_bytes column) @ [kind]) @ [0, 0, 0]) r3" by blast
    have a3: "addressable (((pre @ to_le_bytes column) @ [kind]) @ [0, 0, 0]) r3" using a 1 2 3 by simp
    from lp.rd_canon [OF s(4) [unfolded 3(2)] a3] obtain rest where
      4: "length body \<le> u32_max" "r3 = enc_lp body @ rest"
        "c = cursor_at ((((pre @ to_le_bytes column) @ [kind]) @ [0, 0, 0]) @ enc_lp body) rest" by blast
    from encode_decode_value [OF s(5) 4(1)] metadata_predicate_canon [OF s(6)] show ?thesis
      using 1 2 3 4 by (auto simp: x column_ok_def enc_column_def)
  qed
qed

definition enc_columns :: "(u32 \<times> predicate_value) list \<Rightarrow> bytes" where
  "enc_columns cs = to_le_bytes (word_of_nat (length cs) :: u32) @ concat (map enc_column cs)"

definition columns_ok :: "(u32 \<times> predicate_value) list \<Rightarrow> bool" where
  "columns_ok cs \<longleftrightarrow> length cs \<le> u32_max \<and> (\<forall>e \<in> set cs. column_ok e)"

interpretation cols: strict_codec enc_columns decode_typed_columns columns_ok
proof
  show "decode_typed_columns (cursor_at pre (enc_columns x @ rest)) = Ok (x, cursor_at (pre @ enc_columns x) rest)"
    if "columns_ok x" "addressable pre (enc_columns x @ rest)" for x pre rest
    using that c32.rd_enc [OF TrueI, of pre "word_of_nat (length x)" "concat (map enc_column x) @ rest"]
      col.read_many_enc [of x "pre @ to_le_bytes (word_of_nat (length x) :: u32)" rest]
    by (simp add: decode_typed_columns_def enc_columns_def columns_ok_def unat_word_of_nat_u32)
  show "columns_ok x \<and> (\<exists>rest. bs = enc_columns x @ rest \<and> c = cursor_at (pre @ enc_columns x) rest)"
    if r: "decode_typed_columns (cursor_at pre bs) = Ok (x, c)" and a: "addressable pre bs" for pre bs x c
  proof -
    from r obtain n c1 where n: "pl_u32 (cursor_at pre bs) = Ok (n, c1)"
      "read_many (unat n) read_column_entry c1 = Ok (x, c)"
      by (auto simp: decode_typed_columns_def result_Inr)
    from c32.rd_canon [OF n(1) a] obtain r1 where
      1: "bs = to_le_bytes n @ r1" "c1 = cursor_at (pre @ to_le_bytes n) r1" by blast
    have a1: "addressable (pre @ to_le_bytes n) r1" using a 1 by simp
    note m = col.read_many_canon [OF n(2) [unfolded 1(2)] a1]
    then have l: "length x = unat n" by blast
    have "n = word_of_nat (length x)" "length x \<le> u32_max" using l by simp_all
    then show ?thesis using m 1 by (auto simp: enc_columns_def columns_ok_def)
  qed
qed

lemma encode_column_entries_eq:
  assumes "\<forall>e \<in> set cs. column_ok e"
  shows "encode_column_entries cs out = Ok (out @ concat (map enc_column cs))"
  using assms
proof (induction cs arbitrary: out)
  case (Cons e es)
  then obtain kind body where "encode_metadata_value (predicate_to_metadata (snd e)) = Ok (kind, body)"
    "length body \<le> u32_max"
    using encode_value_Ok [of "predicate_to_metadata (snd e)"] by (auto simp: column_ok_def)
  then show ?case
    using Cons by (simp add: append_length_prefixed_eq enc_column_def)
qed simp

lemma encode_typed_columns_eq:
  "columns_ok cs \<Longrightarrow> encode_typed_columns cs output = Ok (output @ enc_columns cs)"
  by (simp add: encode_typed_columns_def columns_ok_def u32_try_from_def encode_column_entries_eq enc_columns_def)

section \<open>Vectors\<close>

definition vector_ok :: "f32 list \<Rightarrow> bool" where
  "vector_ok v \<longleftrightarrow> v \<noteq> [] \<and> length v \<le> u32_max \<and> (\<forall>x \<in> set v. f32_is_finite x)"

lemma length_vector_bytes [simp]: "length (vector_bytes v) = 4 * length v"
  by (induction v) (simp_all add: vector_bytes_def)

lemma validate_vector_Ok:
  "validate_vector v = Ok u \<longleftrightarrow> v \<noteq> [] \<and> (\<forall>x \<in> set v. f32_is_finite x)"
  using position_None [of "\<lambda>x. \<not> f32_is_finite x" v]
  by (cases "position (\<lambda>x. \<not> f32_is_finite x) v") (auto simp: validate_vector_def)

lemma read_coordinates_enc:
  assumes "\<forall>x \<in> set v. f32_is_finite x" "addressable pre (vector_bytes v @ rest)"
  shows "read_coordinates (length v) i (cursor_at pre (vector_bytes v @ rest)) =
    Ok (v, cursor_at (pre @ vector_bytes v) rest)"
  using assms
proof (induction v arbitrary: pre i)
  case (Cons x v)
  then show ?case
    using c32.rd_enc [OF TrueI, of pre x "vector_bytes v @ rest"] by (simp add: vector_bytes_def)
qed (simp add: vector_bytes_def)

lemma read_coordinates_canon:
  assumes "read_coordinates n i (cursor_at pre bs) = Ok (v, c)" "addressable pre bs"
  shows "length v = n \<and> (\<forall>x \<in> set v. f32_is_finite x)
    \<and> (\<exists>rest. bs = vector_bytes v @ rest \<and> c = cursor_at (pre @ vector_bytes v) rest)"
  using assms
proof (induction n arbitrary: i pre bs v)
  case (Suc n)
  then obtain x c1 v' where x: "pl_u32 (cursor_at pre bs) = Ok (x, c1)" "f32_is_finite x"
    "read_coordinates n (Suc i) c1 = Ok (v', c)" "v = x # v'"
    by (auto simp: result_Inr split: if_splits)
  from c32.rd_canon [OF x(1) Suc.prems(2)] obtain r1 where
    1: "bs = to_le_bytes x @ r1" "c1 = cursor_at (pre @ to_le_bytes x) r1" by blast
  with Suc.IH [of "Suc i" "pre @ to_le_bytes x" r1 v'] x Suc.prems(2) show ?case
    by (auto simp: vector_bytes_def)
qed (simp add: vector_bytes_def)

definition enc_vector :: "f32 list \<Rightarrow> bytes" where
  "enc_vector v = to_le_bytes (word_of_nat (length v) :: u32) @ vector_bytes v"

lemma word_of_nat_u32_eq_0: "n \<le> u32_max \<Longrightarrow> (word_of_nat n :: u32) = 0 \<longleftrightarrow> n = 0"
  using unat_word_of_nat_u32 [of n] by auto

interpretation vec: strict_codec enc_vector read_v2_vector vector_ok
proof
  show "read_v2_vector (cursor_at pre (enc_vector x @ rest)) = Ok (x, cursor_at (pre @ enc_vector x) rest)"
    if "vector_ok x" "addressable pre (enc_vector x @ rest)" for x pre rest
    using that c32.rd_enc [OF TrueI, of pre "word_of_nat (length x)" "vector_bytes x @ rest"]
      read_coordinates_enc [of x "pre @ to_le_bytes (word_of_nat (length x) :: u32)" rest 0]
    by (simp add: read_v2_vector_def enc_vector_def vector_ok_def unat_word_of_nat_u32 word_of_nat_u32_eq_0)
  show "vector_ok x \<and> (\<exists>rest. bs = enc_vector x @ rest \<and> c = cursor_at (pre @ enc_vector x) rest)"
    if r: "read_v2_vector (cursor_at pre bs) = Ok (x, c)" and a: "addressable pre bs" for pre bs x c
  proof -
    from r obtain n c1 where n: "pl_u32 (cursor_at pre bs) = Ok (n, c1)" "n \<noteq> 0"
      "read_coordinates (unat n) 0 c1 = Ok (x, c)"
      by (auto simp: read_v2_vector_def result_Inr split: if_splits)
    from c32.rd_canon [OF n(1) a] obtain r1 where
      1: "bs = to_le_bytes n @ r1" "c1 = cursor_at (pre @ to_le_bytes n) r1" by blast
    have a1: "addressable (pre @ to_le_bytes n) r1" using a 1 by simp
    note m = read_coordinates_canon [OF n(3) [unfolded 1(2)] a1]
    then have l: "length x = unat n" by blast
    have "n = word_of_nat (length x)" "length x \<le> u32_max" "x \<noteq> []"
      using l n(2) by (auto simp: unsigned_eq_0_iff)
    then show ?thesis using m 1 by (auto simp: enc_vector_def vector_ok_def)
  qed
qed

end
