(* ===== verification/Payload_Theorems.thy ===== *)
theory Payload_Theorems
  imports Payload_Codec
begin

text \<open>Whole mutation payloads: closed forms of the encoders, then round trips and canonicity.\<close>

section \<open>Documents as bytes\<close>

definition doc_ts :: "ingest_document \<Rightarrow> i64 option" where
  "doc_ts d = (if timestamp_present d then Some (doc_timestamp d) else None)"

definition doc_meta :: "ingest_document \<Rightarrow> bytes option" where
  "doc_meta d = (if metadata_present d then Some (doc_metadata d) else None)"

definition doc_cols :: "ingest_document \<Rightarrow> (u32 \<times> predicate_value) list option" where
  "doc_cols d = (if columns_present d then Some (doc_columns d) else None)"

fun string_valid :: "predicate_value \<Rightarrow> bool" where
  "string_valid (PvString s) = utf8_valid s"
| "string_valid _ = True"

text \<open>What the constructors of a document guarantee: absent fields are default, strings are UTF-8.\<close>

definition doc_built :: "ingest_document \<Rightarrow> bool" where
  "doc_built d \<longleftrightarrow>
     (\<not> timestamp_present d \<longrightarrow> doc_timestamp d = 0) \<and> (\<not> metadata_present d \<longrightarrow> doc_metadata d = [])
     \<and> (\<not> columns_present d \<longrightarrow> doc_columns d = [])
     \<and> (\<forall>t. doc_text d = Some t \<longrightarrow> utf8_valid t) \<and> (\<forall>e \<in> set (doc_columns d). string_valid (snd e))"

definition doc_v2_ok :: "ingest_document \<Rightarrow> bool" where
  "doc_v2_ok d \<longleftrightarrow> vector_ok (doc_vector d)
     \<and> (\<forall>t. doc_text d = Some t \<longrightarrow> length t \<le> u32_max \<and> utf8_valid t)
     \<and> (\<forall>m. doc_meta d = Some m \<longrightarrow> length m \<le> u32_max) \<and> (\<forall>cs. doc_cols d = Some cs \<longrightarrow> columns_ok cs)"

definition enc_doc :: "ingest_document \<Rightarrow> bytes" where
  "enc_doc d = to_le_bytes (upsert_v2_bitmap d) @ append_version (doc_version d) @ enc_vector (doc_vector d)
     @ enc_opt enc_lp (doc_text d) @ enc_opt to_le_bytes (doc_ts d) @ enc_opt enc_lp (doc_meta d)
     @ enc_opt enc_columns (doc_cols d)"

lemma bitmap_simps [simp]:
  "upsert_v2_bitmap d AND NOT UPSERT_V2_KNOWN_FIELDS = 0"
  "upsert_v2_bitmap d AND UPSERT_V2_VECTOR \<noteq> 0"
  "upsert_v2_bitmap d AND UPSERT_V2_TEXT \<noteq> 0 \<longleftrightarrow> doc_text d \<noteq> None"
  "upsert_v2_bitmap d AND UPSERT_V2_TIMESTAMP \<noteq> 0 \<longleftrightarrow> doc_ts d \<noteq> None"
  "upsert_v2_bitmap d AND UPSERT_V2_METADATA \<noteq> 0 \<longleftrightarrow> doc_meta d \<noteq> None"
  "upsert_v2_bitmap d AND UPSERT_V2_TYPED_COLUMNS \<noteq> 0 \<longleftrightarrow> doc_cols d \<noteq> None"
  by (auto simp: upsert_v2_bitmap_def field_bits doc_ts_def doc_meta_def doc_cols_def split: if_splits)

lemma encode_column_entries_okD:
  assumes "encode_column_entries cs out = Ok bs" "\<forall>e \<in> set cs. string_valid (snd e)"
  shows "\<forall>e \<in> set cs. column_ok e"
  using assms
proof (induction cs arbitrary: out)
  case (Cons e es)
  then obtain kind body out' where
    e: "encode_metadata_value (predicate_to_metadata (snd e)) = Ok (kind, body)"
      "encode_column_entries es out' = Ok bs"
    by (auto simp: result_Inr split: prod.splits)
  have "column_ok e"
    using e(1) Cons.prems(2) by (cases "snd e") (auto simp: column_ok_def result_Inr u32_try_from_Some)
  then show ?case using Cons.IH [OF e(2)] Cons.prems(2) by simp
qed simp

lemma encode_upsert_v2_Ok:
  assumes "doc_v2_ok d"
  shows "encode_upsert_v2 d = Ok (enc_doc d)"
proof -
  have v: "validate_vector (doc_vector d) = Ok ()" and n: "length (doc_vector d) \<le> u32_max"
    using assms by (auto simp: doc_v2_ok_def vector_ok_def validate_vector_Ok)
  show ?thesis
    using assms v n
    by (auto simp: encode_upsert_v2_def Let_def u32_try_from_def append_length_prefixed_eq
        encode_typed_columns_eq doc_v2_ok_def doc_ts_def doc_meta_def doc_cols_def enc_doc_def
        enc_vector_def split: option.splits)
qed

lemma encode_upsert_v2_okD:
  assumes "encode_upsert_v2 d = Ok bs" "doc_built d"
  shows "doc_v2_ok d"
proof -
  have "vector_ok (doc_vector d)"
    using assms(1)
    by (auto simp: encode_upsert_v2_def Let_def result_Inr validate_vector_Ok u32_try_from_Some vector_ok_def)
  moreover have "length t \<le> u32_max \<and> utf8_valid t" if "doc_text d = Some t" for t
    using assms that
    by (auto simp: encode_upsert_v2_def Let_def result_Inr append_length_prefixed_eq doc_built_def split: if_splits)
  moreover have "length m \<le> u32_max" if "doc_meta d = Some m" for m
    using assms(1) that
    by (auto simp: encode_upsert_v2_def Let_def result_Inr append_length_prefixed_eq doc_meta_def
        split: if_splits)
  moreover have "columns_ok cs" if "doc_cols d = Some cs" for cs
  proof -
    have cs: "columns_present d" "cs = doc_columns d" using that by (auto simp: doc_cols_def split: if_splits)
    then obtain out where "encode_typed_columns cs out = Ok bs"
      using assms(1) by (auto simp: encode_upsert_v2_def Let_def result_Inr)
    then show ?thesis
      using cs assms(2) encode_column_entries_okD
      by (auto simp: encode_typed_columns_def columns_ok_def result_Inr u32_try_from_Some doc_built_def)
  qed
  ultimately show ?thesis by (simp add: doc_v2_ok_def)
qed

lemma with_simps [simp]:
  "apply_opt f None d = d" "apply_opt f (Some x) d = f x d"
  by (simp_all add: apply_opt_def)

lemma rebuild_doc:
  assumes "doc_built d"
  shows "apply_opt with_columns (doc_cols d) (apply_opt with_metadata (doc_meta d)
      (apply_opt with_timestamp (doc_ts d) (apply_opt with_text (doc_text d)
        (ingest_document_new (doc_version d) (doc_vector d))))) = d\<lparr>expected_rev := None\<rparr>"
  using assms
  by (cases "doc_text d") (auto simp: doc_built_def doc_cols_def doc_meta_def doc_ts_def with_columns_def
      with_metadata_def with_timestamp_def with_text_def ingest_document_new_def)

lemma decode_enc_doc:
  assumes ok: "doc_v2_ok d" and b: "doc_built d" and a: "length (enc_doc d) \<le> alloc_max"
  shows "decode_upsert_v2 (enc_doc d) = Ok (d\<lparr>expected_rev := None\<rparr>)"
proof -
  let ?p0 = "to_le_bytes (upsert_v2_bitmap d)"
  let ?p1 = "?p0 @ append_version (doc_version d)"
  let ?p2 = "?p1 @ enc_vector (doc_vector d)"
  let ?p3 = "?p2 @ enc_opt enc_lp (doc_text d)"
  let ?p4 = "?p3 @ enc_opt to_le_bytes (doc_ts d)"
  let ?p5 = "?p4 @ enc_opt enc_lp (doc_meta d)"
  have a: "addressable [] (enc_doc d)" using a by (simp add: addressable_def)
  have r0: "pl_u32 (cursor_at [] (enc_doc d)) = Ok (upsert_v2_bitmap d, cursor_at ?p0 (drop 4 (enc_doc d)))"
    using c32.rd_enc [OF TrueI, of "[]" "upsert_v2_bitmap d"] a by (simp add: enc_doc_def)
  note steps = ver.rd_enc [OF TrueI, of ?p0 "doc_version d"]
    vec.rd_enc [of "doc_vector d" ?p1]
    str.read_if_enc [of "doc_text d" ?p2]
    c64.read_if_enc [of "doc_ts d" ?p3]
    lp.read_if_enc [of "doc_meta d" ?p4]
    cols.read_if_enc [of "doc_cols d" ?p5 "[]"]
  show ?thesis
    unfolding decode_upsert_v2_def pl_new_at r0
    using a ok steps rebuild_doc [OF b]
    by (simp add: enc_doc_def doc_v2_ok_def Let_def read_vector_field_def)
qed

section \<open>Canonicity of upsert v2\<close>

lemma bitmap_bits:
  assumes "b AND NOT UPSERT_V2_KNOWN_FIELDS = 0"
  shows "b = (if b AND UPSERT_V2_VECTOR \<noteq> 0 then UPSERT_V2_VECTOR else 0)
    OR (if b AND UPSERT_V2_TEXT \<noteq> 0 then UPSERT_V2_TEXT else 0)
    OR (if b AND UPSERT_V2_TIMESTAMP \<noteq> 0 then UPSERT_V2_TIMESTAMP else 0)
    OR (if b AND UPSERT_V2_METADATA \<noteq> 0 then UPSERT_V2_METADATA else 0)
    OR (if b AND UPSERT_V2_TYPED_COLUMNS \<noteq> 0 then UPSERT_V2_TYPED_COLUMNS else 0)"
proof -
  have piece: "bit (if b AND push_bit k 1 \<noteq> 0 then push_bit k 1 else (0 :: u32)) i \<longleftrightarrow> i = k \<and> bit b k"
    if "k < 32" for k i
  proof -
    have "(b AND push_bit k 1 \<noteq> 0) = bit b k" using that by (simp add: bit_iff_and_push_bit_not_eq_0)
    then show ?thesis using that by (simp only: split: if_split) (auto simp: bit_simps)
  qed
  have z: "\<not> bit b i" if "5 \<le> i" for i
  proof
    assume bi: "bit b i"
    have m: "UPSERT_V2_KNOWN_FIELDS = mask 5" by (simp add: field_bits mask_eq_exp_minus_1)
    have "\<not> bit UPSERT_V2_KNOWN_FIELDS i" unfolding m bit_mask_iff using that by simp
    moreover have "i < 32" using bi bit_imp_le_length [of b i] by simp
    ultimately have "bit (b AND NOT UPSERT_V2_KNOWN_FIELDS) i"
      using bi by (simp add: bit_simps)
    then show False using assms by simp
  qed
  have five: "5 \<le> i \<or> i = 0 \<or> i = 1 \<or> i = 2 \<or> i = 3 \<or> i = 4" for i :: nat by arith
  show ?thesis
  proof (rule bit_word_eqI)
    fix i assume "i < LENGTH(32)"
    show "bit b i = bit ((if b AND UPSERT_V2_VECTOR \<noteq> 0 then UPSERT_V2_VECTOR else 0)
      OR (if b AND UPSERT_V2_TEXT \<noteq> 0 then UPSERT_V2_TEXT else 0)
      OR (if b AND UPSERT_V2_TIMESTAMP \<noteq> 0 then UPSERT_V2_TIMESTAMP else 0)
      OR (if b AND UPSERT_V2_METADATA \<noteq> 0 then UPSERT_V2_METADATA else 0)
      OR (if b AND UPSERT_V2_TYPED_COLUMNS \<noteq> 0 then UPSERT_V2_TYPED_COLUMNS else 0)) i"
      unfolding UPSERT_V2_VECTOR_def UPSERT_V2_TEXT_def UPSERT_V2_TIMESTAMP_def UPSERT_V2_METADATA_def
        UPSERT_V2_TYPED_COLUMNS_def bit_or_iff
      using z [of i] five [of i] by (simp only: piece) auto
  qed
qed

lemma rebuilt_fields:
  assumes "d = apply_opt with_columns cs (apply_opt with_metadata m (apply_opt with_timestamp ts
    (apply_opt with_text tx (ingest_document_new v vector))))"
  shows "doc_version d = v" "doc_vector d = vector" "doc_text d = tx" "doc_ts d = ts" "doc_meta d = m"
    "doc_cols d = cs" "expected_rev d = None"
  unfolding assms
  by (cases tx; cases ts; cases m; cases cs; simp add: doc_ts_def doc_meta_def doc_cols_def
      with_columns_def with_metadata_def with_timestamp_def with_text_def ingest_document_new_def)+

lemma decode_upsert_v2_canon:
  assumes r: "decode_upsert_v2 bs = Ok d" and a: "length bs \<le> alloc_max" and ne: "doc_vector d \<noteq> []"
  shows "bs = enc_doc d \<and> doc_v2_ok d \<and> expected_rev d = None"
proof -
  have a0: "addressable [] bs" using a by (simp add: addressable_def)
  from r obtain bitmap c0 v c1 vector c2 tx c3 ts c4 m c5 cs c6 where
    s: "pl_u32 (cursor_at [] bs) = Ok (bitmap, c0)" "bitmap AND NOT UPSERT_V2_KNOWN_FIELDS = 0"
      "pl_read_version c0 = Ok (v, c1)"
      "read_vector_field (bitmap AND UPSERT_V2_VECTOR \<noteq> 0) c1 = Ok (vector, c2)"
      "read_if (bitmap AND UPSERT_V2_TEXT \<noteq> 0) pl_read_string c2 = Ok (tx, c3)"
      "read_if (bitmap AND UPSERT_V2_TIMESTAMP \<noteq> 0) pl_u64 c3 = Ok (ts, c4)"
      "read_if (bitmap AND UPSERT_V2_METADATA \<noteq> 0) pl_length_prefixed c4 = Ok (m, c5)"
      "read_if (bitmap AND UPSERT_V2_TYPED_COLUMNS \<noteq> 0) decode_typed_columns c5 = Ok (cs, c6)"
      "pl_finish c6 = Ok ()"
    and d: "d = apply_opt with_columns cs (apply_opt with_metadata m (apply_opt with_timestamp ts
      (apply_opt with_text tx (ingest_document_new v vector))))"
    by (auto simp: decode_upsert_v2_def pl_new_at result_Inr Let_def split: if_splits)
  note f = rebuilt_fields [OF d]
  have vb: "bitmap AND UPSERT_V2_VECTOR \<noteq> 0" using s(4) ne f(2) by (auto simp: read_vector_field_def split: if_splits)
  from c32.rd_canon [OF s(1) a0] obtain r0 where
    0: "bs = to_le_bytes bitmap @ r0" "c0 = cursor_at ([] @ to_le_bytes bitmap) r0" by blast
  let ?p0 = "[] @ to_le_bytes bitmap"
  have b0: "addressable ?p0 r0" using a0 0 by simp
  from ver.rd_canon [OF s(3) [unfolded 0(2)] b0] obtain r1 where
    1: "r0 = append_version v @ r1" "c1 = cursor_at (?p0 @ append_version v) r1" by blast
  let ?p1 = "?p0 @ append_version v"
  have b1: "addressable ?p1 r1" using b0 1 by simp
  from vec.rd_canon [of ?p1 r1 vector c2] s(4) [unfolded read_vector_field_def] vb 1(2) b1 obtain r2 where
    2: "vector_ok vector" "r1 = enc_vector vector @ r2" "c2 = cursor_at (?p1 @ enc_vector vector) r2" by auto
  let ?p2 = "?p1 @ enc_vector vector"
  have b2: "addressable ?p2 r2" using b1 2 by simp
  from str.read_if_canon [OF s(5) [unfolded 2(3)] b2] obtain r3 where
    3: "(bitmap AND UPSERT_V2_TEXT \<noteq> 0) = (tx \<noteq> None)"
      "\<forall>y. tx = Some y \<longrightarrow> length y \<le> u32_max \<and> utf8_valid y"
      "r2 = enc_opt enc_lp tx @ r3" "c3 = cursor_at (?p2 @ enc_opt enc_lp tx) r3" by blast
  let ?p3 = "?p2 @ enc_opt enc_lp tx"
  have b3: "addressable ?p3 r3" using b2 3(3) by simp
  from c64.read_if_canon [OF s(6) [unfolded 3(4)] b3] obtain r4 where
    4: "(bitmap AND UPSERT_V2_TIMESTAMP \<noteq> 0) = (ts \<noteq> None)"
      "r3 = enc_opt to_le_bytes ts @ r4" "c4 = cursor_at (?p3 @ enc_opt to_le_bytes ts) r4" by blast
  let ?p4 = "?p3 @ enc_opt to_le_bytes ts"
  have b4: "addressable ?p4 r4" using b3 4(2) by simp
  from lp.read_if_canon [OF s(7) [unfolded 4(3)] b4] obtain r5 where
    5: "(bitmap AND UPSERT_V2_METADATA \<noteq> 0) = (m \<noteq> None)" "\<forall>y. m = Some y \<longrightarrow> length y \<le> u32_max"
      "r4 = enc_opt enc_lp m @ r5" "c5 = cursor_at (?p4 @ enc_opt enc_lp m) r5" by blast
  let ?p5 = "?p4 @ enc_opt enc_lp m"
  have b5: "addressable ?p5 r5" using b4 5(3) by simp
  from cols.read_if_canon [OF s(8) [unfolded 5(4)] b5] obtain r6 where
    6: "(bitmap AND UPSERT_V2_TYPED_COLUMNS \<noteq> 0) = (cs \<noteq> None)" "\<forall>y. cs = Some y \<longrightarrow> columns_ok y"
      "r5 = enc_opt enc_columns cs @ r6" "c6 = cursor_at (?p5 @ enc_opt enc_columns cs) r6" by blast
  have "r6 = []" using s(9) 6(4) by (simp add: pl_finish_at)
  moreover have "upsert_v2_bitmap d = bitmap"
    using bitmap_bits [OF s(2)] vb 3(1) 4(1) 5(1) 6(1) f
    by (simp add: upsert_v2_bitmap_def doc_ts_def doc_meta_def doc_cols_def split: if_splits)
  ultimately show ?thesis
    using 0 1 2 3 4 5 6 f by (simp add: enc_doc_def doc_v2_ok_def)
qed

section \<open>The version-1 payloads\<close>

lemma pl_require_header_enc:
  assumes "addressable pre (append_header @ rest)"
  shows "pl_require_header (cursor_at pre (append_header @ rest)) = Ok (cursor_at (pre @ append_header) rest)"
  using assms by (simp add: pl_require_header_def append_header_def c16.rd_enc)

lemma pl_require_header_canon:
  assumes r: "pl_require_header (cursor_at pre bs) = Ok c" and a: "addressable pre bs"
  shows "\<exists>rest. bs = append_header @ rest \<and> c = cursor_at (pre @ append_header) rest"
proof -
  from r obtain c1 where s: "pl_u16 (cursor_at pre bs) = Ok (PAYLOAD_VERSION, c1)" "pl_u16 c1 = Ok (0, c)"
    by (auto simp: pl_require_header_def result_Inr split: if_splits)
  from c16.rd_canon [OF s(1) a] obtain r1 where
    1: "bs = to_le_bytes PAYLOAD_VERSION @ r1" "c1 = cursor_at (pre @ to_le_bytes PAYLOAD_VERSION) r1" by blast
  from c16.rd_canon [OF s(2) [unfolded 1(2)]] a 1 show ?thesis
    by (auto simp: append_header_def)
qed

definition v1_doc :: "ingest_document \<Rightarrow> i64 option \<Rightarrow> bool \<Rightarrow> ingest_document" where
  "v1_doc d ts md =
     (let e = apply_opt with_timestamp ts (ingest_document_new (doc_version d) (doc_vector d))
      in if md then with_metadata (doc_metadata d) e else e)"

definition enc_v1 :: "ingest_document \<Rightarrow> i64 option \<Rightarrow> bool \<Rightarrow> bytes" where
  "enc_v1 d ts md =
     append_header @ append_version (doc_version d) @ enc_opt to_le_bytes ts
     @ (if md then to_le_bytes (word_of_nat (length (doc_metadata d)) :: u32) else [])
     @ to_le_bytes (word_of_nat (length (doc_vector d)) :: u32)
     @ (if md then doc_metadata d else []) @ vector_bytes (doc_vector d)"

lemma encode_upsert_body_Ok:
  "encode_upsert_body d ts md = Ok bs \<Longrightarrow>
   vector_ok (doc_vector d) \<and> (md \<longrightarrow> length (doc_metadata d) \<le> u32_max) \<and> bs = enc_v1 d ts md"
  by (auto simp: encode_upsert_body_def result_Inr Let_def vector_ok_def u32_try_from_Some position_None
      enc_v1_def enc_opt_def split: if_splits option.splits)

lemma decode_v1:
  assumes v: "vector_ok (doc_vector d)" and m: "md \<longrightarrow> length (doc_metadata d) \<le> u32_max"
    and a: "length (enc_v1 d ts md) \<le> alloc_max"
  shows "decode_upsert_body (enc_v1 d ts md) (ts \<noteq> None) md = Ok (v1_doc d ts md)"
proof -
  let ?dims = "word_of_nat (length (doc_vector d)) :: u32"
  let ?meta = "if md then doc_metadata d else []"
  let ?mlen = "if md then to_le_bytes (word_of_nat (length (doc_metadata d)) :: u32) else []"
  let ?h = append_header
  let ?p1 = "?h @ append_version (doc_version d)"
  let ?p2 = "?p1 @ enc_opt to_le_bytes ts"
  let ?p3 = "?p2 @ ?mlen"
  let ?p4 = "?p3 @ to_le_bytes ?dims"
  let ?p5 = "?p4 @ ?meta"
  have ad: "addressable [] (enc_v1 d ts md)" using a by (simp add: addressable_def)
  have n: "unat ?dims = length (doc_vector d)" "?dims \<noteq> 0" "length (doc_vector d) \<le> u32_max"
    using v by (auto simp: vector_ok_def unat_word_of_nat_u32 word_of_nat_u32_eq_0)
  have ts: "(if ts \<noteq> None then pl_u64 (cursor_at ?p1 (enc_opt to_le_bytes ts @ rest)) else Ok (0, cursor_at ?p1 (enc_opt to_le_bytes ts @ rest))) =
      Ok (case ts of None \<Rightarrow> 0 | Some t \<Rightarrow> t, cursor_at ?p2 rest)"
    if "addressable ?p1 (enc_opt to_le_bytes ts @ rest)" for rest
    using that by (cases ts) (auto simp: c64.rd_enc)
  have ml: "(if md then map_ok (\<lambda>(n, c). (unat n, c)) (pl_u32 (cursor_at ?p2 (?mlen @ rest))) else Ok (0, cursor_at ?p2 (?mlen @ rest))) =
      Ok (length ?meta, cursor_at ?p3 rest)"
    if "addressable ?p2 (?mlen @ rest)" for rest
    using that m by (auto simp: c32.rd_enc unat_word_of_nat_u32)
  have rem: "pl_require_remaining (length ?meta + length (doc_vector d) * 4) (cursor_at ?p4 (?meta @ vector_bytes (doc_vector d))) = Ok ()"
    by (auto simp: pl_require_remaining_def)
  have bound: "length (doc_vector d) * 4 \<le> usize_max" "length ?meta + length (doc_vector d) * 4 \<le> usize_max"
    using n(3) m by (auto simp: u32_max_def usize_max_def)
  note steps = pl_require_header_enc [of "[]"] ver.rd_enc [OF TrueI, of ?h "doc_version d"]
    c32.rd_enc [OF TrueI, of ?p3 ?dims "?meta @ vector_bytes (doc_vector d)"]
    pl_read_bytes_enc [of ?p4 ?meta "vector_bytes (doc_vector d)" "length ?meta"]
    read_coordinates_enc [of "doc_vector d" ?p5 "[]" 0]
  have fin: "\<forall>x \<in> set (doc_vector d). f32_is_finite x" using v by (simp add: vector_ok_def)
  show ?thesis
    unfolding decode_upsert_body_def pl_new_at enc_v1_def
    using ad steps n ts ml rem bound fin
    by (auto simp: enc_v1_def v1_doc_def Let_def split: option.splits)
qed

section \<open>Deletes and metadata edits\<close>

definition enc_delete :: "u128 list \<Rightarrow> bytes" where
  "enc_delete ids = append_header @ to_le_bytes (word_of_nat (length ids) :: u32) @ concat (map to_le_bytes ids)"

lemma encode_delete_eq:
  "encode_delete ids =
    (if ids = [] then Err EmptyDelete else if length ids \<le> u32_max then Ok (enc_delete ids)
     else Err PayloadLengthOverflow)"
  by (auto simp: encode_delete_def u32_try_from_def enc_delete_def u32_max_def usize_max_def)

lemma length_concat_u128 [simp]: "length (concat (map (to_le_bytes :: u128 \<Rightarrow> bytes) ids)) = 16 * length ids"
  by (induction ids) auto

lemma decode_enc_delete:
  assumes "ids \<noteq> []" "length ids \<le> u32_max" "length (enc_delete ids) \<le> alloc_max"
  shows "decode_delete (enc_delete ids) = Ok ids"
proof -
  let ?n = "word_of_nat (length ids) :: u32"
  have ad: "addressable [] (enc_delete ids)" using assms(3) by (simp add: addressable_def)
  have n: "unat ?n = length ids" "?n \<noteq> 0" "length ids * 16 \<le> usize_max"
    using assms by (auto simp: unat_word_of_nat_u32 word_of_nat_u32_eq_0 u32_max_def usize_max_def)
  note steps = pl_require_header_enc [of "[]"]
    c32.rd_enc [OF TrueI, of append_header ?n "concat (map to_le_bytes ids)"]
    c128.read_many_enc [of ids "append_header @ to_le_bytes ?n" "[]"]
  show ?thesis
    unfolding decode_delete_def pl_new_at enc_delete_def
    using ad steps n by (simp add: enc_delete_def pl_require_remaining_def)
qed

lemma decode_delete_canon:
  assumes r: "decode_delete bs = Ok ids" and a: "length bs \<le> alloc_max"
  shows "encode_delete ids = Ok bs"
proof -
  have a0: "addressable [] bs" using a by (simp add: addressable_def)
  from r obtain c0 n c1 c2 where
    s: "pl_require_header (cursor_at [] bs) = Ok c0" "pl_u32 c0 = Ok (n, c1)" "n \<noteq> 0"
      "read_many (unat n) pl_u128 c1 = Ok (ids, c2)" "pl_finish c2 = Ok ()"
    by (auto simp: decode_delete_def pl_new_at result_Inr split: if_splits)
  from pl_require_header_canon [OF s(1) a0] obtain r0 where
    0: "bs = append_header @ r0" "c0 = cursor_at ([] @ append_header) r0" by blast
  have b0: "addressable ([] @ append_header) r0" using a0 0 by simp
  from c32.rd_canon [OF s(2) [unfolded 0(2)] b0] obtain r1 where
    1: "r0 = to_le_bytes n @ r1" "c1 = cursor_at (([] @ append_header) @ to_le_bytes n) r1" by blast
  have b1: "addressable (([] @ append_header) @ to_le_bytes n) r1" using b0 1 by simp
  from c128.read_many_canon [OF s(4) [unfolded 1(2)] b1] obtain r2 where
    2: "length ids = unat n" "r1 = concat (map to_le_bytes ids) @ r2"
      "c2 = cursor_at ((([] @ append_header) @ to_le_bytes n) @ concat (map to_le_bytes ids)) r2" by blast
  have "r2 = []" using s(5) 2(3) by (simp add: pl_finish_at)
  moreover have "n = word_of_nat (length ids)" "length ids \<le> u32_max" "ids \<noteq> []"
    using 2(1) s(3) by (auto simp: unsigned_eq_0_iff)
  ultimately show ?thesis
    using 0 1 2 by (simp add: encode_delete_eq enc_delete_def)
qed

lemma encode_metadata_edit_Ok:
  assumes "value_ok (me_value e)" "encode_metadata_edit e = Ok bs" "length bs \<le> alloc_max"
  shows "decode_metadata_edit bs = Ok e"
proof -
  obtain kind body where b: "encode_metadata_value (me_value e) = Ok (kind, body)" "length body \<le> u32_max"
    using encode_value_Ok [OF assms(1)] by blast
  let ?n = "word_of_nat (length body) :: u32"
  let ?p1 = "append_header @ append_version (me_version e)"
  let ?p2 = "?p1 @ to_le_bytes (me_column e)"
  have bs: "bs = append_header @ append_version (me_version e) @ to_le_bytes (me_column e) @ [kind]
      @ [0, 0, 0] @ to_le_bytes ?n @ body"
    using assms(2) b by (simp add: encode_metadata_edit_def result_Inr u32_try_from_Some)
  have ad: "addressable [] bs" using assms(3) by (simp add: addressable_def)
  note steps = pl_require_header_enc [of "[]"] ver.rd_enc [OF TrueI, of append_header "me_version e"]
    c32.rd_enc [OF TrueI, of ?p1 "me_column e"]
    c8.rd_enc [OF TrueI, of ?p2 kind "[0, 0, 0] @ to_le_bytes ?n @ body"]
    pl_u24_zero [of "?p2 @ [kind]" "to_le_bytes ?n @ body"]
    c32.rd_enc [OF TrueI, of "(?p2 @ [kind]) @ [0, 0, 0]" ?n body]
    pl_read_bytes_enc [of "((?p2 @ [kind]) @ [0, 0, 0]) @ to_le_bytes ?n" body "[]" "length body"]
  show ?thesis
    unfolding decode_metadata_edit_def pl_new_at bs
    using ad steps b decode_encode_value [OF assms(1) b(1)] by (simp add: bs unat_word_of_nat_u32)
qed

section \<open>Batch members\<close>

lemma decode_batch_member_enc:
  assumes "encode_upsert_v2_batch_member index count body = Ok bs" "length bs \<le> alloc_max"
  shows "decode_upsert_v2_batch_member bs = map_ok (\<lambda>d. (index, count, d)) (decode_upsert_v2 body)
    \<and> 2 \<le> count \<and> index < count"
proof -
  have bs: "bs = to_le_bytes index @ to_le_bytes count @ body" and v: "\<not> (count < 2 \<or> count \<le> index)"
    using assms(1)
    by (auto simp: encode_upsert_v2_batch_member_def validate_batch_position_def result_Inr split: if_splits)
  have a: "addressable [] bs" using assms(2) by (simp add: addressable_def)
  have "pl_u32 (pl_new bs) = Ok (index, cursor_at (to_le_bytes index) (to_le_bytes count @ body))"
    using c32.rd_enc [OF TrueI, of "[]" index] a by (simp add: bs pl_new_at)
  moreover have "pl_u32 (cursor_at (to_le_bytes index) (to_le_bytes count @ body)) =
      Ok (count, cursor_at (to_le_bytes index @ to_le_bytes count) body)"
    using c32.rd_enc [OF TrueI, of "to_le_bytes index" count] a by (simp add: bs)
  moreover have "slice_from bs 8 = Some body" by (simp add: bs slice_from_def)
  ultimately show ?thesis
    using v by (auto simp: decode_upsert_v2_batch_member_def validate_batch_position_def)
qed

lemma mixed_operation_not_mixed: "validate_mixed_operation op = Ok u \<Longrightarrow> op \<noteq> MIXED_BATCH_MEMBER_V1"
  by (auto simp: validate_mixed_operation_def payload_consts split: if_splits)

lemma decode_mutation_simple:
  "op \<noteq> MIXED_BATCH_MEMBER_V1 \<Longrightarrow> decode_mutation op bs = Ok m \<Longrightarrow> (\<forall>i c o' m'. m \<noteq> MixedBatchMember i c o' m')"
  by (auto simp: decode_mutation.simps result_Inr split: if_splits)

lemma decode_mixed_enc:
  assumes "encode_mixed_batch_member index count op inner = Ok bs"
  shows "decode_mutation MIXED_BATCH_MEMBER_V1 bs =
    map_ok (MixedBatchMember index count op) (decode_mutation op inner)"
proof -
  have bs: "bs = to_le_bytes index @ to_le_bytes count @ to_le_bytes op @ inner"
    and v: "validate_batch_position index count = Ok ()" "validate_mixed_operation op = Ok ()"
    and l: "length inner + 10 \<le> alloc_max"
    using assms by (auto simp: encode_mixed_batch_member_def try_reserve_exact_def result_Inr checked_add_usize_def
        split: if_splits)
  have a: "addressable [] bs" using l by (simp add: addressable_def bs)
  have 1: "pl_u32 (pl_new bs) = Ok (index, cursor_at (to_le_bytes index) (to_le_bytes count @ to_le_bytes op @ inner))"
    using c32.rd_enc [OF TrueI, of "[]" index] a by (simp add: bs pl_new_at)
  have 2: "pl_u32 (cursor_at (to_le_bytes index) (to_le_bytes count @ to_le_bytes op @ inner)) =
      Ok (count, cursor_at (to_le_bytes index @ to_le_bytes count) (to_le_bytes op @ inner))"
    using c32.rd_enc [OF TrueI, of "to_le_bytes index" count] a by (simp add: bs)
  have 3: "pl_u16 (cursor_at (to_le_bytes index @ to_le_bytes count) (to_le_bytes op @ inner)) =
      Ok (op, cursor_at ((to_le_bytes index @ to_le_bytes count) @ to_le_bytes op) inner)"
    using c16.rd_enc [OF TrueI, of "to_le_bytes index @ to_le_bytes count" op] a by (simp add: bs)
  have 4: "slice_from bs 10 = Some inner" by (simp add: bs slice_from_def)
  have "decode_mutation MIXED_BATCH_MEMBER_V1 bs = decode_mixed_batch_member bs"
    by (simp add: decode_mutation.simps)
  then show ?thesis
    unfolding decode_mixed_batch_member.simps [of bs] 1 using 2 3 4 v by simp
qed

lemma decode_mixed_Ok:
  assumes "decode_mixed_batch_member bs = Ok m"
  shows "\<exists>index count op inner. m = MixedBatchMember index count op inner \<and> 2 \<le> count \<and> index < count
    \<and> op \<in> {DELETE_V1, UPSERT_V2} \<and> decode_mutation op (drop 10 bs) = Ok inner"
proof -
  from assms obtain index count op inner where
    m: "validate_batch_position index count = Ok ()" "validate_mixed_operation op = Ok ()"
      "decode_mutation op (drop 10 bs) = Ok inner" "m = MixedBatchMember index count op inner"
    by (auto simp: decode_mixed_batch_member.simps [of bs] slice_from_def result_Inr
        split: sum.splits option.splits if_splits prod.splits)
  have "op \<noteq> GRAPH_COMMIT_V1"
    using m(3) by (auto simp: decode_mutation.simps payload_consts)
  then show ?thesis
    using m by (auto simp: validate_batch_position_def validate_mixed_operation_def not_less split: if_splits)
qed

section \<open>Properties of the payload codec\<close>

definition demo_doc :: ingest_document where
  "demo_doc = with_columns [(3, PvString [0x68, 0x69]), (4, PvBool True)] (with_text [0x6F, 0x6B]
     (with_timestamp 5 (ingest_document_new \<lparr>dv_doc_id = 9, dv_revision = 1\<rparr> [0x3F800000])))"

lemma demo_doc_facts: "doc_built demo_doc" "doc_v2_ok demo_doc"
  by (simp_all add: demo_doc_def doc_built_def doc_v2_ok_def with_columns_def with_text_def with_timestamp_def
      ingest_document_new_def vector_ok_def f32_is_finite_def columns_ok_def column_ok_def doc_meta_def
      doc_cols_def u32_max_def)

lemma demo_doc_length: "length (enc_doc demo_doc) \<le> alloc_max"
  by (simp add: demo_doc_def enc_doc_def with_columns_def with_text_def with_timestamp_def
      ingest_document_new_def doc_meta_def doc_cols_def doc_ts_def enc_columns_def enc_column_def
      enc_vector_def append_version_def u32_try_from_def u32_max_def alloc_max_def)

text \<open>
  C22: Upsert-v2 round trip. Whatever document the encoder accepts, with any combination of text,
  timestamp, opaque metadata and typed columns, decoding its payload gives the same document; only
  the unpersisted revision precondition is dropped.
\<close>

theorem upsert_v2_roundtrip:
  assumes "doc_built d" "encode_upsert_v2 d = Ok bs" "length bs \<le> alloc_max"
  shows "decode_upsert_v2 bs = Ok (d\<lparr>expected_rev := None\<rparr>)"
proof -
  have ok: "doc_v2_ok d" by (rule encode_upsert_v2_okD [OF assms(2,1)])
  then have "bs = enc_doc d" using encode_upsert_v2_Ok assms(2) by simp
  then show ?thesis using decode_enc_doc [OF ok assms(1)] assms(3) by simp
qed

theorem upsert_v2_roundtrip_witness:
  "decode_upsert_v2 (enc_doc demo_doc) = Ok (demo_doc\<lparr>expected_rev := None\<rparr>)"
  by (rule upsert_v2_roundtrip [OF demo_doc_facts(1) encode_upsert_v2_Ok [OF demo_doc_facts(2)] demo_doc_length])

text \<open>
  C28: Upsert-v2 canonicity. A payload that decodes to a document with a vector is byte for byte
  what the encoder writes for that document: no reserved bit, padding, length or trailing byte is
  free.
\<close>

theorem upsert_v2_canonical:
  assumes "decode_upsert_v2 bs = Ok d" "doc_vector d \<noteq> []" "length bs \<le> alloc_max"
  shows "encode_upsert_v2 d = Ok bs"
  using decode_upsert_v2_canon [OF assms(1,3,2)] encode_upsert_v2_Ok [of d] by simp

theorem upsert_v2_canonical_witness:
  "encode_upsert_v2 (demo_doc\<lparr>expected_rev := None\<rparr>) = Ok (enc_doc demo_doc)"
proof (rule upsert_v2_canonical)
  show "decode_upsert_v2 (enc_doc demo_doc) = Ok (demo_doc\<lparr>expected_rev := None\<rparr>)"
    by (rule decode_enc_doc [OF demo_doc_facts(2,1) demo_doc_length])
  show "doc_vector (demo_doc\<lparr>expected_rev := None\<rparr>) \<noteq> []"
    by (simp add: demo_doc_def with_columns_def with_text_def with_timestamp_def ingest_document_new_def)
qed (rule demo_doc_length)

text \<open>
  The four version-1 upserts. Decoding with the flags of the operation returns the document's
  version and vector, its timestamp when the operation carries one, and its metadata when the
  operation carries it.
\<close>

theorem upsert_v1_roundtrip:
  assumes "encode_upsert_body d ts md = Ok bs" "length bs \<le> alloc_max"
  shows "decode_upsert_body bs (ts \<noteq> None) md = Ok (v1_doc d ts md)"
  using encode_upsert_body_Ok [OF assms(1)] decode_v1 [of d md ts] assms(2) by auto

theorem upsert_v1_roundtrip_witness:
  "decode_upsert_body (enc_v1 (ingest_document_new \<lparr>dv_doc_id = 9, dv_revision = 1\<rparr> [0]) None False)
     (None \<noteq> (None :: i64 option)) False =
   Ok (v1_doc (ingest_document_new \<lparr>dv_doc_id = 9, dv_revision = 1\<rparr> [0]) None False)"
  by (rule upsert_v1_roundtrip)
    (simp_all add: ingest_document_new_def encode_upsert_body_def u32_try_from_def u32_max_def usize_max_def
      f32_is_finite_def Let_def enc_v1_def append_header_def append_version_def vector_bytes_def alloc_max_def)

text \<open>
  Delete payloads. The decoder accepts exactly the encoder's outputs: a byte string decodes to
  \<open>ids\<close> if and only if it is the encoding of \<open>ids\<close>.
\<close>

theorem delete_exact:
  assumes "length bs \<le> alloc_max"
  shows "decode_delete bs = Ok ids \<longleftrightarrow> encode_delete ids = Ok bs"
proof
  assume "encode_delete ids = Ok bs"
  then show "decode_delete bs = Ok ids"
    using decode_enc_delete [of ids] assms by (auto simp: encode_delete_eq split: if_splits)
qed (rule decode_delete_canon [OF _ assms])

theorem delete_exact_witness: "decode_delete (enc_delete [7, 8]) = Ok [7, 8]"
  using delete_exact [of "enc_delete [7, 8]" "[7, 8]"]
  by (simp add: encode_delete_eq u32_max_def enc_delete_def append_header_def alloc_max_def)

text \<open>
  Metadata edits round trip for every value kind, null included.
\<close>

theorem metadata_edit_roundtrip:
  assumes "value_ok (me_value e)" "encode_metadata_edit e = Ok bs" "length bs \<le> alloc_max"
  shows "decode_metadata_edit bs = Ok e"
  by (rule encode_metadata_edit_Ok [OF assms])

theorem metadata_edit_roundtrip_witness:
  "\<exists>bs. encode_metadata_edit \<lparr>me_version = \<lparr>dv_doc_id = 1, dv_revision = 2\<rparr>, me_column = 3, me_value = MvBool True\<rparr> = Ok bs
     \<and> decode_metadata_edit bs = Ok \<lparr>me_version = \<lparr>dv_doc_id = 1, dv_revision = 2\<rparr>, me_column = 3, me_value = MvBool True\<rparr>"
  using metadata_edit_roundtrip [of "\<lparr>me_version = \<lparr>dv_doc_id = 1, dv_revision = 2\<rparr>, me_column = 3, me_value = MvBool True\<rparr>"]
  by (simp add: encode_metadata_edit_def u32_try_from_def u32_max_def usize_max_def append_header_def
      append_version_def alloc_max_def)

text \<open>
  Mixed batch members never nest. A decoded mixed member has a valid batch position, an inner
  operation that is a delete or an upsert v2, and an inner mutation that is not itself a mixed
  member.
\<close>

theorem mixed_member_flat:
  assumes "decode_mutation op bs = Ok (MixedBatchMember index count inner_op m)"
  shows "op = MIXED_BATCH_MEMBER_V1 \<and> 2 \<le> count \<and> index < count \<and> inner_op \<in> {DELETE_V1, UPSERT_V2}
    \<and> (case m of MixedBatchMember _ _ _ _ \<Rightarrow> False | _ \<Rightarrow> True)"
proof -
  have op: "op = MIXED_BATCH_MEMBER_V1" using decode_mutation_simple [OF _ assms] by blast
  then have "decode_mixed_batch_member bs = Ok (MixedBatchMember index count inner_op m)"
    using assms by (simp add: decode_mutation.simps)
  from decode_mixed_Ok [OF this] have f: "2 \<le> count" "index < count" "inner_op \<in> {DELETE_V1, UPSERT_V2}"
    "decode_mutation inner_op (drop 10 bs) = Ok m" by auto
  have "inner_op \<noteq> MIXED_BATCH_MEMBER_V1" using f(3) by (auto simp: payload_consts)
  from decode_mutation_simple [OF this f(4)] show ?thesis
    using op f by (auto split: mutation_payload.splits)
qed

theorem mixed_member_flat_witness:
  "\<exists>bs m. decode_mutation 11 bs = Ok (MixedBatchMember 0 2 2 m) \<and> (0 :: u32) < 2"
proof -
  let ?inner = "enc_delete [7]"
  have d: "decode_mutation 2 ?inner = Ok (Delete [7])"
    using decode_enc_delete [of "[7]"]
    by (simp add: decode_mutation.simps payload_consts u32_max_def alloc_max_def enc_delete_def append_header_def)
  obtain bs where e: "encode_mixed_batch_member 0 2 2 ?inner = Ok bs"
    by (simp add: encode_mixed_batch_member_def validate_batch_position_def validate_mixed_operation_def
        payload_consts try_reserve_exact_def enc_delete_def append_header_def usize_max_def alloc_max_def)
  have "decode_mutation 11 bs = Ok (MixedBatchMember 0 2 2 (Delete [7]))"
    using decode_mixed_enc [OF e] d by (simp add: payload_consts)
  then show ?thesis using mixed_member_flat by blast
qed

end
