(* ===== verification/Atomic_Batch.thy ===== *)
theory Atomic_Batch
  imports Payload_Theorems Wal_Properties
begin

text \<open>
  Crash atomicity of one mutation batch (\<^verbatim>\<open>src/ingest/atomic_batch.rs\<close>) and the
  transaction-bound prepared mutations of \<^verbatim>\<open>src/ingest/wal_payload.rs\<close>. The decision
  callback of a cross-namespace transaction is an argument; the filesystem answers of the tail
  cut are an argument too.
\<close>

section \<open>Prepared mutations\<close>

definition PREPARED_MUTATION_V1 :: u16 where "PREPARED_MUTATION_V1 = 9"

record transaction_binding =
  tb_transaction :: u128
  tb_participant :: u128
  tb_first_seq :: u64
  tb_last_seq :: u64
  tb_manifest_digest :: u64
  tb_final_generation :: u64

text \<open>\<open>last - first + 1\<close> must fit \<open>u32\<close>; \<open>checked_sub\<close> refuses an inverted range.\<close>

definition member_count :: "transaction_binding \<Rightarrow> (payload_error, u32) result" where
  "member_count b =
     (if tb_transaction b = 0 \<or> tb_participant b = 0 \<or> tb_first_seq b = 0 \<or> tb_final_generation b = 0
      then Err TransactionBinding
      else ok_or TransactionBinding
        (if tb_first_seq b \<le> tb_last_seq b
         then Option.bind (checked_add_u64 (tb_last_seq b - tb_first_seq b) 1)
                (\<lambda>n. u32_try_from (unat n))
         else None))"

definition binding_encode :: "transaction_binding \<Rightarrow> (payload_error, bytes) result" where
  "binding_encode b =
     and_then (member_count b) (\<lambda>_.
     Ok (to_le_bytes (tb_transaction b) @ to_le_bytes (tb_participant b) @ to_le_bytes (tb_first_seq b)
         @ to_le_bytes (tb_last_seq b) @ to_le_bytes (tb_manifest_digest b)
         @ to_le_bytes (tb_final_generation b)))"

definition binding_decode :: "bytes \<Rightarrow> (payload_error, transaction_binding) result" where
  "binding_decode bs =
     and_then (pl_u128 (pl_new bs)) (\<lambda>(transaction, c).
     and_then (pl_u128 c) (\<lambda>(participant, c).
     and_then (pl_u64 c) (\<lambda>(fst_seq, c).
     and_then (pl_u64 c) (\<lambda>(lst_seq, c).
     and_then (pl_u64 c) (\<lambda>(digest, c).
     and_then (pl_u64 c) (\<lambda>(generation, c).
     let b = \<lparr>tb_transaction = transaction, tb_participant = participant, tb_first_seq = fst_seq,
              tb_last_seq = lst_seq, tb_manifest_digest = digest, tb_final_generation = generation\<rparr> in
     and_then (pl_finish c) (\<lambda>_.
     and_then (member_count b) (\<lambda>_. Ok b))))))))"

record prepared_mutation =
  pm_binding :: transaction_binding
  pm_index :: u32
  pm_count :: u32
  pm_op :: u16
  pm_mutation :: mutation_payload

definition standalone_mutation :: "u16 \<Rightarrow> bytes \<Rightarrow> (payload_error, mutation_payload) result" where
  "standalone_mutation op bs =
     (if UPSERT_V1 \<le> op \<and> op \<le> UPSERT_V2 then decode_mutation op bs else Err (UnknownOperation op))"

definition encode_prepared ::
  "transaction_binding \<Rightarrow> u32 \<Rightarrow> u32 \<Rightarrow> u16 \<Rightarrow> bytes \<Rightarrow> (payload_error, bytes) result" where
  "encode_prepared b index count op body =
     and_then (member_count b) (\<lambda>n.
     if count \<noteq> n \<or> count \<le> index then Err (BatchPosition index count) else
     and_then (standalone_mutation op body) (\<lambda>_.
     and_then (ok_or PayloadLengthOverflow (checked_add_usize (length body) 78)) (\<lambda>len.
     and_then (try_reserve_exact len) (\<lambda>_.
     and_then (binding_encode b) (\<lambda>binding.
     Ok (append_header @ binding @ to_le_bytes index @ to_le_bytes count @ to_le_bytes op @ body))))))"

definition decode_prepared :: "bytes \<Rightarrow> (payload_error, prepared_mutation) result" where
  "decode_prepared bs =
     and_then (pl_require_header (pl_new bs)) (\<lambda>c.
     and_then (pl_read_bytes 64 c) (\<lambda>(binding_bytes, c).
     and_then (binding_decode binding_bytes) (\<lambda>b.
     and_then (pl_u32 c) (\<lambda>(index, c).
     and_then (pl_u32 c) (\<lambda>(count, c).
     and_then (member_count b) (\<lambda>n.
     if count \<noteq> n \<or> count \<le> index then Err (BatchPosition index count) else
     and_then (pl_u16 c) (\<lambda>(op, c).
     and_then (pl_read_bytes (pl_remaining c) c) (\<lambda>(body, c).
     and_then (standalone_mutation op body) (\<lambda>m.
     Ok \<lparr>pm_binding = b, pm_index = index, pm_count = count, pm_op = op, pm_mutation = m\<rparr>)))))))))"

datatype transaction_outcome = Committed | Undecided | Mismatch

definition transaction_decision ::
  "transaction_binding \<Rightarrow> transaction_binding option \<Rightarrow> transaction_outcome" where
  "transaction_decision prepared selected =
     (let valid = (case member_count prepared of Inr _ \<Rightarrow> True | Inl _ \<Rightarrow> False) in
      case selected of
        None \<Rightarrow> if valid then Undecided else Mismatch
      | Some b \<Rightarrow> if valid \<and> b = prepared then Committed else Mismatch)"

section \<open>Framing a batch\<close>

primrec frame_members ::
  "u32 \<Rightarrow> u32 \<Rightarrow> (nat \<times> u16 \<times> bytes) list \<Rightarrow> (payload_error, (nat \<times> u16 \<times> bytes) list) result" where
  "frame_members count index [] = Ok []"
| "frame_members count index (r # rs) =
     (let (row, op, payload) = r in
      if op \<noteq> UPSERT_V2 then Err (UnknownOperation op) else
      and_then (encode_upsert_v2_batch_member index count payload) (\<lambda>member.
      and_then (frame_members count (index + 1) rs) (\<lambda>rest.
      Ok ((row, UPSERT_V2_BATCH_MEMBER, member) # rest))))"

definition frame_batch ::
  "(nat \<times> u16 \<times> bytes) list \<Rightarrow> (payload_error, (nat \<times> u16 \<times> bytes) list) result" where
  "frame_batch records =
     (if length records < 2 then Ok records else
      and_then (ok_or PayloadLengthOverflow (u32_try_from (length records))) (\<lambda>count.
      frame_members count 0 records))"

section \<open>Replaying committed batches\<close>

datatype store_error =
    StoreIo io_kind
  | StoreWalRecord log_seq visible_record_error
  | StoreWalMutation log_seq u16 payload_error
  | StoreSynchronization string

type_synonym member = "log_seq \<times> u16 \<times> mutation_payload"

record committed_batch =
  cb_last_seq :: log_seq
  cb_members :: "member list"

record commit_state =
  cs_prepared :: "(log_seq \<times> prepared_mutation) list"
  cs_committed :: "committed_batch list"
  cs_run :: "member list"
  cs_run_count :: u32
  cs_run_op :: u16

type_synonym decision_fn = "transaction_binding \<Rightarrow> transaction_binding option"

definition first_is_committed :: "decision_fn \<Rightarrow> (log_seq \<times> prepared_mutation) list \<Rightarrow> bool" where
  "first_is_committed decision run =
     (case run of
        [] \<Rightarrow> False
      | (_, prior) # _ \<Rightarrow>
          transaction_decision (pm_binding prior) (decision (pm_binding prior)) = Committed)"

definition prepared_step ::
  "decision_fn \<Rightarrow> log_seq \<Rightarrow> u16 \<Rightarrow> bytes \<Rightarrow> commit_state \<Rightarrow> (store_error, commit_state) result" where
  "prepared_step decision seq op payload st0 =
     (let st = st0\<lparr>cs_run := []\<rparr>; mismatch = StoreWalMutation seq op TransactionBinding in
      and_then (map_err (StoreWalMutation seq op) (decode_prepared payload)) (\<lambda>member.
      if checked_add_u64 (tb_first_seq (pm_binding member)) (ucast (pm_index member)) \<noteq> Some seq
      then Err mismatch else
      and_then (if pm_index member = 0
                then (if first_is_committed decision (cs_prepared st) then Err mismatch
                      else Ok (st\<lparr>cs_prepared := []\<rparr>))
                else Ok st) (\<lambda>st.
      if unat (pm_index member) \<noteq> length (cs_prepared st)
         \<or> (case cs_prepared st of [] \<Rightarrow> False | (_, first) # _ \<Rightarrow> pm_binding first \<noteq> pm_binding member)
      then Err mismatch else
      let status = transaction_decision (pm_binding member) (decision (pm_binding member)) in
      if status = Mismatch then Err mismatch else
      let complete = (unat (pm_index member) + 1 = unat (pm_count member));
          run = cs_prepared st @ [(seq, member)]
      in Ok (if complete
             then (if status = Committed
                   then st\<lparr>cs_committed := cs_committed st @
                          [\<lparr>cb_last_seq = seq,
                            cb_members = map (\<lambda>(s, m). (s, pm_op m, pm_mutation m)) run\<rparr>],
                        cs_prepared := []\<rparr>
                   else st\<lparr>cs_prepared := []\<rparr>)
             else st\<lparr>cs_prepared := run\<rparr>))))"

definition member_step ::
  "log_seq \<Rightarrow> u16 \<Rightarrow> u32 \<Rightarrow> u32 \<Rightarrow> u16 \<Rightarrow> mutation_payload \<Rightarrow> commit_state \<Rightarrow> (store_error, commit_state) result" where
  "member_step seq record_op index count op m st =
     and_then (if index = 0
               then Ok (st\<lparr>cs_run := [], cs_run_count := count, cs_run_op := record_op\<rparr>)
               else if record_op \<noteq> cs_run_op st \<or> count \<noteq> cs_run_count st
                       \<or> unat index \<noteq> length (cs_run st)
               then Err (StoreWalMutation seq record_op (OrphanBatchMember index count))
               else Ok st) (\<lambda>st.
     let run = cs_run st @ [(seq, op, m)] in
     Ok (if unat index + 1 = unat count
         then st\<lparr>cs_committed := cs_committed st @ [\<lparr>cb_last_seq = seq, cb_members = run\<rparr>],
                 cs_run := []\<rparr>
         else st\<lparr>cs_run := run\<rparr>))"

definition commit_step ::
  "decision_fn \<Rightarrow> log_seq \<Rightarrow> u16 \<Rightarrow> bytes \<Rightarrow> commit_state \<Rightarrow> (store_error, commit_state) result" where
  "commit_step decision seq op payload st0 =
     (if op = PREPARED_MUTATION_V1 then prepared_step decision seq op payload st0 else
      if first_is_committed decision (cs_prepared st0)
      then Err (StoreWalMutation seq op TransactionBinding) else
      let st = st0\<lparr>cs_prepared := []\<rparr> in
      and_then (map_err (StoreWalMutation seq op) (decode_mutation op payload)) (\<lambda>mutation.
      case mutation of
        BatchMember index count document \<Rightarrow> member_step seq op index count op (Upsert document) st
      | MixedBatchMember index count inner_op m \<Rightarrow> member_step seq op index count inner_op m st
      | m \<Rightarrow> Ok (st\<lparr>cs_run := [],
                   cs_committed := cs_committed st @
                     [\<lparr>cb_last_seq = seq, cb_members = [(seq, op, m)]\<rparr>]\<rparr>)))"

primrec committed_loop ::
  "xxh3_lib \<Rightarrow> decision_fn \<Rightarrow> u64 \<Rightarrow> visible_record list \<Rightarrow> commit_state \<Rightarrow> (store_error, commit_state) result" where
  "committed_loop X decision absorbed [] st = Ok st"
| "committed_loop X decision absorbed (r # rs) st =
     (if vr_seq r \<le> absorbed then committed_loop X decision absorbed rs st else
      and_then (map_err (StoreWalRecord (vr_seq r)) (vr_payload X r)) (\<lambda>payload.
      and_then (commit_step decision (vr_seq r) (vr_op r) payload st) (\<lambda>st.
      committed_loop X decision absorbed rs st)))"

definition committed_batches ::
  "xxh3_lib \<Rightarrow> visible_record list \<Rightarrow> u64 \<Rightarrow> decision_fn \<Rightarrow> (store_error, committed_batch list) result" where
  "committed_batches X records absorbed decision =
     and_then (committed_loop X decision absorbed records
       \<lparr>cs_prepared = [], cs_committed = [], cs_run = [], cs_run_count = 0, cs_run_op = 0\<rparr>) (\<lambda>st.
     if first_is_committed decision (cs_prepared st)
     then Err (StoreWalMutation (fst (hd (cs_prepared st))) PREPARED_MUTATION_V1 TransactionBinding)
     else Ok (cs_committed st))"

definition committed_mutations_with_decisions ::
  "xxh3_lib \<Rightarrow> visible_record list \<Rightarrow> u64 \<Rightarrow> decision_fn \<Rightarrow> (store_error, member list) result" where
  "committed_mutations_with_decisions X records absorbed decision =
     map_ok (\<lambda>bs. concat (map cb_members bs)) (committed_batches X records absorbed decision)"

definition committed_mutations ::
  "xxh3_lib \<Rightarrow> visible_record list \<Rightarrow> u64 \<Rightarrow> (store_error, member list) result" where
  "committed_mutations X records absorbed =
     committed_mutations_with_decisions X records absorbed (\<lambda>_. None)"

section \<open>Cutting an interrupted append\<close>

fun interrupted_append :: "record_error \<Rightarrow> bool" where
  "interrupted_append (HeaderTruncated _ _) = True"
| "interrupted_append (BodyTruncated _ needed _) = (needed \<le> DEFAULT_MAX_GROUP_BYTES_DURABLE)"
| "interrupted_append (LengthOverflow _) = False"
| "interrupted_append (ChecksumMismatch _ _ _) = False"

text \<open>
  What the filesystem answers to each call of the cut, in order: \<open>open\<close> (the length), \<open>read\<close>,
  \<open>write\<close> of the temporary, its \<open>sync\<close>, its read-back, \<open>rename\<close>, the directory \<open>sync\<close>.
\<close>

record cut_env =
  ce_open :: "(io_kind, u64) result"
  ce_read :: "(io_kind, bytes) result"
  ce_write :: "(io_kind, unit) result"
  ce_sync :: "(io_kind, unit) result"
  ce_read_back :: "(io_kind, bytes) result"
  ce_rename :: "(io_kind, unit) result"
  ce_sync_dir :: "(io_kind, unit) result"

definition sync_if :: "sync_requirement \<Rightarrow> (io_kind, unit) result \<Rightarrow> (store_error, unit) result" where
  "sync_if req r = (case req of Skip \<Rightarrow> Ok () | Sync _ \<Rightarrow> map_err StoreIo r)"

text \<open>The result, and the content the log path holds afterwards when a rename replaced it.\<close>

definition cut_interrupted_append ::
  "xxh3_lib \<Rightarrow> cut_env \<Rightarrow> durability_policy \<Rightarrow> (store_error, bool) result \<times> bytes option" where
  "cut_interrupted_append X env policy =
     (case ce_open env of
        Inl NotFound \<Rightarrow> (Ok False, None)
      | Inl e \<Rightarrow> (Err (StoreIo e), None)
      | Inr len \<Rightarrow>
     (case ce_read env of
        Inl e \<Rightarrow> (Err (StoreIo e), None)
      | Inr bs \<Rightarrow>
          if u64_of_usize (length bs) \<noteq> len then (Ok False, None) else
     (case rep_terminator (replay X bs) of
        CorruptAt offset (RecordCorruption Tail error) \<Rightarrow>
          if \<not> interrupted_append error then (Ok False, None) else
          (case slice_to bs offset of
             None \<Rightarrow> (Err (StoreSynchronization ''interrupted WAL append offset''), None)
           | Some prefix_bytes \<Rightarrow>
          (case and_then (map_err StoreIo (ce_write env)) (\<lambda>_.
                and_then (sync_if (data_file policy) (ce_sync env)) (\<lambda>_.
                map_err StoreIo (ce_read_back env))) of
             Inl e \<Rightarrow> (Err e, None)
           | Inr back \<Rightarrow>
               if back \<noteq> prefix_bytes then (Ok False, None) else
          (case map_err StoreIo (ce_rename env) of
             Inl e \<Rightarrow> (Err e, None)
           | Inr _ \<Rightarrow>
               (map_ok (\<lambda>_. True) (sync_if (directory policy) (ce_sync_dir env)), Some prefix_bytes))))
      | _ \<Rightarrow> (Ok False, None))))"

end
