(* ===== verification/Atomic_Theorems.thy ===== *)
theory Atomic_Theorems
  imports Atomic_Batch
begin

text \<open>
  Crash atomicity of batches, for logs in which any number of interrupted batches precede or
  follow complete ones; safety of the tail cut; round trip of prepared mutations.
\<close>

section \<open>Folding the commit step\<close>

primrec commit_fold ::
  "decision_fn \<Rightarrow> wal_record list \<Rightarrow> commit_state \<Rightarrow> (store_error, commit_state) result" where
  "commit_fold decision [] st = Ok st"
| "commit_fold decision (r # rs) st =
     and_then (commit_step decision (rec_seq r) (rec_op r) (rec_payload r) st) (commit_fold decision rs)"

lemma commit_fold_append:
  "commit_fold dec (xs @ ys) st = and_then (commit_fold dec xs st) (commit_fold dec ys)"
proof (induction xs arbitrary: st)
  case (Cons x xs)
  then show ?case
    by (cases "commit_step dec (rec_seq x) (rec_op x) (rec_payload x) st") simp_all
qed simp

lemma committed_loop_fold:
  assumes "list_all2 (vr_matches X) vs rs"
    "\<forall>r \<in> set rs. absorbed < rec_seq r \<and> length (rec_payload r) \<le> u32_max"
  shows "committed_loop X dec absorbed vs st = commit_fold dec rs st"
  using assms
proof (induction arbitrary: st rule: list_all2_induct)
  case (Cons v vs r rs)
  have p: "vr_payload X v = Ok (rec_payload r)" and "vr_seq v = rec_seq r" "vr_op v = rec_op r"
    using Cons.hyps(1) Cons.prems decode_record_bytes [of r X "[]"]
    by (auto simp: vr_matches_def vr_payload_def)
  then show ?case
    using Cons by (cases "commit_step dec (rec_seq r) (rec_op r) (rec_payload r) st") auto
qed simp

section \<open>Batches as units of the log\<close>

type_synonym batch_docs = "(bytes \<times> ingest_document) list"

definition member_bytes :: "nat \<Rightarrow> nat \<Rightarrow> bytes \<Rightarrow> bytes" where
  "member_bytes i n p = to_le_bytes (word_of_nat i :: u32) @ to_le_bytes (word_of_nat n :: u32) @ p"

definition batch_records :: "batch_docs \<Rightarrow> (u16 \<times> bytes) list" where
  "batch_records ps =
     (if length ps < 2 then map (\<lambda>p. (UPSERT_V2, fst p)) ps
      else map (\<lambda>i. (UPSERT_V2_BATCH_MEMBER, member_bytes i (length ps) (fst (ps ! i)))) [0..<length ps])"

definition batch_ok :: "batch_docs \<Rightarrow> bool" where
  "batch_ok ps \<longleftrightarrow> ps \<noteq> [] \<and> length ps \<le> u32_max
     \<and> (\<forall>p \<in> set ps. decode_upsert_v2 (fst p) = Ok (snd p) \<and> length (fst p) + 8 \<le> alloc_max)"

definition batch_members :: "log_seq \<Rightarrow> batch_docs \<Rightarrow> member list" where
  "batch_members s ps =
     map (\<lambda>i. (s + word_of_nat i, if length ps < 2 then UPSERT_V2 else UPSERT_V2_BATCH_MEMBER,
               Upsert (snd (ps ! i)))) [0..<length ps]"

lemma length_batch_records [simp]: "length (batch_records ps) = length ps"
  by (simp add: batch_records_def)

text \<open>What the framing code writes is this.\<close>

lemma encode_member_eq:
  assumes "i < n" "2 \<le> n" "n \<le> u32_max" "length p + 8 \<le> alloc_max"
  shows "encode_upsert_v2_batch_member (word_of_nat i) (word_of_nat n) p = Ok (member_bytes i n p)"
proof -
  have u: "unat (word_of_nat i :: u32) = i" "unat (word_of_nat n :: u32) = n"
    using assms by (simp_all add: unat_word_of_nat_u32)
  have "\<not> ((word_of_nat n :: u32) < 2 \<or> (word_of_nat n :: u32) \<le> word_of_nat i)"
    using assms u by (simp add: word_less_nat_alt word_le_nat_alt)
  then show ?thesis
    using assms by (simp add: encode_upsert_v2_batch_member_def validate_batch_position_def
        try_reserve_exact_def member_bytes_def saturating_add_usize_def min.coboundedI1)
qed

lemma decode_member:
  assumes "i < n" "2 \<le> n" "n \<le> u32_max" "length p + 8 \<le> alloc_max" "decode_upsert_v2 p = Ok d"
  shows "decode_mutation UPSERT_V2_BATCH_MEMBER (member_bytes i n p) =
    Ok (BatchMember (word_of_nat i) (word_of_nat n) d)"
proof -
  have "length (member_bytes i n p) \<le> alloc_max" using assms(4) by (simp add: member_bytes_def)
  from decode_batch_member_enc [OF encode_member_eq [OF assms(1-4)] this] show ?thesis
    using assms(5) by (simp add: decode_mutation.simps payload_consts)
qed

definition after_members :: "log_seq \<Rightarrow> batch_docs \<Rightarrow> nat \<Rightarrow> commit_state \<Rightarrow> commit_state" where
  "after_members s ps j st =
     (if j = 0 then st
      else let run = take j (batch_members s ps) in
        if j = length ps
        then st\<lparr>cs_committed := cs_committed st @
               [\<lparr>cb_last_seq = s + word_of_nat (j - 1), cb_members = run\<rparr>],
             cs_run := [], cs_run_count := word_of_nat (length ps), cs_run_op := UPSERT_V2_BATCH_MEMBER\<rparr>
        else st\<lparr>cs_run := run, cs_run_count := word_of_nat (length ps), cs_run_op := UPSERT_V2_BATCH_MEMBER\<rparr>)"

lemma members_fold:
  assumes ok: "batch_ok ps" and two: "2 \<le> length ps" and p: "cs_prepared st = []" and j: "j \<le> length ps"
  shows "commit_fold dec (seq_records s (take j (batch_records ps))) st = Ok (after_members s ps j st)"
  using j
proof (induction j)
  case 0
  then show ?case by (simp add: after_members_def)
next
  case (Suc j)
  let ?n = "length ps" and ?d = "snd (ps ! j)" and ?b = "fst (ps ! j)"
  have jn: "j < ?n" using Suc.prems by simp
  have pj: "ps ! j \<in> set ps" using jn by simp
  have n: "?n \<le> u32_max" using ok by (simp add: batch_ok_def)
  have uj: "unat (word_of_nat j :: u32) = j" "unat (word_of_nat ?n :: u32) = ?n"
    using jn n by (simp_all add: unat_word_of_nat_u32)
  have z: "(word_of_nat j :: u32) = 0 \<longleftrightarrow> j = 0" using jn n by (intro word_of_nat_u32_eq_0) simp
  have take: "seq_records s (take (Suc j) (batch_records ps)) =
      seq_records s (take j (batch_records ps)) @
      [\<lparr>rec_seq = s + word_of_nat j, rec_op = UPSERT_V2_BATCH_MEMBER, rec_payload = member_bytes j ?n ?b\<rparr>]"
    using jn two by (simp add: take_Suc_conv_app_nth seq_records_append batch_records_def min_absorb2)
  have dec: "decode_mutation UPSERT_V2_BATCH_MEMBER (member_bytes j ?n ?b) =
      Ok (BatchMember (word_of_nat j) (word_of_nat ?n) ?d)"
    by (rule decode_member) (use jn two n ok pj in \<open>auto simp: batch_ok_def\<close>)
  have tm: "take (Suc j) (batch_members s ps) = take j (batch_members s ps) @
      [(s + word_of_nat j, UPSERT_V2_BATCH_MEMBER, Upsert ?d)]"
    using jn two by (simp add: take_Suc_conv_app_nth batch_members_def)
  have len: "length (take j (batch_members s ps)) = j" using jn by (simp add: batch_members_def)
  have prep: "cs_prepared (after_members s ps j st) = []"
    using p by (simp add: after_members_def Let_def)
  have lp: "(word_of_nat (length ps) :: u64) - 1 = word_of_nat j" if "Suc j = length ps"
    using that [symmetric] by simp
  have "commit_step dec (s + word_of_nat j) UPSERT_V2_BATCH_MEMBER (member_bytes j ?n ?b) (after_members s ps j st) =
      Ok (after_members s ps (Suc j) st)"
    using prep dec jn uj z len tm p two lp
    by (cases st) (auto simp: commit_step_def first_is_committed_def PREPARED_MUTATION_V1_def payload_consts
        member_step_def after_members_def Let_def)
  then show ?case
    using Suc by (simp add: take commit_fold_append)
qed

lemma standalone_fold:
  assumes ok: "batch_ok [p]" and pr: "cs_prepared st = []"
  shows "commit_fold dec (seq_records s (batch_records [p])) st =
    Ok (st\<lparr>cs_run := [], cs_committed := cs_committed st @
          [\<lparr>cb_last_seq = s, cb_members = batch_members s [p]\<rparr>]\<rparr>)"
proof -
  have "decode_mutation UPSERT_V2 (fst p) = Ok (Upsert (snd p))"
    using ok by (simp add: batch_ok_def decode_mutation.simps payload_consts)
  then show ?thesis
    using pr by (cases st) (simp add: batch_records_def batch_members_def commit_step_def first_is_committed_def
        PREPARED_MUTATION_V1_def payload_consts)
qed

text \<open>A unit of the log: the batch, and how many of its records an append left in the log.\<close>

type_synonym log_unit = "batch_docs \<times> nat"

definition unit_ok :: "log_unit \<Rightarrow> bool" where
  "unit_ok u \<longleftrightarrow> batch_ok (fst u) \<and> snd u \<le> length (fst u)"

definition unit_records :: "log_unit \<Rightarrow> (u16 \<times> bytes) list" where
  "unit_records u = take (snd u) (batch_records (fst u))"

definition unit_complete :: "log_unit \<Rightarrow> bool" where
  "unit_complete u \<longleftrightarrow> snd u = length (fst u)"

primrec committed_units :: "log_seq \<Rightarrow> log_unit list \<Rightarrow> member list" where
  "committed_units s [] = []"
| "committed_units s (u # us) =
     (if unit_complete u then batch_members s (fst u) else []) @ committed_units (s + word_of_nat (snd u)) us"

lemma unit_fold:
  assumes "unit_ok u" "cs_prepared st = []"
  shows "\<exists>st'. commit_fold dec (seq_records s (unit_records u)) st = Ok st' \<and> cs_prepared st' = []
    \<and> concat (map cb_members (cs_committed st')) = concat (map cb_members (cs_committed st))
        @ (if unit_complete u then batch_members s (fst u) else [])"
proof (cases "2 \<le> length (fst u)")
  case True
  have j: "snd u \<le> length (fst u)" and ok: "batch_ok (fst u)" using assms(1) by (simp_all add: unit_ok_def)
  have "length (batch_members s (fst u)) = length (fst u)" by (simp add: batch_members_def)
  then show ?thesis
    using members_fold [OF ok True assms(2) j, of dec s] assms(2) True
    by (auto simp: unit_records_def after_members_def unit_complete_def Let_def)
next
  case False
  have "fst u \<noteq> []" using assms(1) by (simp add: unit_ok_def batch_ok_def)
  then obtain p where p: "fst u = [p]"
    using False by (cases "fst u" rule: list.exhaust) (auto simp: not_le less_Suc_eq numeral_2_eq_2 length_Suc_conv)
  show ?thesis
  proof (cases "snd u = 0")
    case True
    then show ?thesis using assms(2) p by (simp add: unit_records_def unit_complete_def)
  next
    case ne: False
    then have "unit_records u = batch_records [p]" "unit_complete u"
      using assms(1) p by (simp_all add: unit_ok_def unit_records_def unit_complete_def)
    then show ?thesis
      using standalone_fold [of p st dec s] assms p by (simp add: unit_ok_def)
  qed
qed

lemma units_fold:
  assumes "\<forall>u \<in> set us. unit_ok u" "cs_prepared st = []"
  shows "\<exists>st'. commit_fold dec (seq_records s (concat (map unit_records us))) st = Ok st' \<and> cs_prepared st' = []
    \<and> concat (map cb_members (cs_committed st')) =
        concat (map cb_members (cs_committed st)) @ committed_units s us"
  using assms
proof (induction us arbitrary: s st)
  case (Cons u us)
  have len: "length (unit_records u) = snd u"
    using Cons.prems(1) by (simp add: unit_records_def unit_ok_def min_absorb2)
  obtain st1 where 1: "commit_fold dec (seq_records s (unit_records u)) st = Ok st1" "cs_prepared st1 = []"
    "concat (map cb_members (cs_committed st1)) = concat (map cb_members (cs_committed st))
       @ (if unit_complete u then batch_members s (fst u) else [])"
    using unit_fold [of u st dec s] Cons.prems by auto
  from Cons.IH [OF _ 1(2), of "s + word_of_nat (snd u)"] Cons.prems(1) obtain st2 where
    2: "commit_fold dec (seq_records (s + word_of_nat (snd u)) (concat (map unit_records us))) st1 = Ok st2"
      "cs_prepared st2 = []"
      "concat (map cb_members (cs_committed st2)) =
        concat (map cb_members (cs_committed st1)) @ committed_units (s + word_of_nat (snd u)) us" by auto
  show ?case
    using 1 2 len by (simp add: seq_records_append commit_fold_append)
qed simp

lemma seq_records_above:
  assumes "log_fits f log" "absorbed < f" "r \<in> set (seq_records f log)"
  shows "absorbed < rec_seq r \<and> length (rec_payload r) \<le> u32_max"
proof -
  from assms(3) obtain i where i: "i < length log" "r = seq_records f log ! i"
    by (metis in_set_conv_nth length_seq_records)
  have "unat (rec_seq r) = unat f + i" using seq_records_seq_unat [OF assms(1) i(1)] i(2) by simp
  moreover have "snd (log ! i) = rec_payload r" using i by (simp add: seq_records_nth)
  moreover have "length (snd (log ! i)) \<le> u32_max" using assms(1) i(1) by (simp add: log_fits_def)
  ultimately show ?thesis
    using assms(2) by (simp add: word_less_nat_alt)
qed

lemma frame_members_eq:
  assumes "i + length rs = n" "2 \<le> n" "n \<le> u32_max"
    "\<forall>r \<in> set rs. fst (snd r) = UPSERT_V2 \<and> length (snd (snd r)) + 8 \<le> alloc_max"
  shows "\<exists>out. frame_members (word_of_nat n) (word_of_nat i) rs = Ok out
    \<and> map snd out = map (\<lambda>j. (UPSERT_V2_BATCH_MEMBER, member_bytes (i + j) n (snd (snd (rs ! j))))) [0..<length rs]"
  using assms
proof (induction rs arbitrary: i)
  case (Cons r rs)
  obtain row op payload where r: "r = (row, op, payload)" by (cases r)
  from Cons.IH [of "Suc i"] Cons.prems obtain out where
    o: "frame_members (word_of_nat n) (word_of_nat i + 1) rs = Ok out"
    "map snd out = map (\<lambda>j. (UPSERT_V2_BATCH_MEMBER, member_bytes (Suc i + j) n (snd (snd (rs ! j))))) [0..<length rs]"
    by (auto simp: add.commute)
  have "encode_upsert_v2_batch_member (word_of_nat i) (word_of_nat n) payload = Ok (member_bytes i n payload)"
    by (rule encode_member_eq) (use Cons.prems r in auto)
  moreover have "map (\<lambda>j. (UPSERT_V2_BATCH_MEMBER, member_bytes (i + j) n (snd (snd ((r # rs) ! j))))) [0..<length (r # rs)] =
      (UPSERT_V2_BATCH_MEMBER, member_bytes i n payload) #
      map (\<lambda>j. (UPSERT_V2_BATCH_MEMBER, member_bytes (Suc i + j) n (snd (snd (rs ! j))))) [0..<length rs]"
    by (simp add: upt_conv_Cons map_Suc_upt [symmetric] r del: upt_Suc)
  ultimately show ?case
    using o Cons.prems(4) r by simp
qed simp

section \<open>A concrete log: an interrupted batch, then a complete one\<close>

definition demo_member :: "bytes \<times> ingest_document" where
  "demo_member = (enc_doc demo_doc, demo_doc)"

definition demo_units :: "log_unit list" where
  "demo_units = [([demo_member, demo_member], 1), ([demo_member, demo_member], 2)]"

lemma demo_member_length: "length (fst demo_member) = 81"
  by (simp add: demo_member_def demo_doc_def enc_doc_def with_columns_def with_text_def with_timestamp_def
      ingest_document_new_def doc_meta_def doc_cols_def doc_ts_def enc_columns_def enc_column_def
      enc_vector_def append_version_def u32_try_from_def u32_max_def)

lemma demo_batch_ok: "batch_ok [demo_member, demo_member]"
proof -
  have "decode_upsert_v2 (fst demo_member) = Ok (snd demo_member)"
    using decode_enc_doc [OF demo_doc_facts(2,1) demo_doc_length]
    by (simp add: demo_member_def demo_doc_def with_columns_def with_text_def with_timestamp_def
        ingest_document_new_def)
  then show ?thesis
    using demo_member_length by (simp add: batch_ok_def u32_max_def alloc_max_def)
qed

lemma visible_of_matches: "list_all2 (vr_matches X) (map (visible_of X) rs) rs"
  by (induction rs) (simp_all add: vr_matches_def visible_of_def vr_bytes_def slice_range_def)

section \<open>Properties of batch replay\<close>

text \<open>
  The framing code writes exactly the members the replay theorem talks about: a one-record
  batch stays standalone, a larger one becomes members \<open>0..count\<close> in order.
\<close>

theorem frame_batch_members:
  assumes "batch_ok ps"
  shows "\<exists>out. frame_batch (map (\<lambda>i. (i, UPSERT_V2, fst (ps ! i))) [0..<length ps]) = Ok out
    \<and> map snd out = batch_records ps"
proof (cases "length ps < 2")
  case True
  have "map (\<lambda>i. (UPSERT_V2, fst (ps ! i))) [0..<length ps] = map (\<lambda>p. (UPSERT_V2, fst p)) ps"
    by (rule nth_equalityI) simp_all
  then show ?thesis using True by (simp add: frame_batch_def batch_records_def comp_def)
next
  case False
  let ?rs = "map (\<lambda>i. (i, UPSERT_V2, fst (ps ! i))) [0..<length ps]"
  have "length ps \<le> u32_max" using assms by (simp add: batch_ok_def)
  moreover have "\<forall>r \<in> set ?rs. fst (snd r) = UPSERT_V2 \<and> length (snd (snd r)) + 8 \<le> alloc_max"
    using assms by (auto simp: batch_ok_def)
  ultimately show ?thesis
    using frame_members_eq [of 0 ?rs "length ps"] False
    by (auto simp: frame_batch_def u32_try_from_def batch_records_def)
qed

theorem frame_batch_members_witness:
  "\<exists>out. frame_batch (map (\<lambda>i. (i, UPSERT_V2, fst ([demo_member, demo_member] ! i))) [0..<2]) = Ok out
     \<and> map snd out = batch_records [demo_member, demo_member]"
  using frame_batch_members [OF demo_batch_ok] by (simp add: numeral_2_eq_2)

text \<open>
  C2: Crash atomicity of batches. Let the log hold any sequence of batches, each of which an
  append may have left incomplete at any record boundary (also in the middle of the log, where a
  later writer resumed). Replay after open succeeds and returns, in order, all mutations of the
  complete batches and none of the incomplete ones.
\<close>

theorem batch_atomicity:
  assumes "\<forall>u \<in> set us. unit_ok u" "log_fits f (concat (map unit_records us))" "absorbed < f"
    "list_all2 (vr_matches X) vs (seq_records f (concat (map unit_records us)))"
  shows "committed_mutations X vs absorbed = Ok (committed_units f us)"
proof -
  let ?st = "\<lparr>cs_prepared = [], cs_committed = [], cs_run = [], cs_run_count = 0, cs_run_op = 0\<rparr>"
  obtain st where st: "commit_fold (\<lambda>_. None) (seq_records f (concat (map unit_records us))) ?st = Ok st"
    "cs_prepared st = []" "concat (map cb_members (cs_committed st)) = committed_units f us"
    using units_fold [OF assms(1), of ?st] by auto
  have "committed_loop X (\<lambda>_. None) absorbed vs ?st = Ok st"
    using committed_loop_fold [OF assms(4), of absorbed] seq_records_above [OF assms(2,3)] st(1) by simp
  then show ?thesis
    using st by (simp add: committed_mutations_def committed_mutations_with_decisions_def
        committed_batches_def first_is_committed_def)
qed

theorem batch_atomicity_witness:
  "committed_mutations sum_lib
     (map (visible_of sum_lib) (seq_records 1 (concat (map unit_records demo_units)))) 0 =
   Ok [(2, UPSERT_V2_BATCH_MEMBER, Upsert demo_doc), (3, UPSERT_V2_BATCH_MEMBER, Upsert demo_doc)]"
proof -
  have "\<forall>u \<in> set demo_units. unit_ok u"
    using demo_batch_ok by (simp add: demo_units_def unit_ok_def)
  moreover have "log_fits 1 (concat (map unit_records demo_units))"
    using demo_member_length
    by (simp add: demo_units_def unit_records_def batch_records_def log_fits_def usize_max_def u32_max_def
        member_bytes_def upt_rec)
  moreover have "committed_units 1 demo_units =
      [(2, UPSERT_V2_BATCH_MEMBER, Upsert demo_doc), (3, UPSERT_V2_BATCH_MEMBER, Upsert demo_doc)]"
    by (simp add: demo_units_def unit_complete_def batch_members_def demo_member_def upt_rec)
  ultimately show ?thesis
    using batch_atomicity [of demo_units 1 0 sum_lib, OF _ _ _ visible_of_matches] by simp
qed

section \<open>Cutting the tail\<close>

lemma replay_loop_chain:
  assumes "saturating_chain e rs" "\<forall>r \<in> set rs. length (rec_payload r) \<le> u32_max"
  shows "replay_loop X (pre @ records_image X rs) (length pre) e acc =
    \<lparr>rep_records = acc @ rs, rep_terminator = CleanEnd\<rparr>"
  using assms
proof (induction rs arbitrary: e pre acc)
  case Nil
  then show ?case using replay_loop_end [of X pre] by simp
next
  case (Cons r rs)
  then show ?case
    using Cons.IH [of "saturating_add_u64 e 1" "pre @ record_bytes X r" "acc @ [r]"]
      replay_loop_record [of r e "length pre" pre X "records_image X rs" acc]
    by (simp add: add.assoc)
qed

lemma replay_loop_payloads:
  "\<forall>r \<in> set acc. length (rec_payload r) \<le> u32_max \<Longrightarrow>
   \<forall>r \<in> set (rep_records (replay_loop X bs offset e acc)). length (rec_payload r) \<le> u32_max"
proof (induction X bs offset e acc rule: replay_loop.induct)
  case (1 X bs offset e acc)
  show ?case
  proof (cases "nonempty_from bs offset")
    case None
    then show ?thesis using "1.prems" by (simp add: replay_loop.simps)
  next
    case (Some rest)
    show ?thesis
    proof (cases "decode_record X rest")
      case (Inl err)
      then show ?thesis using Some "1.prems" by (simp add: replay_loop.simps Let_def)
    next
      case (Inr d)
      have "length (rec_payload (dec_record d)) \<le> u32_max" using decode_record_canonical [OF Inr] by blast
      then have acc: "\<forall>r \<in> set (acc @ [dec_record d]). length (rec_payload r) \<le> u32_max"
        using "1.prems" by simp
      show ?thesis
      proof (cases "rec_seq (dec_record d) = e")
        case True
        have "replay_loop X bs offset e acc =
            replay_loop X bs (offset + encoded_len d) (saturating_add_u64 e 1) (acc @ [dec_record d])"
          using Some Inr True by (simp add: replay_loop.simps [of X bs offset e acc])
        then show ?thesis using "1.IH" [OF Some Inr refl refl _ acc] True by simp
      next
        case False
        then show ?thesis using Some Inr "1.prems" by (simp add: replay_loop.simps Let_def)
      qed
    qed
  qed
qed

lemma chunk_take:
  assumes "a + n \<le> k" "a + n \<le> length xs"
  shows "Option.bind (slice_from (take k xs) a) (first_chunk n) = Option.bind (slice_from xs a) (first_chunk n)"
  using assms by (auto simp: slice_from_def first_chunk_def drop_take min_def)

lemma slice_to_take: "b \<le> k \<Longrightarrow> slice_to (take k xs) b = slice_to xs b"
  by (auto simp: slice_to_def min_def)

lemma wal_decode_header_take:
  assumes "40 \<le> k" "40 \<le> length bs"
  shows "wal_decode_header (take k bs) = wal_decode_header bs"
proof -
  have ne: "take k bs \<noteq> []" "bs \<noteq> []" "\<not> length (take k bs) < 40" "\<not> length bs < 40"
    using assms by auto
  have wl: "WAL_HEADER_LEN = 40" by (simp add: wal_consts)
  have "decode_header ''WAL'' WalFamily (take k bs) = decode_header ''WAL'' WalFamily bs"
    using assms by (simp add: decode_header_def slice_to_take FILE_HEADER_LEN_def)
  moreover have "slice_to (take k bs) 8 = Some (take 8 bs)" "slice_to bs 8 = Some (take 8 bs)"
    using assms by (simp_all add: slice_to_def min_def)
  moreover have "read_u16 ''WAL'' (take k bs) 8 = read_u16 ''WAL'' bs 8"
    "read_u16 ''WAL'' (take k bs) 10 = read_u16 ''WAL'' bs 10"
    "read_u64 ''WAL'' (take k bs) 16 = read_u64 ''WAL'' bs 16"
    "read_u64 ''WAL'' (take k bs) FILE_HEADER_LEN = read_u64 ''WAL'' bs FILE_HEADER_LEN"
    using assms by (simp_all add: read_u16_def read_u64_def chunk_take FILE_HEADER_LEN_def)
  ultimately show ?thesis
    using ne wl by (simp add: wal_decode_header_def cong: if_cong)
qed

lemma replay_cut:
  assumes "rep_terminator (replay X bs) = CorruptAt off reason"
  shows "off \<le> length bs
    \<and> replay X (take off bs) = \<lparr>rep_records = rep_records (replay X bs), rep_terminator = CleanEnd\<rparr>"
proof -
  obtain h where h: "wal_decode_header bs = Ok h"
    using assms by (auto simp: replay_def split: sum.splits)
  have l40: "40 \<le> length bs" using h wal_decode_header_short [of bs] by fastforce
  have rep: "replay X bs = replay_loop X bs 40 (first_seq h) []"
    using h by (simp add: replay_def wal_consts)
  from replay_loop_sound [OF l40, of X "first_seq h" "[]"] assms rep obtain new rest where
    r: "rep_records (replay X bs) = new" "drop 40 bs = records_image X new @ rest"
      "saturating_chain (first_seq h) new" "off = 40 + length (records_image X new)"
    by (auto split: replay_terminator.splits)
  have pay: "\<forall>r \<in> set new. length (rec_payload r) \<le> u32_max"
    using replay_loop_payloads [of "[]" X bs 40 "first_seq h"] r(1) rep by simp
  have bs: "bs = take 40 bs @ records_image X new @ rest"
    using r(2) append_take_drop_id [of 40 bs] by simp
  have t: "take off bs = take 40 bs @ records_image X new"
    using r(4) l40 by (subst bs) simp
  have "off \<le> length bs" using arg_cong [OF bs, of length] r(4) l40 by simp
  moreover have "wal_decode_header (take off bs) = Ok h"
    using wal_decode_header_take [of off bs] r(4) l40 h by simp
  moreover have "replay_loop X (take off bs) 40 (first_seq h) [] = \<lparr>rep_records = new, rep_terminator = CleanEnd\<rparr>"
    using replay_loop_chain [OF r(3) pay, of X "take 40 bs" "[]"] l40 t by simp
  ultimately show ?thesis
    using r(1) by (simp add: replay_def wal_consts)
qed

text \<open>
  C20: The tail cut loses nothing that was committed. Whenever it replaces the log, on any file
  content and for any filesystem answers, the new content is a prefix of the old one, replays to
  exactly the same records and ends cleanly.
\<close>

theorem cut_preserves_records:
  assumes "cut_interrupted_append X env policy = (r, Some new)" "ce_read env = Ok bs"
  shows "prefix new bs
    \<and> replay X new = \<lparr>rep_records = rep_records (replay X bs), rep_terminator = CleanEnd\<rparr>"
proof -
  obtain off e where t: "rep_terminator (replay X bs) = CorruptAt off (RecordCorruption Tail e)"
    and n: "slice_to bs off = Some new"
    using assms
    by (auto simp: cut_interrupted_append_def split: sum.splits io_kind.splits if_splits
        replay_terminator.splits corruption_reason.splits corruption_location.splits option.splits)
  have "new = take off bs" using n by (auto simp: slice_to_def split: if_splits)
  then show ?thesis using replay_cut [OF t] by (simp add: take_is_prefix)
qed

definition demo_cut_env :: cut_env where
  "demo_cut_env = \<lparr>ce_open = Ok 43, ce_read = Ok (header_bytes 1 @ [1, 2, 3]), ce_write = Ok (),
     ce_sync = Ok (), ce_read_back = Ok (header_bytes 1), ce_rename = Ok (), ce_sync_dir = Ok ()\<rparr>"

lemma demo_cut: "cut_interrupted_append X demo_cut_env \<lparr>data_file = Sync Full, directory = Sync Full\<rparr> =
    (Ok True, Some (header_bytes 1))"
proof -
  have "replay X (header_bytes 1 @ [1, 2, 3]) = \<lparr>rep_records = [],
      rep_terminator = CorruptAt 40 (RecordCorruption Tail (HeaderTruncated 14 3))\<rparr>"
    using nonempty_from_append [of "header_bytes 1" "[1, 2, 3]"]
    by (simp add: replay_def wal_decode_header_bytes wal_consts replay_loop.simps decode_record_eq)
  then show ?thesis
    by (simp add: cut_interrupted_append_def demo_cut_env_def u64_of_usize_def slice_to_def sync_if_def)
qed

theorem cut_preserves_records_witness:
  "replay sum_lib (header_bytes 1) =
     \<lparr>rep_records = rep_records (replay sum_lib (header_bytes 1 @ [1, 2, 3])), rep_terminator = CleanEnd\<rparr>"
  using cut_preserves_records [OF demo_cut] by (simp add: demo_cut_env_def)

text \<open>
  C40: A checksum failure is never repaired. If replay stops at a record whose checksum does not
  match, the cut leaves the file alone and opening the log is refused with the offset of that
  record; the documentation of \<open>DurabilityMode\<close> says such a log is truncated there.
\<close>

theorem checksum_failure_refused:
  assumes "rep_terminator (replay X bs) = CorruptAt off (RecordCorruption loc (ChecksumMismatch a b n))"
    "ce_open env = Ok len" "ce_read env = Ok bs"
  shows "cut_interrupted_append X env policy = (Ok False, None)
    \<and> (\<forall>rd. wal_reader_open X (Ok bs) = Ok rd \<longrightarrow>
         into_clean rd = Err (RecoveryCorruptAt off (RecordCorruption loc (ChecksumMismatch a b n))))"
  using assms
  by (auto simp: cut_interrupted_append_def wal_reader_open_def Let_def result_Inr into_clean_def
      split: corruption_location.splits)

definition demo_flipped :: bytes where
  "demo_flipped = header_bytes 1 @ replicate 14 0 @ to_le_bytes (1 :: u64)"

lemma from_le_bytes_zeros: "from_le_bytes (replicate n 0) = 0"
proof -
  have "le_to_nat (replicate n 0) = 0" by (induction n) simp_all
  then show ?thesis by (simp add: from_le_bytes_def)
qed

lemma demo_flipped_replay:
  "rep_terminator (replay sum_lib demo_flipped) = CorruptAt 40 (RecordCorruption Tail (ChecksumMismatch 1 0 22))"
proof -
  let ?r = "replicate 14 0 @ to_le_bytes (1 :: u64) :: bytes"
  have d: "decode_record sum_lib ?r = Err (ChecksumMismatch 1 0 22)"
    by (simp add: decode_record_eq Let_def sum_lib_def sum_hash_def from_le_bytes_zeros
        sum_list_replicate)
  have n: "nonempty_from (header_bytes 1 @ ?r) 40 = Some ?r"
    using nonempty_from_append [of "header_bytes 1" ?r] by simp
  have e: "nonempty_from (header_bytes 1 @ ?r) 62 = None"
    by (simp add: nonempty_from_def slice_from_def)
  show ?thesis
    unfolding demo_flipped_def
    using d n e
    by (simp add: replay_def wal_decode_header_bytes wal_consts replay_loop.simps [of _ _ 40] usize_max_def
        successor_location_def)
qed

theorem checksum_failure_refused_witness:
  "cut_interrupted_append sum_lib (demo_cut_env\<lparr>ce_read := Ok demo_flipped\<rparr>)
     \<lparr>data_file = Skip, directory = Skip\<rparr> = (Ok False, None)"
  using checksum_failure_refused [OF demo_flipped_replay, of "demo_cut_env\<lparr>ce_read := Ok demo_flipped\<rparr>" 43
      "\<lparr>data_file = Skip, directory = Skip\<rparr>"]
  by (simp add: demo_cut_env_def)

section \<open>Prepared mutations\<close>

lemma binding_roundtrip:
  assumes "binding_encode b = Ok bs"
  shows "binding_decode bs = Ok b \<and> length bs = 64"
proof -
  obtain n where n: "member_count b = Ok n" using assms by (auto simp: binding_encode_def result_Inr)
  have bs: "bs = to_le_bytes (tb_transaction b) @ to_le_bytes (tb_participant b) @ to_le_bytes (tb_first_seq b)
      @ to_le_bytes (tb_last_seq b) @ to_le_bytes (tb_manifest_digest b) @ to_le_bytes (tb_final_generation b)"
    using assms by (auto simp: binding_encode_def result_Inr)
  have a: "addressable [] bs" by (simp add: addressable_def bs alloc_max_def)
  let ?p1 = "to_le_bytes (tb_transaction b)"
  let ?p2 = "?p1 @ to_le_bytes (tb_participant b)"
  let ?p3 = "?p2 @ to_le_bytes (tb_first_seq b)"
  let ?p4 = "?p3 @ to_le_bytes (tb_last_seq b)"
  let ?p5 = "?p4 @ to_le_bytes (tb_manifest_digest b)"
  note steps = c128.rd_enc [OF TrueI, of "[]" "tb_transaction b"] c128.rd_enc [OF TrueI, of ?p1 "tb_participant b"]
    c64.rd_enc [OF TrueI, of ?p2 "tb_first_seq b"] c64.rd_enc [OF TrueI, of ?p3 "tb_last_seq b"]
    c64.rd_enc [OF TrueI, of ?p4 "tb_manifest_digest b"] c64.rd_enc_end [OF TrueI, of ?p5 "tb_final_generation b"]
  have self: "\<lparr>tb_transaction = tb_transaction b, tb_participant = tb_participant b, tb_first_seq = tb_first_seq b,
      tb_last_seq = tb_last_seq b, tb_manifest_digest = tb_manifest_digest b,
      tb_final_generation = tb_final_generation b\<rparr> = b" by (rule transaction_binding.equality) simp_all
  show ?thesis
    unfolding binding_decode_def pl_new_at bs
    using a steps n by (simp add: bs Let_def self)
qed

lemma prepared_decodes:
  assumes "encode_prepared b index count op body = Ok bs"
  shows "\<exists>m. standalone_mutation op body = Ok m
    \<and> decode_prepared bs = Ok \<lparr>pm_binding = b, pm_index = index, pm_count = count, pm_op = op, pm_mutation = m\<rparr>"
proof -
  obtain m bb where m: "standalone_mutation op body = Ok m" and bb: "binding_encode b = Ok bb"
    and cnt: "member_count b = Ok count" "index < count" and l: "length body + 78 \<le> alloc_max"
    and bs: "bs = append_header @ bb @ to_le_bytes index @ to_le_bytes count @ to_le_bytes op @ body"
    using assms
    by (auto simp: encode_prepared_def result_Inr try_reserve_exact_def checked_add_usize_def not_le split: if_splits)
  have b64: "length bb = 64" "binding_decode bb = Ok b" using binding_roundtrip [OF bb] by simp_all
  have a: "addressable [] bs" using l b64 by (simp add: addressable_def bs append_header_def)
  let ?p1 = "append_header @ bb"
  let ?p2 = "?p1 @ to_le_bytes index"
  let ?p3 = "?p2 @ to_le_bytes count"
  let ?p4 = "?p3 @ to_le_bytes op"
  note steps = pl_require_header_enc [of "[]"]
    pl_read_bytes_enc [of append_header bb "to_le_bytes index @ to_le_bytes count @ to_le_bytes op @ body" 64]
    c32.rd_enc [OF TrueI, of ?p1 index] c32.rd_enc [OF TrueI, of ?p2 count] c16.rd_enc [OF TrueI, of ?p3 op]
    pl_read_bytes_enc [of ?p4 body "[]" "length body"]
  have "decode_prepared bs = Ok \<lparr>pm_binding = b, pm_index = index, pm_count = count, pm_op = op, pm_mutation = m\<rparr>"
    unfolding decode_prepared_def pl_new_at bs
    using a steps b64 cnt m by (simp add: bs)
  then show ?thesis using m by blast
qed

definition demo_binding :: transaction_binding where
  "demo_binding = \<lparr>tb_transaction = 1, tb_participant = 2, tb_first_seq = 3, tb_last_seq = 3,
     tb_manifest_digest = 4, tb_final_generation = 5\<rparr>"


lemma demo_delete: "standalone_mutation 2 (enc_delete [6]) = Ok (Delete [6])"
  using decode_enc_delete [of "[6]"]
  by (simp add: standalone_mutation_def decode_mutation.simps payload_consts u32_max_def alloc_max_def
      enc_delete_def append_header_def)

lemma demo_count: "member_count demo_binding = Ok 1"
  by (simp add: demo_binding_def member_count_def checked_add_u64_def u32_try_from_def u32_max_def usize_max_def)

lemma demo_prepared: "\<exists>bs. encode_prepared demo_binding 0 1 2 (enc_delete [6]) = Ok bs"
  using demo_delete demo_count
  by (simp add: encode_prepared_def try_reserve_exact_def alloc_max_def binding_encode_def enc_delete_def
      append_header_def checked_add_usize_def usize_max_def)

text \<open>
  Prepared mutations round trip: the decoder returns the binding, position, operation and the
  decoded body that the encoder validated.
\<close>

theorem prepared_roundtrip:
  assumes "encode_prepared b index count op body = Ok bs"
  shows "\<exists>m. standalone_mutation op body = Ok m
    \<and> decode_prepared bs = Ok \<lparr>pm_binding = b, pm_index = index, pm_count = count, pm_op = op, pm_mutation = m\<rparr>"
  using assms by (rule prepared_decodes)

theorem prepared_roundtrip_witness:
  "\<exists>bs. encode_prepared demo_binding 0 1 2 (enc_delete [6]) = Ok bs
     \<and> decode_prepared bs = Ok \<lparr>pm_binding = demo_binding, pm_index = 0, pm_count = 1, pm_op = 2,
         pm_mutation = Delete [6]\<rparr>"
proof -
  obtain bs where bs: "encode_prepared demo_binding 0 1 2 (enc_delete [6]) = Ok bs"
    using demo_prepared by blast
  from prepared_roundtrip [OF bs] bs show ?thesis by (simp add: demo_delete)
qed



end
