(* ===== verification/Schema.thy ===== *)
theory Schema
  imports Prelude
begin

text \<open>
  The typed metadata schema (\<^verbatim>\<open>src/meta/mod.rs\<close>): column declarations, the validating
  constructor, and the additive reconciliation of a declared schema with a persisted one. Column
  names are UTF-8 byte strings.
\<close>

definition TIMESTAMP_COLUMN :: u32 where
  "TIMESTAMP_COLUMN = 0"

datatype column_type = TypeU64 | TypeId128 | TypeI64 | TypeF64 | TypeBool | TypeDictionaryString | TypeRawString

record column_definition =
  col_id :: u32
  col_name :: bytes
  col_type :: column_type
  col_nullable :: bool

datatype schema_error =
    ReservedTimestampId
  | ReservedTimestampName
  | DuplicateColumnId u32
  | DuplicateColumnName bytes

datatype schema_conflict =
    Removed column_definition
  | Changed column_definition column_definition
  | AddedNotNullable column_definition

record schema =
  columns :: "column_definition list"

text \<open>The reserved name \<open>ts\<close>.\<close>

definition ts_name :: bytes where
  "ts_name = [0x74, 0x73]"

definition ts_column :: column_definition where
  "ts_column = \<lparr>col_id = TIMESTAMP_COLUMN, col_name = ts_name, col_type = TypeI64, col_nullable = False\<rparr>"

definition timestamp_only :: schema where
  "timestamp_only = \<lparr>columns = [ts_column]\<rparr>"

text \<open>The loop of \<open>Schema::new\<close>: \<open>seen\<close> is \<open>user_columns.iter().take(position)\<close>.\<close>

fun schema_scan :: "column_definition list \<Rightarrow> column_definition list \<Rightarrow> (schema_error, unit) result" where
  "schema_scan seen [] = Ok ()"
| "schema_scan seen (d # rest) =
     (if col_id d = TIMESTAMP_COLUMN then Err ReservedTimestampId
      else if col_name d = ts_name then Err ReservedTimestampName
      else case find (\<lambda>c. col_id c = col_id d \<or> col_name c = col_name d) seen of
             Some duplicate \<Rightarrow>
               if col_id duplicate = col_id d then Err (DuplicateColumnId (col_id d))
               else Err (DuplicateColumnName (col_name d))
           | None \<Rightarrow> schema_scan (seen @ [d]) rest)"

definition schema_new :: "column_definition list \<Rightarrow> (schema_error, schema) result" where
  "schema_new user_columns =
     and_then (schema_scan [] user_columns)
       (\<lambda>_. Ok \<lparr>columns = columns timestamp_only @ user_columns\<rparr>)"

definition schema_column :: "schema \<Rightarrow> u32 \<Rightarrow> column_definition option" where
  "schema_column s i = find (\<lambda>d. col_id d = i) (columns s)"

definition user_column_count :: "schema \<Rightarrow> nat" where
  "user_column_count s = length (columns s) - 1"

fun check_persisted :: "schema \<Rightarrow> column_definition list \<Rightarrow> (schema_conflict, unit) result" where
  "check_persisted declared [] = Ok ()"
| "check_persisted declared (persisted # rest) =
     (case schema_column declared (col_id persisted) of
        None \<Rightarrow> Err (Removed persisted)
      | Some candidate \<Rightarrow>
          if candidate \<noteq> persisted then Err (Changed persisted candidate)
          else check_persisted declared rest)"

fun collect_added :: "schema \<Rightarrow> column_definition list \<Rightarrow> (schema_conflict, column_definition list) result" where
  "collect_added self [] = Ok []"
| "collect_added self (candidate # rest) =
     (if schema_column self (col_id candidate) = None
      then if \<not> col_nullable candidate then Err (AddedNotNullable candidate)
           else map_ok (Cons candidate) (collect_added self rest)
      else collect_added self rest)"

definition additive_evolution :: "schema \<Rightarrow> schema \<Rightarrow> (schema_conflict, schema option) result" where
  "additive_evolution self declared =
     and_then (check_persisted declared (columns self)) (\<lambda>_.
     and_then (collect_added self (columns declared)) (\<lambda>added.
     Ok (if added = [] then None else Some \<lparr>columns = columns self @ added\<rparr>)))"

section \<open>Well-formed schemas\<close>

text \<open>What \<open>Schema::new\<close> promises: the timestamp column first, ids and names without repetition.\<close>

definition schema_ok :: "schema \<Rightarrow> bool" where
  "schema_ok s \<longleftrightarrow> (\<exists>user. columns s = ts_column # user)
     \<and> distinct (map col_id (columns s)) \<and> distinct (map col_name (columns s))"

lemma ts_column_simps [simp]:
  "col_id ts_column = 0" "col_name ts_column = ts_name" "col_nullable ts_column = False"
  by (simp_all add: ts_column_def TIMESTAMP_COLUMN_def)

lemma schema_scan_Ok:
  "schema_scan seen ds = Ok u \<longleftrightarrow>
     (\<forall>d \<in> set ds. col_id d \<noteq> 0 \<and> col_name d \<noteq> ts_name
        \<and> col_id d \<notin> col_id ` set seen \<and> col_name d \<notin> col_name ` set seen)
     \<and> distinct (map col_id ds) \<and> distinct (map col_name ds)"
proof (induction seen ds rule: schema_scan.induct)
  case (2 seen d rest)
  show ?case
  proof (cases "find (\<lambda>c. col_id c = col_id d \<or> col_name c = col_name d) seen")
    case None
    have fresh: "col_id d \<notin> col_id ` set seen \<and> col_name d \<notin> col_name ` set seen"
      using None [unfolded find_None_iff] by auto
    show ?thesis
    proof (cases "col_id d = 0 \<or> col_name d = ts_name")
      case True
      then show ?thesis by (auto simp: TIMESTAMP_COLUMN_def)
    next
      case False
      have "schema_scan seen (d # rest) = schema_scan (seen @ [d]) rest"
        using None False by (simp add: TIMESTAMP_COLUMN_def)
      moreover have "schema_scan (seen @ [d]) rest = Ok u \<longleftrightarrow>
         (\<forall>e \<in> set rest. col_id e \<noteq> 0 \<and> col_name e \<noteq> ts_name
            \<and> col_id e \<notin> col_id ` set (seen @ [d]) \<and> col_name e \<notin> col_name ` set (seen @ [d]))
         \<and> distinct (map col_id rest) \<and> distinct (map col_name rest)"
        by (rule 2) (use False None in \<open>simp_all add: TIMESTAMP_COLUMN_def\<close>)
      moreover have "col_id d \<notin> col_id ` set rest \<longleftrightarrow> (\<forall>e \<in> set rest. col_id e \<noteq> col_id d)"
        "col_name d \<notin> col_name ` set rest \<longleftrightarrow> (\<forall>e \<in> set rest. col_name e \<noteq> col_name d)"
        by (auto simp: image_iff)
      ultimately show ?thesis using False fresh by (simp add: ball_conj_distrib) blast
    qed
  next
    case (Some c)
    then have "c \<in> set seen" "col_id c = col_id d \<or> col_name c = col_name d"
      by (auto simp: find_Some_iff)
    then have "col_id d \<in> col_id ` set seen \<or> col_name d \<in> col_name ` set seen" by (metis imageI)
    moreover have "schema_scan seen (d # rest) \<noteq> Ok u" using Some by simp
    ultimately show ?thesis by (simp del: schema_scan.simps) blast
  qed
qed simp

lemma schema_new_Ok:
  "schema_new cols = Ok s \<longleftrightarrow> columns s = ts_column # cols \<and> schema_ok s"
proof -
  have "schema_new cols = Ok s \<longleftrightarrow> schema_scan [] cols = Ok () \<and> s = \<lparr>columns = ts_column # cols\<rparr>"
    by (auto simp: schema_new_def result_Inr timestamp_only_def)
  moreover have "s = \<lparr>columns = ts_column # cols\<rparr> \<longleftrightarrow> columns s = ts_column # cols"
    by (cases s) simp
  ultimately show ?thesis
    by (auto simp: schema_scan_Ok schema_ok_def image_iff eq_commute [of ts_name])
qed

lemma schema_column_Some:
  assumes "schema_ok s"
  shows "schema_column s i = Some d \<longleftrightarrow> d \<in> set (columns s) \<and> col_id d = i"
proof -
  have "inj_on col_id (set (columns s))"
    using assms by (simp add: schema_ok_def distinct_map)
  moreover have "schema_column s i = Some d \<Longrightarrow> d \<in> set (columns s) \<and> col_id d = i"
    by (auto simp: schema_column_def find_Some_iff)
  moreover have "\<exists>e. schema_column s i = Some e" if "d \<in> set (columns s)" "col_id d = i"
    using that by (cases "schema_column s i") (auto simp: schema_column_def find_None_iff)
  ultimately show ?thesis
    by (metis (mono_tags, lifting) find_Some_iff inj_onD nth_mem schema_column_def)
qed

lemma schema_column_None: "schema_column s i = None \<longleftrightarrow> i \<notin> col_id ` set (columns s)"
  by (auto simp: schema_column_def find_None_iff)

lemma check_persisted_Ok:
  assumes "schema_ok declared"
  shows "check_persisted declared ps = Ok u \<longleftrightarrow> set ps \<subseteq> set (columns declared)"
proof (induction ps)
  case (Cons p ps)
  show ?case
  proof (cases "schema_column declared (col_id p)")
    case None
    then have "p \<notin> set (columns declared)" by (auto simp: schema_column_None)
    then show ?thesis using None by simp
  next
    case (Some c)
    then have "p \<in> set (columns declared) \<longleftrightarrow> c = p"
      using schema_column_Some [OF assms] by (metis option.inject)
    then show ?thesis using Some Cons by auto
  qed
qed simp

lemma collect_added_Ok:
  "collect_added self cs = Ok added \<longleftrightarrow>
     added = filter (\<lambda>c. col_id c \<notin> col_id ` set (columns self)) cs \<and> (\<forall>c \<in> set added. col_nullable c)"
proof (induction cs arbitrary: added)
  case (Cons c cs)
  then show ?case by (auto simp: schema_column_None result_Inr)
qed auto

text \<open>The evolved schema, where evolution is allowed.\<close>

definition evolve :: "schema \<Rightarrow> schema \<Rightarrow> schema" where
  "evolve self declared =
     \<lparr>columns = columns self @ filter (\<lambda>c. col_id c \<notin> col_id ` set (columns self)) (columns declared)\<rparr>"

definition evolvable :: "schema \<Rightarrow> schema \<Rightarrow> bool" where
  "evolvable self declared \<longleftrightarrow> set (columns self) \<subseteq> set (columns declared)
     \<and> (\<forall>c \<in> set (columns declared). col_id c \<notin> col_id ` set (columns self) \<longrightarrow> col_nullable c)"

lemma additive_evolution_Ok:
  assumes "schema_ok declared"
  shows "additive_evolution self declared = Ok r \<longleftrightarrow> evolvable self declared
    \<and> r = (if columns (evolve self declared) = columns self then None else Some (evolve self declared))"
  using check_persisted_Ok [OF assms]
  by (auto simp: additive_evolution_def result_Inr collect_added_Ok evolvable_def evolve_def)

lemma evolve_set:
  assumes "evolvable self declared" "schema_ok declared"
  shows "set (columns (evolve self declared)) = set (columns declared)"
proof -
  have "inj_on col_id (set (columns declared))"
    using assms(2) by (simp add: schema_ok_def distinct_map)
  then have "c \<in> set (columns self)"
    if "c \<in> set (columns declared)" "col_id c \<in> col_id ` set (columns self)" for c
    using assms(1) that by (auto simp: evolvable_def dest: inj_onD)
  then show ?thesis using assms(1) by (auto simp: evolve_def evolvable_def)
qed

lemma evolve_ok:
  assumes "evolvable self declared" "schema_ok declared" "schema_ok self"
  shows "schema_ok (evolve self declared)"
proof -
  let ?f = "filter (\<lambda>c. col_id c \<notin> col_id ` set (columns self)) (columns declared)"
  note d = assms(2)[unfolded schema_ok_def distinct_map] and s = assms(3)[unfolded schema_ok_def distinct_map]
  have set: "set (columns self @ ?f) = set (columns declared)"
    using evolve_set [OF assms(1,2)] by (simp add: evolve_def)
  have "distinct (columns self @ ?f)" using d s by auto
  then have "distinct (map col_id (columns self @ ?f))" "distinct (map col_name (columns self @ ?f))"
    using d unfolding distinct_map set by auto
  moreover have "\<exists>user. columns self @ ?f = ts_column # user" using s by auto
  ultimately show ?thesis by (simp add: schema_ok_def evolve_def)
qed

end
