(* ===== verification/Epoch.thy ===== *)
theory Epoch
  imports Prelude
begin

text \<open>
  Embedding epochs (\<^verbatim>\<open>src/epoch.rs\<close>): the complete identity of an embedding
  interpretation, its canonical digest input, registry validation, and the sequence-locked cell
  that publishes the current alias. The digest function is the xxh3 argument.
\<close>

section \<open>Identities\<close>

datatype normalization = NormNone | NormL2
datatype embedding_runtime = CoreMl | Mlx | CpuReference
datatype compute_units = Cpu | CpuAndGpu | CpuAndNeuralEngine | AllUnits

text \<open>The \<open>as u16\<close> casts of the \<open>repr(u16)\<close> enumerations.\<close>

fun normalization_id :: "normalization \<Rightarrow> u16" where
  "normalization_id NormNone = 0"
| "normalization_id NormL2 = 1"

fun runtime_id :: "embedding_runtime \<Rightarrow> u16" where
  "runtime_id CoreMl = 1"
| "runtime_id Mlx = 2"
| "runtime_id CpuReference = 3"

fun compute_units_id :: "compute_units \<Rightarrow> u16" where
  "compute_units_id Cpu = 1"
| "compute_units_id CpuAndGpu = 2"
| "compute_units_id CpuAndNeuralEngine = 3"
| "compute_units_id AllUnits = 4"

record embedding_tower =
  tw_model_id :: bytes
  tw_model_version :: bytes
  tw_weights_digest :: bytes
  tw_dims :: u32
  tw_normalization :: normalization
  tw_prompt_prefix :: bytes
  tw_max_tokens :: u32
  tw_runtime :: embedding_runtime
  tw_compute_units :: compute_units
  tw_os_build :: "bytes option"

record embedding_epoch =
  ee_document :: embedding_tower
  ee_query :: embedding_tower
  ee_alignment_digest :: bytes

record epoch_identity =
  ei_embedding :: u64
  ei_tokenizer :: u64

record epoch_meta =
  em_id :: u64
  em_embedding :: embedding_epoch
  em_tokenizer :: u64

record store_epoch =
  se_embedding :: embedding_epoch
  se_tokenizer :: u64

datatype epoch_meta_error = EmbeddingDigestMismatch u64 u64

definition EPOCH_MAGIC :: bytes where
  "EPOCH_MAGIC = [0x5A, 0x45, 0x45, 0x4D, 0x42, 0x45, 0x50, 0x32]"

text \<open>\<open>u32::try_from(len).unwrap_or(u32::MAX)\<close>: an over-long field keeps its bytes under a clamped length.\<close>

definition push_bytes :: "bytes \<Rightarrow> bytes" where
  "push_bytes value =
     to_le_bytes (case u32_try_from (length value) of Some n \<Rightarrow> n | None \<Rightarrow> - 1) @ value"

definition push_tower :: "embedding_tower \<Rightarrow> bytes" where
  "push_tower t =
     push_bytes (tw_model_id t) @ push_bytes (tw_model_version t) @ push_bytes (tw_weights_digest t)
     @ to_le_bytes (tw_dims t) @ to_le_bytes (normalization_id (tw_normalization t))
     @ push_bytes (tw_prompt_prefix t) @ to_le_bytes (tw_max_tokens t)
     @ to_le_bytes (runtime_id (tw_runtime t)) @ to_le_bytes (compute_units_id (tw_compute_units t))
     @ (case tw_os_build t of Some build \<Rightarrow> [1] @ push_bytes build | None \<Rightarrow> [0])"

definition canonical_digest_input :: "embedding_epoch \<Rightarrow> bytes" where
  "canonical_digest_input e =
     EPOCH_MAGIC @ push_tower (ee_document e) @ push_tower (ee_query e) @ push_bytes (ee_alignment_digest e)"

definition epoch_id_of :: "xxh3_lib \<Rightarrow> embedding_epoch \<Rightarrow> u64" where
  "epoch_id_of X e = xxh3_64 X (canonical_digest_input e)"

definition store_epoch_identity :: "xxh3_lib \<Rightarrow> store_epoch \<Rightarrow> epoch_identity" where
  "store_epoch_identity X s = \<lparr>ei_embedding = epoch_id_of X (se_embedding s), ei_tokenizer = se_tokenizer s\<rparr>"

definition identity_from_meta :: "xxh3_lib \<Rightarrow> epoch_meta \<Rightarrow> (epoch_meta_error, epoch_identity) result" where
  "identity_from_meta X m =
     (let actual = epoch_id_of X (em_embedding m) in
      if actual \<noteq> em_id m then Err (EmbeddingDigestMismatch (em_id m) actual)
      else Ok \<lparr>ei_embedding = em_id m, ei_tokenizer = em_tokenizer m\<rparr>)"

definition meta_of_store_epoch :: "xxh3_lib \<Rightarrow> store_epoch \<Rightarrow> epoch_meta" where
  "meta_of_store_epoch X s =
     \<lparr>em_id = ei_embedding (store_epoch_identity X s), em_embedding = se_embedding s,
      em_tokenizer = se_tokenizer s\<rparr>"

section \<open>The digest input determines the interpretation\<close>

text \<open>Every variable-length field fits its 32-bit length prefix.\<close>

definition tower_fits :: "embedding_tower \<Rightarrow> bool" where
  "tower_fits t \<longleftrightarrow> length (tw_model_id t) \<le> u32_max \<and> length (tw_model_version t) \<le> u32_max
     \<and> length (tw_weights_digest t) \<le> u32_max \<and> length (tw_prompt_prefix t) \<le> u32_max
     \<and> (\<forall>b. tw_os_build t = Some b \<longrightarrow> length b \<le> u32_max)"

definition epoch_fits :: "embedding_epoch \<Rightarrow> bool" where
  "epoch_fits e \<longleftrightarrow> tower_fits (ee_document e) \<and> tower_fits (ee_query e)
     \<and> length (ee_alignment_digest e) \<le> u32_max"

lemma push_bytes_append_eq:
  assumes "length a \<le> u32_max" "length b \<le> u32_max"
  shows "push_bytes a @ r = push_bytes b @ s \<longleftrightarrow> a = b \<and> r = s"
proof -
  have u: "u32_try_from (length x) = Some (word_of_nat (length x))" if "length x \<le> u32_max" for x :: bytes
    using that by (simp add: u32_try_from_def)
  have "push_bytes a @ r = push_bytes b @ s \<longleftrightarrow>
      (word_of_nat (length a) :: u32) = word_of_nat (length b) \<and> a @ r = b @ s"
    using assms by (simp add: push_bytes_def u)
  moreover have "length a = length b" if "(word_of_nat (length a) :: u32) = word_of_nat (length b)"
    using assms that by (metis unat_word_of_nat_u32)
  ultimately show ?thesis by auto
qed

lemma ids_inject:
  "normalization_id a = normalization_id b \<longleftrightarrow> a = b"
  "runtime_id c = runtime_id d \<longleftrightarrow> c = d"
  "compute_units_id e = compute_units_id f \<longleftrightarrow> e = f"
proof -
  show "normalization_id a = normalization_id b \<longleftrightarrow> a = b" by (cases a; cases b) simp_all
  show "runtime_id c = runtime_id d \<longleftrightarrow> c = d" by (cases c; cases d) simp_all
  show "compute_units_id e = compute_units_id f \<longleftrightarrow> e = f" by (cases e; cases f) simp_all
qed

lemma push_tower_append_eq:
  assumes "tower_fits a" "tower_fits b"
  shows "push_tower a @ r = push_tower b @ s \<longleftrightarrow> a = b \<and> r = s"
proof
  assume e: "push_tower a @ r = push_tower b @ s"
  note f = assms [unfolded tower_fits_def]
  from e have "tw_model_id a = tw_model_id b \<and> tw_model_version a = tw_model_version b
      \<and> tw_weights_digest a = tw_weights_digest b \<and> tw_dims a = tw_dims b
      \<and> tw_normalization a = tw_normalization b \<and> tw_prompt_prefix a = tw_prompt_prefix b
      \<and> tw_max_tokens a = tw_max_tokens b \<and> tw_runtime a = tw_runtime b
      \<and> tw_compute_units a = tw_compute_units b \<and> tw_os_build a = tw_os_build b \<and> r = s"
    using f
    by (cases "tw_os_build a"; cases "tw_os_build b")
      (simp_all add: push_tower_def push_bytes_append_eq ids_inject)
  then show "a = b \<and> r = s" by (simp add: embedding_tower.equality)
qed simp

lemma canonical_digest_input_inject:
  assumes "epoch_fits a" "epoch_fits b" "canonical_digest_input a = canonical_digest_input b"
  shows "a = b"
proof -
  have e: "push_bytes (ee_alignment_digest a) = push_bytes (ee_alignment_digest b)
      \<and> ee_document a = ee_document b \<and> ee_query a = ee_query b"
    using assms by (simp add: canonical_digest_input_def epoch_fits_def push_tower_append_eq)
  then have "ee_alignment_digest a = ee_alignment_digest b"
    using assms(1,2) push_bytes_append_eq [of "ee_alignment_digest a" "ee_alignment_digest b" "[]" "[]"]
    by (simp add: epoch_fits_def)
  with e show ?thesis by (simp add: embedding_epoch.equality)
qed

lemma identity_from_meta_of_store: "identity_from_meta X (meta_of_store_epoch X s) = Ok (store_epoch_identity X s)"
  by (simp add: identity_from_meta_def meta_of_store_epoch_def store_epoch_identity_def)

end
