(* ===== verification/Manifest.thy ===== *)
theory Manifest
  imports Frame Codec Schema Epoch
begin

text \<open>
  The manifest (\<^verbatim>\<open>src/manifest/mod.rs\<close>): the single atomic snapshot commit point. Data,
  encoder, decoder and the epoch reference check, for the default build (without the graph
  section, whose version 3 the decoder refuses). A formatted error message is a constructor with
  the values it prints; names are UTF-8 byte strings and a segment id is its 16 bytes.
\<close>

section \<open>Data\<close>

datatype clustering_key_range = Unstamped | EmptyRange | Bounded i64 i64

record segment_meta =
  sm_id :: bytes
  sm_row_count :: u32
  sm_scheme :: u16
  sm_dims :: u32
  sm_file_size :: u64
  sm_epoch_id :: "u64 option"
  sm_range :: clustering_key_range

definition same_segment_file :: "segment_meta \<Rightarrow> segment_meta \<Rightarrow> bool" where
  "same_segment_file a b \<longleftrightarrow> sm_id a = sm_id b \<and> sm_row_count a = sm_row_count b
     \<and> sm_scheme a = sm_scheme b \<and> sm_dims a = sm_dims b \<and> sm_file_size a = sm_file_size b"

record manifest =
  mf_generation :: u64
  mf_log_seq :: u64
  mf_segments :: "segment_meta list"
  mf_epochs :: "epoch_meta list"
  mf_epoch_alias :: "epoch_identity option"
  mf_schema :: schema

datatype manifest_detail =
    FlagsNonZero
  | ReservedNonZero
  | InvalidArray nat
  | SchemeRejected registry_error
  | SegmentReservedNonZero
  | InvalidNullable u16
  | SchemaRejected schema_error
  | EpochRejected epoch_meta_error
  | DuplicateEpoch epoch_identity
  | NoPublishedAlias
  | SegmentWithoutEpoch bytes
  | LengthExceedsU32 string
  | SegmentRangeInverted bytes i64 i64
  | UnknownExtension
  | RangeCount nat nat
  | RangeBytesOverflow
  | RangeBytes nat nat
  | RangeReserved
  | RangeZeroBounds u8
  | RangeInverted i64 i64
  | UnknownRangeTag u8
  | UnknownColumnType u16
  | OffsetOverflow
  | ManifestTruncated nat nat nat
  | InvalidUtf8
  | AliasReserved
  | AliasAbsentNonZero
  | UnknownAliasTag u8
  | EpochReserved
  | EpochAbsentNonZero
  | UnknownEpochTag u8
  | UnknownNormalization u16
  | UnknownRuntime u16
  | UnknownComputeUnits u16
  | OsReserved
  | UnknownOsTag u8
  | ManifestTrailing nat

datatype manifest_error =
    ManifestIo bytes io_kind
  | ManifestFormat format_error
  | ManifestDecode manifest_detail
  | GraphUnsupportedBuild
  | AheadOfLog u64 u64
  | UnknownEpochAlias epoch_identity
  | UnknownSegmentEpoch bytes u64

definition CLUSTERING_RANGE_EXTENSION_MAGIC :: bytes where
  "CLUSTERING_RANGE_EXTENSION_MAGIC = [0x54, 0x53, 0x52, 0x31]"

definition CLUSTERING_RANGE_RECORD_LEN :: nat where
  "CLUSTERING_RANGE_RECORD_LEN = 24"

section \<open>Encoding\<close>

definition append_u32_len :: "nat \<Rightarrow> string \<Rightarrow> (manifest_error, bytes) result" where
  "append_u32_len len name =
     map_ok to_le_bytes (ok_or (ManifestDecode (LengthExceedsU32 name)) (u32_try_from len))"

definition append_bytes :: "bytes \<Rightarrow> (manifest_error, bytes) result" where
  "append_bytes value = map_ok (\<lambda>len. len @ value) (append_u32_len (length value) ''byte field'')"

definition append_string :: "bytes \<Rightarrow> (manifest_error, bytes) result" where
  "append_string value = append_bytes value"

definition append_optional_identity :: "epoch_identity option \<Rightarrow> bytes" where
  "append_optional_identity identity =
     (let (tag, embedding, tokenizer) =
        (case identity of Some i \<Rightarrow> (1, ei_embedding i, ei_tokenizer i) | None \<Rightarrow> (0, 0, 0))
      in [tag] @ replicate 7 0 @ to_le_bytes embedding @ to_le_bytes tokenizer)"

definition append_optional_epoch_id :: "u64 option \<Rightarrow> bytes" where
  "append_optional_epoch_id epoch =
     (let (tag, value) = (case epoch of None \<Rightarrow> (0, 0) | Some e \<Rightarrow> (1, e))
      in [tag] @ replicate 7 0 @ to_le_bytes value)"

definition append_embedding_tower :: "embedding_tower \<Rightarrow> (manifest_error, bytes) result" where
  "append_embedding_tower t =
     and_then (append_string (tw_model_id t)) (\<lambda>model_id.
     and_then (append_string (tw_model_version t)) (\<lambda>model_version.
     and_then (append_bytes (tw_weights_digest t)) (\<lambda>weights_digest.
     and_then (append_string (tw_prompt_prefix t)) (\<lambda>prompt_prefix.
     and_then (case tw_os_build t of
                 Some build \<Rightarrow> map_ok (\<lambda>b. [1] @ replicate 3 0 @ b) (append_string build)
               | None \<Rightarrow> Ok ([0] @ replicate 3 0)) (\<lambda>os_build.
     Ok (model_id @ model_version @ weights_digest @ to_le_bytes (tw_dims t)
         @ to_le_bytes (normalization_id (tw_normalization t)) @ prompt_prefix
         @ to_le_bytes (tw_max_tokens t) @ to_le_bytes (runtime_id (tw_runtime t))
         @ to_le_bytes (compute_units_id (tw_compute_units t)) @ os_build))))))"

definition append_embedding_epoch :: "embedding_epoch \<Rightarrow> (manifest_error, bytes) result" where
  "append_embedding_epoch e =
     and_then (append_embedding_tower (ee_document e)) (\<lambda>document.
     and_then (append_embedding_tower (ee_query e)) (\<lambda>query.
     and_then (append_bytes (ee_alignment_digest e)) (\<lambda>alignment.
     Ok (document @ query @ alignment))))"

fun column_type_id :: "column_type \<Rightarrow> u16" where
  "column_type_id TypeId128 = 7"
| "column_type_id TypeU64 = 1"
| "column_type_id TypeI64 = 2"
| "column_type_id TypeF64 = 3"
| "column_type_id TypeBool = 4"
| "column_type_id TypeDictionaryString = 5"
| "column_type_id TypeRawString = 6"

text \<open>The record of one segment's clustering key range in the extension.\<close>

definition append_range :: "segment_meta \<Rightarrow> (manifest_error, bytes) result" where
  "append_range s =
     map_ok (\<lambda>(tag, min_ts, max_ts). [tag] @ replicate 7 0 @ to_le_bytes min_ts @ to_le_bytes max_ts)
       (case sm_range s of
          Unstamped \<Rightarrow> Ok (0, 0, 0)
        | EmptyRange \<Rightarrow> Ok (1, 0, 0)
        | Bounded min_ts max_ts \<Rightarrow>
            if sint max_ts < sint min_ts
            then Err (ManifestDecode (SegmentRangeInverted (sm_id s) min_ts max_ts))
            else Ok (2, min_ts, max_ts))"

primrec append_all :: "('a \<Rightarrow> (manifest_error, bytes) result) \<Rightarrow> 'a list \<Rightarrow> (manifest_error, bytes) result" where
  "append_all f [] = Ok []"
| "append_all f (x # xs) =
     and_then (f x) (\<lambda>b. and_then (append_all f xs) (\<lambda>bs. Ok (b @ bs)))"

definition append_clustering_ranges :: "segment_meta list \<Rightarrow> (manifest_error, bytes) result" where
  "append_clustering_ranges segments =
     (if list_all (\<lambda>s. sm_range s = Unstamped) segments then Ok [] else
      and_then (append_u32_len (length segments) ''clustering ranges'') (\<lambda>len.
      and_then (append_all append_range segments) (\<lambda>ranges.
      Ok (CLUSTERING_RANGE_EXTENSION_MAGIC @ len @ ranges))))"

definition append_segment :: "segment_meta \<Rightarrow> (manifest_error, bytes) result" where
  "append_segment s =
     Ok (sm_id s @ to_le_bytes (sm_row_count s) @ to_le_bytes (sm_scheme s) @ to_le_bytes (0 :: u16)
         @ to_le_bytes (sm_dims s) @ to_le_bytes (sm_file_size s) @ append_optional_epoch_id (sm_epoch_id s))"

definition append_epoch :: "epoch_meta \<Rightarrow> (manifest_error, bytes) result" where
  "append_epoch e =
     and_then (append_embedding_epoch (em_embedding e)) (\<lambda>embedding.
     Ok (to_le_bytes (em_id e) @ to_le_bytes (em_tokenizer e) @ embedding))"

definition append_definition :: "column_definition \<Rightarrow> (manifest_error, bytes) result" where
  "append_definition d =
     and_then (append_string (col_name d)) (\<lambda>name.
     Ok (to_le_bytes (col_id d) @ to_le_bytes (column_type_id (col_type d))
         @ to_le_bytes (if col_nullable d then 1 else 0 :: u16) @ name))"

section \<open>Epoch references\<close>

text \<open>The \<open>BTreeSet\<close> of registry identities, as the list of its members in registry order.\<close>

primrec registry_identities ::
  "xxh3_lib \<Rightarrow> epoch_identity list \<Rightarrow> epoch_meta list \<Rightarrow> (manifest_error, epoch_identity list) result" where
  "registry_identities X seen [] = Ok seen"
| "registry_identities X seen (e # es) =
     and_then (map_err (\<lambda>err. ManifestDecode (EpochRejected err)) (identity_from_meta X e)) (\<lambda>identity.
     if identity \<in> set seen then Err (ManifestDecode (DuplicateEpoch identity))
     else registry_identities X (seen @ [identity]) es)"

primrec check_segment_epochs :: "epoch_identity list \<Rightarrow> segment_meta list \<Rightarrow> (manifest_error, unit) result" where
  "check_segment_epochs identities [] = Ok ()"
| "check_segment_epochs identities (s # rest) =
     (case sm_epoch_id s of
        Some epoch \<Rightarrow>
          if \<not> list_ex (\<lambda>i. ei_embedding i = epoch) identities
          then Err (UnknownSegmentEpoch (sm_id s) epoch)
          else check_segment_epochs identities rest
      | None \<Rightarrow>
          if identities \<noteq> [] then Err (ManifestDecode (SegmentWithoutEpoch (sm_id s)))
          else check_segment_epochs identities rest)"

definition validate_epoch_references :: "xxh3_lib \<Rightarrow> manifest \<Rightarrow> (manifest_error, unit) result" where
  "validate_epoch_references X m =
     and_then (registry_identities X [] (mf_epochs m)) (\<lambda>identities.
     and_then (case mf_epoch_alias m of
                 Some alias \<Rightarrow> if alias \<notin> set identities then Err (UnknownEpochAlias alias) else Ok ()
               | None \<Rightarrow> if identities \<noteq> [] then Err (ManifestDecode NoPublishedAlias) else Ok ()) (\<lambda>_.
     check_segment_epochs identities (mf_segments m)))"

definition encode_manifest_payload :: "manifest \<Rightarrow> (manifest_error, bytes) result" where
  "encode_manifest_payload m =
     and_then (append_u32_len (length (mf_segments m)) ''segments'') (\<lambda>segment_count.
     and_then (append_u32_len (length (mf_epochs m)) ''epochs'') (\<lambda>epoch_count.
     and_then (append_u32_len (user_column_count (mf_schema m)) ''schema columns'') (\<lambda>schema_count.
     and_then (append_all append_segment (mf_segments m)) (\<lambda>segments.
     and_then (append_all append_epoch (mf_epochs m)) (\<lambda>epochs.
     and_then (append_all append_definition (drop 1 (columns (mf_schema m)))) (\<lambda>definitions.
     and_then (append_clustering_ranges (mf_segments m)) (\<lambda>ranges.
     Ok (to_le_bytes (mf_generation m) @ to_le_bytes (mf_log_seq m)
         @ segment_count @ epoch_count @ schema_count @ to_le_bytes (0 :: u32)
         @ append_optional_identity (mf_epoch_alias m) @ segments @ epochs @ definitions @ ranges))))))))"

definition encode_manifest :: "xxh3_lib \<Rightarrow> manifest \<Rightarrow> (manifest_error, bytes) result" where
  "encode_manifest X m =
     and_then (validate_epoch_references X m) (\<lambda>_.
     map_ok (encode_artifact_version X ManifestFamily 2 0) (encode_manifest_payload m))"

section \<open>The cursor\<close>

definition mf_take :: "nat \<Rightarrow> cursor \<Rightarrow> (manifest_error, bytes \<times> cursor) result" where
  "mf_take len c =
     and_then (ok_or (ManifestDecode OffsetOverflow) (checked_add_usize (cur_offset c) len)) (\<lambda>stop.
     and_then (ok_or (ManifestDecode (ManifestTruncated (cur_offset c) len (length (cur_bytes c))))
                 (slice_range (cur_bytes c) (cur_offset c) stop)) (\<lambda>value.
     Ok (value, c\<lparr>cur_offset := stop\<rparr>)))"

text \<open>\<open>take(N)?.try_into()\<close>.\<close>

definition mf_array :: "nat \<Rightarrow> cursor \<Rightarrow> (manifest_error, bytes \<times> cursor) result" where
  "mf_array n c =
     and_then (mf_take n c) (\<lambda>(raw, c).
     if length raw = n then Ok (raw, c) else Err (ManifestDecode (InvalidArray n)))"

definition mf_u8 :: "cursor \<Rightarrow> (manifest_error, u8 \<times> cursor) result" where
  "mf_u8 c =
     and_then (mf_take 1 c) (\<lambda>(raw, c).
     case raw of b # _ \<Rightarrow> Ok (b, c) | [] \<Rightarrow> Err (ManifestDecode (InvalidArray 1)))"

definition mf_u16 :: "cursor \<Rightarrow> (manifest_error, u16 \<times> cursor) result" where
  "mf_u16 c = map_ok (\<lambda>(raw, c). (from_le_bytes raw, c)) (mf_array 2 c)"

definition mf_u32 :: "cursor \<Rightarrow> (manifest_error, u32 \<times> cursor) result" where
  "mf_u32 c = map_ok (\<lambda>(raw, c). (from_le_bytes raw, c)) (mf_array 4 c)"

definition mf_u64 :: "cursor \<Rightarrow> (manifest_error, u64 \<times> cursor) result" where
  "mf_u64 c = map_ok (\<lambda>(raw, c). (from_le_bytes raw, c)) (mf_array 8 c)"

definition mf_i64 :: "cursor \<Rightarrow> (manifest_error, i64 \<times> cursor) result" where
  "mf_i64 c = map_ok (\<lambda>(raw, c). (from_le_bytes raw, c)) (mf_array 8 c)"

definition mf_bytes :: "cursor \<Rightarrow> (manifest_error, bytes \<times> cursor) result" where
  "mf_bytes c = and_then (mf_u32 c) (\<lambda>(n, c). mf_take (unat n) c)"

definition mf_string :: "cursor \<Rightarrow> (manifest_error, bytes \<times> cursor) result" where
  "mf_string c =
     and_then (mf_bytes c) (\<lambda>(s, c).
     if utf8_valid s then Ok (s, c) else Err (ManifestDecode InvalidUtf8))"

definition mf_zeros :: "nat \<Rightarrow> manifest_detail \<Rightarrow> cursor \<Rightarrow> (manifest_error, unit \<times> cursor) result" where
  "mf_zeros n detail c =
     and_then (mf_take n c) (\<lambda>(raw, c).
     if list_ex (\<lambda>b. b \<noteq> 0) raw then Err (ManifestDecode detail) else Ok ((), c))"

definition optional_identity_value :: "u8 \<Rightarrow> u64 \<Rightarrow> u64 \<Rightarrow> (manifest_error, epoch_identity option) result" where
  "optional_identity_value tag embedding tokenizer =
     (if tag = 0 \<and> embedding = 0 \<and> tokenizer = 0 then Ok None
      else if tag = 1 then Ok (Some \<lparr>ei_embedding = embedding, ei_tokenizer = tokenizer\<rparr>)
      else if tag = 0 then Err (ManifestDecode AliasAbsentNonZero)
      else Err (ManifestDecode (UnknownAliasTag tag)))"

definition mf_optional_identity :: "cursor \<Rightarrow> (manifest_error, epoch_identity option \<times> cursor) result" where
  "mf_optional_identity c =
     and_then (mf_u8 c) (\<lambda>(tag, c).
     and_then (mf_zeros 7 AliasReserved c) (\<lambda>(_, c).
     and_then (mf_u64 c) (\<lambda>(embedding, c).
     and_then (mf_u64 c) (\<lambda>(tokenizer, c).
     and_then (optional_identity_value tag embedding tokenizer) (\<lambda>i. Ok (i, c))))))"

definition optional_epoch_value :: "u8 \<Rightarrow> u64 \<Rightarrow> (manifest_error, u64 option) result" where
  "optional_epoch_value tag epoch =
     (if tag = 0 \<and> epoch = 0 then Ok None
      else if tag = 1 then Ok (Some epoch)
      else if tag = 0 then Err (ManifestDecode EpochAbsentNonZero)
      else Err (ManifestDecode (UnknownEpochTag tag)))"

definition mf_optional_epoch_id :: "cursor \<Rightarrow> (manifest_error, u64 option \<times> cursor) result" where
  "mf_optional_epoch_id c =
     and_then (mf_u8 c) (\<lambda>(tag, c).
     and_then (mf_zeros 7 EpochReserved c) (\<lambda>(_, c).
     and_then (mf_u64 c) (\<lambda>(epoch, c).
     and_then (optional_epoch_value tag epoch) (\<lambda>e. Ok (e, c)))))"

definition normalization_from_id :: "u16 \<Rightarrow> (manifest_error, normalization) result" where
  "normalization_from_id n =
     (if n = 0 then Ok NormNone else if n = 1 then Ok NormL2
      else Err (ManifestDecode (UnknownNormalization n)))"

definition runtime_from_id :: "u16 \<Rightarrow> (manifest_error, embedding_runtime) result" where
  "runtime_from_id n =
     (if n = 1 then Ok CoreMl else if n = 2 then Ok Mlx else if n = 3 then Ok CpuReference
      else Err (ManifestDecode (UnknownRuntime n)))"

definition compute_units_from_id :: "u16 \<Rightarrow> (manifest_error, compute_units) result" where
  "compute_units_from_id n =
     (if n = 1 then Ok Cpu else if n = 2 then Ok CpuAndGpu else if n = 3 then Ok CpuAndNeuralEngine
      else if n = 4 then Ok AllUnits else Err (ManifestDecode (UnknownComputeUnits n)))"

definition mf_os_build :: "cursor \<Rightarrow> (manifest_error, bytes option \<times> cursor) result" where
  "mf_os_build c =
     and_then (mf_u8 c) (\<lambda>(tag, c).
     and_then (mf_zeros 3 OsReserved c) (\<lambda>(_, c).
     if tag = 0 then Ok (None, c)
     else if tag = 1 then map_ok (\<lambda>(s, c). (Some s, c)) (mf_string c)
     else Err (ManifestDecode (UnknownOsTag tag))))"

definition mf_embedding_tower :: "cursor \<Rightarrow> (manifest_error, embedding_tower \<times> cursor) result" where
  "mf_embedding_tower c =
     and_then (mf_string c) (\<lambda>(model_id, c).
     and_then (mf_string c) (\<lambda>(model_version, c).
     and_then (mf_bytes c) (\<lambda>(weights_digest, c).
     and_then (mf_u32 c) (\<lambda>(dims, c).
     and_then (mf_u16 c) (\<lambda>(norm, c). and_then (normalization_from_id norm) (\<lambda>norm.
     and_then (mf_string c) (\<lambda>(prompt_prefix, c).
     and_then (mf_u32 c) (\<lambda>(max_tokens, c).
     and_then (mf_u16 c) (\<lambda>(runtime, c). and_then (runtime_from_id runtime) (\<lambda>runtime.
     and_then (mf_u16 c) (\<lambda>(units, c). and_then (compute_units_from_id units) (\<lambda>units.
     and_then (mf_os_build c) (\<lambda>(os_build, c).
     Ok (\<lparr>tw_model_id = model_id, tw_model_version = model_version, tw_weights_digest = weights_digest,
          tw_dims = dims, tw_normalization = norm, tw_prompt_prefix = prompt_prefix,
          tw_max_tokens = max_tokens, tw_runtime = runtime, tw_compute_units = units,
          tw_os_build = os_build\<rparr>, c))))))))))))))"

definition mf_embedding_epoch :: "cursor \<Rightarrow> (manifest_error, embedding_epoch \<times> cursor) result" where
  "mf_embedding_epoch c =
     and_then (mf_embedding_tower c) (\<lambda>(document, c).
     and_then (mf_embedding_tower c) (\<lambda>(query, c).
     and_then (mf_bytes c) (\<lambda>(alignment, c).
     Ok (\<lparr>ee_document = document, ee_query = query, ee_alignment_digest = alignment\<rparr>, c))))"

definition mf_finish :: "cursor \<Rightarrow> (manifest_error, unit) result" where
  "mf_finish c =
     (if cur_offset c = length (cur_bytes c) then Ok ()
      else Err (ManifestDecode (ManifestTrailing (length (cur_bytes c) - cur_offset c))))"

section \<open>Decoding\<close>

definition mf_segment :: "cursor \<Rightarrow> (manifest_error, segment_meta \<times> cursor) result" where
  "mf_segment c =
     and_then (mf_array 16 c) (\<lambda>(i, c).
     and_then (mf_u32 c) (\<lambda>(row_count, c).
     and_then (mf_u16 c) (\<lambda>(scheme, c).
     and_then (map_err (\<lambda>e. ManifestDecode (SchemeRejected e)) (require_scheme scheme)) (\<lambda>_.
     and_then (mf_u16 c) (\<lambda>(reserved, c).
     if reserved \<noteq> 0 then Err (ManifestDecode SegmentReservedNonZero) else
     and_then (mf_u32 c) (\<lambda>(dims, c).
     and_then (mf_u64 c) (\<lambda>(file_size, c).
     and_then (mf_optional_epoch_id c) (\<lambda>(epoch, c).
     Ok (\<lparr>sm_id = i, sm_row_count = row_count, sm_scheme = scheme, sm_dims = dims,
          sm_file_size = file_size, sm_epoch_id = epoch, sm_range = Unstamped\<rparr>, c)))))))))"

definition mf_epoch :: "cursor \<Rightarrow> (manifest_error, epoch_meta \<times> cursor) result" where
  "mf_epoch c =
     and_then (mf_u64 c) (\<lambda>(i, c).
     and_then (mf_u64 c) (\<lambda>(tokenizer, c).
     and_then (mf_embedding_epoch c) (\<lambda>(embedding, c).
     Ok (\<lparr>em_id = i, em_embedding = embedding, em_tokenizer = tokenizer\<rparr>, c))))"

definition column_type_from_id :: "u16 \<Rightarrow> (manifest_error, column_type) result" where
  "column_type_from_id n =
     (if n = 7 then Ok TypeId128 else if n = 1 then Ok TypeU64 else if n = 2 then Ok TypeI64
      else if n = 3 then Ok TypeF64 else if n = 4 then Ok TypeBool else if n = 5 then Ok TypeDictionaryString
      else if n = 6 then Ok TypeRawString else Err (ManifestDecode (UnknownColumnType n)))"

definition nullable_from :: "u16 \<Rightarrow> (manifest_error, bool) result" where
  "nullable_from n =
     (if n = 0 then Ok False else if n = 1 then Ok True else Err (ManifestDecode (InvalidNullable n)))"

definition mf_definition :: "cursor \<Rightarrow> (manifest_error, column_definition \<times> cursor) result" where
  "mf_definition c =
     and_then (mf_u32 c) (\<lambda>(i, c).
     and_then (mf_u16 c) (\<lambda>(ty, c). and_then (column_type_from_id ty) (\<lambda>ty.
     and_then (mf_u16 c) (\<lambda>(nullable, c). and_then (nullable_from nullable) (\<lambda>nullable.
     and_then (mf_string c) (\<lambda>(name, c).
     Ok (\<lparr>col_id = i, col_name = name, col_type = ty, col_nullable = nullable\<rparr>, c)))))))"

definition range_value :: "u8 \<Rightarrow> i64 \<Rightarrow> i64 \<Rightarrow> (manifest_error, clustering_key_range) result" where
  "range_value tag min_ts max_ts =
     (if tag = 0 \<and> min_ts = 0 \<and> max_ts = 0 then Ok Unstamped
      else if tag = 1 \<and> min_ts = 0 \<and> max_ts = 0 then Ok EmptyRange
      else if tag = 2 \<and> sint min_ts \<le> sint max_ts then Ok (Bounded min_ts max_ts)
      else if tag = 0 \<or> tag = 1 then Err (ManifestDecode (RangeZeroBounds tag))
      else if tag = 2 then Err (ManifestDecode (RangeInverted min_ts max_ts))
      else Err (ManifestDecode (UnknownRangeTag tag)))"

definition mf_range :: "cursor \<Rightarrow> (manifest_error, clustering_key_range \<times> cursor) result" where
  "mf_range c =
     and_then (mf_u8 c) (\<lambda>(tag, c).
     and_then (mf_zeros 7 RangeReserved c) (\<lambda>(_, c).
     and_then (mf_i64 c) (\<lambda>(min_ts, c).
     and_then (mf_i64 c) (\<lambda>(max_ts, c).
     and_then (range_value tag min_ts max_ts) (\<lambda>r. Ok (r, c))))))"

primrec mf_stamp_segments ::
  "segment_meta list \<Rightarrow> cursor \<Rightarrow> (manifest_error, segment_meta list \<times> cursor) result" where
  "mf_stamp_segments [] c = Ok ([], c)"
| "mf_stamp_segments (s # rest) c =
     and_then (mf_range c) (\<lambda>(r, c).
     and_then (mf_stamp_segments rest c) (\<lambda>(ss, c). Ok (s\<lparr>sm_range := r\<rparr> # ss, c)))"

definition decode_clustering_ranges ::
  "segment_meta list \<Rightarrow> cursor \<Rightarrow> (manifest_error, segment_meta list \<times> cursor) result" where
  "decode_clustering_ranges segments c =
     and_then (mf_take (length CLUSTERING_RANGE_EXTENSION_MAGIC) c) (\<lambda>(mag, c).
     if mag \<noteq> CLUSTERING_RANGE_EXTENSION_MAGIC then Err (ManifestDecode UnknownExtension) else
     and_then (mf_u32 c) (\<lambda>(count, c).
     if unat count \<noteq> length segments
     then Err (ManifestDecode (RangeCount (unat count) (length segments))) else
     and_then (ok_or (ManifestDecode RangeBytesOverflow)
                 (checked_mul_usize (unat count) CLUSTERING_RANGE_RECORD_LEN)) (\<lambda>expected.
     let remaining = length (cur_bytes c) - cur_offset c in
     if remaining < expected then Err (ManifestDecode (RangeBytes remaining expected)) else
     mf_stamp_segments segments c)))"

text \<open>\<open>cursor.bytes.get(cursor.position..).is_some_and(|tail| tail.starts_with(MAGIC))\<close>.\<close>

definition extension_follows :: "cursor \<Rightarrow> bool" where
  "extension_follows c =
     (case slice_from (cur_bytes c) (cur_offset c) of
        Some tail \<Rightarrow> prefix CLUSTERING_RANGE_EXTENSION_MAGIC tail
      | None \<Rightarrow> False)"

definition decode_manifest_payload :: "bytes \<Rightarrow> (manifest_error, manifest) result" where
  "decode_manifest_payload payload =
     and_then (mf_u64 \<lparr>cur_bytes = payload, cur_offset = 0\<rparr>) (\<lambda>(generation, c).
     and_then (mf_u64 c) (\<lambda>(log_seq, c).
     and_then (mf_u32 c) (\<lambda>(segment_count, c).
     and_then (mf_u32 c) (\<lambda>(epoch_count, c).
     and_then (mf_u32 c) (\<lambda>(schema_count, c).
     and_then (mf_u32 c) (\<lambda>(reserved, c).
     if reserved \<noteq> 0 then Err (ManifestDecode ReservedNonZero) else
     and_then (mf_optional_identity c) (\<lambda>(alias, c).
     and_then (read_many (unat segment_count) mf_segment c) (\<lambda>(segments, c).
     and_then (read_many (unat epoch_count) mf_epoch c) (\<lambda>(epochs, c).
     and_then (read_many (unat schema_count) mf_definition c) (\<lambda>(definitions, c).
     and_then (if extension_follows c then decode_clustering_ranges segments c else Ok (segments, c))
       (\<lambda>(segments, c).
     and_then (mf_finish c) (\<lambda>_.
     and_then (map_err (\<lambda>e. ManifestDecode (SchemaRejected e)) (schema_new definitions)) (\<lambda>schema.
     Ok \<lparr>mf_generation = generation, mf_log_seq = log_seq, mf_segments = segments,
         mf_epochs = epochs, mf_epoch_alias = alias, mf_schema = schema\<rparr>)))))))))))))"

definition decode_manifest :: "xxh3_lib \<Rightarrow> string \<Rightarrow> bytes \<Rightarrow> (manifest_error, manifest) result" where
  "decode_manifest X artifact bs =
     and_then (map_err ManifestFormat (decode_artifact X artifact ManifestFamily bs)) (\<lambda>framed.
     if flags (art_header framed) \<noteq> 0 then Err (ManifestDecode FlagsNonZero) else
     if hdr_version (art_header framed) = 3 then Err GraphUnsupportedBuild else
     and_then (decode_manifest_payload (art_payload framed)) (\<lambda>m.
     and_then (validate_epoch_references X m) (\<lambda>_. Ok m)))"

end
