(* ===== verification/Manifest_Codec.thy ===== *)
theory Manifest_Codec
  imports Manifest
begin

text \<open>
  The manifest readers as strict codecs, built with the combinators of the codec theory from the
  cursor's raw read.
\<close>

section \<open>Cursor primitives\<close>

lemma mf_take_enc:
  assumes "addressable pre (bs @ rest)" "n = length bs"
  shows "mf_take n (cursor_at pre (bs @ rest)) = Ok (bs, cursor_at (pre @ bs) rest)"
  using addressableD [OF assms(1)] assms(2)
  by (simp add: mf_take_def cursor_at_def slice_range_def)

lemma mf_take_canon:
  assumes "mf_take n (cursor_at pre bs) = Ok (x, c)"
  shows "length x = n \<and> (\<exists>rest. bs = x @ rest \<and> c = cursor_at (pre @ x) rest)"
proof -
  from assms have len: "n \<le> length bs" and x: "x = take n bs"
    and c: "c = \<lparr>cur_bytes = pre @ bs, cur_offset = length pre + n\<rparr>"
    by (auto simp: mf_take_def cursor_at_def result_Inr slice_range_def checked_add_usize_def
        split: if_splits)
  then show ?thesis
    by (intro conjI exI [of _ "drop n bs"]) (simp_all add: cursor_at_def)
qed

interpretation manifest_source: byte_source mf_take
  by unfold_locales (use mf_take_enc mf_take_canon in blast)+

interpretation manifest_array: byte_source mf_array
proof
  show "mf_array n (cursor_at pre (bs @ rest)) = Ok (bs, cursor_at (pre @ bs) rest)"
    if "addressable pre (bs @ rest)" "n = length bs" for pre bs rest n
    using mf_take_enc [OF that] that(2) by (simp add: mf_array_def)
  show "length x = n \<and> (\<exists>rest. bs = x @ rest \<and> c = cursor_at (pre @ x) rest)"
    if "mf_array n (cursor_at pre bs) = Ok (x, c)" for n pre bs x c
    using that mf_take_canon [of n pre bs] by (auto simp: mf_array_def result_Inr split: if_splits)
qed

interpretation m16: strict_codec "to_le_bytes :: u16 \<Rightarrow> bytes" mf_u16 "\<lambda>_. True"
  by (rule manifest_array.int_codec [OF mf_u16_def]) simp_all

interpretation m32: strict_codec "to_le_bytes :: u32 \<Rightarrow> bytes" mf_u32 "\<lambda>_. True"
  by (rule manifest_array.int_codec [OF mf_u32_def]) simp_all

interpretation m64: strict_codec "to_le_bytes :: u64 \<Rightarrow> bytes" mf_u64 "\<lambda>_. True"
  by (rule manifest_array.int_codec [OF mf_u64_def]) simp_all

interpretation mi64: strict_codec "to_le_bytes :: i64 \<Rightarrow> bytes" mf_i64 "\<lambda>_. True"
  by (rule manifest_array.int_codec [OF mf_i64_def]) simp_all

lemma mf_u8_read: "mf_u8 = read_check (\<lambda>raw. case raw of b # _ \<Rightarrow> Ok b | [] \<Rightarrow> Err (ManifestDecode (InvalidArray 1))) (mf_take 1)"
  by (rule ext) (auto simp: mf_u8_def read_check_def and_then_def split: sum.splits list.splits)

interpretation m8: strict_codec "\<lambda>x :: u8. [x]" mf_u8 "\<lambda>_. True"
  unfolding mf_u8_read
proof (rule strict_codec_check [OF manifest_source.raw_codec])
  show "True \<and> [y] = x"
    if "length x = 1" "(case x of b # _ \<Rightarrow> Ok b | [] \<Rightarrow> Err (ManifestDecode (InvalidArray 1))) = Ok y"
    for x :: bytes and y
    using that by (cases x) auto
qed simp

definition enc_bytes :: "bytes \<Rightarrow> bytes" where
  "enc_bytes x = to_le_bytes (word_of_nat (length x) :: u32) @ x"

interpretation mbytes: strict_codec enc_bytes mf_bytes "\<lambda>x. length x \<le> u32_max"
  using manifest_source.prefixed_codec [OF m32.strict_codec_axioms mf_bytes_def]
  by (simp add: enc_bytes_def [abs_def])

definition string_ok :: "bytes \<Rightarrow> bool" where
  "string_ok s \<longleftrightarrow> utf8_valid s \<and> length s \<le> u32_max"

lemma mf_string_read: "mf_string = read_check (\<lambda>s. if utf8_valid s then Ok s else Err (ManifestDecode InvalidUtf8)) mf_bytes"
  by (rule ext) (auto simp: mf_string_def read_check_def and_then_def split: sum.splits)

interpretation mstr: strict_codec enc_bytes mf_string string_ok
  unfolding mf_string_read
  by (rule strict_codec_check [OF mbytes.strict_codec_axioms, of _ "\<lambda>s. s"])
    (auto simp: string_ok_def split: if_splits)

lemma replicate_zeros: "length x = n \<Longrightarrow> list_ex (\<lambda>b. b \<noteq> 0) x \<longleftrightarrow> x \<noteq> replicate n (0 :: u8)"
  unfolding list_ex_iff by (metis in_set_replicate replicate_length_same)

lemma mf_zeros_read:
  "mf_zeros n d = read_check (\<lambda>raw. if list_ex (\<lambda>b. b \<noteq> 0) raw then Err (ManifestDecode d) else Ok ()) (mf_take n)"
  by (rule ext) (auto simp: mf_zeros_def read_check_def and_then_def split: sum.splits)

interpretation mzeros: strict_codec "\<lambda>_. replicate n 0" "mf_zeros n d" "\<lambda>_. True" for n d
  unfolding mf_zeros_read
  by (rule strict_codec_check [OF manifest_source.raw_codec, where g = "\<lambda>_. replicate n 0"])
    (auto simp: replicate_zeros split: if_splits)

lemma and_then_assoc: "and_then (and_then r f) g = and_then r (\<lambda>x. and_then (f x) g)"
  by (cases r) simp_all

lemma and_then_if: "and_then (if b then r else s) f = (if b then and_then r f else and_then s f)"
  by simp

lemmas read_defs = read_pair_def read_check_def and_then_assoc split_def and_then_if

section \<open>Optional identities and ranges\<close>

abbreviation (input) enc8 :: "u8 \<Rightarrow> bytes" where
  "enc8 x \<equiv> [x]"

lemma mf_optional_epoch_id_read:
  "mf_optional_epoch_id = read_check (\<lambda>(tag, _, epoch). optional_epoch_value tag epoch)
     (read_pair mf_u8 (read_pair (mf_zeros 7 EpochReserved) mf_u64))"
  by (rule ext) (simp add: mf_optional_epoch_id_def read_defs)

interpretation moe: strict_codec append_optional_epoch_id mf_optional_epoch_id "\<lambda>_. True"
proof -
  let ?g = "\<lambda>epoch. (case epoch of None \<Rightarrow> (0, (), 0) | Some e \<Rightarrow> (1, (), e)) :: u8 \<times> unit \<times> u64"
  have "append_optional_epoch_id = (\<lambda>y. (\<lambda>(x, y). enc8 x @ (\<lambda>(_, y). replicate 7 0 @ to_le_bytes y) y) (?g y))"
    by (rule ext) (simp add: append_optional_epoch_id_def split: option.splits)
  moreover have "strict_codec (\<lambda>y. (\<lambda>(x, y). enc8 x @ (\<lambda>(_, y). replicate 7 0 @ to_le_bytes y) y) (?g y))
      mf_optional_epoch_id (\<lambda>_. True)"
    unfolding mf_optional_epoch_id_read
    by (rule strict_codec_check [OF strict_codec_pair [OF m8.strict_codec_axioms
            strict_codec_pair [OF mzeros.strict_codec_axioms m64.strict_codec_axioms]]])
      (auto simp: optional_epoch_value_def split: option.splits if_splits)
  ultimately show "strict_codec append_optional_epoch_id mf_optional_epoch_id (\<lambda>_. True)" by simp
qed

lemma mf_optional_identity_read:
  "mf_optional_identity = read_check (\<lambda>(tag, _, e, t). optional_identity_value tag e t)
     (read_pair mf_u8 (read_pair (mf_zeros 7 AliasReserved) (read_pair mf_u64 mf_u64)))"
  by (rule ext) (simp add: mf_optional_identity_def read_defs)

interpretation moi: strict_codec append_optional_identity mf_optional_identity "\<lambda>_. True"
proof -
  let ?g = "\<lambda>i. (case i of None \<Rightarrow> (0, (), 0, 0) | Some i \<Rightarrow> (1, (), ei_embedding i, ei_tokenizer i))
    :: u8 \<times> unit \<times> u64 \<times> u64"
  let ?e = "\<lambda>(x, y). enc8 x @ (\<lambda>(_, y). replicate 7 0 @ (\<lambda>(a, b). to_le_bytes a @ to_le_bytes b) y) y"
  have "append_optional_identity = (\<lambda>y. ?e (?g y))"
    by (rule ext) (simp add: append_optional_identity_def split: option.splits)
  moreover have "strict_codec (\<lambda>y. ?e (?g y)) mf_optional_identity (\<lambda>_. True)"
    unfolding mf_optional_identity_read
    by (rule strict_codec_check [OF strict_codec_pair [OF m8.strict_codec_axioms
            strict_codec_pair [OF mzeros.strict_codec_axioms
              strict_codec_pair [OF m64.strict_codec_axioms m64.strict_codec_axioms]]]])
      (auto simp: optional_identity_value_def split: option.splits if_splits)
  ultimately show "strict_codec append_optional_identity mf_optional_identity (\<lambda>_. True)" by simp
qed

fun range_fields :: "clustering_key_range \<Rightarrow> u8 \<times> unit \<times> i64 \<times> i64" where
  "range_fields Unstamped = (0, (), 0, 0)"
| "range_fields EmptyRange = (1, (), 0, 0)"
| "range_fields (Bounded a b) = (2, (), a, b)"

fun range_ok :: "clustering_key_range \<Rightarrow> bool" where
  "range_ok (Bounded a b) \<longleftrightarrow> sint a \<le> sint b"
| "range_ok _ \<longleftrightarrow> True"

definition enc_range :: "clustering_key_range \<Rightarrow> bytes" where
  "enc_range r = (case range_fields r of (tag, _, a, b) \<Rightarrow> [tag] @ replicate 7 0 @ to_le_bytes a @ to_le_bytes b)"

lemma mf_range_read:
  "mf_range = read_check (\<lambda>(tag, _, a, b). range_value tag a b)
     (read_pair mf_u8 (read_pair (mf_zeros 7 RangeReserved) (read_pair mf_i64 mf_i64)))"
  by (rule ext) (simp add: mf_range_def read_defs)

interpretation mrange: strict_codec enc_range mf_range range_ok
proof -
  let ?e = "\<lambda>(x, y). enc8 x @ (\<lambda>(_, y). replicate 7 0 @ (\<lambda>(a, b). to_le_bytes a @ to_le_bytes b) y) y"
  have "enc_range = (\<lambda>y. ?e (range_fields y))"
    by (rule ext) (simp add: enc_range_def split: prod.splits)
  moreover have "strict_codec (\<lambda>y. ?e (range_fields y)) mf_range range_ok"
    unfolding mf_range_read
  proof (rule strict_codec_check [OF strict_codec_pair [OF m8.strict_codec_axioms
            strict_codec_pair [OF mzeros.strict_codec_axioms
              strict_codec_pair [OF mi64.strict_codec_axioms mi64.strict_codec_axioms]]]])
    show "(case range_fields y of (x, y) \<Rightarrow> True \<and> (case y of (x, y) \<Rightarrow> True \<and> (case y of (x, y) \<Rightarrow> True \<and> True)))
        \<and> (case range_fields y of (tag, _, a, b) \<Rightarrow> range_value tag a b) = Ok y" if "range_ok y" for y
      using that by (cases y) (auto simp: range_value_def)
    show "range_ok y \<and> range_fields y = x" if "(case x of (tag, _, a, b) \<Rightarrow> range_value tag a b) = Ok y" for x y
      using that by (auto simp: range_value_def split: if_splits prod.splits)
  qed
  ultimately show "strict_codec enc_range mf_range range_ok" by simp
qed

section \<open>Towers and epochs\<close>

definition enc_os_build :: "bytes option \<Rightarrow> bytes" where
  "enc_os_build b = (case b of None \<Rightarrow> [0] @ replicate 3 0 | Some s \<Rightarrow> [1] @ replicate 3 0 @ enc_bytes s)"

interpretation mos: strict_codec enc_os_build mf_os_build "\<lambda>b. \<forall>s. b = Some s \<longrightarrow> string_ok s"
proof
  show "mf_os_build (cursor_at pre (enc_os_build x @ rest)) = Ok (x, cursor_at (pre @ enc_os_build x) rest)"
    if v: "\<forall>s. x = Some s \<longrightarrow> string_ok s" and a: "addressable pre (enc_os_build x @ rest)" for x pre rest
  proof (cases x)
    case None
    then show ?thesis
      using a m8.rd_enc [OF TrueI, of pre 0 "replicate 3 0 @ rest"]
        mzeros.rd_enc [OF TrueI, of "pre @ [0]" 3 rest]
      by (simp add: mf_os_build_def enc_os_build_def)
  next
    case (Some s)
    then show ?thesis
      using a v m8.rd_enc [OF TrueI, of pre 1 "replicate 3 0 @ enc_bytes s @ rest"]
        mzeros.rd_enc [OF TrueI, of "pre @ [1]" 3 "enc_bytes s @ rest"]
        mstr.rd_enc [of s "pre @ [1] @ replicate 3 0" rest]
      by (simp add: mf_os_build_def enc_os_build_def)
  qed
  show "(\<forall>s. x = Some s \<longrightarrow> string_ok s)
      \<and> (\<exists>rest. bs = enc_os_build x @ rest \<and> c = cursor_at (pre @ enc_os_build x) rest)"
    if r: "mf_os_build (cursor_at pre bs) = Ok (x, c)" and a: "addressable pre bs" for pre bs x c
  proof -
    from r obtain tag c1 c2 where t: "mf_u8 (cursor_at pre bs) = Ok (tag, c1)"
      "mf_zeros 3 OsReserved c1 = Ok ((), c2)"
      and k: "(if tag = 0 then Ok (None, c2) else if tag = 1 then map_ok (\<lambda>(s, c). (Some s, c)) (mf_string c2)
        else Err (ManifestDecode (UnknownOsTag tag))) = Ok (x, c)"
      by (auto simp: mf_os_build_def result_Inr)
    from m8.rd_canon [OF t(1) a] obtain r1 where 1: "bs = [tag] @ r1" "c1 = cursor_at (pre @ [tag]) r1" by blast
    from mzeros.rd_canon [OF t(2) [unfolded 1(2)]] 1 a obtain r2 where
      2: "r1 = replicate 3 0 @ r2" "c2 = cursor_at ((pre @ [tag]) @ replicate 3 0) r2" by auto
    have ad: "addressable ((pre @ [tag]) @ replicate 3 0) r2" using a 1 2 by simp
    show ?thesis
    proof (cases "tag = 0")
      case True
      then show ?thesis using k 1 2 by (auto simp: enc_os_build_def)
    next
      case False
      then obtain s where s: "tag = 1" "x = Some s" "mf_string c2 = Ok (s, c)"
        using k by (auto simp: result_Inr split: if_splits)
      from mstr.rd_canon [OF s(3) [unfolded 2(2)] ad] show ?thesis
        using s 1 2 by (auto simp: enc_os_build_def)
    qed
  qed
qed

interpretation mnorm: strict_codec "\<lambda>n. to_le_bytes (normalization_id n)" "read_check normalization_from_id mf_u16" "\<lambda>_. True"
proof (rule strict_codec_check [OF m16.strict_codec_axioms])
  show "True \<and> normalization_from_id (normalization_id y) = Ok y" for y
    by (cases y) (simp_all add: normalization_from_id_def)
qed (auto simp: normalization_from_id_def split: if_splits)

interpretation mrun: strict_codec "\<lambda>n. to_le_bytes (runtime_id n)" "read_check runtime_from_id mf_u16" "\<lambda>_. True"
proof (rule strict_codec_check [OF m16.strict_codec_axioms])
  show "True \<and> runtime_from_id (runtime_id y) = Ok y" for y
    by (cases y) (simp_all add: runtime_from_id_def)
qed (auto simp: runtime_from_id_def split: if_splits)

interpretation munits: strict_codec "\<lambda>n. to_le_bytes (compute_units_id n)" "read_check compute_units_from_id mf_u16" "\<lambda>_. True"
proof (rule strict_codec_check [OF m16.strict_codec_axioms])
  show "True \<and> compute_units_from_id (compute_units_id y) = Ok y" for y
    by (cases y) (simp_all add: compute_units_from_id_def)
qed (auto simp: compute_units_from_id_def split: if_splits)

lemmas mf_axioms = m8.strict_codec_axioms m16.strict_codec_axioms m32.strict_codec_axioms m64.strict_codec_axioms
  mbytes.strict_codec_axioms mstr.strict_codec_axioms moe.strict_codec_axioms mos.strict_codec_axioms
  mnorm.strict_codec_axioms mrun.strict_codec_axioms munits.strict_codec_axioms

definition enc_tower :: "embedding_tower \<Rightarrow> bytes" where
  "enc_tower t = enc_bytes (tw_model_id t) @ enc_bytes (tw_model_version t) @ enc_bytes (tw_weights_digest t)
     @ to_le_bytes (tw_dims t) @ to_le_bytes (normalization_id (tw_normalization t))
     @ enc_bytes (tw_prompt_prefix t) @ to_le_bytes (tw_max_tokens t) @ to_le_bytes (runtime_id (tw_runtime t))
     @ to_le_bytes (compute_units_id (tw_compute_units t)) @ enc_os_build (tw_os_build t)"

definition tower_ok :: "embedding_tower \<Rightarrow> bool" where
  "tower_ok t \<longleftrightarrow> string_ok (tw_model_id t) \<and> string_ok (tw_model_version t)
     \<and> length (tw_weights_digest t) \<le> u32_max \<and> string_ok (tw_prompt_prefix t)
     \<and> (\<forall>s. tw_os_build t = Some s \<longrightarrow> string_ok s)"

lemma mf_embedding_tower_read:
  "mf_embedding_tower = read_check
     (\<lambda>(model_id, model_version, weights_digest, dims, norm, prompt_prefix, max_tokens, runtime, units, os_build).
       Ok \<lparr>tw_model_id = model_id, tw_model_version = model_version, tw_weights_digest = weights_digest,
          tw_dims = dims, tw_normalization = norm, tw_prompt_prefix = prompt_prefix,
          tw_max_tokens = max_tokens, tw_runtime = runtime, tw_compute_units = units, tw_os_build = os_build\<rparr>)
     (read_pair mf_string (read_pair mf_string (read_pair mf_bytes (read_pair mf_u32
       (read_pair (read_check normalization_from_id mf_u16) (read_pair mf_string (read_pair mf_u32
       (read_pair (read_check runtime_from_id mf_u16)
       (read_pair (read_check compute_units_from_id mf_u16) mf_os_build)))))))))"
  by (rule ext) (simp add: mf_embedding_tower_def read_defs)

interpretation mtower: strict_codec enc_tower mf_embedding_tower tower_ok
proof -
  let ?g = "\<lambda>t. (tw_model_id t, tw_model_version t, tw_weights_digest t, tw_dims t, tw_normalization t,
    tw_prompt_prefix t, tw_max_tokens t, tw_runtime t, tw_compute_units t, tw_os_build t)"
  note pairs = strict_codec_pair [OF mstr.strict_codec_axioms strict_codec_pair [OF mstr.strict_codec_axioms
    strict_codec_pair [OF mbytes.strict_codec_axioms strict_codec_pair [OF m32.strict_codec_axioms
    strict_codec_pair [OF mnorm.strict_codec_axioms strict_codec_pair [OF mstr.strict_codec_axioms
    strict_codec_pair [OF m32.strict_codec_axioms strict_codec_pair [OF mrun.strict_codec_axioms
    strict_codec_pair [OF munits.strict_codec_axioms mos.strict_codec_axioms]]]]]]]]]
  have "strict_codec (\<lambda>t. enc_tower t) mf_embedding_tower tower_ok"
    unfolding mf_embedding_tower_read
    by (rule strict_codec_check [OF pairs, of tower_ok ?g, unfolded split_def fst_conv snd_conv,
        folded enc_tower_def])
      (auto simp: tower_ok_def)
  then show "strict_codec enc_tower mf_embedding_tower tower_ok" .
qed

definition enc_epoch :: "epoch_meta \<Rightarrow> bytes" where
  "enc_epoch e = to_le_bytes (em_id e) @ to_le_bytes (em_tokenizer e)
     @ enc_tower (ee_document (em_embedding e)) @ enc_tower (ee_query (em_embedding e))
     @ enc_bytes (ee_alignment_digest (em_embedding e))"

definition epoch_ok :: "epoch_meta \<Rightarrow> bool" where
  "epoch_ok e \<longleftrightarrow> tower_ok (ee_document (em_embedding e)) \<and> tower_ok (ee_query (em_embedding e))
     \<and> length (ee_alignment_digest (em_embedding e)) \<le> u32_max"

lemma mf_epoch_read:
  "mf_epoch = read_check
     (\<lambda>(i, tokenizer, document, query, alignment).
       Ok \<lparr>em_id = i, em_embedding = \<lparr>ee_document = document, ee_query = query, ee_alignment_digest = alignment\<rparr>,
          em_tokenizer = tokenizer\<rparr>)
     (read_pair mf_u64 (read_pair mf_u64 (read_pair mf_embedding_tower (read_pair mf_embedding_tower mf_bytes))))"
  by (rule ext) (simp add: mf_epoch_def mf_embedding_epoch_def read_defs)

interpretation mepoch: strict_codec enc_epoch mf_epoch epoch_ok
proof -
  let ?g = "\<lambda>e. (em_id e, em_tokenizer e, ee_document (em_embedding e), ee_query (em_embedding e),
    ee_alignment_digest (em_embedding e))"
  note pairs = strict_codec_pair [OF m64.strict_codec_axioms strict_codec_pair [OF m64.strict_codec_axioms
    strict_codec_pair [OF mtower.strict_codec_axioms strict_codec_pair [OF mtower.strict_codec_axioms
    mbytes.strict_codec_axioms]]]]
  have "strict_codec (\<lambda>e. enc_epoch e) mf_epoch epoch_ok"
    unfolding mf_epoch_read
    by (rule strict_codec_check [OF pairs, of epoch_ok ?g, unfolded split_def fst_conv snd_conv,
        folded enc_epoch_def])
      (auto simp: epoch_ok_def)
  then show "strict_codec enc_epoch mf_epoch epoch_ok" .
qed

section \<open>Segments and column definitions\<close>

definition enc_segment :: "segment_meta \<Rightarrow> bytes" where
  "enc_segment s = sm_id s @ to_le_bytes (sm_row_count s) @ to_le_bytes (sm_scheme s) @ to_le_bytes (0 :: u16)
     @ to_le_bytes (sm_dims s) @ to_le_bytes (sm_file_size s) @ append_optional_epoch_id (sm_epoch_id s)"

definition segment_ok :: "segment_meta \<Rightarrow> bool" where
  "segment_ok s \<longleftrightarrow> length (sm_id s) = 16 \<and> sm_scheme s \<in> {0, 1, 2, 4}"

definition check_scheme :: "u16 \<Rightarrow> (manifest_error, u16) result" where
  "check_scheme scheme =
     and_then (map_err (\<lambda>e. ManifestDecode (SchemeRejected e)) (require_scheme scheme)) (\<lambda>_. Ok scheme)"

definition check_reserved :: "u16 \<Rightarrow> (manifest_error, unit) result" where
  "check_reserved r = (if r \<noteq> 0 then Err (ManifestDecode SegmentReservedNonZero) else Ok ())"

lemma mf_segment_read:
  "mf_segment = read_check
     (\<lambda>(i, row_count, scheme, _, dims, file_size, epoch).
       Ok \<lparr>sm_id = i, sm_row_count = row_count, sm_scheme = scheme, sm_dims = dims,
          sm_file_size = file_size, sm_epoch_id = epoch, sm_range = Unstamped\<rparr>)
     (read_pair (mf_array 16) (read_pair mf_u32 (read_pair (read_check check_scheme mf_u16)
       (read_pair (read_check check_reserved mf_u16) (read_pair mf_u32 (read_pair mf_u64 mf_optional_epoch_id))))))"
  by (rule ext) (simp add: mf_segment_def read_defs check_scheme_def check_reserved_def cong: if_cong)

interpretation mscheme: strict_codec to_le_bytes "read_check check_scheme mf_u16" "\<lambda>s. s \<in> {0, 1, 2, 4}"
  by (rule strict_codec_check [OF m16.strict_codec_axioms, where g = "\<lambda>s. s"])
    (auto simp: check_scheme_def require_scheme_def result_Inr split: if_splits)

interpretation mreserved: strict_codec "\<lambda>_. to_le_bytes (0 :: u16)" "read_check check_reserved mf_u16" "\<lambda>_. True"
  by (rule strict_codec_check [OF m16.strict_codec_axioms, where g = "\<lambda>_. 0"])
    (auto simp: check_reserved_def split: if_splits)

interpretation mseg: strict_codec enc_segment mf_segment "\<lambda>s. segment_ok s \<and> sm_range s = Unstamped"
proof -
  let ?g = "\<lambda>s. (sm_id s, sm_row_count s, sm_scheme s, (), sm_dims s, sm_file_size s, sm_epoch_id s)"
  let ?v = "\<lambda>s. segment_ok s \<and> sm_range s = Unstamped"
  note pairs = strict_codec_pair [OF manifest_array.raw_codec strict_codec_pair [OF m32.strict_codec_axioms
    strict_codec_pair [OF mscheme.strict_codec_axioms strict_codec_pair [OF mreserved.strict_codec_axioms
    strict_codec_pair [OF m32.strict_codec_axioms strict_codec_pair [OF m64.strict_codec_axioms
    moe.strict_codec_axioms]]]]]]
  have "strict_codec (\<lambda>s. enc_segment s) mf_segment ?v"
    unfolding mf_segment_read
    by (rule strict_codec_check [OF pairs, where v' = ?v and g = ?g, unfolded split_def fst_conv snd_conv,
        folded enc_segment_def])
      (auto simp: segment_ok_def)
  then show "strict_codec enc_segment mf_segment ?v" .
qed

definition enc_definition :: "column_definition \<Rightarrow> bytes" where
  "enc_definition d = to_le_bytes (col_id d) @ to_le_bytes (column_type_id (col_type d))
     @ to_le_bytes (if col_nullable d then 1 else 0 :: u16) @ enc_bytes (col_name d)"

lemma mf_definition_read:
  "mf_definition = read_check
     (\<lambda>(i, ty, nullable, name). Ok \<lparr>col_id = i, col_name = name, col_type = ty, col_nullable = nullable\<rparr>)
     (read_pair mf_u32 (read_pair (read_check column_type_from_id mf_u16)
       (read_pair (read_check nullable_from mf_u16) mf_string)))"
  by (rule ext) (simp add: mf_definition_def read_defs)

interpretation mtype: strict_codec "\<lambda>t. to_le_bytes (column_type_id t)" "read_check column_type_from_id mf_u16" "\<lambda>_. True"
proof (rule strict_codec_check [OF m16.strict_codec_axioms])
  show "True \<and> column_type_from_id (column_type_id y) = Ok y" for y
    by (cases y) (simp_all add: column_type_from_id_def)
qed (auto simp: column_type_from_id_def split: if_splits)

interpretation mnull: strict_codec "\<lambda>b. to_le_bytes (if b then 1 else 0 :: u16)" "read_check nullable_from mf_u16" "\<lambda>_. True"
  by (rule strict_codec_check [OF m16.strict_codec_axioms])
    (auto simp: nullable_from_def split: if_splits)

interpretation mdef: strict_codec enc_definition mf_definition "\<lambda>d. string_ok (col_name d)"
proof -
  let ?g = "\<lambda>d :: column_definition. (col_id d, col_type d, col_nullable d, col_name d)"
  note pairs = strict_codec_pair [OF m32.strict_codec_axioms strict_codec_pair [OF mtype.strict_codec_axioms
    strict_codec_pair [OF mnull.strict_codec_axioms mstr.strict_codec_axioms]]]
  have "strict_codec (\<lambda>d. enc_definition d) mf_definition (\<lambda>d. string_ok (col_name d))"
    unfolding mf_definition_read
    by (rule strict_codec_check [OF pairs, of "\<lambda>d. string_ok (col_name d)" ?g,
        unfolded split_def fst_conv snd_conv, folded enc_definition_def])
      auto
  then show "strict_codec enc_definition mf_definition (\<lambda>d. string_ok (col_name d))" .
qed

end
