(* ===== verification/Manifest_Payload.thy ===== *)
theory Manifest_Payload
  imports Manifest_Codec
begin

text \<open>
  The manifest payload as a whole: what the encoder produces, what the decoder accepts, and the
  declarative meaning of the epoch reference check.
\<close>

section \<open>What the encoder appends\<close>

lemma append_u32_len_Ok: "append_u32_len n name = Ok b \<longleftrightarrow> n \<le> u32_max \<and> b = to_le_bytes (word_of_nat n :: u32)"
  by (auto simp: append_u32_len_def result_Inr u32_try_from_def split: if_splits)

lemma append_bytes_Ok: "append_bytes x = Ok b \<longleftrightarrow> length x \<le> u32_max \<and> b = enc_bytes x"
  by (auto simp: append_bytes_def result_Inr append_u32_len_Ok enc_bytes_def)

lemma append_all_Ok:
  assumes "\<And>x y. f x = Ok y \<longleftrightarrow> P x \<and> y = enc x"
  shows "append_all f xs = Ok b \<longleftrightarrow> (\<forall>x \<in> set xs. P x) \<and> b = concat (map enc xs)"
  by (induction xs arbitrary: b) (auto simp: result_Inr assms)

lemma append_embedding_tower_Ok: "append_embedding_tower t = Ok b \<longleftrightarrow> tower_fits t \<and> b = enc_tower t"
  by (cases "tw_os_build t")
    (auto simp: append_embedding_tower_def append_string_def append_bytes_Ok result_Inr tower_fits_def
      enc_tower_def enc_os_build_def)

lemma append_epoch_Ok: "append_epoch e = Ok b \<longleftrightarrow> epoch_fits (em_embedding e) \<and> b = enc_epoch e"
  by (auto simp: append_epoch_def append_embedding_epoch_def result_Inr append_embedding_tower_Ok append_bytes_Ok
      epoch_fits_def enc_epoch_def)

lemma append_definition_Ok: "append_definition d = Ok b \<longleftrightarrow> length (col_name d) \<le> u32_max \<and> b = enc_definition d"
  by (auto simp: append_definition_def append_string_def result_Inr append_bytes_Ok enc_definition_def)

lemma append_segment_Ok: "append_segment s = Ok b \<longleftrightarrow> True \<and> b = enc_segment s"
  by (auto simp: append_segment_def enc_segment_def)

lemma append_range_Ok: "append_range s = Ok b \<longleftrightarrow> range_ok (sm_range s) \<and> b = enc_range (sm_range s)"
  by (cases "sm_range s") (auto simp: append_range_def enc_range_def)

definition enc_extension :: "segment_meta list \<Rightarrow> bytes" where
  "enc_extension ss = CLUSTERING_RANGE_EXTENSION_MAGIC @ to_le_bytes (word_of_nat (length ss) :: u32)
     @ concat (map (\<lambda>s. enc_range (sm_range s)) ss)"

definition all_unstamped :: "segment_meta list \<Rightarrow> bool" where
  "all_unstamped ss \<longleftrightarrow> list_all (\<lambda>s. sm_range s = Unstamped) ss"

definition enc_ranges :: "segment_meta list \<Rightarrow> bytes" where
  "enc_ranges ss = (if all_unstamped ss then [] else enc_extension ss)"

lemma append_clustering_ranges_Ok:
  assumes "length ss \<le> u32_max"
  shows "append_clustering_ranges ss = Ok b \<longleftrightarrow> (\<forall>s \<in> set ss. range_ok (sm_range s)) \<and> b = enc_ranges ss"
proof -
  have "\<forall>s \<in> set ss. range_ok (sm_range s)" if "all_unstamped ss"
    using that by (auto simp: all_unstamped_def list_all_iff)
  then show ?thesis
    using assms append_all_Ok [where f = append_range and P = "\<lambda>s. range_ok (sm_range s)"
        and enc = "\<lambda>s. enc_range (sm_range s)", OF append_range_Ok, where xs = ss]
    by (auto simp: append_clustering_ranges_def all_unstamped_def [symmetric] enc_ranges_def enc_extension_def
        result_Inr append_u32_len_Ok)
qed

text \<open>The payload after its six fixed fields, in the order of the encoder.\<close>

definition enc_payload :: "manifest \<Rightarrow> bytes" where
  "enc_payload m =
     to_le_bytes (mf_generation m) @ to_le_bytes (mf_log_seq m)
     @ to_le_bytes (word_of_nat (length (mf_segments m)) :: u32)
     @ to_le_bytes (word_of_nat (length (mf_epochs m)) :: u32)
     @ to_le_bytes (word_of_nat (user_column_count (mf_schema m)) :: u32) @ to_le_bytes (0 :: u32)
     @ append_optional_identity (mf_epoch_alias m) @ concat (map enc_segment (mf_segments m))
     @ concat (map enc_epoch (mf_epochs m)) @ concat (map enc_definition (drop 1 (columns (mf_schema m))))
     @ enc_ranges (mf_segments m)"

definition payload_fits :: "manifest \<Rightarrow> bool" where
  "payload_fits m \<longleftrightarrow> length (mf_segments m) \<le> u32_max \<and> length (mf_epochs m) \<le> u32_max
     \<and> user_column_count (mf_schema m) \<le> u32_max
     \<and> (\<forall>e \<in> set (mf_epochs m). epoch_fits (em_embedding e))
     \<and> (\<forall>d \<in> set (drop 1 (columns (mf_schema m))). length (col_name d) \<le> u32_max)
     \<and> (\<forall>s \<in> set (mf_segments m). range_ok (sm_range s))"

lemma encode_manifest_payload_Ok:
  "encode_manifest_payload m = Ok b \<longleftrightarrow> payload_fits m \<and> b = enc_payload m"
  using append_clustering_ranges_Ok [of "mf_segments m"]
  by (auto simp: encode_manifest_payload_def result_Inr append_u32_len_Ok payload_fits_def enc_payload_def
      append_all_Ok [OF append_epoch_Ok] append_all_Ok [OF append_definition_Ok]
      append_all_Ok [OF append_segment_Ok])

section \<open>Stamping clustering ranges\<close>

definition unstamp :: "segment_meta \<Rightarrow> segment_meta" where
  "unstamp s = s\<lparr>sm_range := Unstamped\<rparr>"

lemma unstamp_simps [simp]:
  "enc_segment (unstamp s) = enc_segment s" "segment_ok (unstamp s) = segment_ok s"
  "sm_range (unstamp s) = Unstamped" "(unstamp s)\<lparr>sm_range := sm_range s\<rparr> = s"
  by (simp_all add: unstamp_def enc_segment_def segment_ok_def)

lemma unstamp_id: "sm_range s = Unstamped \<Longrightarrow> unstamp s = s"
  by (simp add: unstamp_def)

lemma map_unstamp_id: "all_unstamped ss \<Longrightarrow> map unstamp ss = ss"
  by (simp add: all_unstamped_def list_all_iff unstamp_id map_idI)

lemma mf_stamp_enc:
  assumes "\<forall>s \<in> set ss. range_ok (sm_range s)"
    "addressable pre (concat (map (\<lambda>s. enc_range (sm_range s)) ss) @ rest)"
  shows "mf_stamp_segments (map unstamp ss) (cursor_at pre (concat (map (\<lambda>s. enc_range (sm_range s)) ss) @ rest)) =
    Ok (ss, cursor_at (pre @ concat (map (\<lambda>s. enc_range (sm_range s)) ss)) rest)"
  using assms
proof (induction ss arbitrary: pre)
  case (Cons s ss)
  then show ?case
    using mrange.rd_enc [of "sm_range s" pre "concat (map (\<lambda>s. enc_range (sm_range s)) ss) @ rest"] by simp
qed simp

lemma mf_stamp_canon:
  assumes "mf_stamp_segments ss (cursor_at pre bs) = Ok (ts, c)" "addressable pre bs"
  shows "map unstamp ts = map unstamp ss \<and> (\<forall>t \<in> set ts. range_ok (sm_range t))
    \<and> (\<exists>rest. bs = concat (map (\<lambda>s. enc_range (sm_range s)) ts) @ rest
        \<and> c = cursor_at (pre @ concat (map (\<lambda>s. enc_range (sm_range s)) ts)) rest)"
  using assms
proof (induction ss arbitrary: pre bs ts)
  case (Cons s ss)
  then obtain r c1 ts' where r: "mf_range (cursor_at pre bs) = Ok (r, c1)" "mf_stamp_segments ss c1 = Ok (ts', c)"
    and ts: "ts = s\<lparr>sm_range := r\<rparr> # ts'"
    by (auto simp: result_Inr)
  from mrange.rd_canon [OF r(1) Cons.prems(2)] obtain rest where
    x: "range_ok r" "bs = enc_range r @ rest" "c1 = cursor_at (pre @ enc_range r) rest" by blast
  have "unstamp (s\<lparr>sm_range := r\<rparr>) = unstamp s" by (simp add: unstamp_def)
  then show ?case
    using Cons.IH [of "pre @ enc_range r" rest ts'] r(2) x ts Cons.prems(2) by auto
qed simp

lemma length_enc_range [simp]: "length (enc_range r) = 24"
  by (simp add: enc_range_def split: prod.splits)

lemma length_concat_ranges: "length (concat (map (\<lambda>s. enc_range (sm_range s)) ss)) = 24 * length ss"
  by (induction ss) simp_all

lemma count_u32: "n \<le> u32_max \<Longrightarrow> unat (word_of_nat n :: u32) = n"
  by (rule unat_word_of_nat_u32)

lemma checked_count: "n \<le> u32_max \<Longrightarrow> checked_mul_usize n 24 = Some (n * 24)"
  by (simp add: checked_mul_usize_def usize_max_def u32_max_def)

lemma decode_ranges_enc:
  assumes "\<forall>s \<in> set ss. range_ok (sm_range s)" "length ss \<le> u32_max" "addressable pre (enc_extension ss)"
  shows "decode_clustering_ranges (map unstamp ss) (cursor_at pre (enc_extension ss)) =
    Ok (ss, cursor_at (pre @ enc_extension ss) [])"
proof -
  let ?m = CLUSTERING_RANGE_EXTENSION_MAGIC and ?n = "to_le_bytes (word_of_nat (length ss) :: u32)"
  let ?r = "concat (map (\<lambda>s. enc_range (sm_range s)) ss)"
  have ext: "enc_extension ss = ?m @ ?n @ ?r" by (simp add: enc_extension_def)
  have "mf_take (length ?m) (cursor_at pre (?m @ ?n @ ?r)) = Ok (?m, cursor_at (pre @ ?m) (?n @ ?r))"
    by (rule mf_take_enc) (use assms(3) ext in simp_all)
  moreover have "mf_u32 (cursor_at (pre @ ?m) (?n @ ?r)) =
      Ok (word_of_nat (length ss), cursor_at ((pre @ ?m) @ ?n) ?r)"
    by (rule m32.rd_enc) (use assms(3) ext in simp_all)
  moreover have "mf_stamp_segments (map unstamp ss) (cursor_at ((pre @ ?m) @ ?n) ?r) =
      Ok (ss, cursor_at (((pre @ ?m) @ ?n) @ ?r) [])"
    using mf_stamp_enc [OF assms(1), of "(pre @ ?m) @ ?n" "[]"] assms(3) ext by simp
  moreover have "length (cur_bytes (cursor_at ((pre @ ?m) @ ?n) ?r)) - cur_offset (cursor_at ((pre @ ?m) @ ?n) ?r)
      = length ss * 24"
    using length_concat_ranges [of ss] by (simp add: cursor_at_def)
  ultimately show ?thesis
    using assms(2) by (simp add: decode_clustering_ranges_def ext count_u32 checked_count
        CLUSTERING_RANGE_RECORD_LEN_def Let_def)
qed

lemma decode_ranges_canon:
  assumes "decode_clustering_ranges ss (cursor_at pre bs) = Ok (ts, c)" "addressable pre bs"
  shows "map unstamp ts = map unstamp ss \<and> (\<forall>t \<in> set ts. range_ok (sm_range t))
    \<and> (\<exists>rest. bs = enc_extension ts @ rest \<and> c = cursor_at (pre @ enc_extension ts) rest)"
proof -
  let ?m = CLUSTERING_RANGE_EXTENSION_MAGIC
  from assms(1) obtain c1 n c2 where
    r: "mf_take (length ?m) (cursor_at pre bs) = Ok (?m, c1)" "mf_u32 c1 = Ok (n, c2)" "unat n = length ss"
      "mf_stamp_segments ss c2 = Ok (ts, c)"
    by (auto simp: decode_clustering_ranges_def result_Inr Let_def split: if_splits)
  from mf_take_canon [OF r(1)] obtain r1 where 1: "bs = ?m @ r1" "c1 = cursor_at (pre @ ?m) r1" by blast
  from m32.rd_canon [OF r(2) [unfolded 1(2)]] 1 assms(2) obtain r2 where
    2: "r1 = to_le_bytes n @ r2" "c2 = cursor_at ((pre @ ?m) @ to_le_bytes n) r2" by auto
  from mf_stamp_canon [OF r(4) [unfolded 2(2)]] 1 2 assms(2) obtain r3 where
    3: "map unstamp ts = map unstamp ss" "\<forall>t \<in> set ts. range_ok (sm_range t)"
      "r2 = concat (map (\<lambda>s. enc_range (sm_range s)) ts) @ r3"
      "c = cursor_at (((pre @ ?m) @ to_le_bytes n) @ concat (map (\<lambda>s. enc_range (sm_range s)) ts)) r3"
    by auto
  have "length ts = length ss" using 3(1) by (metis length_map)
  moreover have "n = word_of_nat (unat n)" by simp
  ultimately have "n = word_of_nat (length ts)" using r(3) by simp
  then show ?thesis using 1 2 3 by (simp add: enc_extension_def)
qed

lemma extension_follows_at: "extension_follows (cursor_at pre rest) = prefix CLUSTERING_RANGE_EXTENSION_MAGIC rest"
  by (simp add: extension_follows_def cursor_at_def slice_from_def)

lemma mf_finish_at: "mf_finish (cursor_at pre rest) = Ok u \<longleftrightarrow> rest = []"
  by (auto simp: mf_finish_def cursor_at_def)

section \<open>The whole payload\<close>

type_synonym manifest_head = "u64 \<times> u64 \<times> u32 \<times> u32 \<times> u32 \<times> unit \<times> epoch_identity option"

definition check_head :: "u32 \<Rightarrow> (manifest_error, unit) result" where
  "check_head r = (if r \<noteq> 0 then Err (ManifestDecode ReservedNonZero) else Ok ())"

definition mf_head :: "cursor \<Rightarrow> (manifest_error, manifest_head \<times> cursor) result" where
  "mf_head = read_pair mf_u64 (read_pair mf_u64 (read_pair mf_u32 (read_pair mf_u32 (read_pair mf_u32
     (read_pair (read_check check_head mf_u32) mf_optional_identity)))))"

definition enc_head :: "manifest_head \<Rightarrow> bytes" where
  "enc_head h = (case h of (g, l, a, b, c, _, i) \<Rightarrow>
     to_le_bytes g @ to_le_bytes l @ to_le_bytes a @ to_le_bytes b @ to_le_bytes c @ to_le_bytes (0 :: u32)
     @ append_optional_identity i)"

interpretation mzero32: strict_codec "\<lambda>_. to_le_bytes (0 :: u32)" "read_check check_head mf_u32" "\<lambda>_. True"
  by (rule strict_codec_check [OF m32.strict_codec_axioms, where g = "\<lambda>_. 0"])
    (auto simp: check_head_def split: if_splits)

interpretation mhead: strict_codec enc_head mf_head "\<lambda>_. True"
proof -
  note pairs = strict_codec_pair [OF m64.strict_codec_axioms strict_codec_pair [OF m64.strict_codec_axioms
    strict_codec_pair [OF m32.strict_codec_axioms strict_codec_pair [OF m32.strict_codec_axioms
    strict_codec_pair [OF m32.strict_codec_axioms strict_codec_pair [OF mzero32.strict_codec_axioms
    moi.strict_codec_axioms]]]]]]
  have "enc_head = (\<lambda>(x, y). to_le_bytes x @ (case y of (x, y) \<Rightarrow> to_le_bytes x @ (case y of (x, y) \<Rightarrow>
      to_le_bytes x @ (case y of (x, y) \<Rightarrow> to_le_bytes x @ (case y of (x, y) \<Rightarrow> to_le_bytes x
      @ (case y of (x, y) \<Rightarrow> to_le_bytes (0 :: u32) @ append_optional_identity y))))))"
    by (rule ext) (simp add: enc_head_def split: prod.splits)
  then show "strict_codec enc_head mf_head (\<lambda>_. True)"
    using pairs by (simp add: mf_head_def case_prod_unfold)
qed

definition head_of :: "manifest \<Rightarrow> manifest_head" where
  "head_of m = (mf_generation m, mf_log_seq m, word_of_nat (length (mf_segments m)),
     word_of_nat (length (mf_epochs m)), word_of_nat (user_column_count (mf_schema m)), (), mf_epoch_alias m)"

lemma enc_payload_eq:
  "enc_payload m = enc_head (head_of m) @ concat (map enc_segment (mf_segments m))
     @ concat (map enc_epoch (mf_epochs m)) @ concat (map enc_definition (drop 1 (columns (mf_schema m))))
     @ enc_ranges (mf_segments m)"
  by (simp add: enc_payload_def enc_head_def head_of_def)

definition mf_ranges ::
  "segment_meta list \<Rightarrow> cursor \<Rightarrow> (manifest_error, segment_meta list \<times> cursor) result" where
  "mf_ranges segments c =
     (if extension_follows c then decode_clustering_ranges segments c else Ok (segments, c))"

lemma decode_manifest_payload_eq:
  "decode_manifest_payload payload =
     and_then (mf_head (cursor_at [] payload)) (\<lambda>((generation, log_seq, ns, ne, nd, _, alias), c).
     and_then (read_many (unat ns) mf_segment c) (\<lambda>(segments, c).
     and_then (read_many (unat ne) mf_epoch c) (\<lambda>(epochs, c).
     and_then (read_many (unat nd) mf_definition c) (\<lambda>(definitions, c).
     and_then (mf_ranges segments c) (\<lambda>(segments, c).
     and_then (mf_finish c) (\<lambda>_.
     and_then (map_err (\<lambda>e. ManifestDecode (SchemaRejected e)) (schema_new definitions)) (\<lambda>schema.
     Ok \<lparr>mf_generation = generation, mf_log_seq = log_seq, mf_segments = segments,
         mf_epochs = epochs, mf_epoch_alias = alias, mf_schema = schema\<rparr>)))))))"
  unfolding decode_manifest_payload_def mf_ranges_def [symmetric] mf_head_def
  by (simp add: cursor_at_def read_defs check_head_def cong: if_cong)

text \<open>
  What a manifest value must satisfy to be representable: the type invariants of its parts (UTF-8
  names, 16-byte ids, a schema built by the validating constructor), registered vector schemes,
  ordered ranges, and lengths that fit their prefixes.
\<close>

definition manifest_ok :: "manifest \<Rightarrow> bool" where
  "manifest_ok m \<longleftrightarrow> payload_fits m \<and> schema_ok (mf_schema m)
     \<and> (\<forall>s \<in> set (mf_segments m). segment_ok s)
     \<and> (\<forall>e \<in> set (mf_epochs m). epoch_ok e)
     \<and> (\<forall>d \<in> set (drop 1 (columns (mf_schema m))). string_ok (col_name d))"

lemma mf_ranges_enc:
  assumes "\<forall>s \<in> set ss. range_ok (sm_range s)" "length ss \<le> u32_max" "addressable pre (enc_ranges ss)"
  shows "mf_ranges (map unstamp ss) (cursor_at pre (enc_ranges ss)) = Ok (ss, cursor_at (pre @ enc_ranges ss) [])"
proof (cases "all_unstamped ss")
  case True
  then show ?thesis
    by (simp add: mf_ranges_def extension_follows_at enc_ranges_def map_unstamp_id
        CLUSTERING_RANGE_EXTENSION_MAGIC_def)
next
  case False
  then show ?thesis
    using decode_ranges_enc [OF assms(1,2)] assms(3)
    by (simp add: mf_ranges_def extension_follows_at enc_ranges_def) (simp add: enc_extension_def)
qed

lemma decode_enc_payload:
  assumes "manifest_ok m" "length (enc_payload m) \<le> alloc_max"
  shows "decode_manifest_payload (enc_payload m) = Ok m"
proof -
  let ?S = "mf_segments m" and ?E = "mf_epochs m" and ?D = "drop 1 (columns (mf_schema m))"
  let ?h = "enc_head (head_of m)" and ?s = "concat (map enc_segment ?S)" and ?e = "concat (map enc_epoch ?E)"
    and ?d = "concat (map enc_definition ?D)" and ?r = "enc_ranges ?S"
  note ok = assms(1) [unfolded manifest_ok_def payload_fits_def]
  have a: "addressable [] (?h @ ?s @ ?e @ ?d @ ?r)" using assms(2) by (simp add: addressable_def enc_payload_eq)
  have nd: "user_column_count (mf_schema m) = length ?D" by (simp add: user_column_count_def)
  have s: "concat (map enc_segment (map unstamp ?S)) = ?s" by (simp add: comp_def)
  have 1: "mf_head (cursor_at [] (?h @ ?s @ ?e @ ?d @ ?r)) = Ok (head_of m, cursor_at ?h (?s @ ?e @ ?d @ ?r))"
    using mhead.rd_enc [OF TrueI a] by simp
  have 2: "read_many (length ?S) mf_segment (cursor_at ?h (?s @ ?e @ ?d @ ?r)) =
      Ok (map unstamp ?S, cursor_at (?h @ ?s) (?e @ ?d @ ?r))"
    using mseg.read_many_enc [of "map unstamp ?S" ?h "?e @ ?d @ ?r"] a ok unfolding s by auto
  have 3: "read_many (length ?E) mf_epoch (cursor_at (?h @ ?s) (?e @ ?d @ ?r)) =
      Ok (?E, cursor_at ((?h @ ?s) @ ?e) (?d @ ?r))"
    by (rule mepoch.read_many_enc) (use a ok in auto)
  have 4: "read_many (length ?D) mf_definition (cursor_at ((?h @ ?s) @ ?e) (?d @ ?r)) =
      Ok (?D, cursor_at (((?h @ ?s) @ ?e) @ ?d) ?r)"
    by (rule mdef.read_many_enc) (use a ok in auto)
  have 5: "mf_ranges (map unstamp ?S) (cursor_at (((?h @ ?s) @ ?e) @ ?d) ?r) =
      Ok (?S, cursor_at ((((?h @ ?s) @ ?e) @ ?d) @ ?r) [])"
    by (rule mf_ranges_enc) (use a ok in auto)
  have "columns (mf_schema m) = ts_column # ?D" using ok by (auto simp: schema_ok_def)
  then have 6: "schema_new ?D = Ok (mf_schema m)" using ok by (simp add: schema_new_Ok)
  have 7: "mf_finish (cursor_at ((((?h @ ?s) @ ?e) @ ?d) @ ?r) []) = Ok ()" by (simp add: mf_finish_at)
  show ?thesis
    unfolding decode_manifest_payload_eq enc_payload_eq 1
    using 2 3 4 5 6 7 ok nd by (simp add: head_of_def count_u32)
qed

lemma mf_ranges_canon:
  assumes "mf_ranges ss (cursor_at pre bs) = Ok (ts, c)" "addressable pre bs" "mf_finish c = Ok u"
    "all_unstamped ss"
  shows "map unstamp ts = ss \<and> (\<forall>t \<in> set ts. range_ok (sm_range t))
    \<and> (bs = enc_ranges ts \<or> all_unstamped ts \<and> bs = enc_extension ts)"
proof (cases "prefix CLUSTERING_RANGE_EXTENSION_MAGIC bs")
  case True
  then have "decode_clustering_ranges ss (cursor_at pre bs) = Ok (ts, c)"
    using assms(1) by (simp add: mf_ranges_def extension_follows_at)
  from decode_ranges_canon [OF this assms(2)] show ?thesis
    using assms(3,4) by (auto simp: mf_finish_at map_unstamp_id enc_ranges_def)
next
  case False
  then have "ts = ss" "c = cursor_at pre bs"
    using assms(1) by (simp_all add: mf_ranges_def extension_follows_at)
  then show ?thesis
    using assms(3,4)
    by (auto simp: mf_finish_at map_unstamp_id enc_ranges_def all_unstamped_def list_all_iff)
qed

lemma epoch_ok_fits: "epoch_ok e \<Longrightarrow> epoch_fits (em_embedding e)"
  by (auto simp: epoch_ok_def epoch_fits_def tower_ok_def tower_fits_def string_ok_def)

lemma decode_payload_canon:
  assumes "decode_manifest_payload bs = Ok m" "length bs \<le> alloc_max"
  shows "manifest_ok m
    \<and> (bs = enc_payload m \<or> all_unstamped (mf_segments m) \<and> bs = enc_payload m @ enc_extension (mf_segments m))"
proof -
  let ?S = "mf_segments m" and ?E = "mf_epochs m" and ?D = "drop 1 (columns (mf_schema m))"
  from assms(1) obtain ns ne nd c1 S0 c2 c3 D c4 c5 where
    r: "mf_head (cursor_at [] bs) = Ok ((mf_generation m, mf_log_seq m, ns, ne, nd, (), mf_epoch_alias m), c1)"
      "read_many (unat ns) mf_segment c1 = Ok (S0, c2)" "read_many (unat ne) mf_epoch c2 = Ok (?E, c3)"
      "read_many (unat nd) mf_definition c3 = Ok (D, c4)" "mf_ranges S0 c4 = Ok (?S, c5)"
      "mf_finish c5 = Ok ()" "schema_new D = Ok (mf_schema m)"
    by (auto simp: decode_manifest_payload_eq result_Inr)
  let ?h = "enc_head (mf_generation m, mf_log_seq m, ns, ne, nd, (), mf_epoch_alias m)"
  have a: "addressable [] bs" using assms(2) by (simp add: addressable_def)
  from mhead.rd_canon [OF r(1) a] obtain r1 where 1: "bs = ?h @ r1" "c1 = cursor_at ?h r1" by auto
  from mseg.read_many_canon [OF r(2) [unfolded 1(2)]] 1 a obtain r2 where
    2: "length S0 = unat ns" "\<forall>s \<in> set S0. segment_ok s \<and> sm_range s = Unstamped"
      "r1 = concat (map enc_segment S0) @ r2" "c2 = cursor_at (?h @ concat (map enc_segment S0)) r2" by auto
  from mepoch.read_many_canon [OF r(3) [unfolded 2(4)]] 1 2 a obtain r3 where
    3: "length ?E = unat ne" "\<forall>e \<in> set ?E. epoch_ok e" "r2 = concat (map enc_epoch ?E) @ r3"
      "c3 = cursor_at ((?h @ concat (map enc_segment S0)) @ concat (map enc_epoch ?E)) r3" by auto
  from mdef.read_many_canon [OF r(4) [unfolded 3(4)]] 1 2 3 a obtain r4 where
    4: "length D = unat nd" "\<forall>d \<in> set D. string_ok (col_name d)" "r3 = concat (map enc_definition D) @ r4"
      "c4 = cursor_at (((?h @ concat (map enc_segment S0)) @ concat (map enc_epoch ?E))
        @ concat (map enc_definition D)) r4" by auto
  have "all_unstamped S0" using 2(2) by (simp add: all_unstamped_def list_all_iff)
  from mf_ranges_canon [OF r(5) [unfolded 4(4)] _ r(6) this] 1 2 3 4 a have
    5: "map unstamp ?S = S0" "\<forall>t \<in> set ?S. range_ok (sm_range t)"
      "r4 = enc_ranges ?S \<or> all_unstamped ?S \<and> r4 = enc_extension ?S" by auto
  have cols: "columns (mf_schema m) = ts_column # D" "schema_ok (mf_schema m)"
    using r(7) by (simp_all add: schema_new_Ok)
  have D: "?D = D" using cols by simp
  have seg: "concat (map enc_segment S0) = concat (map enc_segment ?S)" "length S0 = length ?S"
    "\<forall>s \<in> set ?S. segment_ok s"
    using 5(1) 2(2) by (auto simp: comp_def)
  have n: "ns = word_of_nat (length ?S)" "ne = word_of_nat (length ?E)"
    "nd = word_of_nat (user_column_count (mf_schema m))"
    using 2(1) 3(1) 4(1) seg(2) cols(1) word_unat_eq_iff by (auto simp: user_column_count_def)
  have pay: "bs = enc_head (head_of m) @ concat (map enc_segment ?S) @ concat (map enc_epoch ?E)
      @ concat (map enc_definition ?D) @ r4"
    using 1 2(3) 3(3) 4(3) n D seg(1) by (simp add: head_of_def)
  have "payload_fits m"
    using 2(1) 3(1,2) 4(1,2) 5(2) seg(2) cols(1) unat_u32_le [of ns] unat_u32_le [of ne] unat_u32_le [of nd]
      epoch_ok_fits
    by (auto simp: payload_fits_def user_column_count_def string_ok_def)
  then have "manifest_ok m" using seg(3) 3(2) 4(2) D cols(2) by (simp add: manifest_ok_def)
  moreover have "enc_ranges ?S = []" if "all_unstamped ?S" using that by (simp add: enc_ranges_def)
  ultimately show ?thesis using 5(3) pay by (auto simp: enc_payload_eq)
qed

section \<open>Epoch references\<close>

lemma registry_identities_Ok:
  "registry_identities X seen es = Ok ids \<longleftrightarrow>
     (\<forall>e \<in> set es. epoch_id_of X (em_embedding e) = em_id e)
     \<and> (let new = map (\<lambda>e. \<lparr>ei_embedding = em_id e, ei_tokenizer = em_tokenizer e\<rparr>) es in
        distinct new \<and> set new \<inter> set seen = {} \<and> ids = seen @ new)"
proof (induction es arbitrary: seen)
  case (Cons e es)
  then show ?case by (auto simp: identity_from_meta_def Let_def)
qed auto

lemma check_segment_epochs_Ok:
  "check_segment_epochs ids ss = Ok u \<longleftrightarrow>
     (\<forall>s \<in> set ss. (case sm_epoch_id s of None \<Rightarrow> ids = [] | Some e \<Rightarrow> e \<in> ei_embedding ` set ids))"
  by (induction ss) (auto simp: list_ex_iff split: option.splits)

text \<open>
  The registry invariant a readable snapshot satisfies: every entry is named by the digest of its
  own description, no identity occurs twice, the alias is published exactly when there is an
  entry and names one, and each segment's tag names an entry (and is present when there is one).
\<close>

definition registry_ok :: "xxh3_lib \<Rightarrow> manifest \<Rightarrow> bool" where
  "registry_ok X m \<longleftrightarrow>
     (let ids = map (\<lambda>e. \<lparr>ei_embedding = em_id e, ei_tokenizer = em_tokenizer e\<rparr>) (mf_epochs m) in
      (\<forall>e \<in> set (mf_epochs m). epoch_id_of X (em_embedding e) = em_id e) \<and> distinct ids
      \<and> (case mf_epoch_alias m of None \<Rightarrow> ids = [] | Some a \<Rightarrow> a \<in> set ids)
      \<and> (\<forall>s \<in> set (mf_segments m).
           case sm_epoch_id s of None \<Rightarrow> ids = [] | Some e \<Rightarrow> e \<in> ei_embedding ` set ids))"

lemma validate_epoch_references_Ok: "validate_epoch_references X m = Ok u \<longleftrightarrow> registry_ok X m"
  by (auto simp: validate_epoch_references_def result_Inr registry_identities_Ok check_segment_epochs_Ok
      registry_ok_def Let_def split: option.splits if_splits)

lemma encode_manifest_Ok:
  "encode_manifest X m = Ok bs \<longleftrightarrow>
     registry_ok X m \<and> payload_fits m \<and> bs = encode_artifact_version X ManifestFamily 2 0 (enc_payload m)"
  by (auto simp: encode_manifest_def result_Inr validate_epoch_references_Ok encode_manifest_payload_Ok)

lemma manifest_version:
  "(\<exists>spec. require_family (family_id ManifestFamily) v = Ok spec) \<longleftrightarrow> v = 2 \<or> v = 3"
proof -
  have "2 \<le> v \<and> v \<le> 3 \<longleftrightarrow> v = 2 \<or> v = (3 :: u16)"
    by (auto simp: word_le_nat_alt word_unat_eq_iff)
  then show ?thesis by (auto simp: require_family_id spec_of_def not_less simp del: family_id.simps)
qed

end
