(* ===== verification/Vfs.thy ===== *)
theory Vfs
  imports Durability
begin

text \<open>
  The filesystem seam (\<^verbatim>\<open>src/vfs/mod.rs\<close>), as the production implementation \<open>StdVfs\<close>
  behaves on the flat store directory: a map from file names to contents. An outcome argument
  says how the operating system answers one call; a failed write may leave any prefix behind.
\<close>

type_synonym file_name = bytes
type_synonym directory = "file_name \<rightharpoonup> bytes"

section \<open>Operations\<close>

datatype write_outcome =
    WriteOk
  | WriteRefused io_kind
  | WritePartial nat io_kind

definition vfs_write :: "write_outcome \<Rightarrow> file_name \<Rightarrow> bytes \<Rightarrow> directory \<Rightarrow> (io_kind, unit) result \<times> directory" where
  "vfs_write out name bs d =
     (case out of
        WriteOk \<Rightarrow> (Ok (), d(name \<mapsto> bs))
      | WriteRefused e \<Rightarrow> (Err e, d)
      | WritePartial k e \<Rightarrow> (Err e, d(name \<mapsto> take k bs)))"

definition vfs_rename :: "io_kind option \<Rightarrow> file_name \<Rightarrow> file_name \<Rightarrow> directory \<Rightarrow> (io_kind, unit) result \<times> directory" where
  "vfs_rename fault from dest d =
     (case fault of
        Some e \<Rightarrow> (Err e, d)
      | None \<Rightarrow>
          (case d from of
             None \<Rightarrow> (Err NotFound, d)
           | Some bs \<Rightarrow> (Ok (), (d(from := None))(dest \<mapsto> bs))))"

definition vfs_open :: "io_kind option \<Rightarrow> file_name \<Rightarrow> directory \<Rightarrow> (io_kind, u64) result" where
  "vfs_open fault name d =
     (case fault of
        Some e \<Rightarrow> Err e
      | None \<Rightarrow> map_ok (\<lambda>bs. u64_of_usize (length bs)) (ok_or NotFound (d name)))"

definition vfs_read :: "io_kind option \<Rightarrow> file_name \<Rightarrow> directory \<Rightarrow> (io_kind, bytes) result" where
  "vfs_read fault name d = (case fault of Some e \<Rightarrow> Err e | None \<Rightarrow> ok_or NotFound (d name))"

text \<open>Reads at most \<open>len\<close> bytes from \<open>offset\<close>; past the end it returns what is left.\<close>

definition vfs_read_range :: "io_kind option \<Rightarrow> file_name \<Rightarrow> nat \<Rightarrow> nat \<Rightarrow> directory \<Rightarrow> (io_kind, bytes) result" where
  "vfs_read_range fault name offset len d =
     map_ok (\<lambda>bs. take len (drop offset bs)) (vfs_read fault name d)"

definition vfs_delete :: "io_kind option \<Rightarrow> file_name \<Rightarrow> directory \<Rightarrow> (io_kind, unit) result \<times> directory" where
  "vfs_delete fault name d =
     (case fault of
        Some e \<Rightarrow> (Err e, d)
      | None \<Rightarrow> (case d name of None \<Rightarrow> (Err NotFound, d) | Some _ \<Rightarrow> (Ok (), d(name := None))))"

text \<open>A synchronization changes no contents; the policy may ask to skip it.\<close>

definition vfs_sync :: "io_kind option \<Rightarrow> sync_requirement \<Rightarrow> (io_kind, unit) result" where
  "vfs_sync fault requirement =
     (case requirement of
        Skip \<Rightarrow> Ok ()
      | Sync kind \<Rightarrow> (case fault of Some e \<Rightarrow> Err e | None \<Rightarrow> Ok ()))"

section \<open>Atomic replacement\<close>

text \<open>
  What every commit of the store relies on: a write touches only its own file, and a rename
  either does nothing or makes the destination exactly the source.
\<close>

locale replaceable_files =
  fixes wr :: "'w \<Rightarrow> file_name \<Rightarrow> bytes \<Rightarrow> 'd \<Rightarrow> (io_kind, unit) result \<times> 'd"
    and mv :: "'r \<Rightarrow> file_name \<Rightarrow> file_name \<Rightarrow> 'd \<Rightarrow> (io_kind, unit) result \<times> 'd"
    and contents :: "'d \<Rightarrow> file_name \<Rightarrow> bytes option"
  assumes write_frame: "m \<noteq> n \<Longrightarrow> contents (snd (wr w n bs d)) m = contents d m"
    and write_contents: "wr w n bs d = (Ok u, d') \<Longrightarrow> contents d' n = Some bs"
    and rename_frame: "m \<noteq> a \<Longrightarrow> m \<noteq> b \<Longrightarrow> contents (snd (mv r a b d)) m = contents d m"
    and rename_contents: "a \<noteq> b \<Longrightarrow> mv r a b d = (Ok u, d') \<Longrightarrow> contents d' b = contents d a"
    and rename_failed: "mv r a b d = (Err e, d') \<Longrightarrow> d' = d"
begin

text \<open>Write a temporary, synchronize it, mv it over the target, synchronize the directory.\<close>

definition replace ::
  "'w \<Rightarrow> (io_kind, unit) result \<Rightarrow> 'r \<Rightarrow> (io_kind, unit) result \<Rightarrow> file_name \<Rightarrow> file_name \<Rightarrow> bytes \<Rightarrow> 'd
   \<Rightarrow> (io_kind, unit) result \<times> 'd" where
  "replace w sync r sync_dir tmp target bs d =
     (case wr w tmp bs d of
        (Inl e, d) \<Rightarrow> (Err e, d)
      | (Inr _, d) \<Rightarrow>
          (case sync of
             Inl e \<Rightarrow> (Err e, d)
           | Inr _ \<Rightarrow>
               (case mv r tmp target d of
                  (Inl e, d) \<Rightarrow> (Err e, d)
                | (Inr _, d) \<Rightarrow> (sync_dir, d))))"

lemma replace_atomic:
  assumes "tmp \<noteq> target" "replace w sync r sync_dir tmp target bs d = (res, d')"
  shows "contents d' target = contents d target \<or> contents d' target = Some bs"
    and "res = Ok u \<Longrightarrow> contents d' target = Some bs"
    and "n \<noteq> tmp \<Longrightarrow> n \<noteq> target \<Longrightarrow> contents d' n = contents d n"
proof -
  obtain r1 d1 where w: "wr w tmp bs d = (r1, d1)" by fastforce
  have f1: "contents d1 m = contents d m" if "m \<noteq> tmp" for m
    using write_frame [OF that, of w bs d] w by simp
  obtain r2 d2 where rn: "mv r tmp target d1 = (r2, d2)" by fastforce
  have f2: "contents d2 m = contents d1 m" if "m \<noteq> tmp" "m \<noteq> target" for m
    using rename_frame [OF that, of r d1] rn by simp
  have d': "d' = d1 \<or> d' = d2" using assms(2) w rn by (auto simp: replace_def split: sum.splits)
  have ok: "contents d2 target = Some bs" if "r1 = Ok ()" "r2 = Ok ()"
    using rename_contents [OF assms(1)] rn w write_contents that by metis
  have d2: "d' = d2 \<Longrightarrow> d' = d1 \<or> (r1 = Ok () \<and> r2 = Ok ())"
    using assms(2) w rn rename_failed by (auto simp: replace_def split: sum.splits)
  show "contents d' target = contents d target \<or> contents d' target = Some bs"
    using d' d2 ok f1 [OF assms(1) [symmetric]] by auto
  show "contents d' target = Some bs" if "res = Ok u"
    using assms(2) w rn ok that by (auto simp: replace_def split: sum.splits)
  show "contents d' n = contents d n" if "n \<noteq> tmp" "n \<noteq> target"
    using d' f1 [OF that(1)] f2 [OF that] by auto
qed

end

interpretation std_vfs: replaceable_files vfs_write vfs_rename "\<lambda>d. d"
  by unfold_locales
    (auto simp: vfs_write_def vfs_rename_def split: write_outcome.splits option.splits)

end
