(* ===== verification/Manifest_Io.thy ===== *)
theory Manifest_Io
  imports Manifest_Payload Vfs "HOL-Library.List_Lexorder"
begin

text \<open>
  Committing and loading the manifest, and deleting unreachable files
  (\<^verbatim>\<open>src/manifest/io.rs\<close>), on the store directory model. Paths are the names of the
  directory's direct children; the directory itself is the empty name in an error.
\<close>

section \<open>Names\<close>

definition ascii :: "string \<Rightarrow> file_name" where
  "ascii s = map of_char s"

definition MANIFEST_FILE :: file_name where
  "MANIFEST_FILE = ascii ''manifest.ze''"

definition MANIFEST_TEMP_FILE :: file_name where
  "MANIFEST_TEMP_FILE = ascii ''.manifest.ze.tmp''"

text \<open>\<open>write!(name, "{byte:02x}")\<close>.\<close>

definition hex_digit :: "u8 \<Rightarrow> u8" where
  "hex_digit n = (if n < 10 then 48 + n else 87 + n)"

definition hex_byte :: "u8 \<Rightarrow> bytes" where
  "hex_byte b = [hex_digit (drop_bit 4 b), hex_digit (take_bit 4 b)]"

definition segment_file_name :: "bytes \<Rightarrow> file_name" where
  "segment_file_name i = ascii ''segment-'' @ concat (map hex_byte i) @ ascii ''.zseg''"

text \<open>\<open>path.file_name().and_then(to_str)\<close> is the name when it is UTF-8.\<close>

definition is_segment_file :: "file_name \<Rightarrow> bool" where
  "is_segment_file n \<longleftrightarrow> utf8_valid n \<and> prefix (ascii ''segment-'') n \<and> suffix (ascii ''.zseg'') n"

definition is_eligible_store_orphan :: "file_name \<Rightarrow> file_name set \<Rightarrow> bool \<Rightarrow> bool" where
  "is_eligible_store_orphan n reachable_segments graph_enabled \<longleftrightarrow> utf8_valid n \<and>
     (let unreferenced_final = prefix (ascii ''segment-'') n \<and> suffix (ascii ''.zseg'') n
            \<and> n \<notin> reachable_segments;
          segment_temporary = prefix (ascii ''.segment-'') n \<and> suffix (ascii ''.zseg.tmp'') n;
          graph_orphan = \<not> graph_enabled \<and> prefix (ascii ''graph-'') n \<and> suffix (ascii ''.zgraph'') n
      in unreferenced_final \<or> segment_temporary \<or> n = MANIFEST_TEMP_FILE \<or> graph_orphan)"

section \<open>Commit and load\<close>

record commit_faults =
  cf_write :: write_outcome
  cf_sync :: "io_kind option"
  cf_rename :: "io_kind option"
  cf_sync_dir :: "io_kind option"

definition commit_manifest ::
  "xxh3_lib \<Rightarrow> commit_faults \<Rightarrow> manifest \<Rightarrow> durability_policy \<Rightarrow> directory
   \<Rightarrow> (manifest_error, unit) result \<times> directory" where
  "commit_manifest X env m policy d =
     (case encode_manifest X m of
        Inl e \<Rightarrow> (Err e, d)
      | Inr bs \<Rightarrow>
     (case vfs_write (cf_write env) MANIFEST_TEMP_FILE bs d of
        (Inl e, d) \<Rightarrow> (Err (ManifestIo MANIFEST_TEMP_FILE e), d)
      | (Inr _, d) \<Rightarrow>
     (case vfs_sync (cf_sync env) (data_file policy) of
        Inl e \<Rightarrow> (Err (ManifestIo MANIFEST_TEMP_FILE e), d)
      | Inr _ \<Rightarrow>
     (case vfs_rename (cf_rename env) MANIFEST_TEMP_FILE MANIFEST_FILE d of
        (Inl e, d) \<Rightarrow> (Err (ManifestIo MANIFEST_FILE e), d)
      | (Inr _, d) \<Rightarrow>
          (map_err (ManifestIo []) (vfs_sync (cf_sync_dir env) (directory policy)), d)))))"

text \<open>The artifact name in a format error is the displayed path; \<open>shown\<close> is its text.\<close>

definition load_manifest ::
  "xxh3_lib \<Rightarrow> string \<Rightarrow> io_kind option \<Rightarrow> file_name \<Rightarrow> u64 \<Rightarrow> directory \<Rightarrow> (manifest_error, manifest) result" where
  "load_manifest X shown fault name durable_log_end d =
     and_then (map_err (ManifestIo name) (vfs_read fault name d)) (\<lambda>bs.
     and_then (decode_manifest X shown bs) (\<lambda>m.
     if durable_log_end < mf_log_seq m then Err (AheadOfLog (mf_log_seq m) durable_log_end) else Ok m))"

section \<open>Orphans\<close>

text \<open>How the operating system answers, per file: opening and deleting; a delete may leave the entry.\<close>

datatype delete_outcome = Deleted | DeleteFailed io_kind | DeleteLingers

record sweep_faults =
  sf_list :: "(io_kind, file_name list) result"
  sf_open :: "file_name \<Rightarrow> io_kind option"
  sf_delete :: "file_name \<Rightarrow> delete_outcome"
  sf_reopen :: "file_name \<Rightarrow> io_kind option"

definition sweep_delete :: "sweep_faults \<Rightarrow> file_name \<Rightarrow> directory \<Rightarrow> (io_kind, unit) result \<times> directory" where
  "sweep_delete env n d =
     (case sf_delete env n of
        Deleted \<Rightarrow> vfs_delete None n d
      | DeleteFailed e \<Rightarrow> vfs_delete (Some e) n d
      | DeleteLingers \<Rightarrow> (Ok (), d))"

primrec sweep_loop ::
  "sweep_faults \<Rightarrow> file_name set \<Rightarrow> file_name set \<Rightarrow> file_name list \<Rightarrow> u64 \<Rightarrow> directory
   \<Rightarrow> (manifest_error, u64) result \<times> directory" where
  "sweep_loop env reachable excluded [] reclaimed d = (Ok reclaimed, d)"
| "sweep_loop env reachable excluded (n # ns) reclaimed d =
     (if \<not> is_segment_file n \<or> n \<in> reachable \<or> n \<in> excluded
      then sweep_loop env reachable excluded ns reclaimed d else
      case vfs_open (sf_open env n) n d of
        Inl e \<Rightarrow> (Err (ManifestIo n e), d)
      | Inr len \<Rightarrow>
          (case sweep_delete env n d of
             (Inl e, d) \<Rightarrow> (Err (ManifestIo n e), d)
           | (Inr _, d) \<Rightarrow> sweep_loop env reachable excluded ns (saturating_add_u64 reclaimed len) d))"

definition reachable_files :: "manifest \<Rightarrow> file_name set" where
  "reachable_files m = (\<lambda>s. segment_file_name (sm_id s)) ` set (mf_segments m)"

definition sweep_orphans ::
  "sweep_faults \<Rightarrow> manifest \<Rightarrow> file_name set \<Rightarrow> directory \<Rightarrow> (manifest_error, u64) result \<times> directory" where
  "sweep_orphans env m writing_exclusions d =
     (case sf_list env of
        Inl e \<Rightarrow> (Err (ManifestIo [] e), d)
      | Inr names \<Rightarrow> sweep_loop env (reachable_files m) writing_exclusions names 0 d)"

record orphan_cleanup_report =
  oc_reclaimed_bytes :: u64
  oc_deleted_paths :: "file_name list"
  oc_retained_eligible_paths :: "file_name list"
  oc_directory_synced :: bool

primrec cleanup_loop ::
  "sweep_faults \<Rightarrow> file_name set \<Rightarrow> bool \<Rightarrow> file_name list \<Rightarrow> u64 \<times> file_name list \<times> file_name list \<Rightarrow> directory
   \<Rightarrow> (manifest_error, u64 \<times> file_name list \<times> file_name list) result \<times> directory" where
  "cleanup_loop env reachable graph [] acc d = (Ok acc, d)"
| "cleanup_loop env reachable graph (n # ns) acc d =
     (let (reclaimed, deleted, retained) = acc in
      if \<not> is_eligible_store_orphan n reachable graph then cleanup_loop env reachable graph ns acc d else
      case vfs_open (sf_open env n) n d of
        Inl e \<Rightarrow> (Err (ManifestIo n e), d)
      | Inr len \<Rightarrow>
          (case sweep_delete env n d of
             (Inl e, d) \<Rightarrow> (Err (ManifestIo n e), d)
           | (Inr _, d) \<Rightarrow>
               (case vfs_open (sf_reopen env n) n d of
                  Inl NotFound \<Rightarrow>
                    (case checked_add_u64 reclaimed len of
                       None \<Rightarrow> (Err (ManifestIo [] (OtherIo 0)), d)
                     | Some reclaimed \<Rightarrow> cleanup_loop env reachable graph ns (reclaimed, deleted @ [n], retained) d)
                | Inr _ \<Rightarrow> cleanup_loop env reachable graph ns (reclaimed, deleted, retained @ [n]) d
                | Inl e \<Rightarrow> (Err (ManifestIo n e), d))))"

definition cleanup_store_orphans ::
  "sweep_faults \<Rightarrow> io_kind option \<Rightarrow> file_name set \<Rightarrow> bool \<Rightarrow> durability_policy \<Rightarrow> directory
   \<Rightarrow> (manifest_error, orphan_cleanup_report) result \<times> directory" where
  "cleanup_store_orphans env sync_fault reachable graph_enabled policy d =
     (case sf_list env of
        Inl e \<Rightarrow> (Err (ManifestIo [] e), d)
      | Inr names \<Rightarrow>
          (case cleanup_loop env reachable graph_enabled (sort names) (0, [], []) d of
             (Inl e, d) \<Rightarrow> (Err e, d)
           | (Inr (reclaimed, deleted, retained), d) \<Rightarrow>
               (let synced = (deleted \<noteq> [] \<and> directory policy \<noteq> Skip) in
                (and_then (if synced then map_err (ManifestIo []) (vfs_sync sync_fault (directory policy)) else Ok ())
                   (\<lambda>_. Ok \<lparr>oc_reclaimed_bytes = reclaimed, oc_deleted_paths = deleted,
                           oc_retained_eligible_paths = retained, oc_directory_synced = synced\<rparr>), d))))"

section \<open>Segment names\<close>

lemma utf8_ascii: "\<forall>b \<in> set bs. b < 0x80 \<Longrightarrow> utf8_valid bs"
  by (induction bs) auto

lemma nibble_less: "drop_bit 4 (b :: u8) < 16" "take_bit 4 (b :: u8) < 16"
proof -
  show "drop_bit 4 b < 16"
    using unat_lt2p [of b] by (simp add: word_less_nat_alt drop_bit_eq_div unat_div)
  show "take_bit 4 b < 16"
    by (simp add: word_less_nat_alt take_bit_eq_mod unat_mod)
qed

lemma hex_digit_unat: "n < 16 \<Longrightarrow> unat (hex_digit n) = (if unat n < 10 then 48 + unat n else 87 + unat n)"
  by (auto simp: hex_digit_def word_less_nat_alt unat_word_ariths)

lemma hex_digit_inject: "a < 16 \<Longrightarrow> b < 16 \<Longrightarrow> hex_digit a = hex_digit b \<Longrightarrow> a = b"
  using hex_digit_unat [of a] hex_digit_unat [of b]
  by (auto simp: word_unat_eq_iff split: if_splits)

lemma hex_byte_inject: "hex_byte a = hex_byte b \<Longrightarrow> a = b"
proof -
  assume "hex_byte a = hex_byte b"
  then have "drop_bit 4 a = drop_bit 4 b" "take_bit 4 a = take_bit 4 b"
    using hex_digit_inject nibble_less unfolding hex_byte_def by blast+
  then show "a = b" by (metis bits_ident)
qed

lemma concat_hex_inject:
  "length xs = length ys \<Longrightarrow> concat (map hex_byte xs) = concat (map hex_byte ys) \<Longrightarrow> xs = ys"
proof (induction xs ys rule: list_induct2)
  case (Cons x xs y ys)
  then have "hex_byte x = hex_byte y \<and> concat (map hex_byte xs) = concat (map hex_byte ys)"
    by (simp add: hex_byte_def)
  then show ?case using Cons.IH hex_byte_inject by blast
qed simp

lemma segment_file_name_inject:
  "length i = length j \<Longrightarrow> segment_file_name i = segment_file_name j \<Longrightarrow> i = j"
  by (simp add: segment_file_name_def concat_hex_inject)

lemma hex_digit_ascii: "n < 16 \<Longrightarrow> hex_digit n < 0x80"
  using hex_digit_unat [of n] by (simp add: word_less_nat_alt)

lemma segment_file_name_is_segment: "is_segment_file (segment_file_name i)"
proof -
  have "\<forall>b \<in> set (segment_file_name i). b < 0x80"
    using hex_digit_ascii [OF nibble_less(1)] hex_digit_ascii [OF nibble_less(2)]
    by (auto simp: segment_file_name_def ascii_def hex_byte_def)
  then show ?thesis
    by (simp add: is_segment_file_def utf8_ascii segment_file_name_def suffix_def)
qed

lemma manifest_names: "MANIFEST_TEMP_FILE \<noteq> MANIFEST_FILE" "\<not> is_segment_file MANIFEST_FILE"
  "\<not> is_segment_file MANIFEST_TEMP_FILE"
  by (simp_all add: MANIFEST_TEMP_FILE_def MANIFEST_FILE_def ascii_def is_segment_file_def)

section \<open>Commit is an atomic replacement\<close>

lemma commit_manifest_replace:
  assumes "encode_manifest X m = Ok bs"
  shows "\<exists>r. std_vfs.replace (cf_write env) (vfs_sync (cf_sync env) (data_file policy)) (cf_rename env)
      (vfs_sync (cf_sync_dir env) (directory policy)) MANIFEST_TEMP_FILE MANIFEST_FILE bs d
      = (r, snd (commit_manifest X env m policy d))
    \<and> (r = Ok () \<longleftrightarrow> fst (commit_manifest X env m policy d) = Ok ())"
  using assms
  by (auto simp: commit_manifest_def std_vfs.replace_def map_err_def split: prod.splits sum.splits)

section \<open>Sweeping\<close>

definition sweepable :: "file_name set \<Rightarrow> file_name set \<Rightarrow> file_name \<Rightarrow> bool" where
  "sweepable reachable excluded n \<longleftrightarrow> is_segment_file n \<and> n \<notin> reachable \<and> n \<notin> excluded"

lemma sweep_delete_frame: "m \<noteq> n \<Longrightarrow> snd (sweep_delete env n d) m = d m"
  by (auto simp: sweep_delete_def vfs_delete_def split: delete_outcome.splits option.splits)

lemma sweep_loop_frame:
  "\<not> sweepable reachable excluded m \<Longrightarrow> snd (sweep_loop env reachable excluded ns acc d) m = d m"
proof (induction ns arbitrary: acc d)
  case (Cons n ns)
  show ?case
  proof (cases "sweepable reachable excluded n")
    case True
    then have "snd (sweep_delete env n d) m = d m" using Cons.prems by (intro sweep_delete_frame) auto
    then show ?thesis
      using Cons True by (auto simp: sweepable_def split: sum.splits prod.splits)
  next
    case False
    then show ?thesis using Cons by (auto simp: sweepable_def)
  qed
qed simp

lemma sweep_loop_complete:
  assumes "\<forall>n \<in> set ns. n \<in> dom d" "distinct ns" "\<forall>n. sf_open env n = None \<and> sf_delete env n = Deleted"
  shows "\<exists>k. sweep_loop env reachable excluded ns acc d =
    (Ok k, \<lambda>n. if n \<in> set ns \<and> sweepable reachable excluded n then None else d n)"
  using assms(1,2)
proof (induction ns arbitrary: acc d)
  case (Cons n ns)
  show ?case
  proof (cases "sweepable reachable excluded n")
    case False
    then have "sweep_loop env reachable excluded (n # ns) acc d = sweep_loop env reachable excluded ns acc d"
      by (auto simp: sweepable_def)
    moreover from Cons.IH [of d acc] Cons.prems obtain k where
      "sweep_loop env reachable excluded ns acc d =
        (Ok k, \<lambda>m. if m \<in> set ns \<and> sweepable reachable excluded m then None else d m)" by auto
    ultimately show ?thesis using False by (auto simp: fun_eq_iff)
  next
    case True
    obtain bs where bs: "d n = Some bs" using Cons.prems(1) by auto
    have step: "sweep_loop env reachable excluded (n # ns) acc d =
        sweep_loop env reachable excluded ns (saturating_add_u64 acc (u64_of_usize (length bs))) (d(n := None))"
      using True bs assms(3) by (simp add: sweepable_def vfs_open_def sweep_delete_def vfs_delete_def)
    have "\<forall>m \<in> set ns. m \<in> dom (d(n := None))" using Cons.prems by auto
    from Cons.IH [OF this, of "saturating_add_u64 acc (u64_of_usize (length bs))"] Cons.prems(2) obtain k where
      "sweep_loop env reachable excluded ns (saturating_add_u64 acc (u64_of_usize (length bs))) (d(n := None)) =
        (Ok k, \<lambda>m. if m \<in> set ns \<and> sweepable reachable excluded m then None else (d(n := None)) m)" by (auto simp del: fun_upd_apply)
    then show ?thesis using step True by (auto simp: fun_eq_iff)
  qed
qed auto

end
