(* ===== verification/Alias_Cell.thy ===== *)
theory Alias_Cell
  imports Epoch
begin

text \<open>
  The cell that publishes the current epoch alias to readers without a lock
  (\<open>EpochAliasCell\<close> of \<^verbatim>\<open>src/epoch.rs\<close>). Each atomic access of \<open>store\<close> and
  \<open>load\<close> is one step; stores are serialized (the only caller holds the writer lock), loads run
  concurrently with them and retry. Steps interleave sequentially consistently.
\<close>

record alias_cell =
  ac_sequence :: u64
  ac_embedding :: u64
  ac_tokenizer :: u64
  ac_present :: bool

text \<open>\<open>identity.map_or((false, 0, 0), ..)\<close>.\<close>

definition alias_fields :: "epoch_identity option \<Rightarrow> bool \<times> u64 \<times> u64" where
  "alias_fields identity =
     (case identity of None \<Rightarrow> (False, 0, 0) | Some i \<Rightarrow> (True, ei_embedding i, ei_tokenizer i))"

definition alias_cell_new :: "epoch_identity option \<Rightarrow> alias_cell" where
  "alias_cell_new identity =
     (let (present, embedding, tokenizer) = alias_fields identity in
      \<lparr>ac_sequence = 0, ac_embedding = embedding, ac_tokenizer = tokenizer, ac_present = present\<rparr>)"

section \<open>One store\<close>

datatype store_phase =
    StoreIdle
  | StoreBegun "epoch_identity option"
  | StoreEmbedding "epoch_identity option"
  | StoreTokenizer "epoch_identity option"
  | StorePresent "epoch_identity option"

definition alias_store_begin :: "alias_cell \<Rightarrow> alias_cell" where
  "alias_store_begin c = c\<lparr>ac_sequence := ac_sequence c + 1\<rparr>"

fun alias_store_step :: "store_phase \<Rightarrow> alias_cell \<Rightarrow> store_phase \<times> alias_cell" where
  "alias_store_step StoreIdle c = (StoreIdle, c)"
| "alias_store_step (StoreBegun i) c =
     (StoreEmbedding i, c\<lparr>ac_embedding := fst (snd (alias_fields i))\<rparr>)"
| "alias_store_step (StoreEmbedding i) c =
     (StoreTokenizer i, c\<lparr>ac_tokenizer := snd (snd (alias_fields i))\<rparr>)"
| "alias_store_step (StoreTokenizer i) c = (StorePresent i, c\<lparr>ac_present := fst (alias_fields i)\<rparr>)"
| "alias_store_step (StorePresent i) c = (StoreIdle, c\<lparr>ac_sequence := ac_sequence c + 1\<rparr>)"

section \<open>One load\<close>

datatype load_phase =
    LoadStart
  | LoadBefore u64
  | LoadPresent u64 bool
  | LoadEmbedding u64 bool u64
  | LoadTokenizer u64 bool u64 u64
  | LoadDone "epoch_identity option"

fun alias_load_step :: "alias_cell \<Rightarrow> load_phase \<Rightarrow> load_phase" where
  "alias_load_step c LoadStart =
     (if odd (ac_sequence c) then LoadStart else LoadBefore (ac_sequence c))"
| "alias_load_step c (LoadBefore before) = LoadPresent before (ac_present c)"
| "alias_load_step c (LoadPresent before p) = LoadEmbedding before p (ac_embedding c)"
| "alias_load_step c (LoadEmbedding before p e) = LoadTokenizer before p e (ac_tokenizer c)"
| "alias_load_step c (LoadTokenizer before p e t) =
     (if before = ac_sequence c
      then LoadDone (if p then Some \<lparr>ei_embedding = e, ei_tokenizer = t\<rparr> else None)
      else LoadStart)"
| "alias_load_step c (LoadDone i) = LoadDone i"

section \<open>One writer, one reader\<close>

text \<open>
  \<open>as_published\<close> records every alias whose store has finished, oldest first, and \<open>as_since\<close> the
  index of the newest one when the running load began; neither influences a step.
\<close>

record alias_sys =
  as_cell :: alias_cell
  as_store :: store_phase
  as_load :: load_phase
  as_published :: "epoch_identity option list"
  as_since :: nat

definition alias_init :: "alias_sys \<Rightarrow> bool" where
  "alias_init s \<longleftrightarrow> (\<exists>i. as_cell s = alias_cell_new i \<and> as_published s = [i])
     \<and> as_store s = StoreIdle \<and> as_load s = LoadStart \<and> as_since s = 0"

definition published_by :: "store_phase \<Rightarrow> epoch_identity option list" where
  "published_by p = (case p of StorePresent i \<Rightarrow> [i] | _ \<Rightarrow> [])"

inductive alias_step :: "alias_sys \<Rightarrow> alias_sys \<Rightarrow> bool" where
  begin_store:
    "as_store s = StoreIdle \<Longrightarrow>
     alias_step s (s\<lparr>as_cell := alias_store_begin (as_cell s), as_store := StoreBegun i\<rparr>)"
| step_store:
    "as_store s \<noteq> StoreIdle \<Longrightarrow> alias_store_step (as_store s) (as_cell s) = (p, c) \<Longrightarrow>
     alias_step s (s\<lparr>as_cell := c, as_store := p, as_published := as_published s @ published_by (as_store s)\<rparr>)"
| step_load:
    "alias_step s (s\<lparr>as_load := alias_load_step (as_cell s) (as_load s)\<rparr>)"
| begin_load:
    "as_load s = LoadDone i \<Longrightarrow>
     alias_step s (s\<lparr>as_load := LoadStart, as_since := length (as_published s) - 1\<rparr>)"

section \<open>The invariant\<close>

text \<open>
  The sequence is twice the number of finished stores, plus one during a store. A load that has
  read an even sequence holds consistent fields as long as the sequence has not moved since.
\<close>

definition newest :: "alias_sys \<Rightarrow> nat" where
  "newest s = length (as_published s) - 1"

definition read_ok :: "alias_sys \<Rightarrow> u64 \<Rightarrow> (bool \<times> u64 \<times> u64 \<Rightarrow> bool) \<Rightarrow> bool" where
  "read_ok s before P \<longleftrightarrow> (\<exists>k. as_since s \<le> k \<and> k \<le> newest s \<and> before = word_of_nat (2 * k)
     \<and> (as_store s = StoreIdle \<and> k = newest s \<longrightarrow> P (alias_fields (as_published s ! k))))"

definition load_ok :: "alias_sys \<Rightarrow> bool" where
  "load_ok s =
     (case as_load s of
        LoadStart \<Rightarrow> True
      | LoadBefore b \<Rightarrow> read_ok s b (\<lambda>_. True)
      | LoadPresent b p \<Rightarrow> read_ok s b (\<lambda>(p', _, _). p' = p)
      | LoadEmbedding b p e \<Rightarrow> read_ok s b (\<lambda>(p', e', _). p' = p \<and> e' = e)
      | LoadTokenizer b p e t \<Rightarrow> read_ok s b (\<lambda>f. f = (p, e, t))
      | LoadDone i \<Rightarrow> \<exists>k. as_since s \<le> k \<and> k \<le> newest s \<and> i = as_published s ! k)"

definition cell_ok :: "alias_sys \<Rightarrow> bool" where
  "cell_ok s \<longleftrightarrow> as_published s \<noteq> [] \<and> as_since s \<le> newest s
     \<and> ac_sequence (as_cell s) = word_of_nat (2 * newest s + (if as_store s = StoreIdle then 0 else 1))
     \<and> (case as_store s of
          StoreIdle \<Rightarrow> (ac_present (as_cell s), ac_embedding (as_cell s), ac_tokenizer (as_cell s))
                      = alias_fields (as_published s ! newest s)
        | StoreBegun i \<Rightarrow> True
        | StoreEmbedding i \<Rightarrow> ac_embedding (as_cell s) = fst (snd (alias_fields i))
        | StoreTokenizer i \<Rightarrow> (ac_embedding (as_cell s), ac_tokenizer (as_cell s)) = snd (alias_fields i)
        | StorePresent i \<Rightarrow>
            (ac_present (as_cell s), ac_embedding (as_cell s), ac_tokenizer (as_cell s)) = alias_fields i)"

lemma newest_simps [simp]:
  "newest (s\<lparr>as_cell := c\<rparr>) = newest s" "newest (s\<lparr>as_store := p\<rparr>) = newest s"
  "newest (s\<lparr>as_load := l\<rparr>) = newest s" "newest (s\<lparr>as_since := n\<rparr>) = newest s"
  by (simp_all add: newest_def)

lemma cell_ok_load [simp]: "cell_ok (s\<lparr>as_load := l\<rparr>) = cell_ok s"
  by (cases "as_store s") (simp_all add: cell_ok_def)

text \<open>Fewer than \<open>2 ^ 63\<close> stores have finished, so the sequence has not wrapped around.\<close>

definition not_wrapped :: "alias_sys \<Rightarrow> bool" where
  "not_wrapped s \<longleftrightarrow> length (as_published s) < 2 ^ 63"

definition alias_inv :: "alias_sys \<Rightarrow> bool" where
  "alias_inv s \<longleftrightarrow> (not_wrapped s \<longrightarrow> cell_ok s \<and> load_ok s)"

lemma alias_inv_init: "alias_init s \<Longrightarrow> alias_inv s"
  by (auto simp: alias_init_def alias_inv_def cell_ok_def load_ok_def newest_def alias_cell_new_def split_def Let_def)

lemma fields_present: "alias_fields i = (p, e, t) \<Longrightarrow> (if p then Some \<lparr>ei_embedding = e, ei_tokenizer = t\<rparr> else None) = i"
  by (auto simp: alias_fields_def split: option.splits)

lemma seq_even: "k < 2 ^ 63 \<Longrightarrow> (word_of_nat (2 * k) :: u64) = word_of_nat (2 * n) \<Longrightarrow> n < 2 ^ 63 \<Longrightarrow> k = n"
proof -
  assume a: "k < 2 ^ 63" "(word_of_nat (2 * k) :: u64) = word_of_nat (2 * n)" "n < 2 ^ 63"
  have u: "unat (word_of_nat m :: u64) = m" if "m < 2 ^ 64" for m
    using that by (simp add: unat_of_nat)
  have "2 * k < 2 ^ 64" "2 * n < 2 ^ 64" using a(1,3) by simp_all
  then have "2 * k = 2 * n" using u a(2) by metis
  then show "k = n" by simp
qed

lemma seq_odd: "odd (word_of_nat (2 * n + 1) :: u64)" "even (word_of_nat (2 * n) :: u64)"
  by (simp_all add: even_word_iff bit_simps)

lemma read_ok_moved:
  assumes "read_ok s b P" "as_since t = as_since s" "newest s \<le> newest t"
    "as_store t \<noteq> StoreIdle \<or> newest s < newest t"
  shows "read_ok t b Q"
proof -
  from assms(1) obtain k where "as_since s \<le> k" "k \<le> newest s" "b = word_of_nat (2 * k)"
    by (auto simp: read_ok_def)
  then show ?thesis using assms(2,3,4) unfolding read_ok_def by (intro exI [of _ k]) auto
qed

lemma load_ok_moved:
  assumes "load_ok s" "as_load t = as_load s" "as_since t = as_since s"
    "as_published t = as_published s @ xs" "as_published s \<noteq> []" "as_store t \<noteq> StoreIdle \<or> xs \<noteq> []"
  shows "load_ok t"
proof -
  have n: "newest s \<le> newest t" "as_store t \<noteq> StoreIdle \<or> newest s < newest t"
    using assms(4,5,6) by (auto simp: newest_def less_diff_conv)
  have nth: "as_published t ! k = as_published s ! k" if "k \<le> newest s" for k
    using that assms(4,5) by (simp add: newest_def nth_append Suc_le_lessD le_less_trans)
  have m: "read_ok s b P \<Longrightarrow> read_ok t b Q" for b P Q
    using read_ok_moved [OF _ assms(3) n] .
  show ?thesis
  proof (cases "as_load s")
    case (LoadDone i)
    then show ?thesis using assms(1,2,3) n nth by (auto simp: load_ok_def)
  qed (use assms(1,2) m in \<open>auto simp: load_ok_def\<close>)
qed

lemma alias_inv_begin_store:
  assumes "alias_inv s" "as_store s = StoreIdle"
  shows "alias_inv (s\<lparr>as_cell := alias_store_begin (as_cell s), as_store := StoreBegun i\<rparr>)"
proof -
  let ?t = "s\<lparr>as_cell := alias_store_begin (as_cell s), as_store := StoreBegun i\<rparr>"
  have "load_ok ?t" if "load_ok s" "as_published s \<noteq> []"
    by (rule load_ok_moved [OF that(1)]) (use that in simp_all)
  then show ?thesis
    using assms by (auto simp: alias_inv_def not_wrapped_def cell_ok_def newest_def alias_store_begin_def)
qed

lemma alias_inv_step_store:
  assumes "alias_inv s" "as_store s \<noteq> StoreIdle" "alias_store_step (as_store s) (as_cell s) = (p, c)"
  shows "alias_inv (s\<lparr>as_cell := c, as_store := p, as_published := as_published s @ published_by (as_store s)\<rparr>)"
    (is "alias_inv ?t")
proof -
  have moves: "p \<noteq> StoreIdle \<or> published_by (as_store s) \<noteq> []"
    using assms(2,3) by (cases "as_store s") (auto simp: published_by_def)
  have "load_ok ?t" if "load_ok s" "as_published s \<noteq> []"
    by (rule load_ok_moved [OF that(1)]) (use that moves in simp_all)
  moreover have "cell_ok ?t" if "cell_ok s"
  proof (cases "as_store s")
    case (StorePresent i)
    then have "newest ?t = Suc (newest s)" "as_published ?t ! newest ?t = i"
      using that by (auto simp: newest_def published_by_def cell_ok_def nth_append Suc_diff_le)
    then show ?thesis
      using that assms(3) StorePresent by (auto simp: cell_ok_def)
  qed (use that assms in \<open>auto simp: cell_ok_def newest_def published_by_def prod_eq_iff\<close>)
  moreover have "not_wrapped s" if "not_wrapped ?t" using that by (simp add: not_wrapped_def)
  ultimately show ?thesis using assms(1) by (auto simp: alias_inv_def cell_ok_def)
qed

lemma read_ok_extend:
  assumes "cell_ok s" "read_ok s b P"
    "as_store s = StoreIdle \<Longrightarrow>
       P (ac_present (as_cell s), ac_embedding (as_cell s), ac_tokenizer (as_cell s)) \<Longrightarrow>
       Q (ac_present (as_cell s), ac_embedding (as_cell s), ac_tokenizer (as_cell s))"
  shows "read_ok (s\<lparr>as_load := l\<rparr>) b Q"
proof -
  from assms(2) obtain k where k: "as_since s \<le> k" "k \<le> newest s" "b = word_of_nat (2 * k)"
    "as_store s = StoreIdle \<and> k = newest s \<longrightarrow> P (alias_fields (as_published s ! k))"
    by (auto simp: read_ok_def)
  have "Q (alias_fields (as_published s ! newest s))" if "as_store s = StoreIdle" "k = newest s"
  proof -
    have "(ac_present (as_cell s), ac_embedding (as_cell s), ac_tokenizer (as_cell s)) =
        alias_fields (as_published s ! newest s)"
      using assms(1) that(1) by (simp add: cell_ok_def)
    with assms(3) [OF that(1)] k(4) that show ?thesis by simp
  qed
  then show ?thesis using k unfolding read_ok_def by (intro exI [of _ k]) auto
qed

lemma read_finished:
  assumes "cell_ok s" "not_wrapped s" "read_ok s b (\<lambda>f. f = (p, e, t))" "b = ac_sequence (as_cell s)"
  shows "\<exists>k. as_since s \<le> k \<and> k \<le> newest s
    \<and> (if p then Some \<lparr>ei_embedding = e, ei_tokenizer = t\<rparr> else None) = as_published s ! k"
proof -
  from assms(3) obtain k where k: "as_since s \<le> k" "k \<le> newest s" "b = word_of_nat (2 * k)"
    "as_store s = StoreIdle \<and> k = newest s \<longrightarrow> alias_fields (as_published s ! k) = (p, e, t)"
    by (auto simp: read_ok_def)
  have idle: "as_store s = StoreIdle"
  proof (rule ccontr)
    assume "as_store s \<noteq> StoreIdle"
    then have "odd b" using assms(1,4) seq_odd(1) [of "newest s"] by (simp add: cell_ok_def)
    then show False using k(3) seq_odd(2) by simp
  qed
  have "newest s < 2 ^ 63" "k < 2 ^ 63" using assms(2) k(2) by (auto simp: not_wrapped_def newest_def)
  then have "k = newest s"
    using seq_even [of k "newest s"] k(3) idle assms(1,4) by (simp add: cell_ok_def)
  then show ?thesis using k idle fields_present by blast
qed

lemma alias_inv_step_load:
  assumes "alias_inv s"
  shows "alias_inv (s\<lparr>as_load := alias_load_step (as_cell s) (as_load s)\<rparr>)" (is "alias_inv ?t")
proof -
  have "load_ok ?t" if c: "cell_ok s" and l: "load_ok s" and w: "not_wrapped s"
  proof (cases "as_load s")
    case LoadStart
    show ?thesis
    proof (cases "as_store s = StoreIdle")
      case True
      then have "read_ok ?t (ac_sequence (as_cell s)) (\<lambda>_. True)"
        using c by (auto simp: read_ok_def cell_ok_def newest_def)
      then show ?thesis using LoadStart by (auto simp: load_ok_def)
    next
      case False
      then have "odd (ac_sequence (as_cell s))"
        using c seq_odd(1) [of "newest s"] by (simp add: cell_ok_def)
      then show ?thesis using LoadStart by (simp add: load_ok_def)
    qed
  next
    case (LoadTokenizer b p e t)
    then show ?thesis
      using l read_finished [OF c w, of b p e t] by (auto simp: load_ok_def newest_def)
  next
    case (LoadDone i)
    then show ?thesis using l by (simp add: load_ok_def newest_def)
  qed (use l in \<open>auto simp: load_ok_def intro!: read_ok_extend [OF c]\<close>)
  moreover have "cell_ok ?t = cell_ok s" "not_wrapped ?t = not_wrapped s"
    by (simp_all add: not_wrapped_def)
  ultimately show ?thesis using assms by (auto simp: alias_inv_def)
qed

lemma alias_inv_begin_load:
  assumes "alias_inv s"
  shows "alias_inv (s\<lparr>as_load := LoadStart, as_since := length (as_published s) - 1\<rparr>)"
  using assms
  by (cases "as_store s") (auto simp: alias_inv_def not_wrapped_def cell_ok_def load_ok_def newest_def)

interpretation alias_system: invariant_system alias_init alias_step alias_inv
proof
  show "alias_init s \<Longrightarrow> alias_inv s" for s by (rule alias_inv_init)
  show "alias_inv t" if "alias_inv s" "alias_step s t" for s t
    using that(2,1)
    by cases (simp_all add: alias_inv_begin_store alias_inv_step_store alias_inv_step_load
        alias_inv_begin_load del: One_nat_def)
qed

end
