(* ===== verification/Catalog_Theorems.thy ===== *)
theory Catalog_Theorems
  imports Manifest_Io Alias_Cell
begin

text \<open>
  The properties of the catalog: the metadata schema, the epoch registry and its alias cell, the
  manifest format, and the commit, load and cleanup of a store directory.
\<close>

section \<open>A concrete catalog\<close>

definition demo_tower :: embedding_tower where
  "demo_tower = \<lparr>tw_model_id = [109], tw_model_version = [49], tw_weights_digest = [1, 2], tw_dims = 4,
     tw_normalization = NormL2, tw_prompt_prefix = [], tw_max_tokens = 512, tw_runtime = CoreMl,
     tw_compute_units = AllUnits, tw_os_build = Some [50]\<rparr>"

definition demo_store_epoch :: store_epoch where
  "demo_store_epoch = \<lparr>se_embedding = \<lparr>ee_document = demo_tower, ee_query = demo_tower\<lparr>tw_os_build := None\<rparr>,
     ee_alignment_digest = [7]\<rparr>, se_tokenizer = 9\<rparr>"

definition demo_column :: column_definition where
  "demo_column = \<lparr>col_id = 1, col_name = [97], col_type = TypeBool, col_nullable = True\<rparr>"

definition demo_schema :: schema where
  "demo_schema = \<lparr>columns = [ts_column, demo_column]\<rparr>"

definition demo_segment :: "xxh3_lib \<Rightarrow> segment_meta" where
  "demo_segment X = \<lparr>sm_id = replicate 16 3, sm_row_count = 10, sm_scheme = 1, sm_dims = 4, sm_file_size = 4096,
     sm_epoch_id = Some (ei_embedding (store_epoch_identity X demo_store_epoch)), sm_range = Bounded 5 9\<rparr>"

definition demo_manifest :: "xxh3_lib \<Rightarrow> manifest" where
  "demo_manifest X = \<lparr>mf_generation = 3, mf_log_seq = 8, mf_segments = [demo_segment X],
     mf_epochs = [meta_of_store_epoch X demo_store_epoch],
     mf_epoch_alias = Some (store_epoch_identity X demo_store_epoch), mf_schema = demo_schema\<rparr>"

lemma demo_schema_ok: "schema_ok demo_schema" "schema_ok timestamp_only"
  by (simp_all add: schema_ok_def demo_schema_def demo_column_def ts_name_def timestamp_only_def)

lemma demo_tower_ok: "tower_ok demo_tower" "tower_ok (demo_tower\<lparr>tw_os_build := None\<rparr>)"
  by (simp_all add: tower_ok_def demo_tower_def string_ok_def u32_max_def)

lemma demo_epoch_ok: "epoch_ok (meta_of_store_epoch X demo_store_epoch)"
  using demo_tower_ok by (simp add: epoch_ok_def meta_of_store_epoch_def demo_store_epoch_def u32_max_def)

lemma demo_manifest_ok: "manifest_ok (demo_manifest X)"
  using demo_schema_ok demo_epoch_ok [of X] epoch_ok_fits [OF demo_epoch_ok [of X]]
  by (simp add: manifest_ok_def payload_fits_def demo_manifest_def demo_segment_def segment_ok_def string_ok_def
      demo_schema_def demo_column_def u32_max_def user_column_count_def)

lemma demo_registry_ok: "registry_ok X (demo_manifest X)"
  by (simp add: registry_ok_def demo_manifest_def demo_segment_def meta_of_store_epoch_def store_epoch_identity_def
      Let_def)

lemma demo_payload_length: "length (enc_payload (demo_manifest X)) \<le> 1000"
  by (simp add: enc_payload_def demo_manifest_def demo_segment_def demo_schema_def demo_column_def
      meta_of_store_epoch_def demo_store_epoch_def demo_tower_def enc_ranges_def all_unstamped_def enc_extension_def
      enc_segment_def enc_epoch_def enc_tower_def enc_bytes_def enc_os_build_def enc_definition_def
      append_optional_identity_def append_optional_epoch_id_def Let_def CLUSTERING_RANGE_EXTENSION_MAGIC_def)

section \<open>Schema\<close>

text \<open>
  The schema constructor accepts a list of user columns exactly when no id or name repeats and
  none collides with the reserved timestamp column, and it puts that column first.
\<close>

theorem schema_new_exact:
  "schema_new user = Ok s \<longleftrightarrow> columns s = ts_column # user
     \<and> distinct (map col_id (columns s)) \<and> distinct (map col_name (columns s))"
  using schema_new_Ok [of user s] by (auto simp: schema_ok_def)

text \<open>
  C35: Additive evolution succeeds exactly when every persisted column is declared unchanged and
  every new one is nullable. The evolved schema is again well formed, keeps the persisted columns
  first and in order, has exactly the declared columns, and is stable: reconciling it with the
  same declaration changes nothing.
\<close>

theorem schema_evolution:
  assumes "schema_ok self" "schema_ok declared"
  shows "((\<exists>r. additive_evolution self declared = Ok r) \<longleftrightarrow>
      set (columns self) \<subseteq> set (columns declared)
      \<and> (\<forall>c \<in> set (columns declared). col_id c \<notin> col_id ` set (columns self) \<longrightarrow> col_nullable c))
    \<and> (\<forall>r. additive_evolution self declared = Ok r \<longrightarrow>
        (let s = (case r of None \<Rightarrow> self | Some s \<Rightarrow> s) in
         schema_ok s \<and> prefix (columns self) (columns s) \<and> set (columns s) = set (columns declared)
         \<and> additive_evolution s declared = Ok None))"
proof (intro conjI allI impI)
  show "(\<exists>r. additive_evolution self declared = Ok r) \<longleftrightarrow> set (columns self) \<subseteq> set (columns declared)
      \<and> (\<forall>c \<in> set (columns declared). col_id c \<notin> col_id ` set (columns self) \<longrightarrow> col_nullable c)"
    using additive_evolution_Ok [OF assms(2)] by (auto simp: evolvable_def)
next
  fix r assume r: "additive_evolution self declared = Ok r"
  let ?s = "evolve self declared"
  have ev: "evolvable self declared" using r additive_evolution_Ok [OF assms(2)] by blast
  have s: "(case r of None \<Rightarrow> self | Some s \<Rightarrow> s) = ?s"
    using r additive_evolution_Ok [OF assms(2), of self r] by (auto split: if_splits)
  have ok: "schema_ok ?s" by (rule evolve_ok [OF ev assms(2,1)])
  have set: "set (columns ?s) = set (columns declared)" by (rule evolve_set [OF ev assms(2)])
  have "evolvable ?s declared" "columns (evolve ?s declared) = columns ?s"
    by (auto simp: evolvable_def evolve_def [of ?s] set)
  then have "additive_evolution ?s declared = Ok None" using additive_evolution_Ok [OF assms(2)] by simp
  then show "let s = (case r of None \<Rightarrow> self | Some s \<Rightarrow> s) in
      schema_ok s \<and> prefix (columns self) (columns s) \<and> set (columns s) = set (columns declared)
      \<and> additive_evolution s declared = Ok None"
    using ok set by (simp add: s Let_def) (simp add: evolve_def)
qed

theorem schema_evolution_witness:
  "additive_evolution timestamp_only demo_schema = Ok (Some demo_schema)
   \<and> additive_evolution demo_schema demo_schema = Ok None"
proof -
  have "additive_evolution timestamp_only demo_schema = Ok (Some demo_schema)"
    by (simp add: additive_evolution_def timestamp_only_def demo_schema_def demo_column_def schema_column_def)
  then show ?thesis
    using schema_evolution [OF demo_schema_ok(2,1)] by auto
qed

section \<open>Epochs and the alias cell\<close>

text \<open>
  The digest input of an embedding epoch determines it: two epochs with the same canonical
  input agree in every field of both towers and in the alignment digest, so the identifier depends
  on every interpretation-critical field (up to hash collisions).
\<close>

theorem epoch_digest_input_injective:
  assumes "epoch_fits a" "epoch_fits b"
  shows "canonical_digest_input a = canonical_digest_input b \<longleftrightarrow> a = b"
  using canonical_digest_input_inject [OF assms] by blast

theorem epoch_digest_input_injective_witness:
  "canonical_digest_input (se_embedding demo_store_epoch) \<noteq>
   canonical_digest_input ((se_embedding demo_store_epoch)\<lparr>ee_alignment_digest := [8]\<rparr>)"
proof -
  have f: "epoch_fits (se_embedding demo_store_epoch)"
    "epoch_fits ((se_embedding demo_store_epoch)\<lparr>ee_alignment_digest := [8]\<rparr>)"
    using epoch_ok_fits [OF demo_epoch_ok [of sum_lib]]
    by (simp_all add: meta_of_store_epoch_def epoch_fits_def u32_max_def)
  show ?thesis
    unfolding epoch_digest_input_injective [OF f] by (simp add: demo_store_epoch_def)
qed


text \<open>
  A load that runs while no store is in progress finishes in one pass of five accesses and
  returns the newest published alias.
\<close>

theorem alias_load_progress:
  assumes "reach alias_init alias_step s" "length (as_published s) < 2 ^ 63" "as_store s = StoreIdle"
  shows "(alias_load_step (as_cell s) ^^ 5) LoadStart = LoadDone (last (as_published s))"
proof -
  have "alias_inv s" by (rule alias_system.reach_inv [OF assms(1)])
  then have c: "cell_ok s" using assms(2) by (simp add: alias_inv_def not_wrapped_def)
  then have f: "alias_fields (last (as_published s)) =
      (ac_present (as_cell s), ac_embedding (as_cell s), ac_tokenizer (as_cell s))"
    using assms(3) by (simp add: cell_ok_def newest_def last_conv_nth)
  have "\<not> odd (ac_sequence (as_cell s))"
    using c assms(3) seq_odd(2) [of "newest s"] by (simp add: cell_ok_def)
  then show ?thesis
    using fields_present [OF f] by (simp add: numeral_eq_Suc)
qed

definition demo_alias :: alias_sys where
  "demo_alias = \<lparr>as_cell = alias_cell_new (Some \<lparr>ei_embedding = 4, ei_tokenizer = 9\<rparr>), as_store = StoreIdle,
     as_load = LoadStart, as_published = [Some \<lparr>ei_embedding = 4, ei_tokenizer = 9\<rparr>], as_since = 0\<rparr>"

lemma demo_alias_reach: "reach alias_init alias_step demo_alias"
  by (rule reach_init) (simp add: alias_init_def demo_alias_def)

theorem alias_load_progress_witness:
  "(alias_load_step (as_cell demo_alias) ^^ 5) LoadStart = LoadDone (Some \<lparr>ei_embedding = 4, ei_tokenizer = 9\<rparr>)"
  using alias_load_progress [OF demo_alias_reach] by (simp add: demo_alias_def)



section \<open>The manifest format\<close>

lemma decode_encoded_manifest:
  assumes "manifest_ok m" "encode_manifest X m = Ok bs" "length (enc_payload m) + 56 \<le> alloc_max"
  shows "decode_manifest X art bs = Ok m"
proof -
  have bs: "bs = encode_artifact_version X ManifestFamily 2 0 (enc_payload m)" and reg: "registry_ok X m"
    using assms(2) by (simp_all add: encode_manifest_Ok)
  obtain spec where "require_family (family_id ManifestFamily) 2 = Ok spec" using manifest_version by blast
  then have "decode_artifact X art ManifestFamily bs =
      Ok \<lparr>art_header = artifact_header ManifestFamily 2 0 (enc_payload m), art_payload = enc_payload m\<rparr>"
    unfolding bs by (intro decode_encode_artifact_version)
      (use assms(3) in \<open>auto simp: alloc_max_def usize_max_def\<close>)
  moreover have "decode_manifest_payload (enc_payload m) = Ok m"
    by (rule decode_enc_payload [OF assms(1)]) (use assms(3) in simp)
  moreover have "validate_epoch_references X m = Ok ()" using reg validate_epoch_references_Ok by blast
  ultimately show ?thesis by (simp add: decode_manifest_def)
qed

text \<open>
  C23: Manifest round trip: every representable manifest that the encoder accepts is decoded to the
  same value, with its segments, clustering ranges, epochs, alias and schema.
\<close>

theorem manifest_roundtrip:
  assumes "manifest_ok m" "encode_manifest X m = Ok bs" "length (enc_payload m) + 56 \<le> alloc_max"
  shows "decode_manifest X art bs = Ok m"
  using assms by (rule decode_encoded_manifest)

theorem manifest_roundtrip_witness:
  "\<exists>bs. encode_manifest sum_lib (demo_manifest sum_lib) = Ok bs
     \<and> decode_manifest sum_lib ''manifest.ze'' bs = Ok (demo_manifest sum_lib)"
proof -
  have "payload_fits (demo_manifest sum_lib)" using demo_manifest_ok by (simp add: manifest_ok_def)
  then obtain bs where bs: "encode_manifest sum_lib (demo_manifest sum_lib) = Ok bs"
    using demo_registry_ok encode_manifest_Ok by blast
  have "decode_manifest sum_lib ''manifest.ze'' bs = Ok (demo_manifest sum_lib)"
    using manifest_roundtrip [OF demo_manifest_ok bs] demo_payload_length [of sum_lib]
    by (simp add: alloc_max_def)
  then show ?thesis using bs by blast
qed



section \<open>Commit, load and cleanup\<close>

text \<open>
  C3: Committing a manifest is atomic under every failure. Whatever the filesystem answers at each
  step, the committed file afterwards is the old one or the complete new one, no other file except
  the temporary changes, and a success means the new snapshot loads.
\<close>

theorem manifest_commit_atomic:
  assumes "commit_manifest X env m policy d = (res, d')"
  shows "(d' MANIFEST_FILE = d MANIFEST_FILE \<or> (\<exists>bs. encode_manifest X m = Ok bs \<and> d' MANIFEST_FILE = Some bs))
    \<and> (\<forall>n. n \<noteq> MANIFEST_FILE \<longrightarrow> n \<noteq> MANIFEST_TEMP_FILE \<longrightarrow> d' n = d n)
    \<and> (res = Ok () \<and> manifest_ok m \<and> length (enc_payload m) + 56 \<le> alloc_max \<and> mf_log_seq m \<le> durable \<longrightarrow>
        load_manifest X art None MANIFEST_FILE durable d' = Ok m)"
proof (cases "encode_manifest X m")
  case (Inl e)
  then show ?thesis using assms by (auto simp: commit_manifest_def)
next
  case (Inr bs)
  from commit_manifest_replace [OF Inr, of env policy d] assms obtain r where
    r: "std_vfs.replace (cf_write env) (vfs_sync (cf_sync env) (data_file policy)) (cf_rename env)
      (vfs_sync (cf_sync_dir env) (directory policy)) MANIFEST_TEMP_FILE MANIFEST_FILE bs d = (r, d')"
    "r = Ok () \<longleftrightarrow> res = Ok ()" by auto
  note at = std_vfs.replace_atomic [OF manifest_names(1) r(1)]
  have "load_manifest X art None MANIFEST_FILE durable d' = Ok m"
    if "res = Ok ()" "manifest_ok m" "length (enc_payload m) + 56 \<le> alloc_max" "mf_log_seq m \<le> durable"
  proof -
    have "d' MANIFEST_FILE = Some bs" using at(2) r(2) that(1) by simp
    moreover have "decode_manifest X art bs = Ok m"
      using decode_encoded_manifest [OF that(2) Inr that(3)] .
    ultimately show ?thesis using that(4) by (simp add: load_manifest_def vfs_read_def)
  qed
  then show ?thesis using at Inr by auto
qed

definition demo_directory :: directory where
  "demo_directory = [MANIFEST_FILE \<mapsto> [1]]"

definition demo_faults :: commit_faults where
  "demo_faults = \<lparr>cf_write = WritePartial 5 (OtherIo 28), cf_sync = None, cf_rename = None, cf_sync_dir = None\<rparr>"

theorem manifest_commit_atomic_witness:
  "snd (commit_manifest sum_lib demo_faults (demo_manifest sum_lib) \<lparr>data_file = Skip, directory = Skip\<rparr>
     demo_directory) MANIFEST_FILE = Some [1]"
proof -
  let ?r = "commit_manifest sum_lib demo_faults (demo_manifest sum_lib) \<lparr>data_file = Skip, directory = Skip\<rparr>
     demo_directory"
  have "(fst ?r, snd ?r) = ?r" by simp
  from manifest_commit_atomic [of sum_lib demo_faults "demo_manifest sum_lib" _ _ "fst ?r" "snd ?r", OF this [symmetric]]
  have "snd ?r MANIFEST_FILE = Some [1] \<or> (\<exists>bs. encode_manifest sum_lib (demo_manifest sum_lib) = Ok bs
      \<and> snd ?r MANIFEST_FILE = Some bs)" by (simp add: demo_directory_def)
  moreover have "snd ?r MANIFEST_FILE = Some [1]"
    using manifest_names(1)
    by (auto simp: commit_manifest_def demo_faults_def vfs_write_def demo_directory_def split: sum.splits)
  ultimately show ?thesis by blast
qed

text \<open>
  C38: The orphan sweep deletes exactly the segment files that no manifest entry names and no
  writer holds. When every call succeeds on a complete listing the resulting directory is the old
  one without them; whatever fails, a file that is referenced, excluded or not a segment survives.
\<close>

theorem sweep_exact:
  "(sf_list env = Ok ns \<and> set ns = dom d \<and> distinct ns \<and> (\<forall>n. sf_open env n = None \<and> sf_delete env n = Deleted) \<longrightarrow>
      (\<exists>k. sweep_orphans env m excl d =
        (Ok k, \<lambda>n. if is_segment_file n \<and> n \<notin> reachable_files m \<and> n \<notin> excl then None else d n)))
   \<and> (\<forall>n. \<not> is_segment_file n \<or> n \<in> reachable_files m \<or> n \<in> excl \<longrightarrow>
        snd (sweep_orphans env m excl d) n = d n)"
proof (intro conjI impI allI)
  assume a: "sf_list env = Ok ns \<and> set ns = dom d \<and> distinct ns
      \<and> (\<forall>n. sf_open env n = None \<and> sf_delete env n = Deleted)"
  from sweep_loop_complete [of ns d env "reachable_files m" excl 0] a obtain k where
    k: "sweep_loop env (reachable_files m) excl ns 0 d =
      (Ok k, \<lambda>n. if n \<in> set ns \<and> sweepable (reachable_files m) excl n then None else d n)" by auto
  have "(\<lambda>n. if n \<in> set ns \<and> sweepable (reachable_files m) excl n then None else d n) =
      (\<lambda>n. if is_segment_file n \<and> n \<notin> reachable_files m \<and> n \<notin> excl then None else d n)"
    using a by (auto simp: fun_eq_iff sweepable_def domIff)
  then show "\<exists>k. sweep_orphans env m excl d =
      (Ok k, \<lambda>n. if is_segment_file n \<and> n \<notin> reachable_files m \<and> n \<notin> excl then None else d n)"
    using a k by (simp add: sweep_orphans_def)
next
  fix n assume "\<not> is_segment_file n \<or> n \<in> reachable_files m \<or> n \<in> excl"
  then have "\<not> sweepable (reachable_files m) excl n" by (auto simp: sweepable_def)
  then show "snd (sweep_orphans env m excl d) n = d n"
    using sweep_loop_frame by (auto simp: sweep_orphans_def split: sum.splits)
qed

definition demo_sweep :: sweep_faults where
  "demo_sweep = \<lparr>sf_list = Ok [MANIFEST_FILE], sf_open = (\<lambda>_. None), sf_delete = (\<lambda>_. Deleted),
     sf_reopen = (\<lambda>_. None)\<rparr>"

theorem sweep_exact_witness:
  "\<exists>k. sweep_orphans demo_sweep (demo_manifest sum_lib) {} demo_directory =
     (Ok k, demo_directory)"
proof -
  have "\<exists>k. sweep_orphans demo_sweep (demo_manifest sum_lib) {} demo_directory =
      (Ok k, \<lambda>n. if is_segment_file n \<and> n \<notin> reachable_files (demo_manifest sum_lib) \<and> n \<notin> {}
        then None else demo_directory n)"
    using sweep_exact [of demo_sweep "[MANIFEST_FILE]" "demo_directory" "demo_manifest sum_lib" "{}"]
    by (simp add: demo_sweep_def demo_directory_def)
  moreover have "(\<lambda>n. if is_segment_file n \<and> n \<notin> reachable_files (demo_manifest sum_lib) \<and> n \<notin> {}
        then None else demo_directory n) = demo_directory"
    using manifest_names(2) by (auto simp: fun_eq_iff demo_directory_def)
  ultimately show ?thesis by simp
qed

end
