(* ===== verification/Bitmap.thy ===== *)
theory Bitmap
  imports Prelude
begin

text \<open>
  Sets of segment-local document identifiers (\<^verbatim>\<open>src/meta/bitmap.rs\<close>). The compressed
  bitmap itself is the third-party crate \<open>roaring\<close>, so the functions the sources call are the fields
  of a parameter, and \<open>roaring_ok\<close> names its documented behaviour: the operations of finite sets of
  32-bit integers, with iteration in ascending order.
\<close>

record 'b roaring =
  rb_empty :: 'b
  rb_collect :: "u32 list \<Rightarrow> 'b"
  rb_insert :: "u32 \<Rightarrow> 'b \<Rightarrow> bool \<times> 'b"
  rb_remove :: "u32 \<Rightarrow> 'b \<Rightarrow> bool \<times> 'b"
  rb_contains :: "'b \<Rightarrow> u32 \<Rightarrow> bool"
  rb_len :: "'b \<Rightarrow> u64"
  rb_is_empty :: "'b \<Rightarrow> bool"
  rb_iter :: "'b \<Rightarrow> u32 list"
  rb_range_from :: "u32 \<Rightarrow> 'b \<Rightarrow> u32 list"
  rb_or :: "'b \<Rightarrow> 'b \<Rightarrow> 'b"
  rb_and :: "'b \<Rightarrow> 'b \<Rightarrow> 'b"
  rb_sub :: "'b \<Rightarrow> 'b \<Rightarrow> 'b"
  rb_is_subset :: "'b \<Rightarrow> 'b \<Rightarrow> bool"

definition rows :: "'b roaring \<Rightarrow> 'b \<Rightarrow> u32 set" where
  "rows R b = {r. rb_contains R b r}"

definition roaring_ok :: "'b roaring \<Rightarrow> bool" where
  "roaring_ok R \<longleftrightarrow>
     rows R (rb_empty R) = {}
   \<and> (\<forall>ids. rows R (rb_collect R ids) = set ids)
   \<and> (\<forall>d b. fst (rb_insert R d b) = (d \<notin> rows R b) \<and> rows R (snd (rb_insert R d b)) = insert d (rows R b))
   \<and> (\<forall>d b. fst (rb_remove R d b) = (d \<in> rows R b) \<and> rows R (snd (rb_remove R d b)) = rows R b - {d})
   \<and> (\<forall>b. unat (rb_len R b) = card (rows R b))
   \<and> (\<forall>b. rb_is_empty R b = (rows R b = {}))
   \<and> (\<forall>b. rb_iter R b = sorted_list_of_set (rows R b))
   \<and> (\<forall>n b. rb_range_from R n b = sorted_list_of_set (rows R b \<inter> {n..}))
   \<and> (\<forall>a b. rows R (rb_or R a b) = rows R a \<union> rows R b)
   \<and> (\<forall>a b. rows R (rb_and R a b) = rows R a \<inter> rows R b)
   \<and> (\<forall>a b. rows R (rb_sub R a b) = rows R a - rows R b)
   \<and> (\<forall>a b. rb_is_subset R a b = (rows R a \<subseteq> rows R b))"

section \<open>\<open>DocBitmap\<close>\<close>

definition doc_new :: "'b roaring \<Rightarrow> 'b" where
  "doc_new R = rb_empty R"

text \<open>\<open>(0..row_count).collect()\<close>.\<close>

definition doc_full :: "'b roaring \<Rightarrow> u32 \<Rightarrow> 'b" where
  "doc_full R row_count = rb_collect R (map word_of_nat [0..<unat row_count])"

definition doc_from_ids :: "'b roaring \<Rightarrow> u32 list \<Rightarrow> 'b" where
  "doc_from_ids R ids = rb_collect R ids"

definition doc_insert :: "'b roaring \<Rightarrow> u32 \<Rightarrow> 'b \<Rightarrow> bool \<times> 'b" where
  "doc_insert R d b = rb_insert R d b"

definition doc_remove :: "'b roaring \<Rightarrow> u32 \<Rightarrow> 'b \<Rightarrow> bool \<times> 'b" where
  "doc_remove R d b = rb_remove R d b"

definition doc_contains :: "'b roaring \<Rightarrow> 'b \<Rightarrow> u32 \<Rightarrow> bool" where
  "doc_contains R b d = rb_contains R b d"

definition doc_cardinality :: "'b roaring \<Rightarrow> 'b \<Rightarrow> u64" where
  "doc_cardinality R b = rb_len R b"

definition doc_is_empty :: "'b roaring \<Rightarrow> 'b \<Rightarrow> bool" where
  "doc_is_empty R b = rb_is_empty R b"

definition doc_iter :: "'b roaring \<Rightarrow> 'b \<Rightarrow> u32 list" where
  "doc_iter R b = rb_iter R b"

definition first_at_or_after :: "'b roaring \<Rightarrow> u32 \<Rightarrow> 'b \<Rightarrow> u32 option" where
  "first_at_or_after R row_count b =
     (case rb_range_from R row_count b of [] \<Rightarrow> None | d # _ \<Rightarrow> Some d)"

definition union_with :: "'b roaring \<Rightarrow> 'b \<Rightarrow> 'b \<Rightarrow> 'b" where
  "union_with R b other = rb_or R b other"

definition intersect_with :: "'b roaring \<Rightarrow> 'b \<Rightarrow> 'b \<Rightarrow> 'b" where
  "intersect_with R b other = rb_and R b other"

definition doc_subtract :: "'b roaring \<Rightarrow> 'b \<Rightarrow> 'b \<Rightarrow> 'b" where
  "doc_subtract R b other = rb_sub R b other"

definition doc_is_subset :: "'b roaring \<Rightarrow> 'b \<Rightarrow> 'b \<Rightarrow> bool" where
  "doc_is_subset R b other = rb_is_subset R b other"

section \<open>The contract its clients use\<close>

lemma word_upto: "set (map word_of_nat [0..<unat (n :: 'a::len word)]) = {r. r < n}"
proof -
  have "r \<in> word_of_nat ` {0..<unat n}" if "r < n" for r :: "'a word"
    using that by (intro image_eqI [of _ _ "unat r"]) (auto simp: word_less_nat_alt)
  moreover have "word_of_nat k < n" if "k < unat n" for k
    using order_le_less_trans [OF mod_less_eq_dividend that] by (simp add: word_less_nat_alt unat_of_nat)
  ultimately show ?thesis by auto
qed

lemma card_words_below: "card {r. r < (n :: 'a::len word)} = unat n"
proof -
  have "unat (word_of_nat k :: 'a word) = k" if "k < unat n" for k
    using order_less_trans [OF that unat_lt2p [of n]] by (simp add: unat_of_nat)
  then have "inj_on (word_of_nat :: nat \<Rightarrow> 'a word) (set [0..<unat n])"
    by (intro inj_on_inverseI [where g = unat]) simp
  then have "card (word_of_nat ` set [0..<unat n] :: 'a word set) = unat n"
    by (subst card_image) simp_all
  then show ?thesis using word_upto [of n] by simp
qed

locale doc_bitmaps =
  fixes R :: "'b roaring"
  assumes roaring: "roaring_ok R"
begin

lemma doc_contains_rows [simp]: "doc_contains R b d \<longleftrightarrow> d \<in> rows R b"
  by (simp add: doc_contains_def rows_def)

lemma rows_new [simp]: "rows R (doc_new R) = {}"
  and rows_full [simp]: "rows R (doc_full R n) = {r. r < n}"
  and rows_from_ids [simp]: "rows R (doc_from_ids R ids) = set ids"
  using roaring word_upto [of n]
  by (auto simp: roaring_ok_def doc_new_def doc_full_def doc_from_ids_def)

lemma doc_insert_rows [simp]:
  "fst (doc_insert R d b) = (d \<notin> rows R b)" "rows R (snd (doc_insert R d b)) = insert d (rows R b)"
  and doc_remove_rows [simp]:
  "fst (doc_remove R d b) = (d \<in> rows R b)" "rows R (snd (doc_remove R d b)) = rows R b - {d}"
  using roaring by (auto simp: roaring_ok_def doc_insert_def doc_remove_def)

lemma rows_set_operations [simp]:
  "rows R (union_with R a b) = rows R a \<union> rows R b"
  "rows R (intersect_with R a b) = rows R a \<inter> rows R b"
  "rows R (doc_subtract R a b) = rows R a - rows R b"
  "doc_is_subset R a b \<longleftrightarrow> rows R a \<subseteq> rows R b"
  "doc_is_empty R a \<longleftrightarrow> rows R a = {}"
  using roaring
  by (auto simp: roaring_ok_def union_with_def intersect_with_def doc_subtract_def doc_is_subset_def
      doc_is_empty_def)

lemma doc_cardinality_rows [simp]: "unat (doc_cardinality R b) = card (rows R b)"
  and doc_iter_rows [simp]: "doc_iter R b = sorted_list_of_set (rows R b)"
  using roaring by (auto simp: roaring_ok_def doc_cardinality_def doc_iter_def)

lemma first_at_or_after_Some:
  "first_at_or_after R n b = Some d \<longleftrightarrow> d \<in> rows R b \<and> n \<le> d \<and> (\<forall>r \<in> rows R b. n \<le> r \<longrightarrow> d \<le> r)"
proof -
  let ?S = "rows R b \<inter> {n..}"
  have range: "rb_range_from R n b = sorted_list_of_set ?S"
    using roaring by (simp add: roaring_ok_def)
  show ?thesis
  proof (cases "?S = {}")
    case True
    then show ?thesis using range by (auto simp: first_at_or_after_def)
  next
    case False
    then have "sorted_list_of_set ?S = Min ?S # sorted_list_of_set (?S - {Min ?S})"
      by (intro sorted_list_of_set_nonempty) auto
    then have "first_at_or_after R n b = Some (Min ?S)"
      by (simp add: first_at_or_after_def range)
    moreover have "Min ?S = d \<longleftrightarrow> d \<in> ?S \<and> (\<forall>r \<in> ?S. d \<le> r)"
      using False by (subst Min_eq_iff) auto
    ultimately show ?thesis by auto
  qed
qed

end

section \<open>Plain sets as an instance\<close>

definition set_bitmap :: "u32 set roaring" where
  "set_bitmap = \<lparr>rb_empty = {}, rb_collect = set, rb_insert = (\<lambda>d b. (d \<notin> b, insert d b)),
     rb_remove = (\<lambda>d b. (d \<in> b, b - {d})), rb_contains = (\<lambda>b d. d \<in> b),
     rb_len = (\<lambda>b. word_of_nat (card b)), rb_is_empty = (\<lambda>b. b = {}), rb_iter = sorted_list_of_set,
     rb_range_from = (\<lambda>n b. sorted_list_of_set {d \<in> b. n \<le> d}),
     rb_or = (\<union>), rb_and = (\<inter>), rb_sub = (-), rb_is_subset = (\<subseteq>)\<rparr>"

lemma rows_set_bitmap [simp]: "rows set_bitmap b = b"
  by (simp add: rows_def set_bitmap_def)

lemma set_bitmap_ok: "roaring_ok set_bitmap"
proof -
  have "unat (word_of_nat (card b) :: u64) = card b" for b :: "u32 set"
  proof -
    have "card b \<le> card (UNIV :: u32 set)" by (intro card_mono) auto
    then show ?thesis by (simp add: unat_of_nat card_word)
  qed
  moreover have "{d \<in> b. n \<le> d} = b \<inter> {n..}" for b and n :: u32 by auto
  ultimately show ?thesis
    by (simp add: roaring_ok_def) (simp add: set_bitmap_def)
qed

interpretation set_rows: doc_bitmaps set_bitmap
  by unfold_locales (rule set_bitmap_ok)

end
