(* ===== verification/Alive.thy ===== *)
theory Alive
  imports Bitmap
begin

text \<open>
  The alive and tombstone sets of one segment (\<^verbatim>\<open>src/meta/alive.rs\<close>).
\<close>

record alive_error =
  ae_document :: u32
  ae_row_count :: u32

record 'b alive_set =
  al_row_count :: u32
  al_alive :: 'b
  al_tombstones :: 'b

definition alive_new :: "'b roaring \<Rightarrow> u32 \<Rightarrow> 'b alive_set" where
  "alive_new R row_count =
     \<lparr>al_row_count = row_count, al_alive = doc_full R row_count, al_tombstones = doc_new R\<rparr>"

definition tombstone ::
  "'b roaring \<Rightarrow> u32 \<Rightarrow> 'b alive_set \<Rightarrow> (alive_error, bool) result \<times> 'b alive_set" where
  "tombstone R document s =
     (if al_row_count s \<le> document
      then (Err \<lparr>ae_document = document, ae_row_count = al_row_count s\<rparr>, s)
      else (let (changed, alive) = doc_remove R document (al_alive s);
                s1 = s\<lparr>al_alive := alive\<rparr>;
                s2 = (if changed
                      then s1\<lparr>al_tombstones := snd (doc_insert R document (al_tombstones s1))\<rparr> else s1)
            in (Ok changed, s2)))"

definition is_alive :: "'b roaring \<Rightarrow> 'b alive_set \<Rightarrow> u32 \<Rightarrow> bool" where
  "is_alive R s document = doc_contains R (al_alive s) document"

definition live_count :: "'b roaring \<Rightarrow> 'b alive_set \<Rightarrow> u64" where
  "live_count R s = doc_cardinality R (al_alive s)"

definition tombstone_count :: "'b roaring \<Rightarrow> 'b alive_set \<Rightarrow> u64" where
  "tombstone_count R s = doc_cardinality R (al_tombstones s)"

definition iter_alive :: "'b roaring \<Rightarrow> 'b alive_set \<Rightarrow> u32 list" where
  "iter_alive R s = doc_iter R (al_alive s)"

definition alive_retain :: "'b roaring \<Rightarrow> 'b \<Rightarrow> 'b alive_set \<Rightarrow> 'b alive_set" where
  "alive_retain R kept s =
     (let removed = doc_subtract R (al_alive s) kept in
      s\<lparr>al_tombstones := union_with R (al_tombstones s) removed,
        al_alive := intersect_with R (al_alive s) kept\<rparr>)"

section \<open>Sequences of operations\<close>

datatype 'b alive_op = Tombstone u32 | Retain 'b

fun alive_exec :: "'b roaring \<Rightarrow> 'b alive_op \<Rightarrow> 'b alive_set \<Rightarrow> 'b alive_set" where
  "alive_exec R (Tombstone d) s = snd (tombstone R d s)"
| "alive_exec R (Retain kept) s = alive_retain R kept s"

fun removes :: "'b roaring \<Rightarrow> 'b alive_op \<Rightarrow> u32 \<Rightarrow> bool" where
  "removes R (Tombstone d) r \<longleftrightarrow> r = d"
| "removes R (Retain kept) r \<longleftrightarrow> r \<notin> rows R kept"

text \<open>The invariant \<open>debug_assert_consistent\<close> audits: a disjoint partition of the row space.\<close>

definition alive_ok :: "'b roaring \<Rightarrow> 'b alive_set \<Rightarrow> bool" where
  "alive_ok R s \<longleftrightarrow> rows R (al_alive s) \<inter> rows R (al_tombstones s) = {}
     \<and> rows R (al_alive s) \<union> rows R (al_tombstones s) = {r. r < al_row_count s}"

context doc_bitmaps
begin

lemma alive_ok_new: "alive_ok R (alive_new R n)"
  by (auto simp: alive_ok_def alive_new_def)

lemma tombstone_rows:
  "d < al_row_count s \<Longrightarrow> rows R (al_alive (snd (tombstone R d s))) = rows R (al_alive s) - {d}"
  "d < al_row_count s \<Longrightarrow> rows R (al_tombstones (snd (tombstone R d s))) =
     rows R (al_tombstones s) \<union> (rows R (al_alive s) \<inter> {d})"
  "al_row_count (snd (tombstone R d s)) = al_row_count s"
  by (auto simp: tombstone_def Let_def case_prod_beta)

lemma alive_exec_ok: "alive_ok R s \<Longrightarrow> alive_ok R (alive_exec R a s)"
proof (induction a)
  case (Tombstone d)
  show ?case
  proof (cases "d < al_row_count s")
    case True
    then show ?thesis using Tombstone by (auto simp: alive_ok_def tombstone_rows)
  next
    case False
    then show ?thesis using Tombstone by (simp add: tombstone_def not_less)
  qed
next
  case (Retain kept)
  then show ?case by (auto simp: alive_ok_def alive_retain_def Let_def)
qed

lemma alive_exec_rows:
  "alive_ok R s \<Longrightarrow> rows R (al_alive (alive_exec R a s)) = {r \<in> rows R (al_alive s). \<not> removes R a r}"
proof (induction a)
  case (Tombstone d)
  show ?case
  proof (cases "d < al_row_count s")
    case True
    then show ?thesis by (auto simp: tombstone_rows)
  next
    case False
    then have "d \<notin> rows R (al_alive s)" using Tombstone by (auto simp: alive_ok_def)
    then show ?thesis using False by (auto simp: tombstone_def not_less)
  qed
next
  case (Retain kept)
  then show ?case by (auto simp: alive_retain_def Let_def)
qed

lemma alive_exec_row_count [simp]: "al_row_count (alive_exec R a s) = al_row_count s"
  by (cases a) (auto simp: alive_retain_def tombstone_rows Let_def)

lemma alive_fold:
  "alive_ok R s \<Longrightarrow> alive_ok R (fold (alive_exec R) ops s)
     \<and> al_row_count (fold (alive_exec R) ops s) = al_row_count s
     \<and> rows R (al_alive (fold (alive_exec R) ops s)) =
         {r \<in> rows R (al_alive s). \<forall>a \<in> set ops. \<not> removes R a r}"
  by (induction ops arbitrary: s) (auto simp: alive_exec_ok alive_exec_rows)

lemma alive_counts:
  assumes "alive_ok R s"
  shows "unat (live_count R s) + unat (tombstone_count R s) = unat (al_row_count s)"
proof -
  let ?A = "rows R (al_alive s)" and ?T = "rows R (al_tombstones s)"
  have "card {r. r < al_row_count s} = unat (al_row_count s)"
    by (rule card_words_below)
  moreover have "card (?A \<union> ?T) = card ?A + card ?T"
    using assms by (intro card_Un_disjoint) (auto simp: alive_ok_def)
  ultimately show ?thesis
    using assms by (simp add: alive_ok_def live_count_def tombstone_count_def)
qed

lemma alive_reflects:
  "unat (live_count R (fold (alive_exec R) ops (alive_new R n)))
     + unat (tombstone_count R (fold (alive_exec R) ops (alive_new R n))) = unat n"
  "is_alive R (fold (alive_exec R) ops (alive_new R n)) d \<longleftrightarrow> d < n \<and> (\<forall>a \<in> set ops. \<not> removes R a d)"
  "set (iter_alive R (fold (alive_exec R) ops (alive_new R n))) =
     {d. d < n \<and> (\<forall>a \<in> set ops. \<not> removes R a d)}"
  using alive_fold [OF alive_ok_new, of ops n] alive_counts [of "fold (alive_exec R) ops (alive_new R n)"]
  by (auto simp: is_alive_def iter_alive_def alive_new_def)

end

end
