(* ===== verification/Dict.thy ===== *)
theory Dict
  imports Codec
begin

text \<open>
  String side-arrays, dictionaries and their row codes (\<^verbatim>\<open>src/meta/dict.rs\<close>). A Rust
  string is a valid UTF-8 byte string. The builder's hash map is an association list whose keys are
  distinct by construction.
\<close>

datatype dictionary_error = CardinalityOverflow | StringStorageOverflow

datatype code_width = WidthU16 | WidthU32

datatype dictionary_codes = CodesU16 "u16 list" | CodesU32 "u32 list"

fun codes_width :: "dictionary_codes \<Rightarrow> code_width" where
  "codes_width (CodesU16 cs) = WidthU16"
| "codes_width (CodesU32 cs) = WidthU32"

fun codes_len :: "dictionary_codes \<Rightarrow> nat" where
  "codes_len (CodesU16 cs) = length cs"
| "codes_len (CodesU32 cs) = length cs"

fun codes_get :: "dictionary_codes \<Rightarrow> nat \<Rightarrow> u32 option" where
  "codes_get (CodesU16 cs) row = map_option ucast (list_get cs row)"
| "codes_get (CodesU32 cs) row = list_get cs row"

fun codes_iter :: "dictionary_codes \<Rightarrow> u32 list" where
  "codes_iter (CodesU16 cs) = map ucast cs"
| "codes_iter (CodesU32 cs) = cs"

definition code_width_for_cardinality :: "u64 \<Rightarrow> (dictionary_error, code_width) result" where
  "code_width_for_cardinality cardinality =
     (if cardinality \<le> 0xFFFF then Ok WidthU16
      else if cardinality \<le> 0xFFFFFFFF then Ok WidthU32
      else Err CardinalityOverflow)"

definition u16_try_from :: "u32 \<Rightarrow> u16 option" where
  "u16_try_from w = (if w \<le> 0xFFFF then Some (ucast w) else None)"

definition codes_from_u32 :: "u32 list \<Rightarrow> u64 \<Rightarrow> (dictionary_error, dictionary_codes) result" where
  "codes_from_u32 codes cardinality =
     and_then (code_width_for_cardinality cardinality) (\<lambda>width.
     case width of
       WidthU16 \<Rightarrow> map_ok CodesU16 (ok_or CardinalityOverflow (those (map u16_try_from codes)))
     | WidthU32 \<Rightarrow> Ok (CodesU32 codes))"

section \<open>String storage\<close>

record string_storage =
  ss_offsets :: "u32 list"
  ss_bytes :: bytes

definition storage_new :: string_storage where
  "storage_new = \<lparr>ss_offsets = [0], ss_bytes = []\<rparr>"

definition can_push :: "string_storage \<Rightarrow> bytes \<Rightarrow> (dictionary_error, unit) result" where
  "can_push s v =
     and_then (ok_or StringStorageOverflow (checked_add_usize (length (ss_bytes s)) (length v))) (\<lambda>new_length.
     map_ok (\<lambda>_. ()) (ok_or StringStorageOverflow (u32_try_from new_length)))"

definition storage_push :: "string_storage \<Rightarrow> bytes \<Rightarrow> (dictionary_error, unit) result \<times> string_storage" where
  "storage_push s v =
     (case can_push s v of
        Inl e \<Rightarrow> (Err e, s)
      | Inr _ \<Rightarrow>
          (let s1 = s\<lparr>ss_bytes := ss_bytes s @ v\<rparr> in
           case u32_try_from (length (ss_bytes s1)) of
             None \<Rightarrow> (Err StringStorageOverflow, s1)
           | Some offset \<Rightarrow> (Ok (), s1\<lparr>ss_offsets := ss_offsets s1 @ [offset]\<rparr>)))"

definition storage_len :: "string_storage \<Rightarrow> nat" where
  "storage_len s = length (ss_offsets s) - 1"

definition storage_get :: "string_storage \<Rightarrow> nat \<Rightarrow> bytes option" where
  "storage_get s pos =
     (case list_get (ss_offsets s) pos of
        None \<Rightarrow> None
      | Some start \<Rightarrow>
     (case list_get (ss_offsets s) (saturating_add_usize pos 1) of
        None \<Rightarrow> None
      | Some stop \<Rightarrow>
     (case slice_range (ss_bytes s) (unat start) (unat stop) of
        None \<Rightarrow> None
      | Some bs \<Rightarrow> if utf8_valid bs then Some bs else None)))"

section \<open>Dictionaries\<close>

record string_dictionary =
  sd_values :: string_storage

definition dict_len :: "string_dictionary \<Rightarrow> nat" where
  "dict_len d = storage_len (sd_values d)"

definition dict_get :: "string_dictionary \<Rightarrow> u32 \<Rightarrow> bytes option" where
  "dict_get d code = storage_get (sd_values d) (unat code)"

text \<open>\<open>offsets.windows(2)\<close> has one window per string.\<close>

definition dict_find :: "string_dictionary \<Rightarrow> bytes \<Rightarrow> u32 option" where
  "dict_find d needle =
     map_option word_of_nat
       (find (\<lambda>pos. storage_get (sd_values d) pos = Some needle \<and> pos \<le> u32_max)
          [0..<length (ss_offsets (sd_values d)) - 1])"

record dictionary_builder =
  db_lookup :: "(bytes \<times> u32) list"
  db_values :: string_storage

definition builder_new :: dictionary_builder where
  "builder_new = \<lparr>db_lookup = [], db_values = storage_new\<rparr>"

definition can_intern :: "dictionary_builder \<Rightarrow> bytes \<Rightarrow> (dictionary_error, unit) result" where
  "can_intern b v =
     (if map_of (db_lookup b) v \<noteq> None then Ok () else
      let cardinality = saturating_add_u64 (u64_of_usize (length (db_lookup b))) 1 in
      and_then (code_width_for_cardinality cardinality) (\<lambda>_. can_push (db_values b) v))"

definition intern :: "dictionary_builder \<Rightarrow> bytes \<Rightarrow> (dictionary_error, u32) result \<times> dictionary_builder" where
  "intern b v =
     (case map_of (db_lookup b) v of
        Some code \<Rightarrow> (Ok code, b)
      | None \<Rightarrow>
     (case can_intern b v of
        Inl e \<Rightarrow> (Err e, b)
      | Inr _ \<Rightarrow>
     (case u32_try_from (length (db_lookup b)) of
        None \<Rightarrow> (Err CardinalityOverflow, b)
      | Some code \<Rightarrow>
     (case storage_push (db_values b) v of
        (Inl e, vs) \<Rightarrow> (Err e, b\<lparr>db_values := vs\<rparr>)
      | (Inr _, vs) \<Rightarrow> (Ok code, b\<lparr>db_values := vs, db_lookup := (v, code) # db_lookup b\<rparr>)))))"

definition builder_cardinality :: "dictionary_builder \<Rightarrow> u64" where
  "builder_cardinality b = u64_of_usize (length (db_lookup b))"

definition builder_finish :: "dictionary_builder \<Rightarrow> string_dictionary" where
  "builder_finish b = \<lparr>sd_values = db_values b\<rparr>"

section \<open>The strings a storage holds\<close>

text \<open>A list of strings as the side-array represents it, and the lists it can represent.\<close>

definition offset_of :: "bytes list \<Rightarrow> nat \<Rightarrow> nat" where
  "offset_of vs i = length (concat (take i vs))"

definition storage_rep :: "bytes list \<Rightarrow> string_storage" where
  "storage_rep vs = \<lparr>ss_offsets = map (\<lambda>i. word_of_nat (offset_of vs i)) [0..<Suc (length vs)],
     ss_bytes = concat vs\<rparr>"

definition storable :: "bytes list \<Rightarrow> bool" where
  "storable vs \<longleftrightarrow> list_all utf8_valid vs \<and> length (concat vs) \<le> u32_max \<and> length vs < usize_max"

lemma storage_new_rep: "storage_new = storage_rep []"
  by (simp add: storage_new_def storage_rep_def offset_of_def)

lemma can_push_rep:
  "length (concat vs) \<le> u32_max \<Longrightarrow> length v \<le> alloc_max \<Longrightarrow>
   can_push (storage_rep vs) v =
     (if length (concat vs) + length v \<le> u32_max then Ok () else Err StringStorageOverflow)"
  by (simp add: can_push_def storage_rep_def checked_add_usize_def u32_try_from_def u32_max_def
      alloc_max_def usize_max_def)

lemma storage_push_rep:
  assumes "length (concat vs) \<le> u32_max" "length v \<le> alloc_max"
  shows "storage_push (storage_rep vs) v =
    (if length (concat vs) + length v \<le> u32_max then (Ok (), storage_rep (vs @ [v]))
     else (Err StringStorageOverflow, storage_rep vs))"
proof -
  have "map (\<lambda>i. word_of_nat (offset_of (vs @ [v]) i)) [0..<Suc (length vs)] =
      map (\<lambda>i. (word_of_nat (offset_of vs i) :: u32)) [0..<Suc (length vs)]"
    by (rule map_cong) (auto simp: offset_of_def)
  then show ?thesis
    using assms
    by (simp add: storage_push_def can_push_rep Let_def)
      (auto simp: storage_rep_def u32_try_from_def offset_of_def)
qed

lemma storage_len_rep [simp]: "storage_len (storage_rep vs) = length vs"
  by (simp add: storage_len_def storage_rep_def)

lemma offset_of_Suc: "i < length vs \<Longrightarrow> offset_of vs (Suc i) = offset_of vs i + length (vs ! i)"
  by (simp add: offset_of_def take_Suc_conv_app_nth)

lemma offset_of_le: "offset_of vs i \<le> length (concat vs)"
  unfolding offset_of_def
  by (metis append_take_drop_id concat_append length_append le_add1)

lemma concat_slice:
  "i < length vs \<Longrightarrow> slice_range (concat vs) (offset_of vs i) (offset_of vs (Suc i)) = Some (vs ! i)"
proof -
  assume i: "i < length vs"
  then have "concat vs = concat (take i vs) @ vs ! i @ concat (drop (Suc i) vs)"
    by (metis concat.simps(2) concat_append id_take_nth_drop)
  then show ?thesis
    using slice_range_mid [of "concat (take i vs)" "offset_of vs i" "offset_of vs (Suc i)" "vs ! i"]
      offset_of_Suc [OF i] by (simp add: offset_of_def)
qed

lemma storage_get_rep:
  assumes "storable vs"
  shows "storage_get (storage_rep vs) i = list_get vs i"
proof (cases "i < length vs")
  case True
  then have "saturating_add_usize i 1 = Suc i"
    using assms by (simp add: storable_def)
  moreover have "unat (word_of_nat (offset_of vs j) :: u32) = offset_of vs j" for j
    using offset_of_le [of vs j] assms by (simp add: storable_def unat_word_of_nat_u32)
  moreover have "utf8_valid (vs ! i)"
    using assms True by (simp add: storable_def list_all_length)
  ultimately show ?thesis
    using True concat_slice [OF True]
    by (simp add: storage_get_def storage_rep_def del: upt_Suc)
next
  case False
  then have "list_get (ss_offsets (storage_rep vs)) (saturating_add_usize i 1) = None
      \<or> list_get (ss_offsets (storage_rep vs)) i = None"
    using assms by (auto simp: storage_rep_def storable_def saturating_add_usize_def list_get_def)
  then show ?thesis
    using False by (auto simp: storage_get_def split: option.splits)
qed

section \<open>The strings a dictionary holds\<close>

definition builder_rep :: "bytes list \<Rightarrow> dictionary_builder" where
  "builder_rep vs = \<lparr>db_lookup = rev (zip vs (map word_of_nat [0..<length vs])), db_values = storage_rep vs\<rparr>"

definition dict_fits :: "bytes list \<Rightarrow> bool" where
  "dict_fits vs \<longleftrightarrow> storable vs \<and> distinct vs \<and> length vs \<le> u32_max"

abbreviation index_of :: "'a list \<Rightarrow> 'a \<Rightarrow> nat option" where
  "index_of vs v \<equiv> position (\<lambda>w. w = v) vs"

lemma position_append:
  "position P (xs @ ys) =
     (case position P xs of Some i \<Rightarrow> Some i | None \<Rightarrow> map_option (\<lambda>j. length xs + j) (position P ys))"
  by (induction xs) (auto simp: option.map_comp comp_def map_option_case split: option.splits)

lemma index_of_Some: "index_of vs v = Some i \<Longrightarrow> i < length vs \<and> vs ! i = v"
  using position_Some [of "\<lambda>w. w = v" vs i] by simp

lemma index_of_None [simp]: "index_of vs v = None \<longleftrightarrow> v \<notin> set vs"
  by (auto simp: position_None)

lemma index_of_notin [simp]: "v \<notin> set vs \<Longrightarrow> index_of vs v = None"
  by simp

lemma find_append: "find P (xs @ ys) = (case find P xs of Some x \<Rightarrow> Some x | None \<Rightarrow> find P ys)"
  by (induction xs) auto

lemma index_of_nth: "distinct vs \<Longrightarrow> i < length vs \<Longrightarrow> index_of vs (vs ! i) = Some i"
  by (cases "index_of vs (vs ! i)") (use index_of_Some nth_eq_iff_index_eq in \<open>fastforce simp: position_None\<close>)+

lemma builder_new_rep: "builder_new = builder_rep []"
  by (simp add: builder_new_def builder_rep_def storage_new_rep)

lemma lookup_rep [simp]:
  "distinct vs \<Longrightarrow> map_of (db_lookup (builder_rep vs)) v = map_option word_of_nat (index_of vs v)"
  "length (db_lookup (builder_rep vs)) = length vs"
proof -
  show "length (db_lookup (builder_rep vs)) = length vs" by (simp add: builder_rep_def)
  assume "distinct vs"
  then show "map_of (db_lookup (builder_rep vs)) v = map_option word_of_nat (index_of vs v)"
    unfolding builder_rep_def
  proof (induction vs rule: rev_induct)
    case (snoc x vs)
    then show ?case by (auto simp: position_append split: option.splits)
  qed simp
qed

lemma cardinality_width:
  "n < u32_max \<Longrightarrow> \<exists>w. code_width_for_cardinality (saturating_add_u64 (u64_of_usize n) 1) = Ok w"
  by (auto simp: code_width_for_cardinality_def saturating_add_u64_def u64_of_usize_def word_le_nat_alt
      unat_word_ariths unat_of_nat u32_max_def usize_max_def)

lemma cardinality_overflow:
  "n = u32_max \<Longrightarrow> code_width_for_cardinality (saturating_add_u64 (u64_of_usize n) 1) = Err CardinalityOverflow"
  by (simp add: code_width_for_cardinality_def saturating_add_u64_def u64_of_usize_def u32_max_def usize_max_def)

lemma can_intern_rep:
  assumes "dict_fits vs" "length v \<le> alloc_max"
  shows "can_intern (builder_rep vs) v = Ok () \<longleftrightarrow>
    v \<in> set vs \<or> (length vs < u32_max \<and> length (concat vs) + length v \<le> u32_max)"
proof (cases "length vs < u32_max")
  case True
  then show ?thesis
    using assms cardinality_width [OF True]
    by (auto simp: can_intern_def dict_fits_def storable_def can_push_rep builder_rep_def [THEN arg_cong [where f = db_values]])
next
  case False
  then have "length vs = u32_max" using assms by (simp add: dict_fits_def)
  then show ?thesis
    using assms cardinality_overflow [of "length vs"] by (auto simp: can_intern_def dict_fits_def)
qed

lemma intern_known:
  "dict_fits vs \<Longrightarrow> index_of vs v = Some i \<Longrightarrow> intern (builder_rep vs) v = (Ok (word_of_nat i), builder_rep vs)"
  by (simp add: intern_def dict_fits_def)

lemma intern_new:
  assumes "dict_fits vs" "length v \<le> alloc_max" "v \<notin> set vs" "can_intern (builder_rep vs) v = Ok ()"
  shows "intern (builder_rep vs) v = (Ok (word_of_nat (length vs)), builder_rep (vs @ [v]))"
proof -
  have n: "length vs < u32_max" and c: "length (concat vs) + length v \<le> u32_max"
    using assms can_intern_rep [of vs v] by auto
  have "index_of vs v = None" using assms by simp
  then show ?thesis
    using assms n c storage_push_rep [of vs v]
    by (simp add: intern_def dict_fits_def storable_def u32_try_from_def) (simp add: builder_rep_def)
qed

lemma dict_fits_snoc:
  assumes "dict_fits vs" "length v \<le> alloc_max" "v \<notin> set vs" "utf8_valid v"
    "can_intern (builder_rep vs) v = Ok ()"
  shows "dict_fits (vs @ [v])"
proof -
  have "length vs < u32_max \<and> length (concat vs) + length v \<le> u32_max"
    using assms can_intern_rep [of vs v] by auto
  moreover have "u32_max < usize_max" by (simp add: u32_max_def usize_max_def)
  ultimately show ?thesis
    using assms by (simp add: dict_fits_def storable_def)
qed

lemma dict_get_rep:
  "dict_fits vs \<Longrightarrow> dict_get (builder_finish (builder_rep vs)) code = list_get vs (unat code)"
  by (simp add: dict_get_def builder_finish_def builder_rep_def storage_get_rep dict_fits_def)

lemma find_position: "find (\<lambda>i. list_get vs i = Some v) [0..<length vs] = index_of vs v"
proof (induction vs rule: rev_induct)
  case (snoc x vs)
  have "find (\<lambda>i. list_get (vs @ [x]) i = Some v) [0..<length vs] =
      find (\<lambda>i. list_get vs i = Some v) [0..<length vs]"
    by (rule find_cong) (auto simp: nth_append)
  then show ?case
    using snoc by (simp add: find_append position_append split: option.splits)
qed simp

lemma dict_find_rep:
  assumes "dict_fits vs"
  shows "dict_find (builder_finish (builder_rep vs)) v = map_option word_of_nat (index_of vs v)"
proof -
  have "find (\<lambda>pos. storage_get (storage_rep vs) pos = Some v \<and> pos \<le> u32_max) [0..<length vs] =
      find (\<lambda>i. list_get vs i = Some v) [0..<length vs]"
    using assms by (intro find_cong) (auto simp: storage_get_rep dict_fits_def)
  then show ?thesis
    by (simp add: dict_find_def builder_finish_def builder_rep_def find_position)
      (simp add: storage_rep_def)
qed

text \<open>Narrowing keeps every code, because codes are below the cardinality.\<close>

lemma codes_from_u32_ok:
  assumes "\<forall>c \<in> set codes. c = 0 \<or> unat c < n" "n \<le> u32_max"
  shows "\<exists>cs. codes_from_u32 codes (u64_of_usize n) = Ok cs \<and> codes_iter cs = codes
    \<and> codes_len cs = length codes \<and> (\<forall>i. codes_get cs i = list_get codes i)"
proof (cases "n \<le> 0xFFFF")
  case True
  then have "those (map u16_try_from codes) = Some (map ucast codes)"
    using assms(1)
  proof (induction codes)
    case (Cons c codes)
    then have "c \<le> 0xFFFF" by (auto simp: word_le_nat_alt)
    then show ?case using Cons by (simp add: u16_try_from_def)
  qed simp
  moreover have "ucast (ucast c :: u16) = c" if "c \<in> set codes" for c :: u32
  proof -
    have "unat c < 2 ^ 16" using assms(1) True that by fastforce
    then show ?thesis by (simp add: word_unat_eq_iff unsigned_ucast_eq unsigned_take_bit_eq take_bit_nat_eq_self)
  qed
  moreover have "code_width_for_cardinality (u64_of_usize n) = Ok WidthU16"
    using True by (simp add: code_width_for_cardinality_def u64_of_usize_def word_le_nat_alt unat_of_nat)
  ultimately show ?thesis
    by (auto simp: codes_from_u32_def comp_def map_idI list_get_def)
next
  case False
  then have "code_width_for_cardinality (u64_of_usize n) = Ok WidthU32"
    using assms(2)
    by (simp add: code_width_for_cardinality_def u64_of_usize_def word_le_nat_alt unat_of_nat u32_max_def)
  then show ?thesis by (auto simp: codes_from_u32_def)
qed

end
