(* ===== verification/Columns.thy ===== *)
theory Columns
  imports Alive Dict Schema
begin

text \<open>
  Typed metadata columns and their row builder (\<^verbatim>\<open>src/meta/columns.rs\<close>). A null row keeps
  a placeholder in the value array and is absent from the presence bitmap.
\<close>

section \<open>Values and errors\<close>

datatype column_value =
    CvU64 u64
  | CvId128 u128
  | CvI64 i64
  | CvF64 f64
  | CvBool bool
  | CvString bytes

fun compatible_with :: "column_value \<Rightarrow> column_type \<Rightarrow> bool" where
  "compatible_with (CvId128 _) ty \<longleftrightarrow> ty = TypeId128"
| "compatible_with (CvU64 _) ty \<longleftrightarrow> ty = TypeU64"
| "compatible_with (CvI64 _) ty \<longleftrightarrow> ty = TypeI64"
| "compatible_with (CvF64 _) ty \<longleftrightarrow> ty = TypeF64"
| "compatible_with (CvBool _) ty \<longleftrightarrow> ty = TypeBool"
| "compatible_with (CvString _) ty \<longleftrightarrow> ty = TypeDictionaryString \<or> ty = TypeRawString"

fun cv_type :: "column_value \<Rightarrow> column_type" where
  "cv_type (CvId128 _) = TypeId128"
| "cv_type (CvU64 _) = TypeU64"
| "cv_type (CvI64 _) = TypeI64"
| "cv_type (CvF64 _) = TypeF64"
| "cv_type (CvBool _) = TypeBool"
| "cv_type (CvString _) = TypeRawString"

record column_input =
  ci_column :: u32
  ci_value :: column_value

datatype build_error =
    BuildUnknownColumn u32
  | BuildDuplicateColumn u32
  | MissingRequiredColumn u32
  | TimestampProvidedAsInput
  | BuildTypeMismatch u32 column_type column_type
  | TooManyRows
  | BuildDictionary dictionary_error

section \<open>Immutable columns\<close>

record ('v, 'b) numeric_column =
  nc_values :: "'v list"
  nc_present :: 'b

record 'b bool_column =
  bc_values :: "u8 list"
  bc_present :: 'b

record 'b dictionary_column =
  dc_codes :: dictionary_codes
  dc_dictionary :: string_dictionary
  dc_present :: 'b

record 'b raw_string_column =
  rs_values :: string_storage
  rs_present :: 'b

datatype 'b column =
    ColU64 "(u64, 'b) numeric_column"
  | ColId128 "(u128, 'b) numeric_column"
  | ColI64 "(i64, 'b) numeric_column"
  | ColF64 "(f64, 'b) numeric_column"
  | ColBool "'b bool_column"
  | ColDictionary "'b dictionary_column"
  | ColRaw "'b raw_string_column"

definition nc_get :: "'b roaring \<Rightarrow> ('v, 'b) numeric_column \<Rightarrow> u32 \<Rightarrow> 'v option" where
  "nc_get R c row = (if \<not> doc_contains R (nc_present c) row then None else list_get (nc_values c) (unat row))"

definition bc_get :: "'b roaring \<Rightarrow> 'b bool_column \<Rightarrow> u32 \<Rightarrow> bool option" where
  "bc_get R c row =
     (if \<not> doc_contains R (bc_present c) row then None
      else map_option (\<lambda>v. v \<noteq> 0) (list_get (bc_values c) (unat row)))"

definition dc_get :: "'b roaring \<Rightarrow> 'b dictionary_column \<Rightarrow> u32 \<Rightarrow> bytes option" where
  "dc_get R c row =
     (if \<not> doc_contains R (dc_present c) row then None
      else case codes_get (dc_codes c) (unat row) of
             None \<Rightarrow> None
           | Some code \<Rightarrow> dict_get (dc_dictionary c) code)"

definition rs_get :: "'b roaring \<Rightarrow> 'b raw_string_column \<Rightarrow> u32 \<Rightarrow> bytes option" where
  "rs_get R c row =
     (if \<not> doc_contains R (rs_present c) row then None else storage_get (rs_values c) (unat row))"

fun column_type_of :: "'b column \<Rightarrow> column_type" where
  "column_type_of (ColId128 _) = TypeId128"
| "column_type_of (ColU64 _) = TypeU64"
| "column_type_of (ColI64 _) = TypeI64"
| "column_type_of (ColF64 _) = TypeF64"
| "column_type_of (ColBool _) = TypeBool"
| "column_type_of (ColDictionary _) = TypeDictionaryString"
| "column_type_of (ColRaw _) = TypeRawString"

fun column_len :: "'b column \<Rightarrow> nat" where
  "column_len (ColId128 c) = length (nc_values c)"
| "column_len (ColU64 c) = length (nc_values c)"
| "column_len (ColI64 c) = length (nc_values c)"
| "column_len (ColF64 c) = length (nc_values c)"
| "column_len (ColBool c) = length (bc_values c)"
| "column_len (ColDictionary c) = codes_len (dc_codes c)"
| "column_len (ColRaw c) = storage_len (rs_values c)"

fun column_present :: "'b column \<Rightarrow> 'b" where
  "column_present (ColId128 c) = nc_present c"
| "column_present (ColU64 c) = nc_present c"
| "column_present (ColI64 c) = nc_present c"
| "column_present (ColF64 c) = nc_present c"
| "column_present (ColBool c) = bc_present c"
| "column_present (ColDictionary c) = dc_present c"
| "column_present (ColRaw c) = rs_present c"

text \<open>The typed read of one cell, by the column's own \<open>get\<close>.\<close>

fun column_get :: "'b roaring \<Rightarrow> 'b column \<Rightarrow> u32 \<Rightarrow> column_value option" where
  "column_get R (ColId128 c) row = map_option CvId128 (nc_get R c row)"
| "column_get R (ColU64 c) row = map_option CvU64 (nc_get R c row)"
| "column_get R (ColI64 c) row = map_option CvI64 (nc_get R c row)"
| "column_get R (ColF64 c) row = map_option CvF64 (nc_get R c row)"
| "column_get R (ColBool c) row = map_option CvBool (bc_get R c row)"
| "column_get R (ColDictionary c) row = map_option CvString (dc_get R c row)"
| "column_get R (ColRaw c) row = map_option CvString (rs_get R c row)"

record 'b column_store =
  store_schema :: schema
  store_columns :: "'b column list"
  store_row_count :: u32

definition store_column :: "'b column_store \<Rightarrow> u32 \<Rightarrow> 'b column option" where
  "store_column s i =
     map_option snd (find (\<lambda>(d, c). col_id d = i) (zip (columns (store_schema s)) (store_columns s)))"

definition store_timestamp :: "'b roaring \<Rightarrow> 'b column_store \<Rightarrow> u32 \<Rightarrow> i64 option" where
  "store_timestamp R s row =
     (case store_column s TIMESTAMP_COLUMN of Some (ColI64 c) \<Rightarrow> nc_get R c row | _ \<Rightarrow> None)"

definition store_timestamps :: "'b column_store \<Rightarrow> i64 list" where
  "store_timestamps s =
     (case store_column s TIMESTAMP_COLUMN of Some (ColI64 c) \<Rightarrow> nc_values c | _ \<Rightarrow> [])"

section \<open>Builder columns\<close>

datatype 'b builder_column =
    BU64 "u64 list" 'b
  | BId128 "u128 list" 'b
  | BI64 "i64 list" 'b
  | BF64 "f64 list" 'b
  | BBool "u8 list" 'b
  | BDictionary "u32 list" dictionary_builder 'b
  | BRaw string_storage 'b

fun builder_column_new :: "'b roaring \<Rightarrow> column_type \<Rightarrow> 'b builder_column" where
  "builder_column_new R TypeId128 = BId128 [] (doc_new R)"
| "builder_column_new R TypeU64 = BU64 [] (doc_new R)"
| "builder_column_new R TypeI64 = BI64 [] (doc_new R)"
| "builder_column_new R TypeF64 = BF64 [] (doc_new R)"
| "builder_column_new R TypeBool = BBool [] (doc_new R)"
| "builder_column_new R TypeDictionaryString = BDictionary [] builder_new (doc_new R)"
| "builder_column_new R TypeRawString = BRaw storage_new (doc_new R)"

fun preflight :: "'b builder_column \<Rightarrow> column_value option \<Rightarrow> (dictionary_error, unit) result" where
  "preflight (BDictionary _ dictionary _) (Some (CvString v)) = can_intern dictionary v"
| "preflight (BRaw values _) (Some (CvString v)) = can_push values v"
| "preflight (BRaw values _) None = can_push values []"
| "preflight _ _ = Ok ()"

fun builder_column_type :: "'b builder_column \<Rightarrow> column_type" where
  "builder_column_type (BId128 _ _) = TypeId128"
| "builder_column_type (BU64 _ _) = TypeU64"
| "builder_column_type (BI64 _ _) = TypeI64"
| "builder_column_type (BF64 _ _) = TypeF64"
| "builder_column_type (BBool _ _) = TypeBool"
| "builder_column_type (BDictionary _ _ _) = TypeDictionaryString"
| "builder_column_type (BRaw _ _) = TypeRawString"

fun builder_column_push ::
  "'b roaring \<Rightarrow> u32 \<Rightarrow> u32 \<Rightarrow> 'b builder_column \<Rightarrow> column_value option
   \<Rightarrow> (build_error, unit) result \<times> 'b builder_column" where
  "builder_column_push R row col (BId128 xs p) (Some (CvId128 v)) =
     (Ok (), BId128 (xs @ [v]) (snd (doc_insert R row p)))"
| "builder_column_push R row col (BU64 xs p) (Some (CvU64 v)) =
     (Ok (), BU64 (xs @ [v]) (snd (doc_insert R row p)))"
| "builder_column_push R row col (BId128 xs p) None = (Ok (), BId128 (xs @ [0]) p)"
| "builder_column_push R row col (BU64 xs p) None = (Ok (), BU64 (xs @ [0]) p)"
| "builder_column_push R row col (BI64 xs p) (Some (CvI64 v)) =
     (Ok (), BI64 (xs @ [v]) (snd (doc_insert R row p)))"
| "builder_column_push R row col (BI64 xs p) None = (Ok (), BI64 (xs @ [0]) p)"
| "builder_column_push R row col (BF64 xs p) (Some (CvF64 v)) =
     (Ok (), BF64 (xs @ [v]) (snd (doc_insert R row p)))"
| "builder_column_push R row col (BF64 xs p) None = (Ok (), BF64 (xs @ [0]) p)"
| "builder_column_push R row col (BBool xs p) (Some (CvBool v)) =
     (Ok (), BBool (xs @ [of_bool v]) (snd (doc_insert R row p)))"
| "builder_column_push R row col (BBool xs p) None = (Ok (), BBool (xs @ [0]) p)"
| "builder_column_push R row col (BDictionary cs d p) (Some (CvString v)) =
     (case intern d v of
        (Inl e, d) \<Rightarrow> (Err (BuildDictionary e), BDictionary cs d p)
      | (Inr code, d) \<Rightarrow> (Ok (), BDictionary (cs @ [code]) d (snd (doc_insert R row p))))"
| "builder_column_push R row col (BDictionary cs d p) None = (Ok (), BDictionary (cs @ [0]) d p)"
| "builder_column_push R row col (BRaw s p) (Some (CvString v)) =
     (case storage_push s v of
        (Inl e, s) \<Rightarrow> (Err (BuildDictionary e), BRaw s p)
      | (Inr _, s) \<Rightarrow> (Ok (), BRaw s (snd (doc_insert R row p))))"
| "builder_column_push R row col (BRaw s p) None =
     (case storage_push s [] of
        (Inl e, s) \<Rightarrow> (Err (BuildDictionary e), BRaw s p)
      | (Inr _, s) \<Rightarrow> (Ok (), BRaw s p))"
| "builder_column_push R row col bc (Some v) =
     (Err (BuildTypeMismatch col (builder_column_type bc) (cv_type v)), bc)"

fun builder_column_finish :: "'b builder_column \<Rightarrow> (dictionary_error, 'b column) result" where
  "builder_column_finish (BId128 xs p) = Ok (ColId128 \<lparr>nc_values = xs, nc_present = p\<rparr>)"
| "builder_column_finish (BU64 xs p) = Ok (ColU64 \<lparr>nc_values = xs, nc_present = p\<rparr>)"
| "builder_column_finish (BI64 xs p) = Ok (ColI64 \<lparr>nc_values = xs, nc_present = p\<rparr>)"
| "builder_column_finish (BF64 xs p) = Ok (ColF64 \<lparr>nc_values = xs, nc_present = p\<rparr>)"
| "builder_column_finish (BBool xs p) = Ok (ColBool \<lparr>bc_values = xs, bc_present = p\<rparr>)"
| "builder_column_finish (BDictionary cs d p) =
     map_ok (\<lambda>codes. ColDictionary \<lparr>dc_codes = codes, dc_dictionary = builder_finish d, dc_present = p\<rparr>)
       (codes_from_u32 cs (builder_cardinality d))"
| "builder_column_finish (BRaw s p) = Ok (ColRaw \<lparr>rs_values = s, rs_present = p\<rparr>)"

section \<open>The row builder\<close>

record 'b store_builder =
  sb_schema :: schema
  sb_columns :: "'b builder_column list"
  sb_row_count :: u32

definition store_builder_new :: "'b roaring \<Rightarrow> schema \<Rightarrow> 'b store_builder" where
  "store_builder_new R s =
     \<lparr>sb_schema = s, sb_columns = map (\<lambda>d. builder_column_new R (col_type d)) (columns s), sb_row_count = 0\<rparr>"

definition find_input :: "column_input list \<Rightarrow> u32 \<Rightarrow> column_input option" where
  "find_input inputs col = find (\<lambda>i. ci_column i = col) inputs"

text \<open>The loop over the inputs; \<open>seen\<close> is \<open>inputs.iter().take(position)\<close>.\<close>

primrec validate_each :: "schema \<Rightarrow> column_input list \<Rightarrow> column_input list \<Rightarrow> (build_error, unit) result" where
  "validate_each s seen [] = Ok ()"
| "validate_each s seen (i # rest) =
     (if ci_column i = TIMESTAMP_COLUMN then Err TimestampProvidedAsInput
      else if list_ex (\<lambda>c. ci_column c = ci_column i) seen then Err (BuildDuplicateColumn (ci_column i))
      else
      and_then (ok_or (BuildUnknownColumn (ci_column i)) (schema_column s (ci_column i))) (\<lambda>d.
      if \<not> compatible_with (ci_value i) (col_type d)
      then Err (BuildTypeMismatch (ci_column i) (col_type d) (cv_type (ci_value i)))
      else validate_each s (seen @ [i]) rest))"

definition validate_inputs :: "schema \<Rightarrow> column_input list \<Rightarrow> (build_error, unit) result" where
  "validate_inputs s inputs =
     and_then (validate_each s [] inputs) (\<lambda>_.
     case find (\<lambda>d. col_id d \<noteq> TIMESTAMP_COLUMN \<and> \<not> col_nullable d \<and> find_input inputs (col_id d) = None)
            (columns s) of
       Some d \<Rightarrow> Err (MissingRequiredColumn (col_id d))
     | None \<Rightarrow> Ok ())"

definition row_value :: "i64 \<Rightarrow> column_input list \<Rightarrow> column_definition \<Rightarrow> column_value option" where
  "row_value timestamp inputs d =
     (if col_id d = TIMESTAMP_COLUMN then Some (CvI64 timestamp)
      else map_option ci_value (find_input inputs (col_id d)))"

fun preflight_all ::
  "i64 \<Rightarrow> column_input list \<Rightarrow> column_definition list \<Rightarrow> 'b builder_column list \<Rightarrow> (build_error, unit) result" where
  "preflight_all ts inputs (d # ds) (b # bs) =
     and_then (map_err BuildDictionary (preflight b (row_value ts inputs d))) (\<lambda>_.
     preflight_all ts inputs ds bs)"
| "preflight_all ts inputs _ _ = Ok ()"

fun push_all ::
  "'b roaring \<Rightarrow> u32 \<Rightarrow> i64 \<Rightarrow> column_input list \<Rightarrow> column_definition list \<Rightarrow> 'b builder_column list
   \<Rightarrow> (build_error, unit) result \<times> 'b builder_column list" where
  "push_all R row ts inputs (d # ds) (b # bs) =
     (case builder_column_push R row (col_id d) b (row_value ts inputs d) of
        (Inl e, b) \<Rightarrow> (Err e, b # bs)
      | (Inr _, b) \<Rightarrow> (let (r, bs) = push_all R row ts inputs ds bs in (r, b # bs)))"
| "push_all R row ts inputs _ bs = (Ok (), bs)"

definition push_row ::
  "'b roaring \<Rightarrow> i64 \<Rightarrow> column_input list \<Rightarrow> 'b store_builder \<Rightarrow> (build_error, u32) result \<times> 'b store_builder" where
  "push_row R ts inputs b =
     (if sb_row_count b = - 1 then (Err TooManyRows, b) else
      case validate_inputs (sb_schema b) inputs of
        Inl e \<Rightarrow> (Err e, b)
      | Inr _ \<Rightarrow>
      (case preflight_all ts inputs (columns (sb_schema b)) (sb_columns b) of
         Inl e \<Rightarrow> (Err e, b)
       | Inr _ \<Rightarrow>
           (let row = sb_row_count b in
            case push_all R row ts inputs (columns (sb_schema b)) (sb_columns b) of
              (Inl e, cols) \<Rightarrow> (Err e, b\<lparr>sb_columns := cols\<rparr>)
            | (Inr _, cols) \<Rightarrow>
                (Ok row, b\<lparr>sb_columns := cols,
                   sb_row_count := (if sb_row_count b = - 1 then - 1 else sb_row_count b + 1)\<rparr>))))"

primrec finish_all :: "'b builder_column list \<Rightarrow> (dictionary_error, 'b column list) result" where
  "finish_all [] = Ok []"
| "finish_all (b # bs) =
     and_then (builder_column_finish b) (\<lambda>c. map_ok (Cons c) (finish_all bs))"

definition builder_store_finish :: "'b store_builder \<Rightarrow> (build_error, 'b column_store) result" where
  "builder_store_finish b =
     map_ok (\<lambda>cs. \<lparr>store_schema = sb_schema b, store_columns = cs, store_row_count = sb_row_count b\<rparr>)
       (map_err BuildDictionary (finish_all (sb_columns b)))"

end
