(* ===== verification/Columns_Rep.thy ===== *)
theory Columns_Rep
  imports Columns
begin

text \<open>
  What the builder columns represent: the list of cells pushed so far. Every push after a successful
  check appends one cell, and a finished column reads back exactly the pushed cells.
\<close>

type_synonym cells = "column_value option list"

definition present_rep :: "'b roaring \<Rightarrow> cells \<Rightarrow> 'b \<Rightarrow> bool" where
  "present_rep R vals p \<longleftrightarrow> rows R p = {r. \<exists>v. list_get vals (unat r) = Some (Some v)}"

definition cells_rep :: "('v \<Rightarrow> column_value) \<Rightarrow> 'v \<Rightarrow> cells \<Rightarrow> 'v list \<Rightarrow> bool" where
  "cells_rep con null vals xs \<longleftrightarrow> list_all2 (\<lambda>v x. v = Some (con x) \<or> v = None \<and> x = null) vals xs"

definition code_rep :: "bytes list \<Rightarrow> column_value option \<Rightarrow> u32 \<Rightarrow> bool" where
  "code_rep vs v c \<longleftrightarrow> v = None \<and> c = 0 \<or> (\<exists>i < length vs. v = Some (CvString (vs ! i)) \<and> c = word_of_nat i)"

fun bcol_rep :: "'b roaring \<Rightarrow> cells \<Rightarrow> 'b builder_column \<Rightarrow> bool" where
  "bcol_rep R vals (BId128 xs p) \<longleftrightarrow> present_rep R vals p \<and> cells_rep CvId128 0 vals xs"
| "bcol_rep R vals (BU64 xs p) \<longleftrightarrow> present_rep R vals p \<and> cells_rep CvU64 0 vals xs"
| "bcol_rep R vals (BI64 xs p) \<longleftrightarrow> present_rep R vals p \<and> cells_rep CvI64 0 vals xs"
| "bcol_rep R vals (BF64 xs p) \<longleftrightarrow> present_rep R vals p \<and> cells_rep CvF64 0 vals xs"
| "bcol_rep R vals (BBool xs p) \<longleftrightarrow> present_rep R vals p
     \<and> (\<exists>bs. xs = map of_bool bs \<and> cells_rep CvBool False vals bs)"
| "bcol_rep R vals (BDictionary cs d p) \<longleftrightarrow> present_rep R vals p
     \<and> (\<exists>vs. dict_fits vs \<and> d = builder_rep vs \<and> list_all2 (code_rep vs) vals cs)"
| "bcol_rep R vals (BRaw s p) \<longleftrightarrow> present_rep R vals p
     \<and> (\<exists>vs. storable vs \<and> s = storage_rep vs \<and> cells_rep CvString [] vals vs)"

text \<open>What the type system and the row limit guarantee of a value pushed at row \<open>n\<close>.\<close>

definition value_fits :: "column_value option \<Rightarrow> bool" where
  "value_fits v \<longleftrightarrow> (\<forall>s. v = Some (CvString s) \<longrightarrow> utf8_valid s \<and> length s \<le> alloc_max)"

lemma cells_rep_snoc:
  "cells_rep con null vals xs \<Longrightarrow> v = Some (con x) \<or> v = None \<and> x = null \<Longrightarrow>
   cells_rep con null (vals @ [v]) (xs @ [x])"
  by (simp add: cells_rep_def list_all2_appendI)

lemma cells_rep_length: "cells_rep con null vals xs \<Longrightarrow> length vals = length xs"
  by (simp add: cells_rep_def list_all2_lengthD)

lemma code_rep_mono: "code_rep vs v c \<Longrightarrow> code_rep (vs @ ws) v c"
  unfolding code_rep_def by (metis (no_types, lifting) length_append nth_append trans_less_add1)

lemma codes_rep_snoc:
  "list_all2 (code_rep vs) vals cs \<Longrightarrow> code_rep (vs @ ws) v c \<Longrightarrow>
   list_all2 (code_rep (vs @ ws)) (vals @ [v]) (cs @ [c])"
  using list_all2_mono [of "code_rep vs" vals cs "code_rep (vs @ ws)"] code_rep_mono
  by (intro list_all2_appendI) auto

context doc_bitmaps
begin

lemma present_rep_Some:
  assumes "present_rep R vals p" "unat row = length vals"
  shows "present_rep R (vals @ [Some v]) (snd (doc_insert R row p))"
proof -
  have "list_get (vals @ [Some v]) (unat r) = (if r = row then Some (Some v) else list_get vals (unat r))" for r
  proof (cases "r = row")
    case False
    then have "unat r \<noteq> length vals" using assms(2) by (metis word_unat_eq_iff)
    then show ?thesis using False by (auto simp: list_get_def nth_append)
  qed (use assms(2) in simp)
  then show ?thesis using assms(1) by (auto simp: present_rep_def)
qed

lemma present_rep_None:
  "present_rep R vals p \<Longrightarrow> present_rep R (vals @ [None]) p"
  by (auto simp: present_rep_def list_get_def nth_append less_Suc_eq split: if_splits)

lemma push_dictionary:
  assumes "bcol_rep R vals (BDictionary cs d p)" "unat row = length vals" "can_intern d s = Ok ()"
    "utf8_valid s" "length s \<le> alloc_max"
  shows "\<exists>b. builder_column_push R row col (BDictionary cs d p) (Some (CvString s)) = (Ok (), b)
    \<and> bcol_rep R (vals @ [Some (CvString s)]) b \<and> builder_column_type b = TypeDictionaryString"
proof -
  obtain vs where vs: "dict_fits vs" "d = builder_rep vs" "list_all2 (code_rep vs) vals cs"
    and p: "present_rep R vals p"
    using assms(1) by auto
  show ?thesis
  proof (cases "index_of vs s")
    case (Some i)
    then have "code_rep vs (Some (CvString s)) (word_of_nat i)"
      using index_of_Some [OF Some] by (auto simp: code_rep_def)
    then have "list_all2 (code_rep vs) (vals @ [Some (CvString s)]) (cs @ [word_of_nat i])"
      using vs(3) by (simp add: list_all2_appendI)
    then show ?thesis
      using intern_known [OF vs(1) Some] vs present_rep_Some [OF p assms(2)] by auto
  next
    case None
    then have new: "s \<notin> set vs" by simp
    have "code_rep (vs @ [s]) (Some (CvString s)) (word_of_nat (length vs))"
      by (auto simp: code_rep_def intro!: exI [of _ "length vs"])
    then have "list_all2 (code_rep (vs @ [s])) (vals @ [Some (CvString s)]) (cs @ [word_of_nat (length vs)])"
      using codes_rep_snoc [OF vs(3)] by blast
    moreover have "dict_fits (vs @ [s])"
      using dict_fits_snoc [OF vs(1) assms(5) new assms(4)] assms(3) vs(2) by simp
    ultimately show ?thesis
      using intern_new [OF vs(1) assms(5) new] assms(3) vs(2) present_rep_Some [OF p assms(2)] by auto
  qed
qed

lemma storable_snoc:
  "storable vs \<Longrightarrow> length (concat vs) + length s \<le> u32_max \<Longrightarrow> utf8_valid s \<Longrightarrow> length vs < u32_max \<Longrightarrow>
   storable (vs @ [s])"
  by (auto simp: storable_def u32_max_def usize_max_def)

lemma push_raw:
  assumes "storable vs" "can_push (storage_rep vs) s = Ok ()" "utf8_valid s" "length s \<le> alloc_max"
    "length vs < u32_max"
  shows "storage_push (storage_rep vs) s = (Ok (), storage_rep (vs @ [s])) \<and> storable (vs @ [s])"
proof -
  have "length (concat vs) + length s \<le> u32_max"
    using assms can_push_rep [of vs s] by (auto simp: storable_def split: if_splits)
  then show ?thesis
    using assms storage_push_rep [of vs s] storable_snoc [of vs s] by (simp add: storable_def)
qed

text \<open>After its preflight check a push of a compatible value cannot fail.\<close>

lemma push_rep:
  assumes rep: "bcol_rep R vals b" and row: "unat row = length vals" "length vals < u32_max"
    and pre: "preflight b v = Ok ()" and v: "value_fits v"
    and ty: "\<forall>w. v = Some w \<longrightarrow> compatible_with w (builder_column_type b)"
  shows "\<exists>b'. builder_column_push R row col b v = (Ok (), b') \<and> bcol_rep R (vals @ [v]) b'
    \<and> builder_column_type b' = builder_column_type b"
proof (cases b)
  case (BDictionary cs d p)
  show ?thesis
  proof (cases v)
    case None
    then show ?thesis
      using rep BDictionary by (auto simp: present_rep_None code_rep_def intro!: list_all2_appendI)
  next
    case (Some w)
    then obtain s where w: "w = CvString s" using ty BDictionary by (cases w) auto
    then have s: "utf8_valid s" "length s \<le> alloc_max" "can_intern d s = Ok ()"
      using v pre Some BDictionary by (auto simp: value_fits_def)
    from rep have "bcol_rep R vals (BDictionary cs d p)" unfolding BDictionary .
    from push_dictionary [OF this row(1) s(3,1,2)] show ?thesis
      unfolding BDictionary Some w builder_column_type.simps .
  qed
next
  case (BRaw s p)
  then obtain vs where vs: "storable vs" "s = storage_rep vs" "cells_rep CvString [] vals vs"
    and p: "present_rep R vals p" using rep by auto
  then have n: "length vs < u32_max" using row(2) cells_rep_length by metis
  show ?thesis
  proof (cases v)
    case None
    then show ?thesis
      using BRaw vs p pre push_raw [OF vs(1) _ _ _ n, of "[]"] cells_rep_snoc [OF vs(3), of None "[]"]
      by (auto simp: present_rep_None)
  next
    case (Some w)
    then obtain t where w: "w = CvString t" using ty BRaw by (cases w) auto
    then show ?thesis
      using BRaw vs p pre Some v push_raw [OF vs(1) _ _ _ n, of t] cells_rep_snoc [OF vs(3), of v t]
        present_rep_Some [OF p row(1)]
      by (auto simp: value_fits_def)
  qed
next
  case (BBool xs p)
  then obtain bs where bs: "xs = map of_bool bs" "cells_rep CvBool False vals bs"
    and p: "present_rep R vals p" using rep by auto
  then show ?thesis
    using BBool ty present_rep_None [OF p] present_rep_Some [OF p row(1)]
      cells_rep_snoc [OF bs(2), of None False] cells_rep_snoc [OF bs(2), of "Some (CvBool x)" x for x]
    by (cases v; cases "the v") (auto intro: exI [of _ "bs @ [x]" for x])
next
  case (BU64 xs p)
  then show ?thesis
    using rep ty by (cases v; cases "the v") (auto simp: present_rep_None present_rep_Some row cells_rep_snoc)
next
  case (BId128 xs p)
  then show ?thesis
    using rep ty by (cases v; cases "the v") (auto simp: present_rep_None present_rep_Some row cells_rep_snoc)
next
  case (BI64 xs p)
  then show ?thesis
    using rep ty by (cases v; cases "the v") (auto simp: present_rep_None present_rep_Some row cells_rep_snoc)
next
  case (BF64 xs p)
  then show ?thesis
    using rep ty by (cases v; cases "the v") (auto simp: present_rep_None present_rep_Some row cells_rep_snoc)
qed

end

section \<open>Finished columns\<close>

text \<open>The facts a query relies on, beyond the cells themselves.\<close>

fun column_wf :: "'b roaring \<Rightarrow> 'b column \<Rightarrow> bool" where
  "column_wf R (ColBool c) \<longleftrightarrow> (\<exists>bs. bc_values c = map of_bool bs)
     \<and> (\<forall>r \<in> rows R (bc_present c). bc_get R c r \<noteq> None)"
| "column_wf R (ColDictionary c) \<longleftrightarrow> (\<exists>vs. dict_fits vs \<and> dc_dictionary c = builder_finish (builder_rep vs))
     \<and> (\<forall>r \<in> rows R (dc_present c). dc_get R c r \<noteq> None)"
| "column_wf R c \<longleftrightarrow> (\<forall>r \<in> rows R (column_present c). column_get R c r \<noteq> None)"

context doc_bitmaps
begin

lemma cells_rep_nth:
  "cells_rep con null vals xs \<Longrightarrow> i < length vals \<Longrightarrow> vals ! i = Some (con (xs ! i)) \<or> vals ! i = None"
  by (auto simp: cells_rep_def list_all2_conv_all_nth)

lemma nc_get_rep:
  assumes "present_rep R vals p" "cells_rep con null vals xs"
  shows "map_option con (nc_get R \<lparr>nc_values = xs, nc_present = p\<rparr> r) = Option.bind (list_get vals (unat r)) id"
proof (cases "r \<in> rows R p")
  case True
  then obtain w where "unat r < length vals" "vals ! unat r = Some w"
    using assms(1) by (auto simp: present_rep_def list_get_def split: if_splits)
  then show ?thesis
    using True cells_rep_nth [OF assms(2)] cells_rep_length [OF assms(2)] by (fastforce simp: nc_get_def)
next
  case False
  then have "Option.bind (list_get vals (unat r)) id = None"
    using assms(1) by (cases "list_get vals (unat r)") (auto simp: present_rep_def)
  then show ?thesis using False by (simp add: nc_get_def)
qed

lemma bc_get_nc: "bc_get R \<lparr>bc_values = map of_bool bs, bc_present = p\<rparr> r = nc_get R \<lparr>nc_values = bs, nc_present = p\<rparr> r"
  by (auto simp: bc_get_def nc_get_def list_get_def)

lemma rs_get_nc:
  "storable vs \<Longrightarrow> rs_get R \<lparr>rs_values = storage_rep vs, rs_present = p\<rparr> r = nc_get R \<lparr>nc_values = vs, nc_present = p\<rparr> r"
  by (simp add: rs_get_def nc_get_def storage_get_rep)

lemma dc_get_rep:
  assumes "present_rep R vals p" "list_all2 (code_rep vs) vals cs" "dict_fits vs"
    "\<forall>i. codes_get codes i = list_get cs i"
  shows "map_option CvString (dc_get R \<lparr>dc_codes = codes, dc_dictionary = builder_finish (builder_rep vs), dc_present = p\<rparr> r)
    = Option.bind (list_get vals (unat r)) id"
proof (cases "r \<in> rows R p")
  case True
  then obtain w where w: "unat r < length vals" "vals ! unat r = Some w"
    using assms(1) by (auto simp: present_rep_def list_get_def split: if_splits)
  then have "code_rep vs (Some w) (cs ! unat r)" and l: "unat r < length cs"
    using assms(2) by (auto simp: list_all2_conv_all_nth)
  then obtain i where i: "i < length vs" "w = CvString (vs ! i)" "cs ! unat r = word_of_nat i"
    by (auto simp: code_rep_def)
  then have "unat (word_of_nat i :: u32) = i"
    using assms(3) by (intro unat_word_of_nat_u32) (simp add: dict_fits_def)
  then show ?thesis
    using True w i l assms(3,4) by (simp add: dc_get_def dict_get_rep)
next
  case False
  then have "Option.bind (list_get vals (unat r)) id = None"
    using assms(1) by (cases "list_get vals (unat r)") (auto simp: present_rep_def)
  then show ?thesis using False by (simp add: dc_get_def)
qed

lemma present_rep_get: "present_rep R vals p \<Longrightarrow> r \<in> rows R p \<Longrightarrow> Option.bind (list_get vals (unat r)) id \<noteq> None"
  by (auto simp: present_rep_def)

lemma finish_dictionary:
  assumes "bcol_rep R vals (BDictionary cs d p)"
  shows "\<exists>c. builder_column_finish (BDictionary cs d p) = Ok c \<and> column_type_of c = TypeDictionaryString
    \<and> column_len c = length vals \<and> column_wf R c
    \<and> (\<forall>r. column_get R c r = Option.bind (list_get vals (unat r)) id)"
proof -
  obtain vs where vs: "dict_fits vs" "d = builder_rep vs" "list_all2 (code_rep vs) vals cs"
    and p: "present_rep R vals p" using assms by auto
  have "c = 0 \<or> unat c < length vs" if c: "c \<in> set cs" for c
  proof -
    obtain j where "j < length cs" "cs ! j = c" using c by (auto simp: in_set_conv_nth)
    then have "code_rep vs (vals ! j) c" using vs(3) by (auto simp: list_all2_conv_all_nth)
    then show ?thesis
      using vs(1) unat_word_of_nat_u32 by (auto simp: code_rep_def dict_fits_def)
  qed
  then obtain codes where codes: "codes_from_u32 cs (u64_of_usize (length vs)) = Ok codes"
      "codes_len codes = length cs" "\<forall>i. codes_get codes i = list_get cs i"
    using codes_from_u32_ok [of cs "length vs"] vs(1) by (auto simp: dict_fits_def)
  note get = dc_get_rep [OF p vs(3,1) codes(3)]
  have "dc_get R \<lparr>dc_codes = codes, dc_dictionary = builder_finish (builder_rep vs), dc_present = p\<rparr> r \<noteq> None"
    if "r \<in> rows R p" for r
    using get [of r] present_rep_get [OF p that] by (metis option.map_disc_iff)
  then show ?thesis
    using vs codes get list_all2_lengthD [OF vs(3)] by (auto simp: builder_cardinality_def)
qed

lemma finish_rep:
  assumes "bcol_rep R vals b"
  shows "\<exists>c. builder_column_finish b = Ok c \<and> column_type_of c = builder_column_type b
    \<and> column_len c = length vals \<and> column_wf R c
    \<and> (\<forall>r. column_get R c r = Option.bind (list_get vals (unat r)) id)"
proof (cases b)
  case (BDictionary cs d p)
  then show ?thesis using finish_dictionary assms by simp
next
  case (BRaw s p)
  then obtain vs where vs: "storable vs" "s = storage_rep vs" "cells_rep CvString [] vals vs"
    and p: "present_rep R vals p" using assms by auto
  note get = nc_get_rep [OF p vs(3)]
  have "nc_get R \<lparr>nc_values = vs, nc_present = p\<rparr> r \<noteq> None" if "r \<in> rows R p" for r
    using get [of r] present_rep_get [OF p that] by (metis option.map_disc_iff)
  then show ?thesis
    using BRaw vs get cells_rep_length [OF vs(3)] present_rep_get [OF p] by (auto simp: rs_get_nc)
next
  case (BBool xs p)
  then obtain bs where bs: "xs = map of_bool bs" "cells_rep CvBool False vals bs"
    and p: "present_rep R vals p" using assms by auto
  note get = nc_get_rep [OF p bs(2)]
  have "nc_get R \<lparr>nc_values = bs, nc_present = p\<rparr> r \<noteq> None" if "r \<in> rows R p" for r
    using get [of r] present_rep_get [OF p that] by (metis option.map_disc_iff)
  then show ?thesis
    using BBool bs get cells_rep_length [OF bs(2)] by (auto simp: bc_get_nc)
next
  case (BU64 xs p)
  then show ?thesis
    using assms nc_get_rep [of vals p CvU64 0 xs] present_rep_get [of vals p] cells_rep_length [of CvU64 0 vals xs]
    by auto
next
  case (BId128 xs p)
  then show ?thesis
    using assms nc_get_rep [of vals p CvId128 0 xs] present_rep_get [of vals p] cells_rep_length [of CvId128 0 vals xs]
    by auto
next
  case (BI64 xs p)
  then show ?thesis
    using assms nc_get_rep [of vals p CvI64 0 xs] present_rep_get [of vals p] cells_rep_length [of CvI64 0 vals xs]
    by auto
next
  case (BF64 xs p)
  then show ?thesis
    using assms nc_get_rep [of vals p CvF64 0 xs] present_rep_get [of vals p] cells_rep_length [of CvF64 0 vals xs]
    by auto
qed

end

end
