(* ===== verification/Columns_Store.thy ===== *)
theory Columns_Store
  imports Columns_Rep
begin

text \<open>
  The row builder as a whole: a rejected row leaves it unchanged, an accepted one appends one cell to
  every column, and the finished store reads back the accepted rows.
\<close>

type_synonym row = "i64 \<times> column_input list"

abbreviation cell_of :: "column_definition \<Rightarrow> row \<Rightarrow> column_value option" where
  "cell_of d x \<equiv> row_value (fst x) (snd x) d"

definition column_built :: "'b roaring \<Rightarrow> row list \<Rightarrow> column_definition \<Rightarrow> 'b builder_column \<Rightarrow> bool" where
  "column_built R hist d b \<longleftrightarrow> builder_column_type b = col_type d \<and> bcol_rep R (map (cell_of d) hist) b"

definition builder_ok :: "'b roaring \<Rightarrow> row list \<Rightarrow> 'b store_builder \<Rightarrow> bool" where
  "builder_ok R hist b \<longleftrightarrow> schema_ok (sb_schema b) \<and> unat (sb_row_count b) = length hist
     \<and> list_all2 (column_built R hist) (columns (sb_schema b)) (sb_columns b)"

text \<open>The strings of a row are Rust strings.\<close>

definition row_fits :: "row \<Rightarrow> bool" where
  "row_fits x \<longleftrightarrow> (\<forall>i \<in> set (snd x). value_fits (Some (ci_value i)))"

definition store_cell :: "'b roaring \<Rightarrow> 'b column_store \<Rightarrow> u32 \<Rightarrow> u32 \<Rightarrow> column_value option" where
  "store_cell R s col r = Option.bind (store_column s col) (\<lambda>c. column_get R c r)"

lemma validate_each_typed:
  "validate_each s seen inputs = Ok () \<Longrightarrow> i \<in> set inputs \<Longrightarrow>
   \<exists>d. schema_column s (ci_column i) = Some d \<and> compatible_with (ci_value i) (col_type d)"
  by (induction inputs arbitrary: seen) (auto simp: result_Inr split: if_splits)

lemma row_value_input:
  "row_value ts inputs d = Some v \<Longrightarrow> col_id d \<noteq> TIMESTAMP_COLUMN \<Longrightarrow>
   \<exists>i \<in> set inputs. ci_column i = col_id d \<and> ci_value i = v"
  by (auto simp: row_value_def find_input_def find_Some_iff dest: nth_mem)

lemma row_value_typed:
  assumes "schema_ok s" "validate_inputs s inputs = Ok ()" "d \<in> set (columns s)" "row_value ts inputs d = Some v"
  shows "compatible_with v (col_type d)"
proof (cases "col_id d = TIMESTAMP_COLUMN")
  case True
  have "schema_column s TIMESTAMP_COLUMN = Some ts_column"
    using assms(1) by (auto simp: schema_column_def schema_ok_def TIMESTAMP_COLUMN_def)
  moreover have "schema_column s TIMESTAMP_COLUMN = Some d"
    using True assms(3) schema_column_Some [OF assms(1)] by blast
  ultimately have "col_type d = TypeI64" by (simp add: ts_column_def)
  then show ?thesis using True assms(4) by (auto simp: row_value_def)
next
  case False
  then obtain i where i: "i \<in> set inputs" "ci_column i = col_id d" "ci_value i = v"
    using row_value_input [OF assms(4)] by blast
  have "validate_each s [] inputs = Ok ()" using assms(2) by (auto simp: validate_inputs_def result_Inr)
  then obtain e where "schema_column s (col_id d) = Some e" "compatible_with v (col_type e)"
    using validate_each_typed i by metis
  moreover have "schema_column s (col_id d) = Some d"
    using assms(3) schema_column_Some [OF assms(1)] by blast
  ultimately show ?thesis by simp
qed

lemma row_value_fits: "row_fits (ts, inputs) \<Longrightarrow> value_fits (row_value ts inputs d)"
proof (cases "col_id d = TIMESTAMP_COLUMN")
  case False
  assume "row_fits (ts, inputs)"
  then show ?thesis
    using row_value_input [OF _ False] by (fastforce simp: row_fits_def value_fits_def)
qed (simp add: value_fits_def row_value_def)

definition column_finished :: "'b roaring \<Rightarrow> row list \<Rightarrow> column_definition \<Rightarrow> 'b column \<Rightarrow> bool" where
  "column_finished R hist d c \<longleftrightarrow> column_type_of c = col_type d \<and> column_len c = length hist \<and> column_wf R c
     \<and> (\<forall>r. column_get R c r = Option.bind (list_get hist (unat r)) (cell_of d))"

lemma unat_max_u32: "unat (- 1 :: u32) = u32_max"
  by (simp add: u32_max_def unsigned_minus_1_eq_mask mask_eq_exp_minus_1)

context doc_bitmaps
begin

lemma push_all_ok:
  assumes "list_all2 (column_built R hist) ds bs" "preflight_all ts inputs ds bs = Ok ()"
    and "unat row = length hist" "length hist < u32_max" "row_fits (ts, inputs)"
    and "\<And>d v. d \<in> set ds \<Longrightarrow> row_value ts inputs d = Some v \<Longrightarrow> compatible_with v (col_type d)"
  shows "\<exists>bs'. push_all R row ts inputs ds bs = (Ok (), bs') \<and> list_all2 (column_built R (hist @ [(ts, inputs)])) ds bs'"
  using assms(1,2,6)
proof (induction rule: list_all2_induct)
  case (Cons d ds b bs)
  have "preflight b (row_value ts inputs d) = Ok ()" "preflight_all ts inputs ds bs = Ok ()"
    using Cons.prems by (auto simp: result_Inr)
  moreover obtain b' where b': "builder_column_push R row (col_id d) b (row_value ts inputs d) = (Ok (), b')"
      "bcol_rep R (map (cell_of d) hist @ [row_value ts inputs d]) b'" "builder_column_type b' = builder_column_type b"
    using push_rep [of "map (cell_of d) hist" b row "row_value ts inputs d" "col_id d"] Cons calculation assms
      row_value_fits [OF assms(5)] by (auto simp: column_built_def)
  moreover obtain bs' where "push_all R row ts inputs ds bs = (Ok (), bs')"
      "list_all2 (column_built R (hist @ [(ts, inputs)])) ds bs'"
    using Cons calculation by auto
  moreover have "column_built R (hist @ [(ts, inputs)]) d b'"
    using b' Cons.hyps by (simp add: column_built_def)
  ultimately show ?case by simp
qed simp

lemma push_row_ok:
  assumes "builder_ok R hist b" "row_fits (ts, inputs)"
  shows "case push_row R ts inputs b of
      (Inl e, b') \<Rightarrow> b' = b
    | (Inr row, b') \<Rightarrow> row = sb_row_count b \<and> builder_ok R (hist @ [(ts, inputs)]) b' \<and> sb_schema b' = sb_schema b"
proof (cases "sb_row_count b = - 1 \<or> (\<exists>e. validate_inputs (sb_schema b) inputs = Err e)
    \<or> (\<exists>e. preflight_all ts inputs (columns (sb_schema b)) (sb_columns b) = Err e)")
  case True
  then show ?thesis by (auto simp: push_row_def split: sum.splits)
next
  case False
  then have v: "validate_inputs (sb_schema b) inputs = Ok ()"
    and p: "preflight_all ts inputs (columns (sb_schema b)) (sb_columns b) = Ok ()" and c: "sb_row_count b \<noteq> - 1"
    using sum.exhaust by (metis old.unit.exhaust)+
  have n: "unat (sb_row_count b) = length hist" using assms(1) by (simp add: builder_ok_def)
  have "unat (sb_row_count b) \<noteq> u32_max"
    using c by (metis unat_max_u32 word_unat_eq_iff)
  then have less: "length hist < u32_max" using n unat_u32_le [of "sb_row_count b"] by simp
  have ok: "schema_ok (sb_schema b)" "list_all2 (column_built R hist) (columns (sb_schema b)) (sb_columns b)"
    using assms(1) by (auto simp: builder_ok_def)
  obtain bs where bs: "push_all R (sb_row_count b) ts inputs (columns (sb_schema b)) (sb_columns b) = (Ok (), bs)"
      "list_all2 (column_built R (hist @ [(ts, inputs)])) (columns (sb_schema b)) bs"
    using push_all_ok [OF ok(2) p n less assms(2)] row_value_typed [OF ok(1) v] by blast
  have "unat (sb_row_count b + 1) = Suc (length hist)"
    using n less by (simp add: unat_word_ariths u32_max_def)
  then show ?thesis
    using v p c bs ok(1) by (auto simp: push_row_def builder_ok_def Let_def)
qed

lemma builder_ok_new: "schema_ok s \<Longrightarrow> builder_ok R [] (store_builder_new R s)"
proof -
  have "column_built R [] d (builder_column_new R (col_type d))" for d
    by (cases "col_type d") (auto simp: column_built_def present_rep_def cells_rep_def storage_new_rep
        builder_new_rep storable_def dict_fits_def usize_max_def intro!: exI [of _ "[]"])
  then show "schema_ok s \<Longrightarrow> builder_ok R [] (store_builder_new R s)"
    by (simp add: builder_ok_def store_builder_new_def list_all2_conv_all_nth)
qed

lemma finish_all_ok:
  "list_all2 (column_built R hist) ds bs \<Longrightarrow>
   \<exists>cs. finish_all bs = Ok cs \<and> list_all2 (column_finished R hist) ds cs"
proof (induction rule: list_all2_induct)
  case (Cons d ds b bs)
  then obtain c where "builder_column_finish b = Ok c" "column_finished R hist d c"
    using finish_rep [of "map (cell_of d) hist" b]
    by (auto simp: column_built_def column_finished_def bind_map_option comp_def)
  then show ?case using Cons by auto
qed simp

lemma finished_column:
  assumes "distinct (map col_id ds)" "list_all2 P ds cs" "d \<in> set ds"
  shows "\<exists>c. find (\<lambda>(d', c). col_id d' = col_id d) (zip ds cs) = Some (d, c) \<and> P d c"
  using assms(2,1,3)
proof (induction rule: list_all2_induct)
  case (Cons e ds c cs)
  then show ?case by (cases "e = d") (auto simp: image_iff)
qed simp

lemma finish_ok:
  assumes "builder_ok R hist b"
  shows "\<exists>st. builder_store_finish b = Ok st \<and> store_schema st = sb_schema b \<and> store_row_count st = sb_row_count b
    \<and> list_all2 (column_finished R hist) (columns (sb_schema b)) (store_columns st)"
  using assms finish_all_ok [of hist "columns (sb_schema b)" "sb_columns b"]
  by (auto simp: builder_ok_def builder_store_finish_def)

end

end
