(* ===== verification/Meta_Predicate.thy ===== *)
theory Meta_Predicate
  imports Columns_Store Payload "HOL-Library.Multiset"
begin

text \<open>
  The metadata predicate language and its bitmap evaluation (\<^verbatim>\<open>src/meta/predicate.rs\<close>).
  \<open>f64\<close> values are their bits; the comparisons below are those of IEEE 754.
\<close>

section \<open>Floating-point comparisons\<close>

definition f64_magnitude :: "f64 \<Rightarrow> int" where
  "f64_magnitude x = uint (take_bit 63 x)"

definition f64_is_nan :: "f64 \<Rightarrow> bool" where
  "f64_is_nan x \<longleftrightarrow> 0x7FF0000000000000 < f64_magnitude x"

definition f64_key :: "f64 \<Rightarrow> int" where
  "f64_key x = (if bit x 63 then - f64_magnitude x else f64_magnitude x)"

definition f64_eq :: "f64 \<Rightarrow> f64 \<Rightarrow> bool" where
  "f64_eq a b \<longleftrightarrow> \<not> f64_is_nan a \<and> \<not> f64_is_nan b \<and> f64_key a = f64_key b"

definition f64_lt :: "f64 \<Rightarrow> f64 \<Rightarrow> bool" where
  "f64_lt a b \<longleftrightarrow> \<not> f64_is_nan a \<and> \<not> f64_is_nan b \<and> f64_key a < f64_key b"

definition f64_le :: "f64 \<Rightarrow> f64 \<Rightarrow> bool" where
  "f64_le a b \<longleftrightarrow> \<not> f64_is_nan a \<and> \<not> f64_is_nan b \<and> f64_key a \<le> f64_key b"

section \<open>The language\<close>

fun pv_type :: "predicate_value \<Rightarrow> column_type" where
  "pv_type (PvId128 _) = TypeId128"
| "pv_type (PvU64 _) = TypeU64"
| "pv_type (PvI64 _) = TypeI64"
| "pv_type (PvF64 _) = TypeF64"
| "pv_type (PvBool _) = TypeBool"
| "pv_type (PvString _) = TypeRawString"

record range_bound =
  bnd_value :: predicate_value
  bnd_inclusive :: bool

record range_predicate =
  rng_column :: u32
  rng_lower :: "range_bound option"
  rng_upper :: "range_bound option"

datatype predicate =
    PEq u32 predicate_value
  | PIn u32 "predicate_value list"
  | PRange range_predicate
  | PExists u32
  | PIsNull u32
  | PAnd "predicate list"
  | POr "predicate list"
  | PNot predicate

datatype eval_error =
    RowCountMismatch u32 u32
  | EvalUnknownColumn u32
  | EvalTypeMismatch u32 column_type column_type
  | EvalRangeRequiresNumeric u32

section \<open>Leaves\<close>

definition get_column :: "'b column_store \<Rightarrow> u32 \<Rightarrow> (eval_error, 'b column) result" where
  "get_column s i = ok_or (EvalUnknownColumn i) (store_column s i)"

text \<open>
  The loops \<open>for (position, value) in values.iter().enumerate()\<close>: a position that does not fit 32
  bits ends the loop, a row that passes the test is inserted.
\<close>

fun select_rows :: "'b roaring \<Rightarrow> (nat \<Rightarrow> u32 \<Rightarrow> bool) \<Rightarrow> nat \<Rightarrow> nat \<Rightarrow> 'b \<Rightarrow> 'b" where
  "select_rows R P pos 0 acc = acc"
| "select_rows R P pos (Suc n) acc =
     (case u32_try_from pos of
        None \<Rightarrow> acc
      | Some row \<Rightarrow> select_rows R P (Suc pos) n (if P pos row then snd (doc_insert R row acc) else acc))"

definition eval_values_eq :: "'b roaring \<Rightarrow> ('v \<Rightarrow> 'v \<Rightarrow> bool) \<Rightarrow> 'v list \<Rightarrow> 'b \<Rightarrow> 'b \<Rightarrow> 'v \<Rightarrow> 'b" where
  "eval_values_eq R eq values present scope query =
     select_rows R (\<lambda>pos row. doc_contains R scope row \<and> doc_contains R present row \<and> eq (values ! pos) query)
       0 (length values) (doc_new R)"

definition eval_dictionary_eq :: "'b roaring \<Rightarrow> 'b dictionary_column \<Rightarrow> bytes \<Rightarrow> 'b \<Rightarrow> 'b" where
  "eval_dictionary_eq R c query scope =
     (case dict_find (dc_dictionary c) query of
        None \<Rightarrow> doc_new R
      | Some query_code \<Rightarrow>
          select_rows R (\<lambda>pos row. doc_contains R scope row \<and> doc_contains R (dc_present c) row
                         \<and> codes_iter (dc_codes c) ! pos = query_code)
            0 (length (codes_iter (dc_codes c))) (doc_new R))"

definition eval_raw_string_eq :: "'b roaring \<Rightarrow> 'b raw_string_column \<Rightarrow> bytes \<Rightarrow> 'b \<Rightarrow> 'b" where
  "eval_raw_string_eq R c query scope =
     select_rows R (\<lambda>pos row. doc_contains R scope row \<and> doc_contains R (rs_present c) row
                    \<and> storage_get (rs_values c) pos = Some query)
       0 (storage_len (rs_values c)) (doc_new R)"

fun type_compatible :: "column_type \<Rightarrow> predicate_value \<Rightarrow> bool" where
  "type_compatible ty (PvId128 _) \<longleftrightarrow> ty = TypeId128"
| "type_compatible ty (PvU64 _) \<longleftrightarrow> ty = TypeU64"
| "type_compatible ty (PvI64 _) \<longleftrightarrow> ty = TypeI64"
| "type_compatible ty (PvF64 _) \<longleftrightarrow> ty = TypeF64"
| "type_compatible ty (PvBool _) \<longleftrightarrow> ty = TypeBool"
| "type_compatible ty (PvString _) \<longleftrightarrow> ty = TypeDictionaryString \<or> ty = TypeRawString"

definition ensure_type :: "u32 \<Rightarrow> 'b column \<Rightarrow> predicate_value \<Rightarrow> (eval_error, unit) result" where
  "ensure_type i c query =
     (if type_compatible (column_type_of c) query then Ok ()
      else Err (EvalTypeMismatch i (column_type_of c) (pv_type query)))"

fun eval_eq_column :: "'b roaring \<Rightarrow> 'b column \<Rightarrow> predicate_value \<Rightarrow> 'b \<Rightarrow> 'b" where
  "eval_eq_column R (ColId128 c) (PvId128 q) scope = eval_values_eq R (=) (nc_values c) (nc_present c) scope q"
| "eval_eq_column R (ColU64 c) (PvU64 q) scope = eval_values_eq R (=) (nc_values c) (nc_present c) scope q"
| "eval_eq_column R (ColI64 c) (PvI64 q) scope = eval_values_eq R (=) (nc_values c) (nc_present c) scope q"
| "eval_eq_column R (ColF64 c) (PvF64 q) scope = eval_values_eq R f64_eq (nc_values c) (nc_present c) scope q"
| "eval_eq_column R (ColBool c) (PvBool q) scope =
     eval_values_eq R (=) (bc_values c) (bc_present c) scope (of_bool q)"
| "eval_eq_column R (ColDictionary c) (PvString q) scope = eval_dictionary_eq R c q scope"
| "eval_eq_column R (ColRaw c) (PvString q) scope = eval_raw_string_eq R c q scope"
| "eval_eq_column R _ _ scope = doc_new R"

definition eval_eq :: "'b roaring \<Rightarrow> u32 \<Rightarrow> predicate_value \<Rightarrow> 'b column_store \<Rightarrow> 'b \<Rightarrow> (eval_error, 'b) result" where
  "eval_eq R i query s scope =
     and_then (get_column s i) (\<lambda>c. and_then (ensure_type i c query) (\<lambda>_. Ok (eval_eq_column R c query scope)))"

primrec ensure_types :: "u32 \<Rightarrow> 'b column \<Rightarrow> predicate_value list \<Rightarrow> (eval_error, unit) result" where
  "ensure_types i c [] = Ok ()"
| "ensure_types i c (q # qs) = and_then (ensure_type i c q) (\<lambda>_. ensure_types i c qs)"

primrec eval_in_loop ::
  "'b roaring \<Rightarrow> u32 \<Rightarrow> 'b column_store \<Rightarrow> 'b \<Rightarrow> predicate_value list \<Rightarrow> 'b \<Rightarrow> (eval_error, 'b) result" where
  "eval_in_loop R i s scope [] acc = Ok acc"
| "eval_in_loop R i s scope (q # qs) acc =
     and_then (eval_eq R i q s scope) (\<lambda>r. eval_in_loop R i s scope qs (union_with R acc r))"

definition raw_members :: "predicate_value list \<Rightarrow> bytes set" where
  "raw_members queries = set (List.map_filter (\<lambda>q. case q of PvString v \<Rightarrow> Some v | _ \<Rightarrow> None) queries)"

lemma raw_members_iff [simp]: "v \<in> raw_members queries \<longleftrightarrow> PvString v \<in> set queries"
proof (induction queries)
  case (Cons q queries)
  then show ?case by (cases q) (auto simp: raw_members_def List.map_filter_simps)
qed (simp add: raw_members_def List.map_filter_simps)

definition eval_in ::
  "'b roaring \<Rightarrow> u32 \<Rightarrow> predicate_value list \<Rightarrow> 'b column_store \<Rightarrow> 'b \<Rightarrow> (eval_error, 'b) result" where
  "eval_in R i queries s scope =
     and_then (get_column s i) (\<lambda>c.
     and_then (ensure_types i c queries) (\<lambda>_.
     case c of
       ColRaw rc \<Rightarrow>
         if queries = [] then Ok (doc_new R)
         else Ok (select_rows R (\<lambda>pos row. doc_contains R scope row \<and> doc_contains R (rs_present rc) row
                     \<and> (case storage_get (rs_values rc) pos of Some v \<Rightarrow> v \<in> raw_members queries | None \<Rightarrow> False))
                   0 (storage_len (rs_values rc)) (doc_new R))
     | _ \<Rightarrow> eval_in_loop R i s scope queries (doc_new R)))"

section \<open>Ranges\<close>

definition eval_type_error :: "u32 \<Rightarrow> column_type \<Rightarrow> predicate_value \<Rightarrow> eval_error" where
  "eval_type_error i expected v = EvalTypeMismatch i expected (pv_type v)"

definition u64_bound :: "u32 \<Rightarrow> range_bound option \<Rightarrow> (eval_error, (u64 \<times> bool) option) result" where
  "u64_bound i bound =
     (case bound of
        None \<Rightarrow> Ok None
      | Some b \<Rightarrow> (case bnd_value b of
                    PvU64 v \<Rightarrow> Ok (Some (v, bnd_inclusive b))
                  | v \<Rightarrow> Err (eval_type_error i TypeU64 v)))"

definition i64_bound :: "u32 \<Rightarrow> range_bound option \<Rightarrow> (eval_error, (i64 \<times> bool) option) result" where
  "i64_bound i bound =
     (case bound of
        None \<Rightarrow> Ok None
      | Some b \<Rightarrow> (case bnd_value b of
                    PvI64 v \<Rightarrow> Ok (Some (v, bnd_inclusive b))
                  | v \<Rightarrow> Err (eval_type_error i TypeI64 v)))"

definition f64_bound :: "u32 \<Rightarrow> range_bound option \<Rightarrow> (eval_error, (f64 \<times> bool) option) result" where
  "f64_bound i bound =
     (case bound of
        None \<Rightarrow> Ok None
      | Some b \<Rightarrow> (case bnd_value b of
                    PvF64 v \<Rightarrow> Ok (Some (v, bnd_inclusive b))
                  | v \<Rightarrow> Err (eval_type_error i TypeF64 v)))"

text \<open>The comparisons of the value type are arguments: \<open>lt\<close> and \<open>le\<close>.\<close>

definition lower_matches :: "('v \<Rightarrow> 'v \<Rightarrow> bool) \<Rightarrow> ('v \<Rightarrow> 'v \<Rightarrow> bool) \<Rightarrow> 'v \<Rightarrow> ('v \<times> bool) option \<Rightarrow> bool" where
  "lower_matches lt le v bound =
     (case bound of None \<Rightarrow> True | Some (endpoint, inclusive) \<Rightarrow> if inclusive then le endpoint v else lt endpoint v)"

definition upper_matches :: "('v \<Rightarrow> 'v \<Rightarrow> bool) \<Rightarrow> ('v \<Rightarrow> 'v \<Rightarrow> bool) \<Rightarrow> 'v \<Rightarrow> ('v \<times> bool) option \<Rightarrow> bool" where
  "upper_matches lt le v bound =
     (case bound of None \<Rightarrow> True | Some (endpoint, inclusive) \<Rightarrow> if inclusive then le v endpoint else lt v endpoint)"

definition eval_ordered_range ::
  "'b roaring \<Rightarrow> ('v \<Rightarrow> 'v \<Rightarrow> bool) \<Rightarrow> ('v \<Rightarrow> 'v \<Rightarrow> bool) \<Rightarrow> 'v list \<Rightarrow> 'b \<Rightarrow> 'b
   \<Rightarrow> ('v \<times> bool) option \<Rightarrow> ('v \<times> bool) option \<Rightarrow> 'b" where
  "eval_ordered_range R lt le values present scope lower upper =
     select_rows R (\<lambda>pos row. doc_contains R scope row \<and> doc_contains R present row
                    \<and> lower_matches lt le (values ! pos) lower \<and> upper_matches lt le (values ! pos) upper)
       0 (length values) (doc_new R)"

definition eval_f64_range ::
  "'b roaring \<Rightarrow> f64 list \<Rightarrow> 'b \<Rightarrow> 'b \<Rightarrow> (f64 \<times> bool) option \<Rightarrow> (f64 \<times> bool) option \<Rightarrow> 'b" where
  "eval_f64_range R values present scope lower upper =
     (if (case lower of Some (v, _) \<Rightarrow> f64_is_nan v | None \<Rightarrow> False)
         \<or> (case upper of Some (v, _) \<Rightarrow> f64_is_nan v | None \<Rightarrow> False)
      then doc_new R
      else select_rows R (\<lambda>pos row. \<not> f64_is_nan (values ! pos) \<and> doc_contains R scope row \<and> doc_contains R present row
             \<and> lower_matches f64_lt f64_le (values ! pos) lower \<and> upper_matches f64_lt f64_le (values ! pos) upper)
             0 (length values) (doc_new R))"

definition i64_lt :: "i64 \<Rightarrow> i64 \<Rightarrow> bool" where
  "i64_lt a b \<longleftrightarrow> sint a < sint b"

definition i64_le :: "i64 \<Rightarrow> i64 \<Rightarrow> bool" where
  "i64_le a b \<longleftrightarrow> sint a \<le> sint b"

definition eval_range :: "'b roaring \<Rightarrow> range_predicate \<Rightarrow> 'b column_store \<Rightarrow> 'b \<Rightarrow> (eval_error, 'b) result" where
  "eval_range R g s scope =
     and_then (get_column s (rng_column g)) (\<lambda>c.
     case c of
       ColU64 c \<Rightarrow>
         and_then (u64_bound (rng_column g) (rng_lower g)) (\<lambda>lower.
         and_then (u64_bound (rng_column g) (rng_upper g)) (\<lambda>upper.
         Ok (eval_ordered_range R (<) (\<le>) (nc_values c) (nc_present c) scope lower upper)))
     | ColI64 c \<Rightarrow>
         and_then (i64_bound (rng_column g) (rng_lower g)) (\<lambda>lower.
         and_then (i64_bound (rng_column g) (rng_upper g)) (\<lambda>upper.
         Ok (eval_ordered_range R i64_lt i64_le (nc_values c) (nc_present c) scope lower upper)))
     | ColF64 c \<Rightarrow>
         and_then (f64_bound (rng_column g) (rng_lower g)) (\<lambda>lower.
         and_then (f64_bound (rng_column g) (rng_upper g)) (\<lambda>upper.
         Ok (eval_f64_range R (nc_values c) (nc_present c) scope lower upper)))
     | _ \<Rightarrow> Err (EvalRangeRequiresNumeric (rng_column g)))"

section \<open>Cardinality estimates\<close>

definition div_ceil_u64 :: "u64 \<Rightarrow> u64 \<Rightarrow> u64" where
  "div_ceil_u64 a b = word_of_nat ((unat a + unat b - 1) div unat b)"

definition saturating_mul_u64 :: "u64 \<Rightarrow> u64 \<Rightarrow> u64" where
  "saturating_mul_u64 a b = (if unat a * unat b \<le> usize_max then a * b else - 1)"

fun estimate_cardinality :: "'b roaring \<Rightarrow> 'b column_store \<Rightarrow> 'b \<Rightarrow> predicate \<Rightarrow> u64" where
  "estimate_cardinality R s scope (PEq _ _) = div_ceil_u64 (doc_cardinality R scope) 16"
| "estimate_cardinality R s scope (PIn _ values) =
     min (div_ceil_u64 (saturating_mul_u64 (doc_cardinality R scope) (u64_of_usize (length values))) 16)
       (doc_cardinality R scope)"
| "estimate_cardinality R s scope (PRange _) = doc_cardinality R scope div 2"
| "estimate_cardinality R s scope (PExists i) =
     (case store_column s i of
        None \<Rightarrow> doc_cardinality R scope
      | Some c \<Rightarrow> doc_cardinality R (intersect_with R (column_present c) scope))"
| "estimate_cardinality R s scope (PIsNull i) =
     (case store_column s i of
        None \<Rightarrow> doc_cardinality R scope
      | Some c \<Rightarrow> doc_cardinality R (doc_subtract R scope (column_present c)))"
| "estimate_cardinality R s scope (PAnd children) =
     (case map (estimate_cardinality R s scope) children of
        [] \<Rightarrow> doc_cardinality R scope
      | e # es \<Rightarrow> fold min es e)"
| "estimate_cardinality R s scope (POr children) =
     min (foldl saturating_add_u64 0 (map (estimate_cardinality R s scope) children)) (doc_cardinality R scope)"
| "estimate_cardinality R s scope (PNot _) = doc_cardinality R scope div 2"

section \<open>Evaluation\<close>

lemma size_list_sort_key [termination_simp]: "size_list f (sort_key g xs) = size_list f xs"
proof -
  have "size_list f xs = sum_list (map f xs) + length xs" for xs :: "'a list" by (induction xs) auto
  moreover have "sum_list (map f (sort_key g xs)) = sum_list (map f xs)"
    by (metis mset_map mset_sort sum_mset_sum_list)
  ultimately show ?thesis by simp
qed

fun evaluate_in_scope :: "'b roaring \<Rightarrow> 'b column_store \<Rightarrow> 'b \<Rightarrow> predicate \<Rightarrow> (eval_error, 'b) result"
  and eval_and_loop :: "'b roaring \<Rightarrow> 'b column_store \<Rightarrow> predicate list \<Rightarrow> 'b \<Rightarrow> (eval_error, 'b) result"
  and eval_or_loop :: "'b roaring \<Rightarrow> 'b column_store \<Rightarrow> 'b \<Rightarrow> predicate list \<Rightarrow> 'b \<Rightarrow> (eval_error, 'b) result" where
  "evaluate_in_scope R s scope (PEq i v) = eval_eq R i v s scope"
| "evaluate_in_scope R s scope (PIn i vs) = eval_in R i vs s scope"
| "evaluate_in_scope R s scope (PRange g) = eval_range R g s scope"
| "evaluate_in_scope R s scope (PExists i) =
     map_ok (\<lambda>c. intersect_with R (column_present c) scope) (get_column s i)"
| "evaluate_in_scope R s scope (PIsNull i) =
     map_ok (\<lambda>c. doc_subtract R scope (column_present c)) (get_column s i)"
| "evaluate_in_scope R s scope (PAnd children) =
     eval_and_loop R s (sort_key (estimate_cardinality R s scope) children) scope"
| "evaluate_in_scope R s scope (POr children) = eval_or_loop R s scope children (doc_new R)"
| "evaluate_in_scope R s scope (PNot child) =
     map_ok (\<lambda>r. doc_subtract R scope r) (evaluate_in_scope R s scope child)"
| "eval_and_loop R s [] acc = Ok acc"
| "eval_and_loop R s (child # rest) acc =
     (if doc_is_empty R acc then Ok acc
      else and_then (evaluate_in_scope R s acc child) (\<lambda>acc. eval_and_loop R s rest acc))"
| "eval_or_loop R s scope [] acc = Ok acc"
| "eval_or_loop R s scope (child # rest) acc =
     (let remaining = doc_subtract R scope acc in
      if doc_is_empty R remaining then Ok acc
      else and_then (evaluate_in_scope R s remaining child) (\<lambda>r.
             eval_or_loop R s scope rest (union_with R acc r)))"

definition evaluate ::
  "'b roaring \<Rightarrow> predicate \<Rightarrow> 'b column_store \<Rightarrow> 'b alive_set \<Rightarrow> (eval_error, 'b) result" where
  "evaluate R p s alive =
     (if store_row_count s \<noteq> al_row_count alive
      then Err (RowCountMismatch (store_row_count s) (al_row_count alive))
      else evaluate_in_scope R s (al_alive alive) p)"

end
