(* ===== verification/Predicate_Sem.thy ===== *)
theory Predicate_Sem
  imports Meta_Predicate
begin

text \<open>
  A row-at-a-time reading of predicates, and the proof that the bitmap evaluation computes it: the
  order of conjuncts, the narrowing of the scope and the early exits never change the result.
\<close>

section \<open>Reference semantics\<close>

fun cell_equals :: "column_value \<Rightarrow> predicate_value \<Rightarrow> bool" where
  "cell_equals (CvId128 v) (PvId128 q) \<longleftrightarrow> v = q"
| "cell_equals (CvU64 v) (PvU64 q) \<longleftrightarrow> v = q"
| "cell_equals (CvI64 v) (PvI64 q) \<longleftrightarrow> v = q"
| "cell_equals (CvF64 v) (PvF64 q) \<longleftrightarrow> f64_eq v q"
| "cell_equals (CvBool v) (PvBool q) \<longleftrightarrow> v = q"
| "cell_equals (CvString v) (PvString q) \<longleftrightarrow> v = q"
| "cell_equals _ _ \<longleftrightarrow> False"

fun cell_number :: "column_value \<Rightarrow> bool" where
  "cell_number (CvU64 v) \<longleftrightarrow> True"
| "cell_number (CvI64 v) \<longleftrightarrow> True"
| "cell_number (CvF64 v) \<longleftrightarrow> \<not> f64_is_nan v"
| "cell_number _ \<longleftrightarrow> False"

fun cell_less :: "bool \<Rightarrow> predicate_value \<Rightarrow> column_value \<Rightarrow> bool" where
  "cell_less inclusive (PvU64 e) (CvU64 v) \<longleftrightarrow> (if inclusive then e \<le> v else e < v)"
| "cell_less inclusive (PvI64 e) (CvI64 v) \<longleftrightarrow> (if inclusive then sint e \<le> sint v else sint e < sint v)"
| "cell_less inclusive (PvF64 e) (CvF64 v) \<longleftrightarrow> (if inclusive then f64_le e v else f64_lt e v)"
| "cell_less inclusive _ _ \<longleftrightarrow> False"

fun cell_greater :: "bool \<Rightarrow> predicate_value \<Rightarrow> column_value \<Rightarrow> bool" where
  "cell_greater inclusive (PvU64 e) (CvU64 v) \<longleftrightarrow> (if inclusive then v \<le> e else v < e)"
| "cell_greater inclusive (PvI64 e) (CvI64 v) \<longleftrightarrow> (if inclusive then sint v \<le> sint e else sint v < sint e)"
| "cell_greater inclusive (PvF64 e) (CvF64 v) \<longleftrightarrow> (if inclusive then f64_le v e else f64_lt v e)"
| "cell_greater inclusive _ _ \<longleftrightarrow> False"

definition cell_in_range :: "range_predicate \<Rightarrow> column_value \<Rightarrow> bool" where
  "cell_in_range g v \<longleftrightarrow> cell_number v
     \<and> (case rng_lower g of None \<Rightarrow> True | Some b \<Rightarrow> cell_less (bnd_inclusive b) (bnd_value b) v)
     \<and> (case rng_upper g of None \<Rightarrow> True | Some b \<Rightarrow> cell_greater (bnd_inclusive b) (bnd_value b) v)"

fun row_sat :: "(u32 \<Rightarrow> column_value option) \<Rightarrow> predicate \<Rightarrow> bool" where
  "row_sat cell (PEq i q) \<longleftrightarrow> (\<exists>v. cell i = Some v \<and> cell_equals v q)"
| "row_sat cell (PIn i qs) \<longleftrightarrow> (\<exists>v. cell i = Some v \<and> (\<exists>q \<in> set qs. cell_equals v q))"
| "row_sat cell (PRange g) \<longleftrightarrow> (\<exists>v. cell (rng_column g) = Some v \<and> cell_in_range g v)"
| "row_sat cell (PExists i) \<longleftrightarrow> cell i \<noteq> None"
| "row_sat cell (PIsNull i) \<longleftrightarrow> cell i = None"
| "row_sat cell (PAnd ps) \<longleftrightarrow> (\<forall>p \<in> set ps. row_sat cell p)"
| "row_sat cell (POr ps) \<longleftrightarrow> (\<exists>p \<in> set ps. row_sat cell p)"
| "row_sat cell (PNot p) \<longleftrightarrow> \<not> row_sat cell p"

lemma row_sat_code [code]:
  "row_sat cell (PEq i q) \<longleftrightarrow> (case cell i of None \<Rightarrow> False | Some v \<Rightarrow> cell_equals v q)"
  "row_sat cell (PIn i qs) \<longleftrightarrow> (case cell i of None \<Rightarrow> False | Some v \<Rightarrow> list_ex (cell_equals v) qs)"
  "row_sat cell (PRange g) \<longleftrightarrow> (case cell (rng_column g) of None \<Rightarrow> False | Some v \<Rightarrow> cell_in_range g v)"
  "row_sat cell (PExists i) \<longleftrightarrow> \<not> Option.is_none (cell i)"
  "row_sat cell (PIsNull i) \<longleftrightarrow> Option.is_none (cell i)"
  "row_sat cell (PAnd ps) \<longleftrightarrow> list_all (row_sat cell) ps"
  "row_sat cell (POr ps) \<longleftrightarrow> list_ex (row_sat cell) ps"
  "row_sat cell (PNot p) \<longleftrightarrow> \<not> row_sat cell p"
  by (auto simp: list_ex_iff list_all_iff Option.is_none_def split: option.splits)

definition store_wf :: "'b roaring \<Rightarrow> 'b column_store \<Rightarrow> bool" where
  "store_wf R s \<longleftrightarrow> (\<forall>c \<in> set (store_columns s). column_wf R c)"

lemma ex_map_option: "(\<exists>v. map_option f x = Some v \<and> P v) \<longleftrightarrow> (\<exists>w. x = Some w \<and> P (f w))"
  by (cases x) auto

lemma find_in_set: "find P xs = Some x \<Longrightarrow> x \<in> set xs"
  by (auto simp: find_Some_iff)

lemma store_column_wf: "store_wf R s \<Longrightarrow> store_column s i = Some c \<Longrightarrow> column_wf R c"
  by (auto simp: store_wf_def store_column_def dest!: find_in_set set_zip_rightD)

section \<open>Leaves\<close>

lemma codes_get_iter: "codes_get cs i = list_get (codes_iter cs) i"
  by (cases cs) (auto simp: list_get_def)

lemma storage_get_less: "storage_get s i = Some v \<Longrightarrow> i < usize_max \<Longrightarrow> i < storage_len s"
  by (auto simp: storage_get_def storage_len_def list_get_def saturating_add_usize_def
      split: option.splits if_splits)

lemma of_bool_u8 [simp]: "(of_bool a :: u8) = of_bool b \<longleftrightarrow> a = b" "(of_bool a :: u8) = 0 \<longleftrightarrow> \<not> a"
  by (cases a; cases b; simp)+

lemma unat_u32_small: "unat (r :: u32) < usize_max"
  using unat_u32_le [of r] by (simp add: u32_max_def usize_max_def)

context doc_bitmaps
begin

lemma select_rows_rows:
  "rows R (select_rows R P pos n acc) = rows R acc \<union> {r. pos \<le> unat r \<and> unat r < pos + n \<and> P (unat r) r}"
proof (induction n arbitrary: pos acc)
  case (Suc n)
  show ?case
  proof (cases "pos \<le> u32_max")
    case True
    define row :: u32 where "row = word_of_nat pos"
    have row: "unat row = pos" using True by (simp add: row_def unat_word_of_nat_u32)
    then have eq: "r = row" if "unat r = pos" for r using that by (simp add: word_unat_eq_iff)
    have "{r. pos \<le> unat r \<and> unat r < pos + Suc n \<and> P (unat r) r} =
        (if P pos row then {row} else {}) \<union> {r. Suc pos \<le> unat r \<and> unat r < Suc pos + n \<and> P (unat r) r}"
      (is "?A = ?B")
    proof (rule set_eqI)
      fix r
      show "r \<in> ?A \<longleftrightarrow> r \<in> ?B"
      proof (cases "r = row")
        case False
        then have "unat r \<noteq> pos" using eq by blast
        then show ?thesis using False by auto
      qed (use row in auto)
    qed
    then show ?thesis
      using True by (auto simp: Suc.IH u32_try_from_def row_def)
  next
    case False
    have "\<not> pos \<le> unat r" for r :: u32 using order_le_less_trans [OF unat_u32_le] False by (metis not_le)
    then show ?thesis using False by (simp add: u32_try_from_def)
  qed
qed auto

lemma scan_all:
  "rows R (select_rows R P 0 n (doc_new R)) = {r. unat r < n \<and> P (unat r) r}"
  by (simp add: select_rows_rows)

lemma numeric_rows:
  "rows R (select_rows R (\<lambda>pos row. doc_contains R scope row \<and> doc_contains R (nc_present c) row \<and> P (nc_values c ! pos))
     0 (length (nc_values c)) (doc_new R)) = {r \<in> rows R scope. \<exists>v. nc_get R c r = Some v \<and> P v}"
  by (auto simp: scan_all nc_get_def list_get_def)

lemma eval_values_rows:
  "rows R (eval_values_eq R eq (nc_values c) (nc_present c) scope q) =
     {r \<in> rows R scope. \<exists>v. nc_get R c r = Some v \<and> eq v q}"
  unfolding eval_values_eq_def by (rule numeric_rows)

lemma dictionary_rows:
  assumes "column_wf R (ColDictionary c)"
  shows "rows R (eval_dictionary_eq R c q scope) = {r \<in> rows R scope. dc_get R c r = Some q}"
proof -
  obtain vs where vs: "dict_fits vs" "dc_dictionary c = builder_finish (builder_rep vs)"
    and some: "\<And>r. r \<in> rows R (dc_present c) \<Longrightarrow> dc_get R c r \<noteq> None"
    using assms by auto
  have find: "dict_find (dc_dictionary c) q' = map_option word_of_nat (index_of vs q')"
    and get: "dict_get (dc_dictionary c) code = list_get vs (unat code)" for code q'
    using vs by (simp_all add: dict_find_rep dict_get_rep)
  have code: "list_get vs (unat code) = Some q \<longleftrightarrow> dict_find (dc_dictionary c) q = Some code" for code
  proof
    assume "list_get vs (unat code) = Some q"
    then have "unat code < length vs" "q = vs ! unat code" by (auto simp: list_get_def split: if_splits)
    then show "dict_find (dc_dictionary c) q = Some code"
      using vs(1) by (simp add: find index_of_nth dict_fits_def)
  next
    assume "dict_find (dc_dictionary c) q = Some code"
    then obtain i where "index_of vs q = Some i" "code = word_of_nat i" by (auto simp: find)
    then show "list_get vs (unat code) = Some q"
      using index_of_Some [of q vs i] vs(1) by (simp add: dict_fits_def unat_word_of_nat_u32)
  qed
  show ?thesis
  proof (cases "dict_find (dc_dictionary c) q")
    case None
    then have "dc_get R c r \<noteq> Some q" for r
      using code get by (auto simp: dc_get_def split: option.splits if_splits)
    then show ?thesis using None by (simp add: eval_dictionary_eq_def)
  next
    case (Some k)
    have "dc_get R c r = Some q \<longleftrightarrow> r \<in> rows R (dc_present c) \<and> unat r < length (codes_iter (dc_codes c))
        \<and> codes_iter (dc_codes c) ! unat r = k" for r
      using code Some by (auto simp: dc_get_def get codes_get_iter list_get_def split: option.splits if_splits)
    then show ?thesis using Some by (auto simp: eval_dictionary_eq_def scan_all)
  qed
qed

lemma raw_rows:
  "rows R (select_rows R (\<lambda>pos row. doc_contains R scope row \<and> doc_contains R (rs_present c) row
      \<and> (case storage_get (rs_values c) pos of Some v \<Rightarrow> P v | None \<Rightarrow> False)) 0 (storage_len (rs_values c)) (doc_new R))
   = {r \<in> rows R scope. \<exists>v. rs_get R c r = Some v \<and> P v}"
  using storage_get_less [OF _ unat_u32_small]
  by (auto simp: scan_all rs_get_def split: option.splits)

lemma eval_eq_column_rows:
  assumes "column_wf R c" "type_compatible (column_type_of c) q"
  shows "rows R (eval_eq_column R c q scope) = {r \<in> rows R scope. \<exists>v. column_get R c r = Some v \<and> cell_equals v q}"
proof (cases c)
  case (ColDictionary dc)
  then obtain t where "q = PvString t" using assms(2) by (cases q) auto
  then show ?thesis using ColDictionary assms(1) dictionary_rows by auto
next
  case (ColRaw rc)
  then obtain t where "q = PvString t" using assms(2) by (cases q) auto
  moreover have "storage_get s pos = Some t \<longleftrightarrow> (case storage_get s pos of Some v \<Rightarrow> v = t | None \<Rightarrow> False)" for s pos t
    by (auto split: option.splits)
  ultimately show ?thesis
    using ColRaw raw_rows [of scope rc "\<lambda>v. v = t"] by (simp add: eval_raw_string_eq_def) auto
next
  case (ColBool bc)
  then obtain bs where bs: "bc_values bc = map of_bool bs" using assms(1) by auto
  obtain t where q: "q = PvBool t" using assms(2) ColBool by (cases q) auto
  have "rows R (eval_values_eq R (=) (bc_values bc) (bc_present bc) scope (of_bool t)) =
      {r \<in> rows R scope. bc_get R bc r = Some t}"
  proof (rule set_eqI)
    fix r
    have "bc_get R bc r = Some t \<longleftrightarrow> r \<in> rows R (bc_present bc) \<and> unat r < length bs \<and> bs ! unat r = t"
      by (simp add: bc_get_def bs list_get_def)
    then show "r \<in> rows R (eval_values_eq R (=) (bc_values bc) (bc_present bc) scope (of_bool t)) \<longleftrightarrow>
        r \<in> {r \<in> rows R scope. bc_get R bc r = Some t}"
      by (simp add: eval_values_eq_def scan_all bs cong: conj_cong) blast
  qed
  then show ?thesis by (simp add: ColBool q ex_map_option del: map_option_eq_Some)
next
  case (ColU64 nc)
  then obtain t where "q = PvU64 t" using assms(2) by (cases q) auto
  then show ?thesis using ColU64 by (simp add: eval_values_rows ex_map_option del: map_option_eq_Some)
next
  case (ColId128 nc)
  then obtain t where "q = PvId128 t" using assms(2) by (cases q) auto
  then show ?thesis using ColId128 by (simp add: eval_values_rows ex_map_option del: map_option_eq_Some)
next
  case (ColI64 nc)
  then obtain t where "q = PvI64 t" using assms(2) by (cases q) auto
  then show ?thesis using ColI64 by (simp add: eval_values_rows ex_map_option del: map_option_eq_Some)
next
  case (ColF64 nc)
  then obtain t where "q = PvF64 t" using assms(2) by (cases q) auto
  then show ?thesis using ColF64 by (simp add: eval_values_rows ex_map_option del: map_option_eq_Some)
qed

lemma eval_eq_rows:
  assumes "store_wf R s" "eval_eq R i q s scope = Ok bm"
  shows "rows R bm = {r \<in> rows R scope. \<exists>v. store_cell R s i r = Some v \<and> cell_equals v q}"
proof -
  obtain c where c: "store_column s i = Some c" "type_compatible (column_type_of c) q" "bm = eval_eq_column R c q scope"
    using assms(2) by (auto simp: eval_eq_def get_column_def ensure_type_def result_Inr split: if_splits)
  then show ?thesis
    using eval_eq_column_rows [OF store_column_wf [OF assms(1) c(1)] c(2)] by (simp add: store_cell_def)
qed

lemma eval_in_loop_rows:
  assumes "store_wf R s"
  shows "eval_in_loop R i s scope qs acc = Ok bm \<Longrightarrow>
    rows R bm = rows R acc \<union> {r \<in> rows R scope. \<exists>v. store_cell R s i r = Some v \<and> (\<exists>q \<in> set qs. cell_equals v q)}"
proof (induction qs arbitrary: acc)
  case (Cons q qs)
  then obtain b where b: "eval_eq R i q s scope = Ok b" "eval_in_loop R i s scope qs (union_with R acc b) = Ok bm"
    by (auto simp: result_Inr)
  show ?case
    using Cons.IH [OF b(2)] eval_eq_rows [OF assms b(1)] by auto
qed simp

lemma eval_in_rows:
  assumes "store_wf R s" "eval_in R i qs s scope = Ok bm"
  shows "rows R bm = {r \<in> rows R scope. \<exists>v. store_cell R s i r = Some v \<and> (\<exists>q \<in> set qs. cell_equals v q)}"
proof -
  obtain c where c: "store_column s i = Some c" "ensure_types i c qs = Ok ()"
    using assms(2) by (auto simp: eval_in_def get_column_def result_Inr)
  show ?thesis
  proof (cases "\<exists>rc. c = ColRaw rc")
    case True
    then obtain rc where rc: "c = ColRaw rc" by blast
    have "(\<exists>q \<in> set qs. cell_equals (CvString v) q) \<longleftrightarrow> v \<in> raw_members qs" for v
    proof -
      have "cell_equals (CvString v) q \<longleftrightarrow> q = PvString v" for q by (cases q) auto
      then show ?thesis by auto
    qed
    moreover have "rows R bm = {r \<in> rows R scope. \<exists>v. rs_get R rc r = Some v \<and> v \<in> raw_members qs}"
      using assms(2) c rc raw_rows [of scope rc "\<lambda>v. v \<in> raw_members qs"]
      by (auto simp: eval_in_def get_column_def split: if_splits)
    ultimately show ?thesis
      using c(1) rc by (simp add: store_cell_def ex_map_option del: map_option_eq_Some raw_members_iff)
  next
    case False
    then have "eval_in_loop R i s scope qs (doc_new R) = Ok bm"
      using assms(2) c by (cases c) (auto simp: eval_in_def get_column_def)
    from eval_in_loop_rows [OF assms(1) this] show ?thesis by simp
  qed
qed

lemma ordered_rows:
  "rows R (eval_ordered_range R lt le (nc_values c) (nc_present c) scope lower upper) =
     {r \<in> rows R scope. \<exists>v. nc_get R c r = Some v \<and> lower_matches lt le v lower \<and> upper_matches lt le v upper}"
  unfolding eval_ordered_range_def by (rule numeric_rows)

lemma f64_range_rows:
  "rows R (eval_f64_range R (nc_values c) (nc_present c) scope lower upper) =
     {r \<in> rows R scope. \<exists>v. nc_get R c r = Some v \<and> \<not> f64_is_nan v
        \<and> lower_matches f64_lt f64_le v lower \<and> upper_matches f64_lt f64_le v upper}"
proof (cases "(case lower of Some (v, _) \<Rightarrow> f64_is_nan v | None \<Rightarrow> False)
    \<or> (case upper of Some (v, _) \<Rightarrow> f64_is_nan v | None \<Rightarrow> False)")
  case True
  then show ?thesis
    by (auto simp: eval_f64_range_def lower_matches_def upper_matches_def f64_lt_def f64_le_def
        split: option.splits if_splits)
next
  case False
  have eq: "(\<not> n \<and> a \<and> b \<and> c) = (a \<and> b \<and> \<not> n \<and> c)" for n a b c :: bool by blast
  show ?thesis
    unfolding eval_f64_range_def if_not_P [OF False] eq by (rule numeric_rows)
qed

lemma eval_range_rows:
  assumes "eval_range R g s scope = Ok bm"
  shows "rows R bm = {r \<in> rows R scope. \<exists>v. store_cell R s (rng_column g) r = Some v \<and> cell_in_range g v}"
proof -
  obtain c where c: "store_column s (rng_column g) = Some c"
    using assms by (auto simp: eval_range_def get_column_def result_Inr)
  note ex = ex_map_option store_cell_def c cell_in_range_def
  show ?thesis
  proof (cases c)
    case (ColU64 nc)
    have "lower_matches (<) (\<le>) v l = (case b of None \<Rightarrow> True | Some b \<Rightarrow> cell_less (bnd_inclusive b) (bnd_value b) (CvU64 v))"
      "upper_matches (<) (\<le>) v l = (case b of None \<Rightarrow> True | Some b \<Rightarrow> cell_greater (bnd_inclusive b) (bnd_value b) (CvU64 v))"
      if "u64_bound (rng_column g) b = Ok l" for b l v
      using that by (auto simp: u64_bound_def lower_matches_def upper_matches_def split: option.splits predicate_value.splits)
    then show ?thesis
      using assms ColU64 c
      by (auto simp: eval_range_def get_column_def result_Inr ordered_rows ex simp del: map_option_eq_Some)
  next
    case (ColI64 nc)
    have "lower_matches i64_lt i64_le v l = (case b of None \<Rightarrow> True | Some b \<Rightarrow> cell_less (bnd_inclusive b) (bnd_value b) (CvI64 v))"
      "upper_matches i64_lt i64_le v l = (case b of None \<Rightarrow> True | Some b \<Rightarrow> cell_greater (bnd_inclusive b) (bnd_value b) (CvI64 v))"
      if "i64_bound (rng_column g) b = Ok l" for b l v
      using that by (auto simp: i64_bound_def lower_matches_def upper_matches_def i64_lt_def i64_le_def
          split: option.splits predicate_value.splits)
    then show ?thesis
      using assms ColI64 c
      by (auto simp: eval_range_def get_column_def result_Inr ordered_rows ex simp del: map_option_eq_Some)
  next
    case (ColF64 nc)
    have "lower_matches f64_lt f64_le v l = (case b of None \<Rightarrow> True | Some b \<Rightarrow> cell_less (bnd_inclusive b) (bnd_value b) (CvF64 v))"
      "upper_matches f64_lt f64_le v l = (case b of None \<Rightarrow> True | Some b \<Rightarrow> cell_greater (bnd_inclusive b) (bnd_value b) (CvF64 v))"
      if "f64_bound (rng_column g) b = Ok l" for b l v
      using that by (auto simp: f64_bound_def lower_matches_def upper_matches_def split: option.splits predicate_value.splits)
    then show ?thesis
      using assms ColF64 c
      by (auto simp: eval_range_def get_column_def result_Inr f64_range_rows ex simp del: map_option_eq_Some)
  qed (use assms c in \<open>auto simp: eval_range_def get_column_def\<close>)
qed

section \<open>The whole language\<close>

lemma column_get_present:
  assumes "column_wf R c"
  shows "column_get R c r \<noteq> None \<longleftrightarrow> r \<in> rows R (column_present c)"
  using assms by (cases c) (auto simp: nc_get_def bc_get_def dc_get_def rs_get_def)

lemma store_cell_present:
  "store_wf R s \<Longrightarrow> store_column s i = Some c \<Longrightarrow> store_cell R s i r \<noteq> None \<longleftrightarrow> r \<in> rows R (column_present c)"
  using column_get_present [OF store_column_wf] by (simp add: store_cell_def)

lemma store_cell_absent:
  "store_wf R s \<Longrightarrow> store_column s i = Some c \<Longrightarrow> store_cell R s i r = None \<longleftrightarrow> r \<notin> rows R (column_present c)"
  using store_cell_present by blast

lemma evaluate_rows:
  assumes "store_wf R s"
  shows "evaluate_in_scope R s scope p = Ok bm \<Longrightarrow>
      rows R bm = {r \<in> rows R scope. row_sat (\<lambda>i. store_cell R s i r) p}"
    and "eval_and_loop R s ps acc = Ok bm \<Longrightarrow>
      rows R bm = {r \<in> rows R acc. \<forall>p \<in> set ps. row_sat (\<lambda>i. store_cell R s i r) p}"
    and "rows R acc \<subseteq> rows R scope \<Longrightarrow> eval_or_loop R s scope ps acc = Ok bm \<Longrightarrow>
      rows R bm = rows R acc \<union> {r \<in> rows R scope. \<exists>p \<in> set ps. row_sat (\<lambda>i. store_cell R s i r) p}"
proof (induction R\<equiv>R s\<equiv>s scope p and R\<equiv>R s\<equiv>s ps acc and R\<equiv>R s\<equiv>s scope ps acc
    arbitrary: bm and bm and bm rule: evaluate_in_scope_eval_and_loop_eval_or_loop.induct)
  case (1 scope i v)
  then show ?case using eval_eq_rows [OF assms] by simp
next
  case (2 scope i vs)
  then show ?case using eval_in_rows [OF assms] by simp
next
  case (3 scope g)
  then show ?case using eval_range_rows by simp
next
  case (4 scope i)
  then obtain c where "store_column s i = Some c" "bm = intersect_with R (column_present c) scope"
    by (auto simp: get_column_def result_Inr)
  then show ?case using store_cell_present [OF assms, of i c] by auto
next
  case (5 scope i)
  then obtain c where "store_column s i = Some c" "bm = doc_subtract R scope (column_present c)"
    by (auto simp: get_column_def result_Inr)
  then show ?case using store_cell_absent [OF assms, of i c] by auto
next
  case (6 scope children)
  then show ?case by simp
next
  case (7 scope children)
  then show ?case by simp
next
  case (8 scope child)
  then show ?case by (auto simp: result_Inr)
next
  case (9 acc)
  then show ?case by simp
next
  case (10 child rest acc)
  show ?case
  proof (cases "doc_is_empty R acc")
    case True
    then show ?thesis using 10(3) by simp
  next
    case False
    then obtain b where b: "evaluate_in_scope R s acc child = Ok b" "eval_and_loop R s rest b = Ok bm"
      using 10(3) by (auto simp: result_Inr)
    show ?thesis
      using 10(1) [OF False b(1)] 10(2) [OF False b(2)] by simp
  qed
next
  case (11 scope acc)
  then show ?case by auto
next
  case (12 scope child rest acc)
  show ?case
  proof (cases "doc_is_empty R (doc_subtract R scope acc)")
    case True
    then have "bm = acc" "rows R scope \<subseteq> rows R acc" using 12(4) by (simp_all add: Let_def Diff_eq_empty_iff)
    then show ?thesis by blast
  next
    case False
    then obtain r where r: "evaluate_in_scope R s (doc_subtract R scope acc) child = Ok r"
        "eval_or_loop R s scope rest (union_with R acc r) = Ok bm"
      using 12(4) by (auto simp: Let_def result_Inr)
    have rows: "rows R r = {x \<in> rows R scope - rows R acc. row_sat (\<lambda>i. store_cell R s i x) child}"
      using 12(1) [OF refl False r(1)] by simp
    then have "rows R (union_with R acc r) \<subseteq> rows R scope" using 12(3) by auto
    from 12(2) [OF refl False this r(2)] show ?thesis using rows 12(3) by auto
  qed
qed

end

end
