(* ===== verification/Prune.thy ===== *)
theory Prune
  imports Predicate_Sem Manifest
begin

text \<open>
  Planning over the clustering ranges of segments: predicate validation and conservative pruning
  (\<^verbatim>\<open>src/planner/prune.rs\<close>), the computation of a segment's range when it is sealed or
  rewritten (\<^verbatim>\<open>src/ingest/seal.rs\<close>, \<^verbatim>\<open>src/ingest/purge.rs\<close>), and the choice of segments
  that a retention window drops (\<^verbatim>\<open>src/ingest/retention.rs\<close>).
\<close>

section \<open>Validation\<close>

datatype plan_error =
    PlanUnknownColumn u32
  | PlanTypeMismatch u32 column_type column_type
  | PlanRangeRequiresNumeric u32
  | PlanRowCountMismatch u32 u32

definition require_column :: "schema \<Rightarrow> u32 \<Rightarrow> (plan_error, column_definition) result" where
  "require_column s i = ok_or (PlanUnknownColumn i) (schema_column s i)"

definition validate_value :: "schema \<Rightarrow> u32 \<Rightarrow> predicate_value \<Rightarrow> (plan_error, unit) result" where
  "validate_value s i v =
     and_then (require_column s i) (\<lambda>d.
     let expected = col_type d; actual = pv_type v in
     if expected = actual \<or> (expected = TypeDictionaryString \<and> actual = TypeRawString)
     then Ok () else Err (PlanTypeMismatch i expected actual))"

primrec validate_values :: "schema \<Rightarrow> u32 \<Rightarrow> predicate_value list \<Rightarrow> (plan_error, unit) result" where
  "validate_values s i [] = Ok ()"
| "validate_values s i (v # vs) = and_then (validate_value s i v) (\<lambda>_. validate_values s i vs)"

definition validate_bound :: "schema \<Rightarrow> u32 \<Rightarrow> range_bound option \<Rightarrow> (plan_error, unit) result" where
  "validate_bound s i b = (case b of None \<Rightarrow> Ok () | Some b \<Rightarrow> validate_value s i (bnd_value b))"

fun validate_predicate :: "schema \<Rightarrow> predicate \<Rightarrow> (plan_error, unit) result"
  and validate_predicates :: "schema \<Rightarrow> predicate list \<Rightarrow> (plan_error, unit) result" where
  "validate_predicate s (PEq i v) = validate_value s i v"
| "validate_predicate s (PIn i vs) = and_then (require_column s i) (\<lambda>_. validate_values s i vs)"
| "validate_predicate s (PRange g) =
     and_then (require_column s (rng_column g)) (\<lambda>d.
     if col_type d \<notin> {TypeU64, TypeI64, TypeF64} then Err (PlanRangeRequiresNumeric (rng_column g)) else
     and_then (validate_bound s (rng_column g) (rng_lower g)) (\<lambda>_.
     validate_bound s (rng_column g) (rng_upper g)))"
| "validate_predicate s (PExists i) = map_ok (\<lambda>_. ()) (require_column s i)"
| "validate_predicate s (PIsNull i) = map_ok (\<lambda>_. ()) (require_column s i)"
| "validate_predicate s (PAnd ps) = validate_predicates s ps"
| "validate_predicate s (POr ps) = validate_predicates s ps"
| "validate_predicate s (PNot p) = validate_predicate s p"
| "validate_predicates s [] = Ok ()"
| "validate_predicates s (p # ps) = and_then (validate_predicate s p) (\<lambda>_. validate_predicates s ps)"

section \<open>Pruning\<close>

definition timestamp_between :: "i64 \<Rightarrow> i64 \<Rightarrow> predicate_value \<Rightarrow> bool" where
  "timestamp_between min_ts max_ts v =
     (case v of PvI64 t \<Rightarrow> i64_le min_ts t \<and> i64_le t max_ts | _ \<Rightarrow> False)"

definition lower_overlaps :: "i64 \<Rightarrow> range_bound option \<Rightarrow> bool" where
  "lower_overlaps max_ts b =
     (case b of
        None \<Rightarrow> True
      | Some b \<Rightarrow> (case bnd_value b of
                    PvI64 v \<Rightarrow> if bnd_inclusive b then i64_le v max_ts else i64_lt v max_ts
                  | _ \<Rightarrow> False))"

definition upper_overlaps :: "i64 \<Rightarrow> range_bound option \<Rightarrow> bool" where
  "upper_overlaps min_ts b =
     (case b of
        None \<Rightarrow> True
      | Some b \<Rightarrow> (case bnd_value b of
                    PvI64 v \<Rightarrow> if bnd_inclusive b then i64_le min_ts v else i64_lt min_ts v
                  | _ \<Rightarrow> False))"

fun predicate_may_match_timestamp :: "i64 \<Rightarrow> i64 \<Rightarrow> predicate \<Rightarrow> bool" where
  "predicate_may_match_timestamp min_ts max_ts (PEq i v) =
     (i = TIMESTAMP_COLUMN \<longrightarrow> timestamp_between min_ts max_ts v)"
| "predicate_may_match_timestamp min_ts max_ts (PIn i vs) =
     (i = TIMESTAMP_COLUMN \<longrightarrow> list_ex (timestamp_between min_ts max_ts) vs)"
| "predicate_may_match_timestamp min_ts max_ts (PRange g) =
     (rng_column g = TIMESTAMP_COLUMN \<longrightarrow>
        lower_overlaps max_ts (rng_lower g) \<and> upper_overlaps min_ts (rng_upper g))"
| "predicate_may_match_timestamp min_ts max_ts (PExists i) = True"
| "predicate_may_match_timestamp min_ts max_ts (PIsNull i) = (i \<noteq> TIMESTAMP_COLUMN)"
| "predicate_may_match_timestamp min_ts max_ts (PAnd ps) =
     (\<forall>p \<in> set ps. predicate_may_match_timestamp min_ts max_ts p)"
| "predicate_may_match_timestamp min_ts max_ts (POr ps) =
     (\<exists>p \<in> set ps. predicate_may_match_timestamp min_ts max_ts p)"
| "predicate_may_match_timestamp min_ts max_ts (PNot p) = True"

definition segment_may_match :: "clustering_key_range \<Rightarrow> predicate \<Rightarrow> bool" where
  "segment_may_match key_range p =
     (case key_range of
        Unstamped \<Rightarrow> True
      | EmptyRange \<Rightarrow> False
      | Bounded min_ts max_ts \<Rightarrow> predicate_may_match_timestamp min_ts max_ts p)"

section \<open>The range of a segment\<close>

datatype range_error = ActiveRowOverflow | PartitionBytesOverflow

definition i64_min :: "i64 \<Rightarrow> i64 \<Rightarrow> i64" where
  "i64_min a b = (if i64_le a b then a else b)"

definition i64_max :: "i64 \<Rightarrow> i64 \<Rightarrow> i64" where
  "i64_max a b = (if i64_le a b then b else a)"

primrec range_bounds ::
  "(u32 \<Rightarrow> i64 option) \<Rightarrow> u32 list \<Rightarrow> (i64 \<times> i64) option \<Rightarrow> (range_error, (i64 \<times> i64) option) result" where
  "range_bounds timestamp [] bounds = Ok bounds"
| "range_bounds timestamp (row # rest) bounds =
     and_then (ok_or ActiveRowOverflow (timestamp row)) (\<lambda>t.
     range_bounds timestamp rest
       (Some (case bounds of None \<Rightarrow> (t, t) | Some (lo, hi) \<Rightarrow> (i64_min lo t, i64_max hi t))))"

definition range_of_bounds :: "(i64 \<times> i64) option \<Rightarrow> clustering_key_range" where
  "range_of_bounds bounds = (case bounds of Some (lo, hi) \<Rightarrow> Bounded lo hi | None \<Rightarrow> EmptyRange)"

definition clustering_range ::
  "'b roaring \<Rightarrow> 'b column_store \<Rightarrow> 'b alive_set \<Rightarrow> (range_error, clustering_key_range) result" where
  "clustering_range R s alive =
     map_ok range_of_bounds (range_bounds (store_timestamp R s) (iter_alive R alive) None)"

definition seal_clustering_range ::
  "'b roaring \<Rightarrow> i64 list \<Rightarrow> 'b alive_set \<Rightarrow> (range_error, clustering_key_range) result" where
  "seal_clustering_range R timestamps alive =
     map_ok range_of_bounds (range_bounds (\<lambda>row. list_get timestamps (unat row)) (iter_alive R alive) None)"

section \<open>Retention\<close>

record retention_policy =
  rp_window :: i64

datatype retention_policy_error = NonPositiveWindow i64

definition retention_policy_new :: "i64 \<Rightarrow> (retention_policy_error, retention_policy) result" where
  "retention_policy_new w = (if i64_le w 0 then Err (NonPositiveWindow w) else Ok \<lparr>rp_window = w\<rparr>)"

definition saturating_sub_i64 :: "i64 \<Rightarrow> i64 \<Rightarrow> i64" where
  "saturating_sub_i64 a b = word_of_int (max (- (2 ^ 63)) (min (2 ^ 63 - 1) (sint a - sint b)))"

definition partition_to_drop :: "retention_policy \<Rightarrow> i64 \<Rightarrow> i64 \<times> i64" where
  "partition_to_drop p now_ts = (word_of_int (- (2 ^ 63)), saturating_sub_i64 now_ts (rp_window p))"

record segment_selection =
  sel_retained :: "segment_meta list"
  sel_dropped :: "segment_meta list"
  sel_straddlers :: "bytes list"
  sel_bytes :: u64

definition select_drop :: "segment_meta \<Rightarrow> segment_selection \<Rightarrow> (range_error, segment_selection) result" where
  "select_drop m sel =
     and_then (ok_or PartitionBytesOverflow (checked_add_u64 (sel_bytes sel) (sm_file_size m))) (\<lambda>total_bytes.
     Ok (sel\<lparr>sel_bytes := total_bytes, sel_dropped := sel_dropped sel @ [m]\<rparr>))"

definition select_one ::
  "i64 \<Rightarrow> i64 \<Rightarrow> segment_meta \<Rightarrow> segment_selection \<Rightarrow> (range_error, segment_selection) result" where
  "select_one start stop m sel =
     (case sm_range m of
        EmptyRange \<Rightarrow> select_drop m sel
      | Bounded min_ts max_ts \<Rightarrow>
          if i64_le start min_ts \<and> i64_lt max_ts stop then select_drop m sel
          else if i64_le start max_ts \<and> i64_lt min_ts stop
          then Ok (sel\<lparr>sel_straddlers := sel_straddlers sel @ [sm_id m], sel_retained := sel_retained sel @ [m]\<rparr>)
          else Ok (sel\<lparr>sel_retained := sel_retained sel @ [m]\<rparr>)
      | Unstamped \<Rightarrow> Ok (sel\<lparr>sel_retained := sel_retained sel @ [m]\<rparr>))"

primrec select_loop ::
  "i64 \<Rightarrow> i64 \<Rightarrow> segment_meta list \<Rightarrow> segment_selection \<Rightarrow> (range_error, segment_selection) result" where
  "select_loop start stop [] sel = Ok sel"
| "select_loop start stop (m # ms) sel = and_then (select_one start stop m sel) (select_loop start stop ms)"

definition select_segments :: "segment_meta list \<Rightarrow> i64 \<times> i64 \<Rightarrow> (range_error, segment_selection) result" where
  "select_segments segments requested =
     select_loop (fst requested) (snd requested) segments
       \<lparr>sel_retained = [], sel_dropped = [], sel_straddlers = [], sel_bytes = 0\<rparr>"

section \<open>Validated predicates evaluate\<close>

definition store_conforms :: "'b column_store \<Rightarrow> bool" where
  "store_conforms st \<longleftrightarrow>
     list_all2 (\<lambda>d c. column_type_of c = col_type d) (columns (store_schema st)) (store_columns st)"

lemma find_zip:
  "list_all2 P ds cs \<Longrightarrow> find (\<lambda>d. col_id d = i) ds = Some d \<Longrightarrow>
   \<exists>c. map_option snd (find (\<lambda>(d, c). col_id d = i) (zip ds cs)) = Some c \<and> P d c"
  by (induction rule: list_all2_induct) (auto split: if_splits)

lemma conforming_column:
  "store_conforms st \<Longrightarrow> schema_column (store_schema st) i = Some d \<Longrightarrow>
   \<exists>c. store_column st i = Some c \<and> column_type_of c = col_type d"
  using find_zip [of _ "columns (store_schema st)" "store_columns st" i d]
  by (simp add: store_conforms_def schema_column_def store_column_def)

lemma validate_value_column:
  assumes "store_conforms st" "validate_value (store_schema st) i v = Ok ()"
  shows "\<exists>c. store_column st i = Some c \<and> type_compatible (column_type_of c) v"
proof -
  obtain d where d: "schema_column (store_schema st) i = Some d"
      "col_type d = pv_type v \<or> (col_type d = TypeDictionaryString \<and> pv_type v = TypeRawString)"
    using assms(2) by (auto simp: validate_value_def require_column_def result_Inr Let_def split: if_splits)
  obtain c where "store_column st i = Some c" "column_type_of c = col_type d"
    using conforming_column [OF assms(1) d(1)] by blast
  then show ?thesis using d(2) by (cases v) auto
qed

lemma eval_eq_total:
  "store_conforms st \<Longrightarrow> validate_value (store_schema st) i v = Ok () \<Longrightarrow> \<exists>bm. eval_eq R i v st scope = Ok bm"
  using validate_value_column [of st i v] by (auto simp: eval_eq_def get_column_def ensure_type_def)

lemma validate_values_iff:
  "validate_values s i vs = Ok () \<longleftrightarrow> (\<forall>v \<in> set vs. validate_value s i v = Ok ())"
  by (induction vs) (auto simp: result_Inr)

lemma validate_predicates_iff:
  "validate_predicates s ps = Ok () \<longleftrightarrow> (\<forall>p \<in> set ps. validate_predicate s p = Ok ())"
  by (induction ps) (auto simp: result_Inr)

lemma eval_in_total:
  assumes "store_conforms st" "validate_predicate (store_schema st) (PIn i vs) = Ok ()"
  shows "\<exists>bm. eval_in R i vs st scope = Ok bm"
proof -
  obtain d c where c: "store_column st i = Some c"
    using assms conforming_column [OF assms(1), of i] by (auto simp: require_column_def result_Inr)
  have vs: "\<forall>v \<in> set vs. validate_value (store_schema st) i v = Ok ()"
    using assms(2) by (auto simp: result_Inr validate_values_iff)
  then have "ensure_types i c vs = Ok ()"
    using validate_value_column [OF assms(1), of i] c
    by (induction vs) (auto simp: ensure_type_def)
  moreover have "\<exists>bm. eval_in_loop R i st scope vs acc = Ok bm" for acc
    using vs eval_eq_total [OF assms(1), of i]
    by (induction vs arbitrary: acc) (auto simp: result_Inr, metis)
  ultimately show ?thesis using c by (cases c) (auto simp: eval_in_def get_column_def)
qed

lemma bound_total:
  "\<forall>x. y = Some x \<longrightarrow> pv_type (bnd_value x) = TypeU64 \<Longrightarrow> \<exists>l. u64_bound i y = Ok l"
  "\<forall>x. y = Some x \<longrightarrow> pv_type (bnd_value x) = TypeI64 \<Longrightarrow> \<exists>l. i64_bound i y = Ok l"
  "\<forall>x. y = Some x \<longrightarrow> pv_type (bnd_value x) = TypeF64 \<Longrightarrow> \<exists>l. f64_bound i y = Ok l"
  by (cases y; auto simp: u64_bound_def i64_bound_def f64_bound_def split: predicate_value.splits)+

lemma eval_range_total:
  assumes "store_conforms st" "validate_predicate (store_schema st) (PRange g) = Ok ()"
  shows "\<exists>bm. eval_range R g st scope = Ok bm"
proof -
  obtain d where d: "schema_column (store_schema st) (rng_column g) = Some d" "col_type d \<in> {TypeU64, TypeI64, TypeF64}"
    and b: "validate_bound (store_schema st) (rng_column g) (rng_lower g) = Ok ()"
      "validate_bound (store_schema st) (rng_column g) (rng_upper g) = Ok ()"
    using assms(2) by (auto simp: require_column_def result_Inr split: if_splits)
  obtain c where c: "store_column st (rng_column g) = Some c" "column_type_of c = col_type d"
    using conforming_column [OF assms(1) d(1)] by blast
  have ty: "\<forall>x. rng_lower g = Some x \<longrightarrow> pv_type (bnd_value x) = col_type d"
    "\<forall>x. rng_upper g = Some x \<longrightarrow> pv_type (bnd_value x) = col_type d"
    using b d by (auto simp: validate_bound_def validate_value_def require_column_def Let_def split: if_splits)
  show ?thesis
  proof (cases c)
    case (ColU64 nc)
    then have "col_type d = TypeU64" using c(2) by simp
    then obtain l u where "u64_bound (rng_column g) (rng_lower g) = Ok l" "u64_bound (rng_column g) (rng_upper g) = Ok u"
      using ty bound_total(1) by metis
    then show ?thesis using c(1) ColU64 by (simp add: eval_range_def get_column_def)
  next
    case (ColI64 nc)
    then have "col_type d = TypeI64" using c(2) by simp
    then obtain l u where "i64_bound (rng_column g) (rng_lower g) = Ok l" "i64_bound (rng_column g) (rng_upper g) = Ok u"
      using ty bound_total(2) by metis
    then show ?thesis using c(1) ColI64 by (simp add: eval_range_def get_column_def)
  next
    case (ColF64 nc)
    then have "col_type d = TypeF64" using c(2) by simp
    then obtain l u where "f64_bound (rng_column g) (rng_lower g) = Ok l" "f64_bound (rng_column g) (rng_upper g) = Ok u"
      using ty bound_total(3) by metis
    then show ?thesis using c(1) ColF64 by (simp add: eval_range_def get_column_def)
  qed (use c(2) d(2) in auto)
qed

lemma evaluate_total:
  assumes "store_conforms st"
  shows "validate_predicate (store_schema st) p = Ok () \<Longrightarrow> \<exists>bm. evaluate_in_scope R st scope p = Ok bm"
    and "\<forall>p \<in> set ps. validate_predicate (store_schema st) p = Ok () \<Longrightarrow> \<exists>bm. eval_and_loop R st ps acc = Ok bm"
    and "\<forall>p \<in> set ps. validate_predicate (store_schema st) p = Ok () \<Longrightarrow> \<exists>bm. eval_or_loop R st scope ps acc = Ok bm"
proof (induction R\<equiv>R st\<equiv>st scope p and R\<equiv>R st\<equiv>st ps acc and R\<equiv>R st\<equiv>st scope ps acc
    rule: evaluate_in_scope_eval_and_loop_eval_or_loop.induct)
  case (1 scope i v)
  then show ?case using eval_eq_total [OF assms] by auto
next
  case (2 scope i vs)
  then show ?case using eval_in_total [OF assms] by auto
next
  case (3 scope g)
  then show ?case using eval_range_total [OF assms] by auto
next
  case (4 scope i)
  then show ?case using conforming_column [OF assms, of i] by (auto simp: get_column_def require_column_def result_Inr)
next
  case (5 scope i)
  then show ?case using conforming_column [OF assms, of i] by (auto simp: get_column_def require_column_def result_Inr)
next
  case (6 scope children)
  then show ?case by (simp add: validate_predicates_iff)
next
  case (7 scope children)
  then show ?case by (simp add: validate_predicates_iff)
next
  case (8 scope child)
  then show ?case by auto
next
  case (10 child rest acc)
  then have "\<exists>bm. and_then (evaluate_in_scope R st acc child) (eval_and_loop R st rest) = Ok bm"
    if "\<not> doc_is_empty R acc" using that by fastforce
  then show ?case by simp
next
  case (12 scope child rest acc)
  let ?rem = "doc_subtract R scope acc"
  have "\<exists>bm. and_then (evaluate_in_scope R st ?rem child) (\<lambda>r. eval_or_loop R st scope rest (union_with R acc r)) = Ok bm"
    if ne: "\<not> doc_is_empty R ?rem"
  proof -
    obtain r where "evaluate_in_scope R st ?rem child = Ok r" using 12(1) [OF refl ne] 12(3) by auto
    then show ?thesis using 12(2) [OF refl ne] 12(3) by simp
  qed
  then show ?case by (simp add: Let_def)
qed auto

section \<open>Pruning is sound\<close>

lemma may_match_sound:
  assumes "cell TIMESTAMP_COLUMN = Some (CvI64 t)" "i64_le min_ts t" "i64_le t max_ts"
  shows "row_sat cell p \<Longrightarrow> predicate_may_match_timestamp min_ts max_ts p"
proof (induction p)
  case (PEq i v)
  then show ?case using assms by (cases v) (auto simp: timestamp_between_def)
next
  case (PIn i vs)
  have "cell_equals (CvI64 t) q \<Longrightarrow> timestamp_between min_ts max_ts q" for q
    using assms by (cases q) (auto simp: timestamp_between_def)
  then show ?case using PIn assms(1) by (force simp: list_ex_iff)
next
  case (PRange g)
  have "cell_less (bnd_inclusive x) (bnd_value x) (CvI64 t) \<Longrightarrow> lower_overlaps max_ts (Some x)"
    "cell_greater (bnd_inclusive x) (bnd_value x) (CvI64 t) \<Longrightarrow> upper_overlaps min_ts (Some x)" for x
    using assms by (cases "bnd_value x"; auto simp: lower_overlaps_def upper_overlaps_def i64_le_def i64_lt_def)+
  moreover have "lower_overlaps max_ts None" "upper_overlaps min_ts None"
    by (simp_all add: lower_overlaps_def upper_overlaps_def)
  ultimately show ?case
    using PRange assms(1) by (cases "rng_lower g"; cases "rng_upper g") (auto simp: cell_in_range_def)
qed (use assms in auto)

lemma range_bounds_spec:
  assumes "range_bounds ts rows_list bounds = Ok out"
  shows "(\<forall>r \<in> set rows_list. \<exists>t lo hi. ts r = Some t \<and> out = Some (lo, hi) \<and> i64_le lo t \<and> i64_le t hi)
    \<and> (\<forall>lo hi. bounds = Some (lo, hi) \<longrightarrow> (\<exists>lo' hi'. out = Some (lo', hi') \<and> i64_le lo' lo \<and> i64_le hi hi'))"
  using assms
proof (induction rows_list arbitrary: bounds)
  case (Cons row rest)
  then obtain t where t: "ts row = Some t"
    and rest: "range_bounds ts rest (Some (case bounds of None \<Rightarrow> (t, t) | Some (lo, hi) \<Rightarrow> (i64_min lo t, i64_max hi t))) = Ok out"
    by (auto simp: result_Inr)
  have "i64_le (fst (case bounds of None \<Rightarrow> (t, t) | Some (lo, hi) \<Rightarrow> (i64_min lo t, i64_max hi t))) t"
    "i64_le t (snd (case bounds of None \<Rightarrow> (t, t) | Some (lo, hi) \<Rightarrow> (i64_min lo t, i64_max hi t)))"
    by (auto simp: i64_le_def i64_min_def i64_max_def split: option.splits)
  moreover have "i64_le (i64_min lo t) lo" "i64_le hi (i64_max hi t)" for lo hi
    by (auto simp: i64_le_def i64_min_def i64_max_def)
  moreover note Cons.IH [OF rest] t
  ultimately show ?case
    by (auto simp: i64_le_def split: option.splits) (metis order_trans)+
qed (simp add: i64_le_def)

text \<open>A range is truthful for the alive rows of a segment.\<close>

definition range_covers :: "'b roaring \<Rightarrow> 'b column_store \<Rightarrow> 'b alive_set \<Rightarrow> clustering_key_range \<Rightarrow> bool" where
  "range_covers R s alive k =
     (case k of
        Unstamped \<Rightarrow> True
      | EmptyRange \<Rightarrow> rows R (al_alive alive) = {}
      | Bounded lo hi \<Rightarrow> \<forall>r \<in> rows R (al_alive alive).
          \<exists>t. store_timestamp R s r = Some t \<and> i64_le lo t \<and> i64_le t hi)"

lemma timestamp_cell: "store_timestamp R s r = Some t \<Longrightarrow> store_cell R s TIMESTAMP_COLUMN r = Some (CvI64 t)"
  by (auto simp: store_timestamp_def store_cell_def split: option.splits column.splits)

context doc_bitmaps
begin

lemma clustering_range_covers:
  assumes "clustering_range R s alive = Ok k"
  shows "range_covers R s alive k"
proof -
  obtain out where out: "range_bounds (store_timestamp R s) (iter_alive R alive) None = Ok out" "k = range_of_bounds out"
    using assms by (auto simp: clustering_range_def result_Inr)
  have rows: "set (iter_alive R alive) = rows R (al_alive alive)" by (simp add: iter_alive_def)
  show ?thesis
    using range_bounds_spec [OF out(1)] unfolding rows
    by (cases out) (fastforce simp: range_covers_def out(2) range_of_bounds_def)+
qed

lemma prune_no_match:
  assumes "store_wf R s" "range_covers R s alive k" "\<not> segment_may_match k p" "evaluate R p s alive = Ok bm"
  shows "rows R bm = {}"
proof -
  have rows: "rows R bm = {r \<in> rows R (al_alive alive). row_sat (\<lambda>i. store_cell R s i r) p}"
    using assms(4) evaluate_rows(1) [OF assms(1)] by (auto simp: evaluate_def split: if_splits)
  show ?thesis
  proof (cases k)
    case (Bounded lo hi)
    have "\<not> row_sat (\<lambda>i. store_cell R s i r) p" if "r \<in> rows R (al_alive alive)" for r
      using assms(2,3) that Bounded timestamp_cell may_match_sound [of "\<lambda>i. store_cell R s i r" _ lo hi p]
      by (fastforce simp: range_covers_def segment_may_match_def)
    then show ?thesis using rows by auto
  qed (use assms rows in \<open>auto simp: range_covers_def segment_may_match_def\<close>)
qed

end

end
