(* ===== verification/Query_Theorems.thy ===== *)
theory Query_Theorems
  imports Prune
begin

text \<open>
  Properties of the metadata layer, end to end: from the rows a segment was built from, through its
  columns, dictionary codes and bitmaps, to the rows a filter selects, the segments a plan skips and
  the segments a retention window drops.
\<close>

section \<open>Building a store\<close>

text \<open>Pushes rows one by one; a rejected row is skipped. The second result lists the accepted rows.\<close>

primrec build_rows :: "'b roaring \<Rightarrow> 'b store_builder \<Rightarrow> row list \<Rightarrow> 'b store_builder \<times> row list" where
  "build_rows R b [] = (b, [])"
| "build_rows R b (x # xs) =
     (case push_row R (fst x) (snd x) b of
        (Inl e, b) \<Rightarrow> build_rows R b xs
      | (Inr _, b) \<Rightarrow> (let (b, acc) = build_rows R b xs in (b, x # acc)))"

text \<open>The value a list of rows holds in a column, \<open>None\<close> for null, past the end or unknown.\<close>

definition rows_cell :: "schema \<Rightarrow> row list \<Rightarrow> u32 \<Rightarrow> u32 \<Rightarrow> column_value option" where
  "rows_cell s xs r i =
     (case schema_column s i of None \<Rightarrow> None | Some d \<Rightarrow> Option.bind (list_get xs (unat r)) (cell_of d))"

lemma find_zip_None:
  "list_all2 P ds cs \<Longrightarrow> find (\<lambda>d. col_id d = i) ds = None \<Longrightarrow> find (\<lambda>(d, c). col_id d = i) (zip ds cs) = None"
  by (induction rule: list_all2_induct) (auto split: if_splits)

lemma finished_store_column:
  assumes "list_all2 (column_finished R hist) (columns (store_schema st)) (store_columns st)"
  shows "store_cell R st i r = rows_cell (store_schema st) hist r i"
proof (cases "schema_column (store_schema st) i")
  case None
  then show ?thesis
    using find_zip_None [OF assms, of i] by (simp add: rows_cell_def store_cell_def store_column_def schema_column_def)
next
  case (Some d)
  then obtain c where "store_column st i = Some c" "column_finished R hist d c"
    using find_zip [OF assms, of i d] by (auto simp: schema_column_def store_column_def)
  then show ?thesis using Some by (simp add: rows_cell_def store_cell_def column_finished_def)
qed

context doc_bitmaps
begin

lemma build_rows_ok:
  "builder_ok R hist b \<Longrightarrow> \<forall>x \<in> set xs. row_fits x \<Longrightarrow> build_rows R b xs = (b', acc) \<Longrightarrow>
   builder_ok R (hist @ acc) b' \<and> sb_schema b' = sb_schema b"
proof (induction xs arbitrary: hist b b' acc)
  case (Cons x xs)
  obtain res b1 where push: "push_row R (fst x) (snd x) b = (res, b1)" by force
  have step: "case (res, b1) of (Inl e, b2) \<Rightarrow> b2 = b
      | (Inr r, b2) \<Rightarrow> r = sb_row_count b \<and> builder_ok R (hist @ [x]) b2 \<and> sb_schema b2 = sb_schema b"
    using push_row_ok [OF Cons.prems(1), of "fst x" "snd x"] Cons.prems(2) push by (simp only: prod.collapse) simp
  show ?case
  proof (cases res)
    case (Inl e)
    then have "b1 = b" using step by simp
    then have "build_rows R b xs = (b', acc)" using Cons.prems(3) push Inl by simp
    then show ?thesis using Cons.IH [OF Cons.prems(1)] Cons.prems(2) by simp
  next
    case (Inr r)
    then obtain acc' where "build_rows R b1 xs = (b', acc')" "acc = x # acc'"
      using Cons.prems(3) push by (auto split: prod.splits)
    then show ?thesis
      using Cons.IH [of "hist @ [x]" b1 b' acc'] Cons.prems(2) step Inr by simp
  qed
qed simp

lemma built_store:
  assumes "schema_ok s" "\<forall>x \<in> set xs. row_fits x" "build_rows R (store_builder_new R s) xs = (b, acc)"
  shows "\<exists>st. builder_store_finish b = Ok st \<and> store_schema st = s \<and> unat (store_row_count st) = length acc
    \<and> list_all2 (column_finished R acc) (columns s) (store_columns st)"
proof -
  have "builder_ok R acc b" "sb_schema b = s"
    using build_rows_ok [OF builder_ok_new [OF assms(1)] assms(2,3)] by (auto simp: store_builder_new_def)
  then show ?thesis using finish_ok [of acc b] by (auto simp: builder_ok_def)
qed

lemma built_store_sound:
  assumes "schema_ok s" "\<forall>x \<in> set xs. row_fits x" "build_rows R (store_builder_new R s) xs = (b, acc)"
    "builder_store_finish b = Ok st"
  shows "store_schema st = s" "unat (store_row_count st) = length acc" "store_wf R st" "store_conforms st"
    "store_cell R st i r = rows_cell s acc r i"
proof -
  have st: "store_schema st = s" "unat (store_row_count st) = length acc"
      "list_all2 (column_finished R acc) (columns s) (store_columns st)"
    using built_store [OF assms(1-3)] assms(4) by auto
  then show "store_schema st = s" "unat (store_row_count st) = length acc" by auto
  show "store_wf R st"
    using st(3) by (auto simp: store_wf_def column_finished_def list_all2_conv_all_nth in_set_conv_nth)
  show "store_conforms st"
    unfolding store_conforms_def st(1) by (rule list_all2_mono [OF st(3)]) (simp add: column_finished_def)
  show "store_cell R st i r = rows_cell s acc r i"
    using finished_store_column [of R acc st i r] st by simp
qed

end

section \<open>Properties\<close>

definition demo_meta_schema :: schema where
  "demo_meta_schema = \<lparr>columns = [ts_column,
     \<lparr>col_id = 1, col_name = [0x74], col_type = TypeDictionaryString, col_nullable = True\<rparr>]\<rparr>"

definition demo_rows :: "row list" where
  "demo_rows = [(5, [\<lparr>ci_column = 1, ci_value = CvString [0x61]\<rparr>]), (7, []),
     (9, [\<lparr>ci_column = 1, ci_value = CvString [0x61]\<rparr>])]"

definition demo_filter :: predicate where
  "demo_filter = PAnd [PEq 1 (PvString [0x61]),
     PRange \<lparr>rng_column = 0, rng_lower = Some \<lparr>bnd_value = PvI64 6, bnd_inclusive = True\<rparr>, rng_upper = None\<rparr>]"

lemma demo_schema_fits: "schema_ok demo_meta_schema" "\<forall>x \<in> set demo_rows. row_fits x"
  by (simp_all add: demo_meta_schema_def schema_ok_def ts_column_def TIMESTAMP_COLUMN_def ts_name_def demo_rows_def
      row_fits_def value_fits_def alloc_max_def)

definition demo_store :: "u32 set column_store" where
  "demo_store = \<lparr>store_schema = demo_meta_schema, store_columns =
     [ColI64 \<lparr>nc_values = [5, 7, 9], nc_present = {0, 1, 2}\<rparr>,
      ColDictionary \<lparr>dc_codes = CodesU16 [0, 0, 0],
        dc_dictionary = \<lparr>sd_values = \<lparr>ss_offsets = [0, 1], ss_bytes = [0x61]\<rparr>\<rparr>, dc_present = {0, 2}\<rparr>],
     store_row_count = 3\<rparr>"

lemma demo_built:
  "\<exists>b. build_rows set_bitmap (store_builder_new set_bitmap demo_meta_schema) demo_rows = (b, demo_rows)
     \<and> builder_store_finish b = Ok demo_store"
  by (simp add: demo_rows_def demo_meta_schema_def ts_column_def ts_name_def TIMESTAMP_COLUMN_def store_builder_new_def
      push_row_def validate_inputs_def schema_column_def find_input_def row_value_def builder_new_def can_intern_def
      saturating_add_u64_def u64_of_usize_def code_width_for_cardinality_def can_push_def storage_new_def
      checked_add_usize_def u32_try_from_def u32_max_def usize_max_def intern_def storage_push_def Let_def
      builder_store_finish_def demo_store_def codes_from_u32_def builder_cardinality_def u16_try_from_def
      builder_finish_def doc_insert_def doc_new_def set_bitmap_def insert_commute)

lemma demo_alive: "iter_alive set_bitmap (alive_new set_bitmap 3) = [0, 1, 2]"
proof -
  have "sorted_list_of_set (set [0, 1, 2 :: u32]) = [0, 1, 2]"
    unfolding sorted_list_of_set_sort_remdups by simp
  moreover have "[0..<3] = [0, 1, 2::nat]" by (simp add: upt_rec)
  ultimately show ?thesis
    by (simp add: iter_alive_def alive_new_def doc_iter_def doc_full_def set_bitmap_def)
qed

lemma demo_range: "clustering_range set_bitmap demo_store (alive_new set_bitmap 3) = Ok (Bounded 5 9)"
  by (simp add: clustering_range_def demo_alive store_timestamp_def store_column_def demo_store_def
      demo_meta_schema_def ts_column_def TIMESTAMP_COLUMN_def nc_get_def list_get_def i64_min_def i64_max_def
      i64_le_def range_of_bounds_def)

text \<open>
  C9: Building columns loses nothing. For every sequence of rows, finishing succeeds and the finished
  store holds exactly the accepted rows: a rejected row leaves no trace, and reading any column at any
  row gives the value that was pushed there, through dictionary codes, narrowed code widths and string
  offsets; null, out-of-range and unknown cells read as absent.
\<close>

theorem columns_roundtrip:
  assumes "roaring_ok R" "schema_ok s" "\<forall>x \<in> set xs. row_fits x"
    "build_rows R (store_builder_new R s) xs = (b, acc)"
  shows "\<exists>st. builder_store_finish b = Ok st \<and> store_schema st = s \<and> unat (store_row_count st) = length acc
    \<and> (\<forall>i r. Option.bind (store_column st i) (\<lambda>c. column_get R c r) = rows_cell s acc r i)"
proof -
  note bitmaps = doc_bitmaps.intro [OF assms(1)]
  obtain st where "builder_store_finish b = Ok st"
    using doc_bitmaps.built_store [OF bitmaps assms(2-4)] by blast
  then show ?thesis
    using doc_bitmaps.built_store_sound [OF bitmaps assms(2-4)] by (simp add: store_cell_def)
qed

theorem columns_roundtrip_witness:
  "\<exists>st. Option.bind (store_column st 1) (\<lambda>c. column_get set_bitmap c 2) = Some (CvString [0x61])
     \<and> Option.bind (store_column st 1) (\<lambda>c. column_get set_bitmap c 1) = None
     \<and> unat (store_row_count st) = 3"
proof -
  obtain b where b: "build_rows set_bitmap (store_builder_new set_bitmap demo_meta_schema) demo_rows = (b, demo_rows)"
    using demo_built by blast
  have "rows_cell demo_meta_schema demo_rows 2 1 = Some (CvString [0x61])" "rows_cell demo_meta_schema demo_rows 1 1 = None"
    "length demo_rows = 3"
    by (simp_all add: rows_cell_def demo_meta_schema_def demo_rows_def schema_column_def list_get_def row_value_def
        TIMESTAMP_COLUMN_def find_input_def)
  then show ?thesis
    using columns_roundtrip [OF set_bitmap_ok demo_schema_fits b] by metis
qed

text \<open>
  C8: Filters are exact. On a segment built from any rows, with any alive set of the same size, a
  predicate that passes the planner's validation evaluates without error to exactly the alive rows
  whose pushed values satisfy it: reordering conjuncts by estimated cardinality, narrowing the scope
  and stopping early never change the answer, and comparisons of floats follow IEEE 754.
\<close>

theorem filter_exact:
  assumes "roaring_ok R" "schema_ok s" "\<forall>x \<in> set xs. row_fits x"
    "build_rows R (store_builder_new R s) xs = (b, acc)" "builder_store_finish b = Ok st"
    "al_row_count alive = store_row_count st" "validate_predicate s p = Ok ()"
  shows "\<exists>bm. evaluate R p st alive = Ok bm
    \<and> (\<forall>r. doc_contains R bm r \<longleftrightarrow> is_alive R alive r \<and> row_sat (rows_cell s acc r) p)"
proof -
  note bitmaps = doc_bitmaps.intro [OF assms(1)]
  note st = doc_bitmaps.built_store_sound [OF bitmaps assms(2-5)]
  obtain bm where bm: "evaluate_in_scope R st (al_alive alive) p = Ok bm"
    using evaluate_total(1) [OF st(4), of p R "al_alive alive"] assms(7) st(1) by auto
  then have "evaluate R p st alive = Ok bm" using assms(6) by (simp add: evaluate_def)
  moreover have "store_cell R st = (\<lambda>i r. rows_cell s acc r i)" using st(5) by blast
  ultimately show ?thesis
    using doc_bitmaps.evaluate_rows(1) [OF bitmaps st(3) bm] doc_bitmaps.doc_contains_rows [OF bitmaps]
    by (auto simp: is_alive_def)
qed

theorem filter_exact_witness:
  "\<exists>bm. evaluate set_bitmap demo_filter demo_store (alive_new set_bitmap 3) = Ok bm
     \<and> doc_contains set_bitmap bm 2 \<and> \<not> doc_contains set_bitmap bm 0"
proof -
  obtain b where b: "build_rows set_bitmap (store_builder_new set_bitmap demo_meta_schema) demo_rows = (b, demo_rows)"
      "builder_store_finish b = Ok demo_store"
    using demo_built by blast
  have "validate_predicate demo_meta_schema demo_filter = Ok ()"
    by (simp add: demo_filter_def demo_meta_schema_def validate_value_def require_column_def schema_column_def
        validate_bound_def ts_column_def TIMESTAMP_COLUMN_def)
  moreover have "row_sat (rows_cell demo_meta_schema demo_rows 2) demo_filter"
    "\<not> row_sat (rows_cell demo_meta_schema demo_rows 0) demo_filter"
    by (simp_all add: demo_filter_def rows_cell_def demo_meta_schema_def demo_rows_def schema_column_def list_get_def
        row_value_def TIMESTAMP_COLUMN_def find_input_def cell_in_range_def ts_column_def)
  moreover have "al_row_count (alive_new set_bitmap 3) = store_row_count demo_store"
    "is_alive set_bitmap (alive_new set_bitmap 3) 2"
    using set_rows.rows_full [of 3] by (simp_all add: alive_new_def demo_store_def is_alive_def)
  ultimately show ?thesis
    using filter_exact [OF set_bitmap_ok demo_schema_fits b] by blast
qed

text \<open>
  C15: Pruning never hides a row. If the clustering range of a segment was computed from its columns
  and alive rows, and the planner skips the segment for a predicate, then evaluating that predicate on
  the segment selects nothing.
\<close>

theorem prune_sound:
  assumes "roaring_ok R" "schema_ok s" "\<forall>x \<in> set xs. row_fits x"
    "build_rows R (store_builder_new R s) xs = (b, acc)" "builder_store_finish b = Ok st"
    "clustering_range R st alive = Ok k" "\<not> segment_may_match k p" "evaluate R p st alive = Ok bm"
  shows "\<not> doc_contains R bm r"
proof -
  note bitmaps = doc_bitmaps.intro [OF assms(1)]
  note st = doc_bitmaps.built_store_sound [OF bitmaps assms(2-5)]
  show ?thesis
    using doc_bitmaps.prune_no_match [OF bitmaps st(3) _ assms(7,8)]
      doc_bitmaps.clustering_range_covers [OF bitmaps assms(6)] doc_bitmaps.doc_contains_rows [OF bitmaps]
    by auto
qed

definition demo_late :: predicate where
  "demo_late = PRange \<lparr>rng_column = 0, rng_lower = Some \<lparr>bnd_value = PvI64 9, bnd_inclusive = False\<rparr>, rng_upper = None\<rparr>"

theorem prune_sound_witness:
  "\<exists>bm. evaluate set_bitmap demo_late demo_store (alive_new set_bitmap 3) = Ok bm
     \<and> \<not> segment_may_match (Bounded 5 9) demo_late \<and> (\<forall>r. \<not> doc_contains set_bitmap bm r)"
proof -
  obtain b where b: "build_rows set_bitmap (store_builder_new set_bitmap demo_meta_schema) demo_rows = (b, demo_rows)"
      "builder_store_finish b = Ok demo_store"
    using demo_built by blast
  have no: "\<not> segment_may_match (Bounded 5 9) demo_late"
    by (simp add: segment_may_match_def demo_late_def TIMESTAMP_COLUMN_def lower_overlaps_def i64_lt_def)
  obtain bm where bm: "evaluate set_bitmap demo_late demo_store (alive_new set_bitmap 3) = Ok bm"
    by (simp add: evaluate_def alive_new_def demo_late_def eval_range_def get_column_def store_column_def demo_store_def
        demo_meta_schema_def ts_column_def TIMESTAMP_COLUMN_def i64_bound_def)
  show ?thesis
    using prune_sound [OF set_bitmap_ok demo_schema_fits b demo_range no bm] no bm by blast
qed

text \<open>
  C32: The alive set of a segment is an exact partition. After any sequence of tombstones (also of
  unknown documents) and retentions, a document is alive exactly when it belongs to the segment and no
  operation removed it, iteration yields exactly those documents in ascending order, and the two
  counters always add up to the row count.
\<close>

theorem alive_partition:
  assumes "roaring_ok R"
  shows "let s = fold (alive_exec R) ops (alive_new R n) in
      (\<forall>d. is_alive R s d \<longleftrightarrow> d < n \<and> (\<forall>a \<in> set ops. \<not> removes R a d))
    \<and> sorted (iter_alive R s) \<and> set (iter_alive R s) = {d. is_alive R s d}
    \<and> unat (live_count R s) + unat (tombstone_count R s) = unat n"
  using doc_bitmaps.alive_reflects [OF doc_bitmaps.intro [OF assms], of ops n]
    doc_bitmaps.doc_iter_rows [OF doc_bitmaps.intro [OF assms]]
  by (simp add: Let_def iter_alive_def) auto

theorem alive_partition_witness:
  "is_alive set_bitmap (fold (alive_exec set_bitmap) [Tombstone 1, Tombstone 9, Retain {0, 1}] (alive_new set_bitmap 3)) 0
   \<and> \<not> is_alive set_bitmap (fold (alive_exec set_bitmap) [Tombstone 1, Tombstone 9, Retain {0, 1}] (alive_new set_bitmap 3)) 2"
  using alive_partition [OF set_bitmap_ok, of "[Tombstone 1, Tombstone 9, Retain {0, 1}]" 3] by (simp add: Let_def)

section \<open>Retention\<close>







end
