(* ===== verification/Ordered.thy ===== *)
theory Ordered
  imports Codec "HOL-Library.List_Lexorder"
begin

text \<open>
  The ordered collections and the text functions of the standard library that the namespace records
  use: \<open>BTreeSet\<close> as a strictly ascending list, \<open>BTreeMap\<close> as an association list with strictly
  ascending keys (byte strings compare lexicographically, as Rust's \<open>str\<close> does), splitting a string
  at a delimiter, and decimal numbers.
\<close>

section \<open>Ordered sets\<close>

text \<open>\<open>BTreeSet::insert\<close>: whether the element is new, and the set with it.\<close>

fun bset_insert :: "'a::linorder \<Rightarrow> 'a list \<Rightarrow> bool \<times> 'a list" where
  "bset_insert x [] = (True, [x])"
| "bset_insert x (y # ys) =
     (if x < y then (True, x # y # ys)
      else if x = y then (False, y # ys)
      else (fst (bset_insert x ys), y # snd (bset_insert x ys)))"

abbreviation bset_ok :: "'a::linorder list \<Rightarrow> bool" where
  "bset_ok xs \<equiv> sorted_wrt (<) xs"

lemma set_bset_insert [simp]: "set (snd (bset_insert x xs)) = insert x (set xs)"
  by (induction xs) auto

lemma bset_insert_ok: "bset_ok xs \<Longrightarrow> bset_ok (snd (bset_insert x xs))"
  by (induction xs) auto

lemma bset_insert_new: "bset_ok xs \<Longrightarrow> fst (bset_insert x xs) \<longleftrightarrow> x \<notin> set xs"
  by (induction xs) auto

lemma bset_insert_old: "bset_ok xs \<Longrightarrow> x \<in> set xs \<Longrightarrow> bset_insert x xs = (False, xs)"
  by (induction xs) auto

lemma bset_insert_snoc: "\<forall>y \<in> set xs. y < x \<Longrightarrow> bset_insert x xs = (True, xs @ [x])"
  by (induction xs) auto

lemma bset_ok_distinct: "bset_ok xs \<Longrightarrow> distinct xs"
  by (induction xs) auto

lemma bset_ok_sorted: "bset_ok xs \<Longrightarrow> sorted xs"
  by (induction xs) (auto simp: less_imp_le)

lemma bset_eqI: "bset_ok xs \<Longrightarrow> bset_ok ys \<Longrightarrow> set xs = set ys \<Longrightarrow> xs = ys"
  by (rule sorted_distinct_set_unique) (simp_all add: bset_ok_distinct bset_ok_sorted)

text \<open>Collecting an iterator into a \<open>BTreeSet\<close>.\<close>

definition bset_collect :: "'a::linorder list \<Rightarrow> 'a list" where
  "bset_collect xs = fold (\<lambda>x s. snd (bset_insert x s)) xs []"

lemma fold_bset_insert:
  "bset_ok s \<Longrightarrow> bset_ok (fold (\<lambda>x s. snd (bset_insert x s)) xs s)
    \<and> set (fold (\<lambda>x s. snd (bset_insert x s)) xs s) = set xs \<union> set s"
  by (induction xs arbitrary: s) (auto simp: bset_insert_ok)

lemma bset_collect [simp]: "set (bset_collect xs) = set xs" "bset_ok (bset_collect xs)"
  using fold_bset_insert [of "[]" xs] by (simp_all add: bset_collect_def)

section \<open>Ordered maps\<close>

text \<open>\<open>BTreeMap::insert\<close>: the value it replaced, if any, and the map.\<close>

fun bmap_insert :: "'k::linorder \<Rightarrow> 'v \<Rightarrow> ('k \<times> 'v) list \<Rightarrow> 'v option \<times> ('k \<times> 'v) list" where
  "bmap_insert k v [] = (None, [(k, v)])"
| "bmap_insert k v ((a, b) # m) =
     (if k < a then (None, (k, v) # (a, b) # m)
      else if k = a then (Some b, (k, v) # m)
      else (fst (bmap_insert k v m), (a, b) # snd (bmap_insert k v m)))"

abbreviation bmap_ok :: "('k::linorder \<times> 'v) list \<Rightarrow> bool" where
  "bmap_ok m \<equiv> sorted_wrt (<) (map fst m)"

text \<open>\<open>BTreeMap::remove\<close>.\<close>

definition bmap_remove :: "'k \<Rightarrow> ('k \<times> 'v) list \<Rightarrow> 'v option \<times> ('k \<times> 'v) list" where
  "bmap_remove k m = (map_of m k, filter (\<lambda>(a, _). a \<noteq> k) m)"

lemma map_of_bmap_insert [simp]: "map_of (snd (bmap_insert k v m)) = (map_of m)(k \<mapsto> v)"
  by (induction m) (auto simp: fun_eq_iff)

lemma keys_bmap_insert [simp]: "fst ` set (snd (bmap_insert k v m)) = insert k (fst ` set m)"
proof (induction m)
  case (Cons e m)
  then show ?case by (cases e) (simp add: insert_commute)
qed simp

lemma bmap_insert_ok: "bmap_ok m \<Longrightarrow> bmap_ok (snd (bmap_insert k v m))"
proof (induction m)
  case (Cons e m)
  have keys: "set (map fst (snd (bmap_insert k v m))) = insert k (fst ` set m)"
    by (simp only: set_map keys_bmap_insert)
  show ?case
    using Cons keys by (cases e) (force simp: image_iff)
qed simp

lemma bmap_insert_old: "bmap_ok m \<Longrightarrow> fst (bmap_insert k v m) = map_of m k"
proof (induction m)
  case (Cons e m)
  have "k < fst e \<Longrightarrow> k \<notin> fst ` set m" using Cons.prems by auto
  then have "k < fst e \<Longrightarrow> map_of m k = None" by (simp add: map_of_eq_None_iff)
  then show ?case using Cons by (cases e) simp
qed simp

lemma bmap_insert_snoc: "\<forall>a \<in> fst ` set m. a < k \<Longrightarrow> bmap_insert k v m = (None, m @ [(k, v)])"
  by (induction m) auto

lemma bmap_ok_distinct: "bmap_ok m \<Longrightarrow> distinct (map fst m)"
  by (rule bset_ok_distinct)

lemma map_of_bmap_remove: "map_of (snd (bmap_remove k m)) = (map_of m)(k := None)"
  by (induction m) (auto simp: bmap_remove_def)

section \<open>Splitting text\<close>

text \<open>\<open>str::split\<close>, \<open>str::split_once\<close>, \<open>str::split_terminator\<close> and \<open>str::lines\<close>.\<close>

fun str_split :: "u8 \<Rightarrow> bytes \<Rightarrow> bytes list" where
  "str_split d [] = [[]]"
| "str_split d (b # bs) =
     (if b = d then [] # str_split d bs
      else (case str_split d bs of [] \<Rightarrow> [[b]] | l # ls \<Rightarrow> (b # l) # ls))"

definition split_once :: "u8 \<Rightarrow> bytes \<Rightarrow> (bytes \<times> bytes) option" where
  "split_once d bs =
     (if d \<in> set bs then Some (takeWhile (\<lambda>b. b \<noteq> d) bs, tl (dropWhile (\<lambda>b. b \<noteq> d) bs)) else None)"

fun split_terminator :: "u8 \<Rightarrow> bytes \<Rightarrow> bytes list" where
  "split_terminator d [] = []"
| "split_terminator d (b # bs) =
     (if b = d then [] # split_terminator d bs
      else (case split_terminator d bs of [] \<Rightarrow> [[b]] | l # ls \<Rightarrow> (b # l) # ls))"

fun split_inclusive :: "u8 \<Rightarrow> bytes \<Rightarrow> bytes list" where
  "split_inclusive d [] = []"
| "split_inclusive d (b # bs) =
     (if b = d then [b] # split_inclusive d bs
      else (case split_inclusive d bs of [] \<Rightarrow> [[b]] | l # ls \<Rightarrow> (b # l) # ls))"

definition strip_suffix :: "u8 \<Rightarrow> bytes \<Rightarrow> bytes option" where
  "strip_suffix b l = (if l \<noteq> [] \<and> last l = b then Some (butlast l) else None)"

definition str_lines :: "bytes \<Rightarrow> bytes list" where
  "str_lines text =
     map (\<lambda>l. case strip_suffix 10 l of
            None \<Rightarrow> l
          | Some l \<Rightarrow> (case strip_suffix 13 l of None \<Rightarrow> l | Some l \<Rightarrow> l)) (split_inclusive 10 text)"

lemma split_terminator_line: "d \<notin> set l \<Longrightarrow> split_terminator d (l @ d # rest) = l # split_terminator d rest"
  by (induction l) auto

lemma split_inclusive_line: "d \<notin> set l \<Longrightarrow> split_inclusive d (l @ d # rest) = (l @ [d]) # split_inclusive d rest"
  by (induction l) auto

lemma split_terminator_lines:
  "\<forall>l \<in> set ls. d \<notin> set l \<Longrightarrow> split_terminator d (concat (map (\<lambda>l. l @ [d]) ls)) = ls"
  by (induction ls) (auto simp: split_terminator_line)

lemma str_lines_lines:
  "\<forall>l \<in> set ls. 10 \<notin> set l \<and> 13 \<notin> set l \<Longrightarrow> str_lines (concat (map (\<lambda>l. l @ [10]) ls)) = ls"
proof (induction ls)
  case (Cons l ls)
  have "l = [] \<or> last l \<noteq> 13" using Cons.prems last_in_set [of l] by fastforce
  then have "strip_suffix 13 l = None" by (simp add: strip_suffix_def)
  then show ?case
    using Cons by (simp add: str_lines_def split_inclusive_line strip_suffix_def)
qed (simp add: str_lines_def)

lemma str_split_field: "d \<notin> set f \<Longrightarrow> str_split d (f @ d # rest) = f # str_split d rest"
  by (induction f) auto

lemma str_split_single: "d \<notin> set f \<Longrightarrow> str_split d f = [f]"
  by (induction f) auto

lemma str_split_nonempty [simp]: "str_split d bs \<noteq> []"
  by (induction bs) (auto split: list.splits)

lemma split_once_field: "d \<notin> set f \<Longrightarrow> split_once d (f @ d # rest) = Some (f, rest)"
  by (induction f) (auto simp: split_once_def)

section \<open>Decimal numbers\<close>

fun dec_digits :: "nat \<Rightarrow> bytes" where
  "dec_digits n = (if n < 10 then [word_of_nat (48 + n)] else dec_digits (n div 10) @ [word_of_nat (48 + n mod 10)])"

declare dec_digits.simps [simp del]

text \<open>\<open>str::parse\<close> to an unsigned integer: an optional plus sign, at least one digit, no overflow.\<close>

fun parse_digits :: "nat \<Rightarrow> nat \<Rightarrow> bytes \<Rightarrow> nat option" where
  "parse_digits bound acc [] = Some acc"
| "parse_digits bound acc (b # bs) =
     (if 48 \<le> b \<and> b \<le> 57 then
        (let acc = acc * 10 + (unat b - 48) in if acc \<le> bound then parse_digits bound acc bs else None)
      else None)"

definition parse_unsigned :: "nat \<Rightarrow> bytes \<Rightarrow> nat option" where
  "parse_unsigned bound bs =
     (let digits = (case bs of b # r \<Rightarrow> if b = 43 then r else bs | [] \<Rightarrow> []) in
      if digits = [] then None else parse_digits bound 0 digits)"

lemma parse_digits_append:
  "parse_digits bound acc (xs @ ys) = Option.bind (parse_digits bound acc xs) (\<lambda>a. parse_digits bound a ys)"
  by (induction xs arbitrary: acc) (auto simp: Let_def)

lemma digit_byte:
  assumes "d < 10"
  shows "unat (word_of_nat (48 + d) :: u8) = 48 + d" "48 \<le> (word_of_nat (48 + d) :: u8)"
    "(word_of_nat (48 + d) :: u8) \<le> 57"
proof -
  show u: "unat (word_of_nat (48 + d) :: u8) = 48 + d" using assms by (subst unat_of_nat) simp
  show "48 \<le> (word_of_nat (48 + d) :: u8)" "(word_of_nat (48 + d) :: u8) \<le> 57"
    using assms by (simp_all only: word_le_nat_alt u) simp_all
qed

lemma parse_digit:
  "d < 10 \<Longrightarrow> parse_digits bound acc [word_of_nat (48 + d)] = (if acc * 10 + d \<le> bound then Some (acc * 10 + d) else None)"
  using digit_byte [of d] by (simp only: parse_digits.simps Let_def) simp

lemma parse_dec_digits: "n \<le> bound \<Longrightarrow> parse_digits bound 0 (dec_digits n) = Some n"
proof (induction n rule: dec_digits.induct)
  case (1 n)
  show ?case
  proof (cases "n < 10")
    case True
    then show ?thesis using 1 parse_digit [of n bound 0] by (simp add: dec_digits.simps [of n])
  next
    case False
    have "parse_digits bound 0 (dec_digits n) = parse_digits bound (n div 10) [word_of_nat (48 + n mod 10)]"
      using 1 False by (subst dec_digits.simps) (simp add: parse_digits_append)
    then show ?thesis using 1 parse_digit [of "n mod 10" bound "n div 10"] by simp
  qed
qed

lemma dec_digits_digits: "b \<in> set (dec_digits n) \<Longrightarrow> 48 \<le> b \<and> b \<le> 57"
proof (induction n rule: dec_digits.induct)
  case (1 n)
  have "b \<in> set (if n < 10 then [word_of_nat (48 + n)] else dec_digits (n div 10) @ [word_of_nat (48 + n mod 10)])"
    using 1(2) by (simp only: dec_digits.simps [of n])
  then show ?case
    using 1(1) digit_byte [of n] digit_byte [of "n mod 10"] by (auto split: if_splits simp del: of_nat_add)
qed

lemma dec_digits_nonempty [simp]: "dec_digits n \<noteq> []"
  by (subst dec_digits.simps) simp

lemma parse_dec: "n \<le> bound \<Longrightarrow> parse_unsigned bound (dec_digits n) = Some n"
proof -
  assume n: "n \<le> bound"
  obtain b r where d: "dec_digits n = b # r" by (cases "dec_digits n") auto
  then have "48 \<le> b" using dec_digits_digits [of b n] by simp
  then have "b \<noteq> 43" by auto
  then show ?thesis using d parse_dec_digits [OF n] by (simp add: parse_unsigned_def)
qed

end
