(* ===== verification/Namespace_Record.thy ===== *)
theory Namespace_Record
  imports Manifest_Io Atomic_Theorems Ordered
begin

text \<open>
  The durable records of a namespace root (\<^verbatim>\<open>src/lifecycle/namespace_batch.rs\<close> and
  \<^verbatim>\<open>namespace_batch/portable.rs\<close>): the route table, the staged decision of a
  cross-namespace batch, the portable root record and the participant reference. The 128-bit hash
  of the external library is an argument of the functions that use it; errors carry the message
  the code reports and drop the path it is reported for.
\<close>

datatype ns_error =
    NsIo io_kind
  | NsInvalid string
  | NsCascadeCycle "bytes list"

section \<open>Names and the checksummed envelope\<close>

definition NS_MAGIC :: bytes where "NS_MAGIC = ascii ''ZENS0001''"
definition STAGED_MAGIC :: bytes where "STAGED_MAGIC = ascii ''ZENS0002''"
definition LOGICAL_STAGED_MAGIC :: bytes where "LOGICAL_STAGED_MAGIC = ascii ''ZENS0003''"
definition ROOT_MAGIC :: bytes where "ROOT_MAGIC = ascii ''ZENS0003''"
definition REFERENCE_MAGIC :: bytes where "REFERENCE_MAGIC = ascii ''ZENR0002''"
definition MAX_RECORD :: nat where "MAX_RECORD = 1024 * 1024"

definition is_alphanumeric :: "u8 \<Rightarrow> bool" where
  "is_alphanumeric b \<longleftrightarrow> 48 \<le> b \<and> b \<le> 57 \<or> 65 \<le> b \<and> b \<le> 90 \<or> 97 \<le> b \<and> b \<le> 122"

definition name_valid :: "bytes \<Rightarrow> bool" where
  "name_valid name \<longleftrightarrow>
     (case name of [] \<Rightarrow> False | b # _ \<Rightarrow> is_alphanumeric b)
     \<and> length name \<le> 255
     \<and> list_all (\<lambda>b. is_alphanumeric b \<or> b = 46 \<or> b = 95 \<or> b = 45) name"

definition envelope :: "xxh3_lib \<Rightarrow> bytes \<Rightarrow> bytes" where
  "envelope X content = (let bs = NS_MAGIC @ content in bs @ to_le_bytes (xxh3_64 X bs))"

definition ns_body :: "xxh3_lib \<Rightarrow> bytes \<Rightarrow> (ns_error, bytes) result" where
  "ns_body X bs =
     and_then (ok_or (NsInvalid ''short namespace record'') (checked_sub_usize (length bs) 8)) (\<lambda>stop.
     and_then (ok_or (NsInvalid ''namespace record bounds'') (slice_to bs stop)) (\<lambda>pre.
     if MAX_RECORD < length bs \<or> \<not> prefix NS_MAGIC pre
        \<or> slice_from bs stop \<noteq> Some (to_le_bytes (xxh3_64 X pre))
     then Err (NsInvalid ''namespace record checksum/version'')
     else ok_or (NsInvalid ''namespace record header'') (slice_from pre (length NS_MAGIC))))"

section \<open>The route table\<close>

type_synonym routes = "(bytes \<times> bytes) list"

definition route_line :: "bytes \<times> bytes \<Rightarrow> bytes" where
  "route_line r = fst r @ [9] @ snd r"

definition encode_routes :: "xxh3_lib \<Rightarrow> routes \<Rightarrow> bytes" where
  "encode_routes X rs = envelope X (concat (map (\<lambda>r. route_line r @ [10]) rs))"

definition route_transaction_ok :: "bytes \<Rightarrow> bool" where
  "route_transaction_ok t \<longleftrightarrow>
     prefix (ascii ''.ze-batch-'') t \<and> list_all (\<lambda>b. is_alphanumeric b \<or> b = 45 \<or> b = 46) t
     \<and> \<not> sublist (ascii ''..'') t"

primrec decode_route_lines :: "bytes list \<Rightarrow> routes \<Rightarrow> (ns_error, routes) result" where
  "decode_route_lines [] acc = Ok acc"
| "decode_route_lines (line # ls) acc =
     and_then (ok_or (NsInvalid ''namespace route'') (split_once 9 line)) (\<lambda>(name, destination).
     and_then (ok_or (NsInvalid ''namespace destination'') (split_once 47 destination)) (\<lambda>(transaction, child).
     if \<not> name_valid name \<or> child \<noteq> name \<or> \<not> route_transaction_ok transaction
        \<or> fst (bmap_insert name destination acc) \<noteq> None
     then Err (NsInvalid ''invalid or duplicate namespace route'')
     else decode_route_lines ls (snd (bmap_insert name destination acc))))"

definition decode_routes :: "xxh3_lib \<Rightarrow> bytes \<Rightarrow> (ns_error, routes) result" where
  "decode_routes X bs =
     and_then (ns_body X bs) (\<lambda>text.
     and_then (ensure (utf8_valid text) (NsInvalid ''namespace record UTF-8'')) (\<lambda>_.
     and_then (decode_route_lines (split_terminator 10 text) []) (\<lambda>rs.
     if encode_routes X rs \<noteq> bs then Err (NsInvalid ''noncanonical namespace record'') else Ok rs)))"

section \<open>The staged decision\<close>

record staged_selection =
  ss_logical_delete :: bool
  ss_manifest :: bytes
  ss_binding :: transaction_binding

record staged_descriptor =
  sd_selections :: "(bytes \<times> staged_selection) list"
  sd_routes :: routes

definition u16_of_usize :: "nat \<Rightarrow> u16 option" where
  "u16_of_usize n = (if n \<le> 65535 then Some (word_of_nat n) else None)"

definition selection_text :: "bytes \<Rightarrow> (ns_error, bytes) result" where
  "selection_text t =
     map_ok (\<lambda>n. to_le_bytes n @ t) (ok_or (NsInvalid ''selection length'') (u16_of_usize (length t)))"

primrec encode_selections ::
  "bool \<Rightarrow> (bytes \<times> staged_selection) list \<Rightarrow> u128 option \<Rightarrow> u128 set \<Rightarrow> (ns_error, bytes) result" where
  "encode_selections logical [] transaction identities = Ok []"
| "encode_selections logical (e # es) transaction identities =
     (let name = fst e; sel = snd e; b = ss_binding sel in
      if ss_logical_delete sel \<noteq> logical \<or> \<not> name_valid name
         \<or> \<not> prefix (ascii ''.ze-manifest-'') (ss_manifest sel)
         \<or> \<not> name_valid (dropWhile (\<lambda>c. c = 46) (ss_manifest sel))
         \<or> sublist (ascii ''..'') (ss_manifest sel)
         \<or> (case transaction of None \<Rightarrow> False | Some t \<Rightarrow> t \<noteq> tb_transaction b)
         \<or> tb_participant b \<in> identities
      then Err (NsInvalid ''staged participant identity or manifest'')
      else
        and_then (selection_text name) (\<lambda>n.
        and_then (selection_text (ss_manifest sel)) (\<lambda>m.
        and_then (map_err (\<lambda>_. NsInvalid ''transaction binding'') (binding_encode b)) (\<lambda>bb.
        map_ok (\<lambda>r. n @ m @ bb @ r)
          (encode_selections logical es (Some (tb_transaction b)) (insert (tb_participant b) identities))))))"

definition first_logical :: "staged_descriptor \<Rightarrow> bool" where
  "first_logical d = (case sd_selections d of [] \<Rightarrow> False | e # _ \<Rightarrow> ss_logical_delete (snd e))"

definition encode_staged :: "xxh3_lib \<Rightarrow> staged_descriptor \<Rightarrow> (ns_error, bytes) result" where
  "encode_staged X d =
     (let logical = first_logical d;
          tag = (if logical then LOGICAL_STAGED_MAGIC else STAGED_MAGIC) in
      and_then (ok_or (NsInvalid ''participant count'') (u32_try_from (length (sd_selections d)))) (\<lambda>count.
      if count = 0 then Err (NsInvalid ''empty staged decision'') else
      and_then (encode_selections logical (sd_selections d) None {}) (\<lambda>body.
      let rs = encode_routes X (sd_routes d) in
      and_then (ok_or (NsInvalid ''route table length'') (u32_try_from (length rs))) (\<lambda>len.
      let bs = tag @ to_le_bytes count @ body @ to_le_bytes len @ rs;
          bs = bs @ to_le_bytes (xxh3_64 X bs) in
      if MAX_RECORD < length bs then Err (NsInvalid ''staged decision too large'') else Ok bs))))"

text \<open>Taking \<open>n\<close> bytes; the second slice cannot fail after the first succeeded.\<close>

definition ns_take :: "string \<Rightarrow> nat \<Rightarrow> bytes \<Rightarrow> (ns_error, bytes \<times> bytes) result" where
  "ns_take message n bs =
     and_then (ok_or (NsInvalid message) (slice_to bs n)) (\<lambda>x.
     and_then (ok_or (NsInvalid message) (slice_from bs n)) (\<lambda>rest. Ok (x, rest)))"

definition staged_text :: "bytes \<Rightarrow> (ns_error, bytes \<times> bytes) result" where
  "staged_text bs =
     and_then (ns_take ''truncated staged decision'' 2 bs) (\<lambda>(n, bs).
     and_then (ns_take ''truncated staged decision'' (unat (from_le_bytes n :: u16)) bs) (\<lambda>(t, bs).
     and_then (ensure (utf8_valid t) (NsInvalid ''selection UTF-8'')) (\<lambda>_. Ok (t, bs))))"

primrec decode_selections ::
  "bool \<Rightarrow> nat \<Rightarrow> bytes \<Rightarrow> (bytes \<times> staged_selection) list
   \<Rightarrow> (ns_error, (bytes \<times> staged_selection) list \<times> bytes) result" where
  "decode_selections logical 0 bs acc = Ok (acc, bs)"
| "decode_selections logical (Suc n) bs acc =
     and_then (staged_text bs) (\<lambda>(name, bs).
     and_then (staged_text bs) (\<lambda>(manifest, bs).
     and_then (ns_take ''truncated staged decision'' 64 bs) (\<lambda>(bb, bs).
     and_then (map_err (\<lambda>_. NsInvalid ''transaction binding'') (binding_decode bb)) (\<lambda>b.
     let sel = \<lparr>ss_logical_delete = logical, ss_manifest = manifest, ss_binding = b\<rparr> in
     if fst (bmap_insert name sel acc) \<noteq> None then Err (NsInvalid ''duplicate participant'')
     else decode_selections logical n bs (snd (bmap_insert name sel acc))))))"

definition decode_staged :: "xxh3_lib \<Rightarrow> bytes \<Rightarrow> (ns_error, staged_descriptor) result" where
  "decode_staged X bs =
     and_then (ok_or (NsInvalid ''short staged decision'') (checked_sub_usize (length bs) 8)) (\<lambda>stop.
     and_then (ok_or (NsInvalid ''staged bounds'') (slice_to bs stop)) (\<lambda>pre.
     if MAX_RECORD < length bs \<or> \<not> (prefix STAGED_MAGIC pre \<or> prefix LOGICAL_STAGED_MAGIC pre)
        \<or> slice_from bs stop \<noteq> Some (to_le_bytes (xxh3_64 X pre))
     then Err (NsInvalid ''staged checksum/version'')
     else
       and_then (ok_or (NsInvalid ''staged header'') (slice_from pre 8)) (\<lambda>remaining.
       and_then (ns_take ''truncated staged decision'' 4 remaining) (\<lambda>(count, remaining).
       and_then (decode_selections (prefix LOGICAL_STAGED_MAGIC pre) (unat (from_le_bytes count :: u32)) remaining [])
         (\<lambda>(sels, remaining).
       and_then (ns_take ''truncated staged decision'' 4 remaining) (\<lambda>(len, remaining).
       and_then (ns_take ''truncated staged decision'' (unat (from_le_bytes len :: u32)) remaining) (\<lambda>(rs, remaining).
       and_then (decode_routes X rs) (\<lambda>routes.
       let d = \<lparr>sd_selections = sels, sd_routes = routes\<rparr> in
       if remaining \<noteq> [] then Err (NsInvalid ''noncanonical staged decision'')
       else and_then (encode_staged X d) (\<lambda>canonical.
         if canonical \<noteq> bs then Err (NsInvalid ''noncanonical staged decision'') else Ok d)))))))))"

section \<open>The root record\<close>

datatype root_descriptor = LegacyRoutes routes | Staged staged_descriptor

definition decode_descriptor :: "xxh3_lib \<Rightarrow> bytes \<Rightarrow> (ns_error, root_descriptor) result" where
  "decode_descriptor X bs =
     (if prefix STAGED_MAGIC bs \<or> prefix LOGICAL_STAGED_MAGIC bs
      then map_ok Staged (decode_staged X bs)
      else map_ok LegacyRoutes (decode_routes X bs))"

type_synonym root_id = u128

definition root_id_new :: "u128 \<Rightarrow> (ns_error, root_id) result" where
  "root_id_new v = (if v = 0 then Err (NsInvalid ''zero namespace root identity'') else Ok v)"

definition participant_id :: "(bytes \<Rightarrow> u128) \<Rightarrow> root_id \<Rightarrow> bytes \<Rightarrow> (ns_error, u128) result" where
  "participant_id H i name =
     (if \<not> name_valid name then Err (NsInvalid ''portable namespace name'') else
      and_then (ok_or (NsInvalid ''portable name length'') (u16_of_usize (length name))) (\<lambda>n.
      let identity = H (ascii ''ZENSPID1'' @ to_le_bytes i @ to_le_bytes n @ name) in
      if identity = 0 then Err (NsInvalid ''zero portable participant identity'') else Ok identity))"

primrec check_participants ::
  "(bytes \<Rightarrow> u128) \<Rightarrow> root_id \<Rightarrow> (bytes \<times> staged_selection) list \<Rightarrow> (ns_error, unit) result" where
  "check_participants H i [] = Ok ()"
| "check_participants H i (e # es) =
     and_then (participant_id H i (fst e)) (\<lambda>identity.
     if tb_participant (ss_binding (snd e)) \<noteq> identity
     then Err (NsInvalid ''portable staged participant identity'')
     else check_participants H i es)"

definition portable_finish :: "xxh3_lib \<Rightarrow> bytes \<Rightarrow> bytes" where
  "portable_finish X bs = bs @ to_le_bytes (xxh3_64 X bs)"

definition encode_root ::
  "xxh3_lib \<Rightarrow> (bytes \<Rightarrow> u128) \<Rightarrow> root_id \<Rightarrow> root_descriptor \<Rightarrow> (ns_error, bytes) result" where
  "encode_root X H i desc =
     and_then
       (case desc of
          LegacyRoutes rs \<Rightarrow>
            (let bs = encode_routes X rs in and_then (decode_routes X bs) (\<lambda>_. Ok bs))
        | Staged d \<Rightarrow> and_then (check_participants H i (sd_selections d)) (\<lambda>_. encode_staged X d)) (\<lambda>content.
     and_then (ok_or (NsInvalid ''portable descriptor length'') (u32_try_from (length content))) (\<lambda>len.
     let bs = portable_finish X (ROOT_MAGIC @ to_le_bytes i @ to_le_bytes len @ content) in
     if MAX_RECORD < length bs then Err (NsInvalid ''portable root too large'') else Ok bs))"

definition portable_body :: "xxh3_lib \<Rightarrow> bytes \<Rightarrow> bytes \<Rightarrow> (ns_error, bytes) result" where
  "portable_body X bs tag =
     and_then (ok_or (NsInvalid ''short portable record'') (checked_sub_usize (length bs) 8)) (\<lambda>stop.
     and_then (ok_or (NsInvalid ''portable record bounds'') (slice_to bs stop)) (\<lambda>pre.
     if MAX_RECORD < length bs \<or> \<not> prefix tag pre
        \<or> slice_from bs stop \<noteq> Some (to_le_bytes (xxh3_64 X pre))
     then Err (NsInvalid ''portable record checksum/version'')
     else ok_or (NsInvalid ''portable record header'') (slice_from pre (length tag))))"

definition decode_root ::
  "xxh3_lib \<Rightarrow> (bytes \<Rightarrow> u128) \<Rightarrow> bytes \<Rightarrow> (ns_error, root_id \<times> root_descriptor) result" where
  "decode_root X H bs =
     and_then (portable_body X bs ROOT_MAGIC) (\<lambda>remaining.
     and_then (ns_take ''truncated portable record'' 16 remaining) (\<lambda>(i, remaining).
     and_then (root_id_new (from_le_bytes i)) (\<lambda>i.
     and_then (ns_take ''truncated portable record'' 4 remaining) (\<lambda>(len, remaining).
     and_then (ns_take ''truncated portable record'' (unat (from_le_bytes len :: u32)) remaining) (\<lambda>(content, remaining).
     and_then (decode_descriptor X content) (\<lambda>desc.
     if remaining \<noteq> [] then Err (NsInvalid ''noncanonical portable root'')
     else and_then (encode_root X H i desc) (\<lambda>canonical.
       if canonical \<noteq> bs then Err (NsInvalid ''noncanonical portable root'') else Ok (i, desc))))))))"

definition encode_root_record ::
  "xxh3_lib \<Rightarrow> (bytes \<Rightarrow> u128) \<Rightarrow> root_id option \<Rightarrow> root_descriptor \<Rightarrow> (ns_error, bytes) result" where
  "encode_root_record X H i desc =
     (case i of
        Some i \<Rightarrow> encode_root X H i desc
      | None \<Rightarrow> (case desc of LegacyRoutes rs \<Rightarrow> Ok (encode_routes X rs) | Staged d \<Rightarrow> encode_staged X d))"

definition decode_root_record ::
  "xxh3_lib \<Rightarrow> (bytes \<Rightarrow> u128) \<Rightarrow> bytes \<Rightarrow> (ns_error, root_id option \<times> root_descriptor) result" where
  "decode_root_record X H bs =
     (if prefix ROOT_MAGIC bs then map_ok (\<lambda>(i, d). (Some i, d)) (decode_root X H bs)
      else map_ok (\<lambda>d. (None, d)) (decode_descriptor X bs))"

definition read_optional ::
  "io_kind option \<Rightarrow> io_kind option \<Rightarrow> file_name \<Rightarrow> directory \<Rightarrow> (ns_error, bytes option) result" where
  "read_optional open_fault read_fault name d =
     (case vfs_open open_fault name d of
        Inl e \<Rightarrow> if e = NotFound then Ok None else Err (NsIo e)
      | Inr n \<Rightarrow>
          if MAX_RECORD < unat n then Err (NsInvalid ''namespace record too large'')
          else map_err NsIo (map_ok Some (vfs_read read_fault name d)))"

definition root_record ::
  "xxh3_lib \<Rightarrow> (bytes \<Rightarrow> u128) \<Rightarrow> io_kind option \<Rightarrow> io_kind option \<Rightarrow> file_name \<Rightarrow> directory
   \<Rightarrow> (ns_error, root_id option \<times> root_descriptor) result" where
  "root_record X H open_fault read_fault name d =
     and_then (read_optional open_fault read_fault name d) (\<lambda>file.
     case file of None \<Rightarrow> Ok (None, LegacyRoutes []) | Some bs \<Rightarrow> decode_root_record X H bs)"

section \<open>The participant reference\<close>

record ns_reference =
  ref_root_id :: root_id
  ref_parent_depth :: u8
  ref_name :: bytes

definition encode_reference :: "xxh3_lib \<Rightarrow> ns_reference \<Rightarrow> (ns_error, bytes) result" where
  "encode_reference X r =
     (if \<not> (ref_parent_depth r = 1 \<or> ref_parent_depth r = 2) \<or> \<not> name_valid (ref_name r)
      then Err (NsInvalid ''portable reference name/depth'')
      else
        and_then (ok_or (NsInvalid ''portable name length'') (u16_of_usize (length (ref_name r)))) (\<lambda>n.
        Ok (portable_finish X (REFERENCE_MAGIC @ to_le_bytes (ref_root_id r) @ [ref_parent_depth r, 0]
          @ to_le_bytes n @ ref_name r))))"

definition decode_reference :: "xxh3_lib \<Rightarrow> bytes \<Rightarrow> (ns_error, ns_reference) result" where
  "decode_reference X bs =
     and_then (portable_body X bs REFERENCE_MAGIC) (\<lambda>remaining.
     and_then (ns_take ''truncated portable record'' 16 remaining) (\<lambda>(i, remaining).
     and_then (root_id_new (from_le_bytes i)) (\<lambda>i.
     and_then (ns_take ''truncated portable record'' 2 remaining) (\<lambda>(depth, remaining).
     and_then (ns_take ''truncated portable record'' 2 remaining) (\<lambda>(n, remaining).
     and_then (ns_take ''truncated portable record'' (unat (from_le_bytes n :: u16)) remaining) (\<lambda>(name, remaining).
     and_then (ensure (utf8_valid name) (NsInvalid ''portable name ASCII'')) (\<lambda>_.
     let r = \<lparr>ref_root_id = i, ref_parent_depth = depth ! 0, ref_name = name\<rparr> in
     if depth ! 1 \<noteq> 0 \<or> remaining \<noteq> [] then Err (NsInvalid ''noncanonical portable reference'')
     else and_then (encode_reference X r) (\<lambda>canonical.
       if canonical \<noteq> bs then Err (NsInvalid ''noncanonical portable reference'') else Ok r))))))))"

section \<open>Durable replacement\<close>

text \<open>How the operating system answers the calls of one replacement.\<close>

record replace_env =
  re_write :: write_outcome
  re_sync :: "io_kind option"
  re_rename :: "io_kind option"
  re_sync_dir :: "io_kind option"

definition sync_dir :: "io_kind option \<Rightarrow> (ns_error, unit) result" where
  "sync_dir fault = (case fault of None \<Rightarrow> Ok () | Some e \<Rightarrow> Err (NsIo e))"

definition durable_write ::
  "write_outcome \<Rightarrow> io_kind option \<Rightarrow> file_name \<Rightarrow> bytes \<Rightarrow> directory \<Rightarrow> (ns_error, unit) result \<times> directory" where
  "durable_write out sync_fault name bs d =
     (case vfs_write out name bs d of
        (Inl e, d) \<Rightarrow> (Err (NsIo e), d)
      | (Inr _, d) \<Rightarrow> (case sync_fault of Some e \<Rightarrow> (Err (NsIo e), d) | None \<Rightarrow> (Ok (), d)))"

text \<open>The shape of \<open>publish\<close> and \<open>publish_reference\<close>, which differ in the file they replace.\<close>

definition publish_file ::
  "replace_env \<Rightarrow> file_name \<Rightarrow> file_name \<Rightarrow> bytes \<Rightarrow> directory \<Rightarrow> (ns_error, unit) result \<times> directory" where
  "publish_file env temporary target bs d =
     (case durable_write (re_write env) (re_sync env) temporary bs d of
        (Inl e, d) \<Rightarrow> (Err e, d)
      | (Inr _, d) \<Rightarrow>
          (case vfs_rename (re_rename env) temporary target d of
             (Inl e, d) \<Rightarrow> (Err (NsIo e), d)
           | (Inr _, d) \<Rightarrow> (sync_dir (re_sync_dir env), d)))"

end
