(* ===== verification/Namespace_Codec.thy ===== *)
theory Namespace_Codec
  imports Namespace_Record
begin

text \<open>
  Round trips of the namespace records. \<open>sealed\<close> is the contract of a checksummed record: what was
  sealed is read back, and nothing else is. It is interpreted on the three envelopes of the code.
\<close>

section \<open>Checksummed records\<close>

locale sealed =
  fixes seal :: "bytes \<Rightarrow> bytes"
    and unseal :: "bytes \<Rightarrow> (ns_error, bytes) result"
  assumes unseal_seal: "length (seal c) \<le> MAX_RECORD \<Longrightarrow> unseal (seal c) = Ok c"
    and unseal_canon: "unseal bs = Ok c \<Longrightarrow> bs = seal c \<and> length bs \<le> MAX_RECORD"
begin

lemma unseal_iff: "unseal bs = Ok c \<longleftrightarrow> bs = seal c \<and> length bs \<le> MAX_RECORD"
  using unseal_seal unseal_canon by blast

lemma seal_inject: "length (seal c) \<le> MAX_RECORD \<Longrightarrow> seal c = seal c' \<longleftrightarrow> c = c'"
  using unseal_seal by (metis sum.inject(2))

end

lemma checked_body:
  fixes X :: xxh3_lib
  defines "hash \<equiv> \<lambda>pre. to_le_bytes (xxh3_64 X pre)"
  shows "and_then (ok_or e1 (checked_sub_usize (length bs) 8)) (\<lambda>stop.
      and_then (ok_or e2 (slice_to bs stop)) (\<lambda>pre.
      if MAX_RECORD < length bs \<or> \<not> prefix tag pre \<or> slice_from bs stop \<noteq> Some (hash pre)
      then Err e3 else ok_or e4 (slice_from pre (length tag)))) = Ok c
    \<longleftrightarrow> bs = (tag @ c) @ hash (tag @ c) \<and> length bs \<le> MAX_RECORD"
    (is "?lhs \<longleftrightarrow> ?rhs")
proof
  assume ?lhs
  then have a: "8 \<le> length bs" "length bs \<le> MAX_RECORD" "prefix tag (take (length bs - 8) bs)"
      "drop (length bs - 8) bs = hash (take (length bs - 8) bs)" "c = drop (length tag) (take (length bs - 8) bs)"
    by (auto simp: result_Inr checked_sub_usize_def slice_to_def slice_from_def split: if_splits)
  have "take (length bs - 8) bs = tag @ c" using a(3,5) by (auto simp: prefix_def)
  then show ?rhs using a(2,4) append_take_drop_id [of "length bs - 8" bs] by simp
next
  assume r: ?rhs
  have stop: "length bs - 8 = length (tag @ c)" "8 \<le> length bs" using r by (auto simp: hash_def)
  have "take (length bs - 8) bs = tag @ c" "drop (length bs - 8) bs = hash (tag @ c)"
    unfolding stop(1) using r by simp_all
  moreover have "\<not> MAX_RECORD < length bs" using conjunct2 [OF r] by (simp only: not_less)
  ultimately show ?lhs using stop(2) by (simp add: checked_sub_usize_def slice_to_def slice_from_def)
qed

lemma ns_body_iff: "ns_body X bs = Ok c \<longleftrightarrow> bs = envelope X c \<and> length bs \<le> MAX_RECORD"
  by (simp only: ns_body_def checked_body envelope_def Let_def)

interpretation ns_sealed: sealed "envelope X" "ns_body X" for X
  by unfold_locales (auto simp only: ns_body_iff)

definition portable_seal :: "xxh3_lib \<Rightarrow> bytes \<Rightarrow> bytes \<Rightarrow> bytes" where
  "portable_seal X tag c = portable_finish X (tag @ c)"

lemma portable_body_iff: "portable_body X bs tag = Ok c \<longleftrightarrow> bs = portable_seal X tag c \<and> length bs \<le> MAX_RECORD"
  by (simp only: portable_body_def checked_body portable_seal_def portable_finish_def)

interpretation portable_sealed: sealed "portable_seal X tag" "\<lambda>bs. portable_body X bs tag" for X tag
  by unfold_locales (auto simp only: portable_body_iff)

section \<open>Names\<close>

lemma alphanumeric_byte:
  assumes "is_alphanumeric b"
  shows "b < 0x80" "b \<noteq> 0" "b \<noteq> 9" "b \<noteq> 10" "b \<noteq> 13" "b \<noteq> 46" "b \<noteq> 47"
proof -
  have u: "unat b < 256" using unat_lt2p [of b] by simp
  have "48 \<le> unat b \<and> unat b \<le> 57 \<or> 65 \<le> unat b \<and> unat b \<le> 90 \<or> 97 \<le> unat b \<and> unat b \<le> 122"
    using assms by (simp add: is_alphanumeric_def word_le_nat_alt)
  then have r: "48 \<le> unat b" "unat b < 128" by auto
  show "b < 0x80" using r(2) by (simp add: word_less_nat_alt)
  show "b \<noteq> 0" "b \<noteq> 9" "b \<noteq> 10" "b \<noteq> 13" "b \<noteq> 46" "b \<noteq> 47" using r(1) by auto
qed

lemma name_byte:
  assumes "name_valid name" "b \<in> set name"
  shows "b < 0x80" "b \<noteq> 0" "b \<noteq> 9" "b \<noteq> 10" "b \<noteq> 13" "b \<noteq> 47"
proof -
  have "is_alphanumeric b \<or> b = 46 \<or> b = 95 \<or> b = 45"
    using assms by (auto simp: name_valid_def list_all_iff)
  then show "b < 0x80" "b \<noteq> 0" "b \<noteq> 9" "b \<noteq> 10" "b \<noteq> 13" "b \<noteq> 47"
    using alphanumeric_byte [of b] by auto
qed

lemma name_shape: "name_valid name \<Longrightarrow> name \<noteq> [] \<and> length name \<le> 255 \<and> hd name \<noteq> 46"
  using alphanumeric_byte(6) by (auto simp: name_valid_def split: list.splits)

lemma name_utf8: "name_valid name \<Longrightarrow> utf8_valid name"
  by (rule utf8_ascii) (auto dest: name_byte(1))

section \<open>Routes\<close>

definition route_ok :: "bytes \<times> bytes \<Rightarrow> bool" where
  "route_ok r \<longleftrightarrow> name_valid (fst r) \<and> (\<exists>t. snd r = t @ [47] @ fst r \<and> route_transaction_ok t)"

definition routes_ok :: "xxh3_lib \<Rightarrow> routes \<Rightarrow> bool" where
  "routes_ok X rs \<longleftrightarrow> bmap_ok rs \<and> (\<forall>r \<in> set rs. route_ok r) \<and> length (encode_routes X rs) \<le> MAX_RECORD"

lemma transaction_byte:
  assumes "route_transaction_ok t" "b \<in> set t"
  shows "b < 0x80" "b \<noteq> 10" "b \<noteq> 47"
proof -
  have "is_alphanumeric b \<or> b = 45 \<or> b = 46"
    using assms by (auto simp: route_transaction_ok_def list_all_iff)
  then show "b < 0x80" "b \<noteq> 10" "b \<noteq> 47" using alphanumeric_byte [of b] by auto
qed

lemma route_line_byte:
  assumes "route_ok r" "b \<in> set (route_line r)"
  shows "b < 0x80" "b \<noteq> 10"
proof -
  obtain t where t: "snd r = t @ [47] @ fst r" "route_transaction_ok t" and n: "name_valid (fst r)"
    using assms(1) by (auto simp: route_ok_def)
  have "b \<in> set (fst r) \<or> b = 9 \<or> b \<in> set t \<or> b = 47" using assms(2) t(1) by (auto simp: route_line_def)
  then show "b < 0x80" "b \<noteq> 10"
    using name_byte(1,4) [OF n, of b] transaction_byte(1,2) [OF t(2), of b] by auto
qed

lemma decode_route_lines_ok:
  "\<forall>r \<in> set rs. route_ok r \<Longrightarrow> bmap_ok (acc @ rs) \<Longrightarrow> decode_route_lines (map route_line rs) acc = Ok (acc @ rs)"
proof (induction rs arbitrary: acc)
  case (Cons r rs)
  obtain t where t: "snd r = t @ [47] @ fst r" "route_transaction_ok t" and n: "name_valid (fst r)"
    using Cons.prems(1) by (auto simp: route_ok_def)
  have 1: "split_once 9 (route_line r) = Some (fst r, snd r)"
    using split_once_field [of 9 "fst r" "snd r"] name_byte(3) [OF n] by (auto simp: route_line_def)
  have 2: "split_once 47 (snd r) = Some (t, fst r)"
    using split_once_field [of 47 t "fst r"] transaction_byte(3) [OF t(2)] t(1) by auto
  have "\<forall>a \<in> fst ` set acc. a < fst r" using Cons.prems(2) by (auto simp: sorted_wrt_append)
  then have 3: "bmap_insert (fst r) (snd r) acc = (None, acc @ [r])" by (simp add: bmap_insert_snoc)
  show ?case
    using Cons.IH [of "acc @ [r]"] Cons.prems n t(2) 1 2 3 by (cases r) simp
qed simp

lemma concat_route_utf8: "\<forall>r \<in> set rs. route_ok r \<Longrightarrow> utf8_valid (concat (map (\<lambda>r. route_line r @ [10]) rs))"
  by (rule utf8_ascii) (auto dest: route_line_byte(1))

lemma decode_encode_routes:
  assumes "routes_ok X rs"
  shows "decode_routes X (encode_routes X rs) = Ok rs"
proof -
  have rs: "bmap_ok rs" "\<forall>r \<in> set rs. route_ok r" "length (encode_routes X rs) \<le> MAX_RECORD"
    using assms by (simp_all add: routes_ok_def)
  have "ns_body X (encode_routes X rs) = Ok (concat (map (\<lambda>r. route_line r @ [10]) rs))"
    using ns_sealed.unseal_seal rs(3) by (simp add: encode_routes_def)
  moreover have "split_terminator 10 (concat (map (\<lambda>r. route_line r @ [10]) rs)) = map route_line rs"
  proof -
    have "\<forall>l \<in> set (map route_line rs). 10 \<notin> set l" using rs(2) route_line_byte(2) by fastforce
    then show ?thesis using split_terminator_lines [of "map route_line rs" 10] by (simp add: comp_def)
  qed
  ultimately show ?thesis
    using concat_route_utf8 [OF rs(2)] decode_route_lines_ok [OF rs(2), of "[]"] rs(1)
    by (simp add: decode_routes_def)
qed

section \<open>Staged decisions\<close>

lemma ns_take_append [simp]: "length x = n \<Longrightarrow> ns_take m n (x @ rest) = Ok (x, rest)"
  by (simp add: ns_take_def slice_to_def slice_from_def)

lemma ns_take_iff: "ns_take m n bs = Ok y \<longleftrightarrow> n \<le> length bs \<and> y = (take n bs, drop n bs)"
  by (auto simp: ns_take_def slice_to_def slice_from_def)

lemma u16_of_usize_Some: "u16_of_usize n = Some w \<Longrightarrow> n \<le> 65535 \<and> unat w = n"
  by (auto simp: u16_of_usize_def unat_of_nat split: if_splits)

lemma selection_text_reads:
  assumes "selection_text t = Ok bs" "utf8_valid t"
  shows "staged_text (bs @ rest) = Ok (t, rest)"
proof -
  obtain w where w: "u16_of_usize (length t) = Some w" "bs = to_le_bytes w @ t"
    using assms(1) by (auto simp: selection_text_def result_Inr)
  show ?thesis
    using u16_of_usize_Some [OF w(1)] assms(2) by (simp add: w(2) staged_text_def)
qed

text \<open>What the encoder has checked of one selection when it accepts it.\<close>

definition selection_ok :: "bool \<Rightarrow> bytes \<times> staged_selection \<Rightarrow> bool" where
  "selection_ok logical e \<longleftrightarrow>
     ss_logical_delete (snd e) = logical \<and> name_valid (fst e) \<and> prefix (ascii ''.ze-manifest-'') (ss_manifest (snd e))
     \<and> name_valid (dropWhile (\<lambda>c. c = 46) (ss_manifest (snd e))) \<and> \<not> sublist (ascii ''..'') (ss_manifest (snd e))"

lemma encode_selections_Cons:
  assumes "encode_selections logical (e # es) t ids = Ok bs"
  obtains n m bb r where "selection_ok logical e" "selection_text (fst e) = Ok n"
    "selection_text (ss_manifest (snd e)) = Ok m" "binding_encode (ss_binding (snd e)) = Ok bb"
    "encode_selections logical es (Some (tb_transaction (ss_binding (snd e))))
       (insert (tb_participant (ss_binding (snd e))) ids) = Ok r" "bs = n @ m @ bb @ r"
  using assms by (auto simp: Let_def result_Inr selection_ok_def split: if_splits)

lemma manifest_byte:
  assumes "selection_ok logical e" "b \<in> set (ss_manifest (snd e))"
  shows "b < 0x80" "b \<noteq> 0"
proof -
  have "b = 46 \<or> b \<in> set (dropWhile (\<lambda>c. c = 46) (ss_manifest (snd e)))"
    using assms(2) takeWhile_dropWhile_id [of "\<lambda>c. c = 46" "ss_manifest (snd e)"] set_takeWhileD
    by (metis Un_iff set_append)
  then show "b < 0x80" "b \<noteq> 0"
    using assms(1) name_byte(1,2) [of "dropWhile (\<lambda>c. c = 46) (ss_manifest (snd e))" b]
    by (auto simp: selection_ok_def)
qed

lemma decode_selections_ok:
  "encode_selections logical es t ids = Ok bs \<Longrightarrow> bmap_ok (acc @ es) \<Longrightarrow>
   decode_selections logical (length es) (bs @ rest) acc = Ok (acc @ es, rest)"
proof (induction es arbitrary: t ids bs acc)
  case (Cons e es)
  obtain n m bb r where e: "selection_ok logical e" "selection_text (fst e) = Ok n"
      "selection_text (ss_manifest (snd e)) = Ok m" "binding_encode (ss_binding (snd e)) = Ok bb"
      "encode_selections logical es (Some (tb_transaction (ss_binding (snd e))))
         (insert (tb_participant (ss_binding (snd e))) ids) = Ok r" and bs: "bs = n @ m @ bb @ r"
    using encode_selections_Cons [OF Cons.prems(1)] by blast
  have utf8: "utf8_valid (fst e)" "utf8_valid (ss_manifest (snd e))"
    using e(1) name_utf8 manifest_byte(1) [OF e(1)] by (auto simp: selection_ok_def intro: utf8_ascii)
  have sel: "\<lparr>ss_logical_delete = logical, ss_manifest = ss_manifest (snd e), ss_binding = ss_binding (snd e)\<rparr> = snd e"
    using e(1) by (simp add: selection_ok_def)
  have "\<forall>a \<in> fst ` set acc. a < fst e" using Cons.prems(2) by (auto simp: sorted_wrt_append)
  then have ins: "bmap_insert (fst e) (snd e) acc = (None, acc @ [e])" by (simp add: bmap_insert_snoc)
  show ?case
    using Cons.IH [OF e(5), of "acc @ [e]"] Cons.prems(2) binding_roundtrip [OF e(4)]
    by (simp add: bs selection_text_reads [OF e(2) utf8(1)] selection_text_reads [OF e(3) utf8(2)] sel ins Let_def)
qed simp

definition descriptor_ok :: "xxh3_lib \<Rightarrow> staged_descriptor \<Rightarrow> bool" where
  "descriptor_ok X d \<longleftrightarrow> bmap_ok (sd_selections d) \<and> routes_ok X (sd_routes d)"

definition staged_tag :: "staged_descriptor \<Rightarrow> bytes" where
  "staged_tag d = (if first_logical d then LOGICAL_STAGED_MAGIC else STAGED_MAGIC)"

lemma staged_tags:
  "length (staged_tag d) = 8" "prefix LOGICAL_STAGED_MAGIC (staged_tag d @ r) \<longleftrightarrow> first_logical d"
  "prefix STAGED_MAGIC (staged_tag d @ r) \<longleftrightarrow> \<not> first_logical d" "\<not> prefix NS_MAGIC (staged_tag d @ r)"
  by (simp_all add: staged_tag_def LOGICAL_STAGED_MAGIC_def STAGED_MAGIC_def NS_MAGIC_def ascii_def)

lemma encode_staged_shape:
  assumes "encode_staged X d = Ok bs"
  obtains body where "encode_selections (first_logical d) (sd_selections d) None {} = Ok body"
    "sd_selections d \<noteq> []" "length (sd_selections d) \<le> u32_max" "length (encode_routes X (sd_routes d)) \<le> u32_max"
    "bs = portable_seal X (staged_tag d) (to_le_bytes (word_of_nat (length (sd_selections d)) :: u32) @ body
       @ to_le_bytes (word_of_nat (length (encode_routes X (sd_routes d))) :: u32) @ encode_routes X (sd_routes d))"
    "length bs \<le> MAX_RECORD"
proof -
  obtain count body where c: "u32_try_from (length (sd_selections d)) = Some count" "count \<noteq> 0"
      and b: "encode_selections (first_logical d) (sd_selections d) None {} = Ok body"
    using assms by (auto simp: encode_staged_def Let_def result_Inr split: if_splits)
  have "sd_selections d \<noteq> []" using c by (auto simp: u32_try_from_Some)
  then show ?thesis
    using that [OF b] assms b c
    by (auto simp: encode_staged_def Let_def result_Inr u32_try_from_Some portable_seal_def portable_finish_def
        staged_tag_def split: if_splits)
qed

lemma decode_encode_staged:
  assumes "encode_staged X d = Ok bs" "descriptor_ok X d"
  shows "decode_staged X bs = Ok d"
proof -
  obtain body where b: "encode_selections (first_logical d) (sd_selections d) None {} = Ok body"
    and n: "length (sd_selections d) \<le> u32_max" "length (encode_routes X (sd_routes d)) \<le> u32_max"
    and bs: "bs = portable_seal X (staged_tag d) (to_le_bytes (word_of_nat (length (sd_selections d)) :: u32) @ body
       @ to_le_bytes (word_of_nat (length (encode_routes X (sd_routes d))) :: u32) @ encode_routes X (sd_routes d))"
    and len: "length bs \<le> MAX_RECORD"
    using encode_staged_shape [OF assms(1)] by blast
  let ?c = "to_le_bytes (word_of_nat (length (sd_selections d)) :: u32) @ body
       @ to_le_bytes (word_of_nat (length (encode_routes X (sd_routes d))) :: u32) @ encode_routes X (sd_routes d)"
  let ?pre = "staged_tag d @ ?c"
  have split: "bs = ?pre @ to_le_bytes (xxh3_64 X ?pre)" by (simp add: bs portable_seal_def portable_finish_def)
  have stop: "checked_sub_usize (length bs) 8 = Some (length ?pre)" by (simp add: split checked_sub_usize_def)
  have pre: "slice_to bs (length ?pre) = Some ?pre" "slice_from bs (length ?pre) = Some (to_le_bytes (xxh3_64 X ?pre))"
    unfolding split slice_to_def slice_from_def by simp_all
  have hdr: "slice_from ?pre 8 = Some ?c" using staged_tags(1) [of d] by (simp add: slice_from_def)
  have sels: "decode_selections (first_logical d) (length (sd_selections d)) (body @ rest) [] = Ok (sd_selections d, rest)" for rest
    using decode_selections_ok [OF b, of "[]"] assms(2) by (simp add: descriptor_ok_def)
  have rts: "decode_routes X (encode_routes X (sd_routes d)) = Ok (sd_routes d)"
    using assms(2) decode_encode_routes by (simp add: descriptor_ok_def)
  have tags: "prefix LOGICAL_STAGED_MAGIC ?pre \<longleftrightarrow> first_logical d" "prefix STAGED_MAGIC ?pre \<longleftrightarrow> \<not> first_logical d"
    by (rule staged_tags)+
  have self: "\<lparr>sd_selections = sd_selections d, sd_routes = sd_routes d\<rparr> = d"
    by (rule staged_descriptor.equality) simp_all
  show ?thesis
    unfolding decode_staged_def stop result_simps pre(1) tags hdr
    using len pre(2) n sels rts assms(1) ns_take_append [of "encode_routes X (sd_routes d)" _ _ "[]"]
    by (simp add: unat_word_of_nat_u32 Let_def self)
qed

section \<open>Root records\<close>

fun root_descriptor_ok :: "xxh3_lib \<Rightarrow> root_descriptor \<Rightarrow> bool" where
  "root_descriptor_ok X (LegacyRoutes rs) = routes_ok X rs"
| "root_descriptor_ok X (Staged d) = descriptor_ok X d"

fun descriptor_bytes :: "xxh3_lib \<Rightarrow> root_descriptor \<Rightarrow> (ns_error, bytes) result" where
  "descriptor_bytes X (LegacyRoutes rs) = Ok (encode_routes X rs)"
| "descriptor_bytes X (Staged d) = encode_staged X d"

lemma encode_routes_tags:
  "\<not> prefix STAGED_MAGIC (encode_routes X rs)" "\<not> prefix LOGICAL_STAGED_MAGIC (encode_routes X rs)"
  "\<not> prefix ROOT_MAGIC (encode_routes X rs)"
  by (simp_all add: encode_routes_def envelope_def Let_def STAGED_MAGIC_def LOGICAL_STAGED_MAGIC_def ROOT_MAGIC_def
      NS_MAGIC_def ascii_def)

lemma encode_staged_starts:
  assumes "encode_staged X d = Ok bs"
  shows "\<exists>r. bs = staged_tag d @ r"
proof -
  obtain r where "bs = portable_seal X (staged_tag d) r" using encode_staged_shape [OF assms] by metis
  then show ?thesis by (simp add: portable_seal_def portable_finish_def)
qed

lemma decode_descriptor_bytes:
  assumes "descriptor_bytes X desc = Ok bs" "root_descriptor_ok X desc"
  shows "decode_descriptor X bs = Ok desc"
proof (cases desc)
  case (LegacyRoutes rs)
  then show ?thesis
    using assms encode_routes_tags decode_encode_routes by (auto simp: decode_descriptor_def)
next
  case (Staged d)
  then have e: "encode_staged X d = Ok bs" "descriptor_ok X d" using assms by simp_all
  obtain r where "bs = staged_tag d @ r" using encode_staged_starts [OF e(1)] by blast
  then have "prefix STAGED_MAGIC bs \<or> prefix LOGICAL_STAGED_MAGIC bs" using staged_tags(2,3) by blast
  then show ?thesis using decode_encode_staged [OF e] Staged by (simp add: decode_descriptor_def)
qed

lemma encode_root_shape:
  assumes "encode_root X H i desc = Ok bs"
  obtains content where "descriptor_bytes X desc = Ok content" "length content \<le> u32_max"
    "bs = portable_seal X ROOT_MAGIC (to_le_bytes i @ to_le_bytes (word_of_nat (length content) :: u32) @ content)"
    "length bs \<le> MAX_RECORD"
  using assms
  by (cases desc) (auto simp: encode_root_def Let_def result_Inr u32_try_from_Some portable_seal_def split: if_splits)

lemma decode_encode_root:
  assumes "encode_root X H i desc = Ok bs" "i \<noteq> 0" "root_descriptor_ok X desc"
  shows "decode_root X H bs = Ok (i, desc)"
proof -
  obtain content where c: "descriptor_bytes X desc = Ok content" "length content \<le> u32_max"
    and bs: "bs = portable_seal X ROOT_MAGIC (to_le_bytes i @ to_le_bytes (word_of_nat (length content) :: u32) @ content)"
    and len: "length bs \<le> MAX_RECORD"
    using encode_root_shape [OF assms(1)] by blast
  have "portable_body X bs ROOT_MAGIC = Ok (to_le_bytes i @ to_le_bytes (word_of_nat (length content) :: u32) @ content)"
    using bs len by (simp add: portable_sealed.unseal_iff)
  then show ?thesis
    using decode_descriptor_bytes [OF c(1) assms(3)] c(2) assms(1,2) ns_take_append [of content _ _ "[]"]
    by (simp add: decode_root_def root_id_new_def unat_word_of_nat_u32)
qed

lemma decode_encode_root_record:
  assumes "encode_root_record X H i desc = Ok bs" "root_descriptor_ok X desc" "i \<noteq> Some 0"
    and "i = None \<Longrightarrow> (\<forall>d. desc = Staged d \<longrightarrow> \<not> first_logical d)"
  shows "decode_root_record X H bs = Ok (i, desc)"
proof (cases i)
  case (Some k)
  then have e: "encode_root X H k desc = Ok bs" "k \<noteq> 0" using assms by (simp_all add: encode_root_record_def)
  obtain r where "bs = portable_seal X ROOT_MAGIC r" using encode_root_shape [OF e(1)] by metis
  then have "prefix ROOT_MAGIC bs" by (simp add: portable_seal_def portable_finish_def)
  then show ?thesis
    using decode_encode_root [OF e assms(2)] Some by (simp add: decode_root_record_def)
next
  case None
  then have d: "descriptor_bytes X desc = Ok bs" using assms(1) by (cases desc) (simp_all add: encode_root_record_def)
  have "\<not> prefix ROOT_MAGIC bs"
  proof (cases desc)
    case (LegacyRoutes rs)
    then show ?thesis using d encode_routes_tags by auto
  next
    case (Staged sd)
    then have "encode_staged X sd = Ok bs" using d by simp
    then obtain r where "bs = staged_tag sd @ r" using encode_staged_starts by blast
    then show ?thesis
      using staged_tags(2) [of sd r] assms(4) None Staged by (simp add: ROOT_MAGIC_def LOGICAL_STAGED_MAGIC_def)
  qed
  then show ?thesis using decode_descriptor_bytes [OF d assms(2)] None by (simp add: decode_root_record_def)
qed

section \<open>The magic numbers collide\<close>

text \<open>
  The logical staged decision and the portable root share their first eight bytes, so a record
  written without a root identity is read as a portable root. Its would-be descriptor begins inside
  the first selection, where no descriptor can begin.
\<close>

lemma manifest_shape:
  assumes "selection_ok logical e"
  shows "\<exists>t. ss_manifest (snd e) = 46 # t \<and> length t \<le> 255 \<and> 12 \<le> length t"
proof -
  obtain u where u: "ss_manifest (snd e) = ascii ''.ze-manifest-'' @ u"
    using assms by (auto simp: selection_ok_def prefix_def)
  then have "dropWhile (\<lambda>c. c = 46) (ss_manifest (snd e)) = tl (ss_manifest (snd e))"
    by (simp add: ascii_def)
  then have "length (tl (ss_manifest (snd e))) \<le> 255"
    using assms name_shape by (metis selection_ok_def)
  then show ?thesis using u by (simp add: ascii_def)
qed

lemma descriptor_first_byte:
  assumes "decode_descriptor X bs = Ok desc"
  shows "bs \<noteq> [] \<and> hd bs = 90"
proof -
  have "prefix STAGED_MAGIC bs \<or> prefix LOGICAL_STAGED_MAGIC bs \<or> prefix NS_MAGIC bs"
  proof (cases "prefix STAGED_MAGIC bs \<or> prefix LOGICAL_STAGED_MAGIC bs")
    case False
    then obtain rs where "decode_routes X bs = Ok rs"
      using assms by (auto simp: decode_descriptor_def result_Inr)
    then obtain t where "ns_body X bs = Ok t" by (auto simp: decode_routes_def result_Inr)
    then show ?thesis by (simp add: ns_body_iff envelope_def Let_def)
  qed blast
  then show ?thesis
    by (auto simp: prefix_def STAGED_MAGIC_def LOGICAL_STAGED_MAGIC_def NS_MAGIC_def ascii_def)
qed

lemma decode_root_inner:
  assumes "decode_root X H (portable_seal X ROOT_MAGIC c) = Ok r"
  shows "20 < length c \<and> le_to_nat (take 4 (drop 16 c)) = length c - 20 \<and> c ! 20 = 90"
proof -
  let ?len = "from_le_bytes (take 4 (drop 16 c)) :: u32"
  have "portable_body X (portable_seal X ROOT_MAGIC c) ROOT_MAGIC = Ok c"
  proof -
    obtain c' where "portable_body X (portable_seal X ROOT_MAGIC c) ROOT_MAGIC = Ok c'"
      using assms by (auto simp: decode_root_def result_Inr)
    then show ?thesis
      using portable_sealed.unseal_canon portable_sealed.seal_inject by metis
  qed
  then have "\<exists>desc. 16 \<le> length c \<and> 4 \<le> length (drop 16 c) \<and> unat ?len \<le> length (drop 4 (drop 16 c))
      \<and> decode_descriptor X (take (unat ?len) (drop 4 (drop 16 c))) = Ok desc
      \<and> drop (unat ?len) (drop 4 (drop 16 c)) = []"
    using assms unfolding decode_root_def
    by (simp only: result_simps)
      (auto simp only: and_then_eq_Inr ns_take_iff prod.case sum.inject simp_thms split: if_splits)
  then obtain desc k where k: "unat ?len = k" and t: "20 \<le> length c" "k \<le> length c - 20" "length c \<le> 20 + k"
      "decode_descriptor X (take k (drop 20 c)) = Ok desc"
    by (auto simp: drop_drop simp del: length_greater_0_conv)
  have first: "take k (drop 20 c) \<noteq> []" "hd (take k (drop 20 c)) = 90" using descriptor_first_byte [OF t(4)] by simp_all
  have "le_to_nat (take 4 (drop 16 c)) = k"
    unfolding k [symmetric] using le_to_nat_bound [of "take 4 (drop 16 c)"] t(1)
    by (simp add: from_le_bytes_def unat_of_nat)
  moreover have "20 < length c" "c ! 20 = 90" using first by (simp_all add: hd_drop_conv_nth hd_take)
  ultimately show ?thesis using t(2,3) by simp
qed

lemma le_to_nat_top:
  assumes "length bs = 4" "le_to_nat bs < 2 ^ 24"
  shows "bs ! 3 = 0"
proof -
  obtain a b c d where bs: "bs = [a, b, c, d]" using assms(1) by (auto simp: length_Suc_conv numeral_eq_Suc)
  then have "unat d = 0" using assms(2) by simp
  then show ?thesis using bs by (simp add: unat_eq_zero)
qed

lemma le_u16_high:
  assumes "n < 65536"
  shows "to_le_bytes (word_of_nat n :: u16) ! 1 = word_of_nat (n div 256 mod 256)"
proof -
  have "unat (word_of_nat n :: u16) = n" using assms by (simp add: unat_of_nat)
  moreover have "nat_to_le 2 n = [word_of_nat (n mod 256), word_of_nat (n div 256 mod 256)]"
    by (simp add: numeral_2_eq_2)
  ultimately show ?thesis by (simp add: to_le_bytes_def)
qed

lemma logical_record_bytes:
  assumes "selection_ok True e" "selection_text (fst e) = Ok n" "selection_text (ss_manifest (snd e)) = Ok m"
    and c: "c = to_le_bytes (w :: u32) @ n @ m @ rest" and "20 < length c"
  shows "c ! 19 \<noteq> 0 \<or> c ! 20 \<noteq> 90"
proof -
  let ?k = "length (fst e)"
  have name: "name_valid (fst e)" using assms(1) by (simp add: selection_ok_def)
  obtain t where t: "ss_manifest (snd e) = 46 # t" "length t \<le> 255" "12 \<le> length t"
    using manifest_shape [OF assms(1)] by blast
  have n: "n = to_le_bytes (word_of_nat ?k :: u16) @ fst e"
    and m: "m = to_le_bytes (word_of_nat (length (46 # t)) :: u16) @ 46 # t"
    using assms(2,3) t(1) by (auto simp: selection_text_def result_Inr u16_of_usize_def split: if_splits)
  consider "14 \<le> ?k" | "?k = 13" | "?k = 12" | "?k \<le> 11" by linarith
  then show ?thesis
  proof cases
    case 1
    then have "c ! 19 = fst e ! 13" by (simp add: c n nth_append)
    then show ?thesis using name_byte(2) [OF name, of "fst e ! 13"] 1 by simp
  next
    case 2
    then have "c ! 20 = to_le_bytes (word_of_nat (length (46 # t)) :: u16) ! 1" by (simp add: c n m nth_append)
    also have "\<dots> = word_of_nat (length (46 # t) div 256 mod 256)" by (rule le_u16_high) (use t(2) in simp)
    finally have "unat (c ! 20) \<le> 1" using t(2) by (simp add: unat_of_nat)
    then show ?thesis by auto
  next
    case 3
    then have "c ! 20 = 46" by (simp add: c n m nth_append)
    then show ?thesis by simp
  next
    case 4
    have "\<not> 13 - ?k < 2" "((46 # t) @ rest) ! (11 - ?k) = (46 # t) ! (11 - ?k)"
      using 4 t(3) by (simp_all only: nth_append) auto
    then have "c ! 19 = (46 # t) ! (11 - ?k)" using 4 by (simp add: c n m nth_append)
    moreover have "(46 # t) ! (11 - ?k) \<in> set (ss_manifest (snd e))"
      unfolding t(1) by (rule nth_mem) (use t(3) in simp)
    ultimately show ?thesis using manifest_byte(2) [OF assms(1)] by metis
  qed
qed

lemma logical_record_refused:
  assumes "encode_staged X d = Ok bs" "first_logical d"
  shows "\<exists>err. decode_root_record X H bs = Err err"
proof (rule ccontr)
  assume "\<not> ?thesis"
  then obtain r where r: "decode_root_record X H bs = Ok r" by (cases "decode_root_record X H bs") auto
  obtain body c w rest where b: "encode_selections True (sd_selections d) None {} = Ok body" "sd_selections d \<noteq> []"
    and bs: "bs = portable_seal X (staged_tag d) c" and c: "c = to_le_bytes (w :: u32) @ body @ rest"
    and len: "length bs \<le> MAX_RECORD"
    using encode_staged_shape [OF assms(1)] assms(2) by metis
  have tag: "staged_tag d = ROOT_MAGIC" by (simp add: staged_tag_def assms(2) LOGICAL_STAGED_MAGIC_def ROOT_MAGIC_def)
  have "prefix ROOT_MAGIC bs" by (simp add: bs tag portable_seal_def portable_finish_def)
  then obtain y where "decode_root X H (portable_seal X ROOT_MAGIC c) = Ok y"
    using r by (auto simp: decode_root_record_def result_Inr bs tag)
  then have inner: "20 < length c" "le_to_nat (take 4 (drop 16 c)) = length c - 20" "c ! 20 = 90"
    using decode_root_inner by blast+
  have "length c \<le> MAX_RECORD" using len by (simp add: bs portable_seal_def portable_finish_def)
  then have "take 4 (drop 16 c) ! 3 = 0"
    by (intro le_to_nat_top) (use inner(1,2) in \<open>simp_all add: MAX_RECORD_def\<close>)
  then have zero: "c ! 19 = 0" using inner(1) by simp
  obtain e es where "sd_selections d = e # es" using b(2) by (cases "sd_selections d") auto
  then obtain n m bb r' where "selection_ok True e" "selection_text (fst e) = Ok n"
      "selection_text (ss_manifest (snd e)) = Ok m" "body = n @ m @ bb @ r'"
    using encode_selections_Cons b(1) by metis
  then show False using logical_record_bytes [of e n m c w "bb @ r' @ rest"] inner(1,3) zero by (simp add: c)
qed

section \<open>References\<close>

lemma decode_encode_reference:
  assumes "encode_reference X r = Ok bs" "ref_root_id r \<noteq> 0"
  shows "decode_reference X bs = Ok r"
proof -
  obtain n where n: "u16_of_usize (length (ref_name r)) = Some n" "name_valid (ref_name r)"
    and bs: "bs = portable_seal X REFERENCE_MAGIC (to_le_bytes (ref_root_id r) @ [ref_parent_depth r, 0] @ to_le_bytes n @ ref_name r)"
    using assms(1) by (auto simp: encode_reference_def result_Inr portable_seal_def split: if_splits)
  have "length (ref_name r) \<le> 255" using name_shape [OF n(2)] by simp
  then have "length bs \<le> MAX_RECORD"
    by (simp add: bs portable_seal_def portable_finish_def MAX_RECORD_def REFERENCE_MAGIC_def ascii_def)
  then have body: "portable_body X bs REFERENCE_MAGIC =
      Ok (to_le_bytes (ref_root_id r) @ [ref_parent_depth r, 0] @ to_le_bytes n @ ref_name r)"
    using bs by (simp add: portable_sealed.unseal_iff)
  have self: "\<lparr>ref_root_id = ref_root_id r, ref_parent_depth = ref_parent_depth r, ref_name = ref_name r\<rparr> = r"
    by (rule ns_reference.equality) simp_all
  show ?thesis
    using assms u16_of_usize_Some [OF n(1)] name_utf8 [OF n(2)] ns_take_append [of "ref_name r" _ _ "[]"]
      ns_take_append [of "[ref_parent_depth r, 0]" 2]
    unfolding decode_reference_def body by (simp add: root_id_new_def self Let_def)
qed

section \<open>Durable replacement\<close>

definition env_result :: "io_kind option \<Rightarrow> (io_kind, unit) result" where
  "env_result fault = (case fault of None \<Rightarrow> Ok () | Some e \<Rightarrow> Err e)"

lemma publish_file_replace:
  "publish_file env temporary target bs d =
     (let (r, d') = std_vfs.replace (re_write env) (env_result (re_sync env)) (re_rename env)
        (env_result (re_sync_dir env)) temporary target bs d in (map_err NsIo r, d'))"
  by (auto simp: publish_file_def durable_write_def sync_dir_def env_result_def std_vfs.replace_def
      split: prod.splits sum.splits option.splits)

lemma publish_file_atomic:
  assumes "publish_file env temporary target bs d = (res, d')" "temporary \<noteq> target"
  shows "d' target = d target \<or> d' target = Some bs"
    and "res = Ok u \<Longrightarrow> d' target = Some bs"
    and "f \<noteq> temporary \<Longrightarrow> f \<noteq> target \<Longrightarrow> d' f = d f"
proof -
  obtain r where r: "std_vfs.replace (re_write env) (env_result (re_sync env)) (re_rename env)
        (env_result (re_sync_dir env)) temporary target bs d = (r, d')" "res = map_err NsIo r"
    using assms(1) by (auto simp: publish_file_replace Let_def split: prod.splits)
  show "d' target = d target \<or> d' target = Some bs" using std_vfs.replace_atomic(1) [OF assms(2) r(1)] .
  show "res = Ok u \<Longrightarrow> d' target = Some bs"
    using std_vfs.replace_atomic(2) [OF assms(2) r(1), of u] r(2) by (simp add: map_err_eq_Inr)
  show "f \<noteq> temporary \<Longrightarrow> f \<noteq> target \<Longrightarrow> d' f = d f" using std_vfs.replace_atomic(3) [OF assms(2) r(1)] .
qed

end
