(* ===== verification/Cascade.thy ===== *)
theory Cascade
  imports Namespace_Codec
begin

text \<open>
  Cascade declarations of a namespace root (\<^verbatim>\<open>src/lifecycle/cascade.rs\<close>): the durable rule
  set with its cycle check, declaring a rule, and expanding explicit deletions to everything that
  depends on them. A source namespace is its schema; the pages its document scan returns are an
  argument, one entry per request. Messages that interpolate a name keep only their fixed text.
\<close>

section \<open>Rules\<close>

datatype cascade_rule = CascadeRule (cr_parent: bytes) (cr_child: bytes) (cr_attribute: u32)

text \<open>The derived order of the struct: by parent, then child, then attribute.\<close>

instantiation cascade_rule :: linorder
begin

definition less_eq_cascade_rule :: "cascade_rule \<Rightarrow> cascade_rule \<Rightarrow> bool" where
  "less_eq_cascade_rule a b \<longleftrightarrow>
     cr_parent a < cr_parent b \<or> cr_parent a = cr_parent b \<and>
       (cr_child a < cr_child b \<or> cr_child a = cr_child b \<and> cr_attribute a \<le> cr_attribute b)"

definition less_cascade_rule :: "cascade_rule \<Rightarrow> cascade_rule \<Rightarrow> bool" where
  "less_cascade_rule a b \<longleftrightarrow> a \<le> b \<and> \<not> b \<le> a"

instance
  by standard
    (auto simp: less_eq_cascade_rule_def less_cascade_rule_def cascade_rule.expand dest: less_trans)

end

definition CASCADE_FILE :: file_name where "CASCADE_FILE = ascii ''.ze-cascades''"
definition CASCADE_TEMP :: file_name where "CASCADE_TEMP = ascii ''.ze-cascades.tmp''"
definition CASCADE_VERSION :: bytes where "CASCADE_VERSION = ascii ''ZECASCADE1'' @ [10]"

definition rule_line :: "cascade_rule \<Rightarrow> bytes" where
  "rule_line r = cr_parent r @ [9] @ cr_child r @ [9] @ dec_digits (unat (cr_attribute r))"

definition encode_cascades :: "xxh3_lib \<Rightarrow> cascade_rule list \<Rightarrow> bytes" where
  "encode_cascades X rules = envelope X (CASCADE_VERSION @ concat (map (\<lambda>r. rule_line r @ [10]) rules))"

section \<open>The cycle check\<close>

lemma expanded_name:
  assumes "name \<notin> visited"
  shows "card (cr_parent ` set rules - insert name visited) < card (cr_parent ` set rules - visited)
    \<or> cr_parent ` set rules - insert name visited = cr_parent ` set rules - visited
      \<and> filter (\<lambda>r. cr_parent r = name) rules = []"
proof (cases "name \<in> cr_parent ` set rules")
  case True
  then have "cr_parent ` set rules - insert name visited \<subset> cr_parent ` set rules - visited" using assms by auto
  then show ?thesis by (simp add: psubset_card_mono)
next
  case False
  then show ?thesis by (auto simp: filter_empty_conv)
qed

text \<open>
  A breadth-first search from the child. The queue holds a name and the path that led to it; a name
  is expanded once.
\<close>

function cycle_search ::
  "cascade_rule list \<Rightarrow> bytes \<Rightarrow> bytes set \<Rightarrow> (bytes \<times> bytes list) list \<Rightarrow> bytes list option" where
  "cycle_search rules target visited [] = None"
| "cycle_search rules target visited ((name, path) # queue) =
     (if name = target then Some path
      else if name \<in> visited then cycle_search rules target visited queue
      else cycle_search rules target (insert name visited)
        (queue @ map (\<lambda>r. (cr_child r, path @ [cr_child r])) (filter (\<lambda>r. cr_parent r = name) rules)))"
  by pat_completeness auto

termination
  by (relation "measures [\<lambda>(rules, _, visited, _). card (cr_parent ` set rules - visited),
        \<lambda>(_, _, _, queue). length queue]")
    (simp_all, metis expanded_name)

definition reject_cycle :: "cascade_rule list \<Rightarrow> cascade_rule \<Rightarrow> (ns_error, unit) result" where
  "reject_cycle rules new =
     (case cycle_search rules (cr_parent new) {} [(cr_child new, [cr_parent new, cr_child new])] of
        Some path \<Rightarrow> Err (NsCascadeCycle path)
      | None \<Rightarrow> Ok ())"

section \<open>Reading the rule set\<close>

definition parse_rule :: "bytes \<Rightarrow> (ns_error, cascade_rule) result" where
  "parse_rule line =
     (let fields = str_split 9 line in
      and_then (ok_or (NsInvalid ''cascade parent'') (list_get fields 0)) (\<lambda>parent.
      and_then (ok_or (NsInvalid ''cascade child'') (list_get fields 1)) (\<lambda>child.
      and_then (ok_or (NsInvalid ''cascade attribute'')
          (Option.bind (list_get fields 2) (parse_unsigned u32_max))) (\<lambda>attribute.
      if list_get fields 3 \<noteq> None \<or> \<not> name_valid parent \<or> \<not> name_valid child
      then Err (NsInvalid ''invalid cascade rule'')
      else Ok (CascadeRule parent child (word_of_nat attribute))))))"

primrec read_rules :: "bytes list \<Rightarrow> cascade_rule list \<Rightarrow> (ns_error, cascade_rule list) result" where
  "read_rules [] rules = Ok rules"
| "read_rules (line # ls) rules =
     and_then (parse_rule line) (\<lambda>rule.
     and_then (reject_cycle rules rule) (\<lambda>_.
     if \<not> fst (bset_insert rule rules) then Err (NsInvalid ''duplicate cascade rule'')
     else read_rules ls (snd (bset_insert rule rules))))"

definition decode_cascades :: "xxh3_lib \<Rightarrow> bytes \<Rightarrow> (ns_error, cascade_rule list) result" where
  "decode_cascades X bs =
     and_then (ns_body X bs) (\<lambda>content.
     and_then (ensure (utf8_valid content) (NsInvalid ''cascade UTF-8'')) (\<lambda>_.
     and_then (ensure (prefix CASCADE_VERSION content) (NsInvalid ''cascade version'')) (\<lambda>_.
     and_then (read_rules (str_lines (drop (length CASCADE_VERSION) content)) []) (\<lambda>rules.
     if encode_cascades X rules \<noteq> bs then Err (NsInvalid ''noncanonical cascade record'') else Ok rules))))"

definition read_cascades ::
  "xxh3_lib \<Rightarrow> io_kind option \<Rightarrow> io_kind option \<Rightarrow> directory \<Rightarrow> (ns_error, cascade_rule list) result" where
  "read_cascades X open_fault read_fault d =
     and_then (read_optional open_fault read_fault CASCADE_FILE d) (\<lambda>file.
     case file of None \<Rightarrow> Ok [] | Some bs \<Rightarrow> decode_cascades X bs)"

section \<open>Declaring a rule\<close>

type_synonym ns_sources = "(bytes \<times> schema) list"

definition validate_rule :: "ns_sources \<Rightarrow> cascade_rule \<Rightarrow> (ns_error, unit) result" where
  "validate_rule sources rule =
     and_then (ok_or (NsInvalid ''missing cascade participant'') (map_of sources (cr_parent rule))) (\<lambda>_.
     and_then (ok_or (NsInvalid ''missing cascade participant'') (map_of sources (cr_child rule))) (\<lambda>child.
     if map_option col_type (schema_column child (cr_attribute rule)) \<noteq> Some TypeId128
     then Err (NsInvalid ''cascade attribute must be a declared id128 column'')
     else Ok ()))"

record declare_env =
  de_open :: "io_kind option"
  de_read :: "io_kind option"
  de_replace :: replace_env

definition declare_rule ::
  "xxh3_lib \<Rightarrow> declare_env \<Rightarrow> ns_sources \<Rightarrow> cascade_rule \<Rightarrow> directory \<Rightarrow> (ns_error, unit) result \<times> directory" where
  "declare_rule X env sources rule d =
     (case and_then (validate_rule sources rule) (\<lambda>_.
        and_then (read_cascades X (de_open env) (de_read env) d) (\<lambda>rules.
        and_then (reject_cycle rules rule) (\<lambda>_. Ok (bset_insert rule rules)))) of
        Inl e \<Rightarrow> (Err e, d)
      | Inr (new, rules) \<Rightarrow>
          if \<not> new then (Ok (), d)
          else
            (let bs = encode_cascades X rules in
             if 1024 * 1024 < length bs then (Err (NsInvalid ''cascade record too large''), d)
             else publish_file (de_replace env) CASCADE_TEMP CASCADE_FILE bs d))"

section \<open>Expanding deletions\<close>

record ns_mutation =
  nm_name :: bytes
  nm_deletes :: "u128 list"

record scan_document =
  sdoc_id :: u128
  sdoc_attributes :: "(u32 \<times> predicate_value) list option"

type_synonym ns_reference_edge = "bytes \<times> u128 \<times> bytes \<times> u128"

text \<open>The declared closure of the participants, by passes over the rules until nothing is added.\<close>

definition reach_pass :: "cascade_rule list \<Rightarrow> bytes set \<Rightarrow> bytes set" where
  "reach_pass rules reachable =
     fold (\<lambda>r known. if cr_parent r \<in> known then insert (cr_child r) known else known) rules reachable"

lemma reach_pass_mono:
  fixes R :: "bytes set"
  shows "R \<subseteq> reach_pass rules R" "reach_pass rules R \<subseteq> R \<union> cr_child ` set rules"
proof -
  have "R \<subseteq> reach_pass rules R \<and> reach_pass rules R \<subseteq> R \<union> cr_child ` set rules"
    unfolding reach_pass_def by (induction rules arbitrary: R) (auto, blast+)
  then show "R \<subseteq> reach_pass rules R" "reach_pass rules R \<subseteq> R \<union> cr_child ` set rules" by blast+
qed

lemma reach_pass_card:
  assumes "card R \<noteq> card (reach_pass rules R)"
  shows "card (cr_child ` set rules - reach_pass rules R) < card (cr_child ` set rules - R)"
proof -
  have "R \<noteq> reach_pass rules R" using assms by metis
  then have "\<exists>x. x \<in> cr_child ` set rules \<and> x \<notin> R \<and> x \<in> reach_pass rules R"
    using reach_pass_mono [where R = R] by blast
  then have "cr_child ` set rules - reach_pass rules R \<subset> cr_child ` set rules - R"
    using reach_pass_mono(1) [where R = R] by blast
  then show ?thesis by (simp add: psubset_card_mono)
qed

function reach_loop :: "cascade_rule list \<Rightarrow> bytes set \<Rightarrow> bytes set" where
  "reach_loop rules reachable =
     (let after = reach_pass rules reachable in
      if card reachable = card after then after else reach_loop rules after)"
  by pat_completeness auto

termination
  by (relation "measure (\<lambda>(rules, R). card (cr_child ` set rules - R))") (simp_all add: reach_pass_card)

declare reach_loop.simps [simp del]

primrec validate_rules :: "ns_sources \<Rightarrow> cascade_rule list \<Rightarrow> (ns_error, unit) result" where
  "validate_rules sources [] = Ok ()"
| "validate_rules sources (r # rs) = and_then (validate_rule sources r) (\<lambda>_. validate_rules sources rs)"

text \<open>Appending what each element of a list contributes, until one fails.\<close>

primrec try_concat :: "('a \<Rightarrow> ('e, 'b list) result) \<Rightarrow> 'a list \<Rightarrow> ('e, 'b list) result" where
  "try_concat f [] = Ok []"
| "try_concat f (x # xs) = and_then (f x) (\<lambda>ys. map_ok (\<lambda>zs. ys @ zs) (try_concat f xs))"

definition attribute_references ::
  "cascade_rule list \<Rightarrow> bytes \<Rightarrow> u128 \<Rightarrow> u32 \<times> predicate_value \<Rightarrow> (ns_error, ns_reference_edge list) result" where
  "attribute_references child_rules name doc = (\<lambda>(column, value).
     try_concat (\<lambda>rule.
       case value of
         PvId128 parent_id \<Rightarrow> Ok [(cr_parent rule, parent_id, name, doc)]
       | _ \<Rightarrow> Err (NsInvalid ''cascade reference is not id128''))
     (filter (\<lambda>r. cr_attribute r = column) child_rules))"

definition document_references ::
  "cascade_rule list \<Rightarrow> bytes \<Rightarrow> scan_document \<Rightarrow> (ns_error, ns_reference_edge list) result" where
  "document_references child_rules name doc =
     try_concat (attribute_references child_rules name (sdoc_id doc))
       (case sdoc_attributes doc of None \<Rightarrow> [] | Some values \<Rightarrow> values)"

definition source_references ::
  "cascade_rule list \<Rightarrow> (bytes \<Rightarrow> (string, scan_document list) result list) \<Rightarrow> bytes \<times> schema
   \<Rightarrow> (ns_error, ns_reference_edge list) result" where
  "source_references active scan source =
     (let name = fst source; child_rules = filter (\<lambda>r. cr_child r = name) active in
      if child_rules = [] then Ok []
      else try_concat (\<lambda>page. and_then (map_err NsInvalid page) (try_concat (document_references child_rules name)))
             (scan name))"

text \<open>Whether a document is in the ID set of a namespace.\<close>

definition listed :: "(bytes \<rightharpoonup> u128 set) \<Rightarrow> bytes \<Rightarrow> u128 \<Rightarrow> bool" where
  "listed ids name doc \<longleftrightarrow> (case ids name of None \<Rightarrow> False | Some known \<Rightarrow> doc \<in> known)"

text \<open>One pass of the deletion closure, and the passes until nothing changes.\<close>

fun close_pass ::
  "ns_reference_edge list \<Rightarrow> (bytes \<rightharpoonup> u128 set) \<Rightarrow> bool \<Rightarrow> (ns_error, (bytes \<rightharpoonup> u128 set) \<times> bool) result" where
  "close_pass [] ids changed = Ok (ids, changed)"
| "close_pass ((parent, parent_id, child, child_id) # refs) ids changed =
     (if listed ids parent parent_id
      then (case ids child of
              None \<Rightarrow> Err (NsInvalid ''missing child ID set'')
            | Some known \<Rightarrow>
                close_pass refs (ids(child \<mapsto> insert child_id known)) (changed \<or> child_id \<notin> known))
      else close_pass refs ids changed)"

definition pending :: "ns_reference_edge list \<Rightarrow> (bytes \<rightharpoonup> u128 set) \<Rightarrow> nat" where
  "pending refs ids = length (filter (\<lambda>(_, _, child, child_id). \<not> listed ids child child_id) refs)"

lemma listed_insert [simp]:
  "ids child = Some known \<Longrightarrow>
   listed (ids(child \<mapsto> insert x known)) n d \<longleftrightarrow> listed ids n d \<or> n = child \<and> d = x"
  by (auto simp: listed_def)

lemma close_pass_mono:
  "close_pass refs ids changed = Ok (ids', changed') \<Longrightarrow> listed ids n d \<Longrightarrow> listed ids' n d"
  by (induction refs ids changed rule: close_pass.induct) (auto split: if_splits option.splits simp del: fun_upd_apply)

lemma pending_mono: "(\<And>n d. listed ids n d \<Longrightarrow> listed ids' n d) \<Longrightarrow> pending refs ids' \<le> pending refs ids"
  by (induction refs) (auto simp: pending_def)

lemma pending_strict:
  "(\<And>n d. listed ids n d \<Longrightarrow> listed ids' n d) \<Longrightarrow> (p, q, c, x) \<in> set refs \<Longrightarrow>
   \<not> listed ids c x \<Longrightarrow> listed ids' c x \<Longrightarrow> pending refs ids' < pending refs ids"
proof (induction refs)
  case (Cons r refs)
  then show ?case
    using pending_mono [of ids ids' refs] by (cases r) (auto simp: pending_def split: if_splits)
qed simp

lemma close_pass_changed:
  "close_pass refs ids changed = Ok (ids', changed') \<Longrightarrow> changed' \<Longrightarrow>
   changed \<or> (\<exists>p q c x. (p, q, c, x) \<in> set refs \<and> \<not> listed ids c x \<and> listed ids' c x)"
proof (induction refs ids changed rule: close_pass.induct)
  case (2 parent parent_id child child_id refs ids changed)
  show ?case
  proof (cases "listed ids parent parent_id")
    case True
    then obtain known where k: "ids child = Some known"
        "close_pass refs (ids(child \<mapsto> insert child_id known)) (changed \<or> child_id \<notin> known) = Ok (ids', changed')"
      using "2.prems" by (auto split: option.splits)
    have added: "listed ids' child child_id"
      by (rule close_pass_mono [OF k(2)]) (use k(1) in \<open>simp del: fun_upd_apply\<close>)
    have "child_id \<notin> known \<Longrightarrow> \<not> listed ids child child_id" using k(1) by (simp add: listed_def)
    then show ?thesis
      using "2.IH"(1) [OF True k(1) k(2) "2.prems"(2)] added k(1) by (simp del: fun_upd_apply) metis
  next
    case False
    then show ?thesis using 2 by (simp del: fun_upd_apply) metis
  qed
qed simp

function close_loop ::
  "ns_reference_edge list \<Rightarrow> (bytes \<rightharpoonup> u128 set) \<Rightarrow> (ns_error, bytes \<rightharpoonup> u128 set) result" where
  "close_loop refs ids =
     (case close_pass refs ids False of
        Inl e \<Rightarrow> Err e
      | Inr (ids, changed) \<Rightarrow> if changed then close_loop refs ids else Ok ids)"
  by pat_completeness auto

termination
proof (relation "measure (\<lambda>(refs, ids). pending refs ids)")
  show "((refs, ids'), (refs, ids)) \<in> measure (\<lambda>(refs, ids). pending refs ids)"
    if "close_pass refs ids False = Inr y" "(ids', changed) = y" changed for refs ids ids' changed y
    using that close_pass_changed [of refs ids False ids' changed] close_pass_mono [of refs ids False ids' changed]
      pending_strict [of ids ids'] by (simp add: prod_eq_iff) metis
qed simp

declare close_loop.simps [simp del]

primrec collect_ids :: "ns_mutation list \<Rightarrow> (bytes \<rightharpoonup> u128 set) \<Rightarrow> (bytes \<rightharpoonup> u128 set)" where
  "collect_ids [] ids = ids"
| "collect_ids (m # ms) ids = collect_ids ms (ids(nm_name m \<mapsto> set (nm_deletes m)))"

primrec assign_deletes :: "ns_mutation list \<Rightarrow> (bytes \<rightharpoonup> u128 set) \<Rightarrow> (ns_error, ns_mutation list) result" where
  "assign_deletes [] ids = Ok []"
| "assign_deletes (m # ms) ids =
     and_then (ok_or (NsInvalid ''missing cascade ID set'') (ids (nm_name m))) (\<lambda>known.
     map_ok (\<lambda>rest. m\<lparr>nm_deletes := sorted_list_of_set known\<rparr> # rest)
       (assign_deletes ms (ids(nm_name m := None))))"

definition expand_rules ::
  "ns_sources \<Rightarrow> (bytes \<Rightarrow> (string, scan_document list) result list) \<Rightarrow> cascade_rule list \<Rightarrow> ns_mutation list
   \<Rightarrow> (ns_error, ns_mutation list) result" where
  "expand_rules sources scan rules mutations =
     (let reachable = reach_loop rules (set (map fst sources)) in
      if \<not> reachable \<subseteq> set (map fst sources) then Err (NsInvalid ''missing cascade participant'') else
      let active = filter (\<lambda>r. cr_parent r \<in> reachable) rules in
      and_then (validate_rules sources active) (\<lambda>_.
      let ids = collect_ids mutations Map.empty in
      and_then (try_concat (source_references active scan) sources) (\<lambda>refs.
      and_then (close_loop refs ids) (\<lambda>ids. assign_deletes mutations ids))))"

definition expand ::
  "xxh3_lib \<Rightarrow> io_kind option \<Rightarrow> io_kind option \<Rightarrow> directory \<Rightarrow> ns_sources
   \<Rightarrow> (bytes \<Rightarrow> (string, scan_document list) result list) \<Rightarrow> ns_mutation list \<Rightarrow> (ns_error, ns_mutation list) result" where
  "expand X open_fault read_fault d sources scan mutations =
     and_then (read_cascades X open_fault read_fault d) (\<lambda>rules. expand_rules sources scan rules mutations)"

end
