(* ===== verification/Cascade_Rules.thy ===== *)
theory Cascade_Rules
  imports Cascade
begin

text \<open>
  The cycle check is exact, rule sets read back what was written, and a stored rule set is always
  acyclic.
\<close>

section \<open>The cycle check\<close>

definition rule_edges :: "cascade_rule list \<Rightarrow> (bytes \<times> bytes) set" where
  "rule_edges rules = (\<lambda>r. (cr_parent r, cr_child r)) ` set rules"

lemma rule_edges_simps [simp]:
  "rule_edges [] = {}"
  "rule_edges (r # rs) = insert (cr_parent r, cr_child r) (rule_edges rs)"
  "rule_edges (rs @ ss) = rule_edges rs \<union> rule_edges ss"
  by (auto simp: rule_edges_def)

lemma rule_edges_insert [simp]:
  "rule_edges (snd (bset_insert r rules)) = insert (cr_parent r, cr_child r) (rule_edges rules)"
  by (simp add: rule_edges_def)

text \<open>Nothing outside the names already queued or visited can be reached when the search gives up.\<close>

lemma cycle_search_None:
  "cycle_search rules target visited queue = None \<Longrightarrow>
   \<forall>v \<in> visited. v \<noteq> target \<and> (\<forall>w. (v, w) \<in> rule_edges rules \<longrightarrow> w \<in> visited \<union> fst ` set queue) \<Longrightarrow>
   \<exists>W. visited \<union> fst ` set queue \<subseteq> W \<and> target \<notin> W \<and> rule_edges rules `` W \<subseteq> W"
proof (induction rules target visited queue rule: cycle_search.induct)
  case (1 rules target visited)
  then show ?case by (intro exI [of _ visited]) auto
next
  case (2 rules target visited name path queue)
  let ?next = "map (\<lambda>r. (cr_child r, path @ [cr_child r])) (filter (\<lambda>r. cr_parent r = name) rules)"
  have "name \<noteq> target" using "2.prems"(1) by (auto split: if_splits)
  show ?case
  proof (cases "name \<in> visited")
    case True
    have "cycle_search rules target visited queue = None" using "2.prems"(1) \<open>name \<noteq> target\<close> True by simp
    moreover have "\<forall>v \<in> visited. v \<noteq> target \<and> (\<forall>w. (v, w) \<in> rule_edges rules \<longrightarrow> w \<in> visited \<union> fst ` set queue)"
      using "2.prems"(2) True by auto
    ultimately have "\<exists>W. visited \<union> fst ` set queue \<subseteq> W \<and> target \<notin> W \<and> rule_edges rules `` W \<subseteq> W"
      using "2.IH"(1) [OF \<open>name \<noteq> target\<close> True] by blast
    moreover have "visited \<union> fst ` set ((name, path) # queue) = visited \<union> fst ` set queue" using True by auto
    ultimately show ?thesis by metis
  next
    case False
    have succ: "(name, w) \<in> rule_edges rules \<Longrightarrow> w \<in> fst ` set ?next" for w
      by (force simp: rule_edges_def)
    have "\<forall>v \<in> insert name visited. v \<noteq> target
        \<and> (\<forall>w. (v, w) \<in> rule_edges rules \<longrightarrow> w \<in> insert name visited \<union> fst ` set (queue @ ?next))"
    proof (intro ballI conjI allI impI)
      fix v assume v: "v \<in> insert name visited"
      then show "v \<noteq> target" using "2.prems"(2) \<open>name \<noteq> target\<close> by blast
      fix w assume w: "(v, w) \<in> rule_edges rules"
      have "w \<in> visited \<union> insert name (fst ` set queue)" if "v \<noteq> name"
        using "2.prems"(2) v w that by (metis fst_conv image_insert insertE list.simps(15))
      then show "w \<in> insert name visited \<union> fst ` set (queue @ ?next)"
        using succ [of w] w by (cases "v = name") auto
    qed
    moreover have "cycle_search rules target (insert name visited) (queue @ ?next) = None"
      using "2.prems"(1) \<open>name \<noteq> target\<close> False by simp
    ultimately obtain W where "insert name visited \<union> fst ` set (queue @ ?next) \<subseteq> W" "target \<notin> W"
        "rule_edges rules `` W \<subseteq> W"
      using "2.IH"(2) [OF \<open>name \<noteq> target\<close> False] by blast
    then show ?thesis by (intro exI [of _ W]) auto
  qed
qed

text \<open>What is reported is a walk along declared rules that comes back to where it began.\<close>

definition trail :: "(bytes \<times> bytes) set \<Rightarrow> bytes \<Rightarrow> bytes \<times> bytes list \<Rightarrow> bool" where
  "trail E start e \<longleftrightarrow> successively (\<lambda>x y. (x, y) \<in> E) (snd e) \<and> snd e \<noteq> [] \<and> hd (snd e) = start
     \<and> last (snd e) = fst e \<and> 2 \<le> length (snd e)"

lemma trail_extend: "trail E start (n, p) \<Longrightarrow> (n, m) \<in> E \<Longrightarrow> trail E start (m, p @ [m])"
  by (auto simp: trail_def successively_append_iff)

lemma cycle_search_Some:
  "cycle_search rules target visited queue = Some path \<Longrightarrow> \<forall>e \<in> set queue. trail E target e \<Longrightarrow>
   rule_edges rules \<subseteq> E \<Longrightarrow> trail E target (target, path)"
proof (induction rules target visited queue rule: cycle_search.induct)
  case (2 rules target visited name p queue)
  show ?case
  proof (cases "name = target")
    case True
    then show ?thesis using "2.prems" by auto
  next
    case False
    let ?next = "map (\<lambda>r. (cr_child r, p @ [cr_child r])) (filter (\<lambda>r. cr_parent r = name) rules)"
    have "\<forall>e \<in> set ?next. trail E target e"
      using "2.prems"(2,3) by (auto simp: rule_edges_def intro!: trail_extend)
    then have "\<forall>e \<in> set (queue @ ?next). trail E target e" using "2.prems"(2) by (simp add: ball_Un)
    then show ?thesis
      using "2.IH"(1) [OF False] "2.IH"(2) [OF False] "2.prems" False by (cases "name \<in> visited") simp_all
  qed
qed simp

lemma walk_trancl:
  "successively (\<lambda>x y. (x, y) \<in> E) p \<Longrightarrow> 2 \<le> length p \<Longrightarrow> (hd p, last p) \<in> E\<^sup>+"
proof (induction p)
  case (Cons x p)
  show ?case
  proof (cases "2 \<le> length p")
    case True
    then have "(x, hd p) \<in> E" "(hd p, last p) \<in> E\<^sup>+" using Cons by (auto simp: successively_Cons)
    then have "(x, last p) \<in> E\<^sup>+" by (rule trancl_into_trancl2)
    then show ?thesis using True by auto
  next
    case False
    then obtain y where "p = [y]" using Cons.prems(2) by (cases p) (auto simp: Suc_le_eq)
    then show ?thesis using Cons.prems(1) by auto
  qed
qed simp

definition cycle_edges :: "cascade_rule list \<Rightarrow> cascade_rule \<Rightarrow> (bytes \<times> bytes) set" where
  "cycle_edges rules new = insert (cr_parent new, cr_child new) (rule_edges rules)"

lemma reject_cycle_Ok:
  assumes "reject_cycle rules new = Ok ()"
  shows "(cr_child new, cr_parent new) \<notin> (rule_edges rules)\<^sup>*"
proof
  assume r: "(cr_child new, cr_parent new) \<in> (rule_edges rules)\<^sup>*"
  obtain W where W: "cr_child new \<in> W" "cr_parent new \<notin> W" "rule_edges rules `` W \<subseteq> W"
    using assms cycle_search_None [of rules "cr_parent new" "{}" "[(cr_child new, [cr_parent new, cr_child new])]"]
    by (auto simp: reject_cycle_def split: option.splits)
  from r have "cr_parent new \<in> W"
    by (induction rule: rtrancl_induct) (use W in auto)
  then show False using W(2) by simp
qed

lemma reject_cycle_Err:
  assumes "reject_cycle rules new = Err e"
  shows "\<exists>path. e = NsCascadeCycle path \<and> successively (\<lambda>x y. (x, y) \<in> cycle_edges rules new) path
    \<and> hd path = cr_parent new \<and> last path = cr_parent new \<and> 2 \<le> length path"
proof -
  obtain path where p: "e = NsCascadeCycle path"
      "cycle_search rules (cr_parent new) {} [(cr_child new, [cr_parent new, cr_child new])] = Some path"
    using assms by (auto simp: reject_cycle_def split: option.splits)
  then show ?thesis
    using cycle_search_Some [OF p(2), of "cycle_edges rules new"] by (auto simp: cycle_edges_def trail_def)
qed

lemma reject_cycle_iff:
  assumes "acyclic (rule_edges rules)"
  shows "reject_cycle rules new = Ok () \<longleftrightarrow> acyclic (cycle_edges rules new)"
proof
  show "acyclic (cycle_edges rules new)" if "reject_cycle rules new = Ok ()"
    using reject_cycle_Ok [OF that] assms by (simp add: cycle_edges_def acyclic_insert)
  show "reject_cycle rules new = Ok ()" if ac: "acyclic (cycle_edges rules new)"
  proof (cases "reject_cycle rules new")
    case (Inl e)
    then obtain path where "successively (\<lambda>x y. (x, y) \<in> cycle_edges rules new) path"
        "hd path = cr_parent new" "last path = cr_parent new" "2 \<le> length path"
      using reject_cycle_Err by blast
    then have "(cr_parent new, cr_parent new) \<in> (cycle_edges rules new)\<^sup>+" using walk_trancl by metis
    then show ?thesis using ac by (simp add: acyclic_def)
  qed simp
qed

section \<open>The stored rule set\<close>

definition rule_ok :: "cascade_rule \<Rightarrow> bool" where
  "rule_ok r \<longleftrightarrow> name_valid (cr_parent r) \<and> name_valid (cr_child r)"

definition rules_ok :: "xxh3_lib \<Rightarrow> cascade_rule list \<Rightarrow> bool" where
  "rules_ok X rules \<longleftrightarrow> bset_ok rules \<and> (\<forall>r \<in> set rules. rule_ok r) \<and> acyclic (rule_edges rules)
     \<and> length (encode_cascades X rules) \<le> MAX_RECORD"

lemma digit_byte_range:
  assumes "b \<in> set (dec_digits n)"
  shows "b < 0x80" "b \<noteq> 9" "b \<noteq> 10" "b \<noteq> 13"
proof -
  have "48 \<le> unat b" "unat b \<le> 57" using dec_digits_digits [OF assms] by (simp_all add: word_le_nat_alt)
  then show "b < 0x80" "b \<noteq> 9" "b \<noteq> 10" "b \<noteq> 13" by (auto simp: word_less_nat_alt)
qed

lemma rule_line_byte:
  assumes "rule_ok r" "b \<in> set (rule_line r)"
  shows "b < 0x80" "b \<noteq> 10" "b \<noteq> 13"
proof -
  have "b = 9 \<or> b \<in> set (cr_parent r) \<or> b \<in> set (cr_child r) \<or> b \<in> set (dec_digits (unat (cr_attribute r)))"
    using assms(2) by (auto simp: rule_line_def)
  then show "b < 0x80" "b \<noteq> 10" "b \<noteq> 13"
    using assms(1) name_byte [of "cr_parent r" b] name_byte [of "cr_child r" b] digit_byte_range [of b]
    by (auto simp: rule_ok_def)
qed

lemma parse_rule_line:
  assumes "rule_ok r"
  shows "parse_rule (rule_line r) = Ok r"
proof -
  let ?d = "dec_digits (unat (cr_attribute r))"
  have "9 \<notin> set (cr_parent r)" "9 \<notin> set (cr_child r)" "9 \<notin> set ?d"
    using assms name_byte(3) digit_byte_range(2) by (auto simp: rule_ok_def)
  then have "str_split 9 (rule_line r) = [cr_parent r, cr_child r, ?d]"
    by (simp add: rule_line_def str_split_field str_split_single)
  moreover have "parse_unsigned u32_max ?d = Some (unat (cr_attribute r))" by (simp add: parse_dec)
  ultimately show ?thesis using assms by (simp add: parse_rule_def rule_ok_def list_get_def)
qed

lemma read_rules_ok:
  "\<forall>r \<in> set rs. rule_ok r \<Longrightarrow> bset_ok (acc @ rs) \<Longrightarrow> acyclic (rule_edges (acc @ rs)) \<Longrightarrow>
   read_rules (map rule_line rs) acc = Ok (acc @ rs)"
proof (induction rs arbitrary: acc)
  case (Cons r rs)
  have "acyclic (cycle_edges acc r)" "acyclic (rule_edges acc)"
    by (rule acyclic_subset [OF Cons.prems(3)], simp add: cycle_edges_def, blast)+
  then have "reject_cycle acc r = Ok ()" by (simp add: reject_cycle_iff)
  moreover have "bset_insert r acc = (True, acc @ [r])"
    using Cons.prems(2) by (intro bset_insert_snoc) (auto simp: sorted_wrt_append)
  ultimately show ?case
    using Cons.IH [of "acc @ [r]"] Cons.prems parse_rule_line [of r] by simp
qed simp

lemma decode_encode_cascades:
  assumes "rules_ok X rules"
  shows "decode_cascades X (encode_cascades X rules) = Ok rules"
proof -
  have r: "bset_ok rules" "\<forall>r \<in> set rules. rule_ok r" "acyclic (rule_edges rules)"
      "length (encode_cascades X rules) \<le> MAX_RECORD"
    using assms by (simp_all add: rules_ok_def)
  let ?t = "concat (map (\<lambda>r. rule_line r @ [10]) rules)"
  have body: "ns_body X (encode_cascades X rules) = Ok (CASCADE_VERSION @ ?t)"
    using ns_sealed.unseal_seal r(4) by (simp add: encode_cascades_def)
  have utf8: "utf8_valid (CASCADE_VERSION @ ?t)"
    by (rule utf8_ascii) (use r(2) rule_line_byte(1) in \<open>auto simp: CASCADE_VERSION_def ascii_def\<close>)
  have "\<forall>l \<in> set (map rule_line rules). 10 \<notin> set l \<and> 13 \<notin> set l"
    using r(2) rule_line_byte(2,3) by fastforce
  then have "str_lines ?t = map rule_line rules"
    using str_lines_lines [of "map rule_line rules"] by (simp add: comp_def)
  then show ?thesis
    using body utf8 read_rules_ok [of rules "[]"] r by (simp add: decode_cascades_def)
qed

lemma parse_rule_ok: "parse_rule l = Ok r \<Longrightarrow> rule_ok r"
  unfolding parse_rule_def Let_def
  by (auto simp only: and_then_eq_Inr rule_ok_def sum.inject sum.distinct cascade_rule.sel simp_thms split: if_splits)

lemma read_rules_inv:
  "read_rules ls acc = Ok rules \<Longrightarrow> bset_ok acc \<and> (\<forall>r \<in> set acc. rule_ok r) \<and> acyclic (rule_edges acc) \<Longrightarrow>
   bset_ok rules \<and> (\<forall>r \<in> set rules. rule_ok r) \<and> acyclic (rule_edges rules)"
proof (induction ls arbitrary: acc)
  case (Cons l ls)
  then obtain r where r: "parse_rule l = Ok r" "reject_cycle acc r = Ok ()"
      "read_rules ls (snd (bset_insert r acc)) = Ok rules"
    by (auto simp: result_Inr split: if_splits)
  have "rule_ok r" by (rule parse_rule_ok [OF r(1)])
  moreover have "acyclic (insert (cr_parent r, cr_child r) (rule_edges acc))"
    using r(2) Cons.prems(2) reject_cycle_iff by (simp add: cycle_edges_def)
  ultimately have "bset_ok (snd (bset_insert r acc)) \<and> (\<forall>r \<in> set (snd (bset_insert r acc)). rule_ok r)
      \<and> acyclic (rule_edges (snd (bset_insert r acc)))"
    using Cons.prems(2) by (simp only: set_bset_insert rule_edges_insert bset_insert_ok) blast
  then show ?case by (rule Cons.IH [OF r(3)])
qed simp

lemma decode_cascades_ok:
  assumes "decode_cascades X bs = Ok rules"
  shows "rules_ok X rules \<and> encode_cascades X rules = bs"
proof -
  obtain c where c: "ns_body X bs = Ok c" "encode_cascades X rules = bs"
      "read_rules (str_lines (drop (length CASCADE_VERSION) c)) [] = Ok rules"
    using assms by (auto simp: decode_cascades_def result_Inr split: if_splits)
  have "length bs \<le> MAX_RECORD" using c(1) ns_sealed.unseal_canon by blast
  then show ?thesis using read_rules_inv [OF c(3)] c(2) by (simp add: rules_ok_def acyclic_def)
qed

end
