(* ===== verification/Cascade_Closure.thy ===== *)
theory Cascade_Closure
  imports Cascade_Rules
begin

text \<open>
  Expanding a cascade deletes exactly the documents that depend on an explicitly deleted one.
  \<open>doomed\<close> is that dependency closure; the loops of the code compute it.
\<close>

inductive doomed :: "ns_reference_edge set \<Rightarrow> (bytes \<Rightarrow> u128 set) \<Rightarrow> bytes \<Rightarrow> u128 \<Rightarrow> bool" for refs start where
  doomed_start: "x \<in> start n \<Longrightarrow> doomed refs start n x"
| doomed_reference: "doomed refs start p q \<Longrightarrow> (p, q, c, x) \<in> refs \<Longrightarrow> doomed refs start c x"

section \<open>The deletion loop\<close>

lemma close_pass_dom: "close_pass refs ids changed = Ok (ids', changed') \<Longrightarrow> dom ids' = dom ids"
  by (induction refs ids changed rule: close_pass.induct) (auto split: if_splits option.splits)

lemma close_pass_sound:
  "close_pass refs ids changed = Ok (ids', changed') \<Longrightarrow> \<forall>n x. listed ids n x \<longrightarrow> P n x \<Longrightarrow>
   \<forall>(p, q, c, x) \<in> set refs. P p q \<longrightarrow> P c x \<Longrightarrow> listed ids' n x \<Longrightarrow> P n x"
proof (induction refs ids changed rule: close_pass.induct)
  case (2 p q c x refs ids changed)
  show ?case
  proof (cases "listed ids p q")
    case True
    then obtain known where k: "ids c = Some known"
        "close_pass refs (ids(c \<mapsto> insert x known)) (changed \<or> x \<notin> known) = Ok (ids', changed')"
      using "2.prems"(1) by (auto split: option.splits)
    have "P c x" using True "2.prems"(2,3) by simp
    then have "\<forall>n y. listed (ids(c \<mapsto> insert x known)) n y \<longrightarrow> P n y"
      using "2.prems"(2) k(1) by (simp del: fun_upd_apply)
    then show ?thesis
      using "2.IH"(1) [OF True k(1) k(2)] "2.prems"(3,4) by (simp del: fun_upd_apply)
  next
    case False
    then show ?thesis using 2 by simp
  qed
qed simp

lemma close_pass_stable:
  "close_pass refs ids changed = Ok (ids', False) \<Longrightarrow>
   \<not> changed \<and> ids' = ids \<and> (\<forall>(p, q, c, x) \<in> set refs. listed ids p q \<longrightarrow> listed ids c x)"
proof (induction refs ids changed rule: close_pass.induct)
  case (2 p q c x refs ids changed)
  show ?case
  proof (cases "listed ids p q")
    case True
    then obtain known where k: "ids c = Some known"
        "close_pass refs (ids(c \<mapsto> insert x known)) (changed \<or> x \<notin> known) = Ok (ids', False)"
      using "2.prems" by (auto split: option.splits)
    have "x \<in> known" using "2.IH"(1) [OF True k] by blast
    then have "ids(c \<mapsto> insert x known) = ids" "listed ids c x" using k(1) by (auto simp: listed_def insert_absorb)
    then show ?thesis using "2.IH"(1) [OF True k] by simp
  next
    case False
    then show ?thesis using 2 by simp
  qed
qed simp

lemma close_pass_total:
  "\<forall>(p, q, c, x) \<in> set refs. c \<in> dom ids \<Longrightarrow> \<exists>r. close_pass refs ids changed = Ok r"
proof (induction refs ids changed rule: close_pass.induct)
  case (2 p q c x refs ids changed)
  then obtain known where k: "ids c = Some known" by auto
  have "\<forall>(p, q, c', x) \<in> set refs. c' \<in> dom (ids(c \<mapsto> insert x known))" "\<forall>(p, q, c, x) \<in> set refs. c \<in> dom ids"
    using "2.prems" by auto
  then show ?case using "2.IH" k by (cases "listed ids p q") (auto simp del: fun_upd_apply)
qed simp

lemma close_loop_exact:
  assumes "\<forall>(p, q, c, x) \<in> set refs. c \<in> dom ids"
  shows "\<exists>ids'. close_loop refs ids = Ok ids' \<and> dom ids' = dom ids
    \<and> (\<forall>n x. listed ids' n x \<longleftrightarrow> doomed (set refs) (\<lambda>n. {x. listed ids n x}) n x)"
  using assms
proof (induction refs ids rule: close_loop.induct)
  case (1 refs ids)
  let ?D = "doomed (set refs) (\<lambda>n. {x. listed ids n x})"
  obtain ids1 changed where p: "close_pass refs ids False = Ok (ids1, changed)"
    using close_pass_total [OF "1.prems", of False] by (metis surj_pair)
  have sound: "listed ids1 n x \<Longrightarrow> ?D n x" for n x
    by (rule close_pass_sound [OF p, where P = ?D]) (auto intro: doomed.intros)
  have grows: "listed ids n x \<Longrightarrow> listed ids1 n x" for n x using close_pass_mono [OF p] .
  show ?case
  proof (cases changed)
    case True
    have dom: "dom ids1 = dom ids" using close_pass_dom [OF p] .
    obtain ids' where i: "close_loop refs ids1 = Ok ids'" "dom ids' = dom ids1"
        "\<forall>n x. listed ids' n x \<longleftrightarrow> doomed (set refs) (\<lambda>n. {x. listed ids1 n x}) n x"
      using "1.IH" [OF p refl True] "1.prems" dom by auto
    have "doomed (set refs) (\<lambda>n. {x. listed ids1 n x}) n x \<longleftrightarrow> ?D n x" for n x
    proof
      show "?D n x" if "doomed (set refs) (\<lambda>n. {x. listed ids1 n x}) n x"
        using that by (induction rule: doomed.induct) (auto intro: sound doomed_reference)
      show "doomed (set refs) (\<lambda>n. {x. listed ids1 n x}) n x" if "?D n x"
        using that by (induction rule: doomed.induct) (auto intro: grows doomed.intros)
    qed
    then show ?thesis using i dom p True by (simp add: close_loop.simps [of refs ids])
  next
    case False
    then have s: "ids1 = ids" "\<forall>(p, q, c, x) \<in> set refs. listed ids p q \<longrightarrow> listed ids c x"
      using close_pass_stable [of refs ids False ids1] p by simp_all
    have "listed ids n x" if "?D n x" for n x
      using that by (induction rule: doomed.induct) (use s(2) in auto)
    then show ?thesis using p False s(1) by (auto simp: close_loop.simps [of refs ids] intro: doomed_start)
  qed
qed

section \<open>The participant closure\<close>

lemma reach_pass_closed: "R \<subseteq> W \<Longrightarrow> rule_edges rules `` W \<subseteq> W \<Longrightarrow> reach_pass rules R \<subseteq> W"
proof (induction rules arbitrary: R)
  case (Cons r rules)
  let ?R1 = "if cr_parent r \<in> R then insert (cr_child r) R else R"
  have "?R1 \<subseteq> W" "rule_edges rules `` W \<subseteq> W" using Cons.prems by (auto simp: Image_def)
  then show ?case using Cons.IH [of ?R1] by (simp add: reach_pass_def)
qed (simp add: reach_pass_def)

lemma reach_pass_step: "reach_pass rules R = R \<Longrightarrow> rule_edges rules `` R \<subseteq> R"
proof -
  have "(p, c) \<in> rule_edges rules \<Longrightarrow> p \<in> R \<Longrightarrow> c \<in> reach_pass rules R" for p c
  proof (induction rules arbitrary: R)
    case (Cons r rules)
    let ?R1 = "if cr_parent r \<in> R then insert (cr_child r) R else R"
    have eq: "reach_pass (r # rules) R = reach_pass rules ?R1" by (simp add: reach_pass_def)
    have sub: "?R1 \<subseteq> reach_pass rules ?R1" by (rule reach_pass_mono)
    show ?case
    proof (cases "(p, c) = (cr_parent r, cr_child r)")
      case True
      then show ?thesis using Cons.prems sub eq by auto
    next
      case False
      then have "(p, c) \<in> rule_edges rules" "p \<in> ?R1" using Cons.prems by auto
      then show ?thesis using Cons.IH eq by simp
    qed
  qed simp
  then show "reach_pass rules R = R \<Longrightarrow> ?thesis" by blast
qed

lemma reach_loop_exact: "finite R \<Longrightarrow> reach_loop rules R = (rule_edges rules)\<^sup>* `` R"
proof (induction rules R rule: reach_loop.induct)
  case (1 rules R)
  let ?after = "reach_pass rules R"
  have fin: "finite ?after"
    using reach_pass_mono(2) [where R = R and rules = rules] "1.prems" by (auto intro: finite_subset)
  have sub: "R \<subseteq> ?after" "?after \<subseteq> (rule_edges rules)\<^sup>* `` R"
  proof -
    show "R \<subseteq> ?after" by (rule reach_pass_mono)
    have "R \<subseteq> (rule_edges rules)\<^sup>* `` R" by blast
    moreover have "rule_edges rules `` ((rule_edges rules)\<^sup>* `` R) \<subseteq> (rule_edges rules)\<^sup>* `` R"
      by (meson ImageE ImageI rtrancl.rtrancl_into_rtrancl subsetI)
    ultimately show "?after \<subseteq> (rule_edges rules)\<^sup>* `` R" by (rule reach_pass_closed)
  qed
  show ?case
  proof (cases "card R = card ?after")
    case True
    then have eq: "?after = R" using card_subset_eq [OF fin sub(1)] by simp
    have "(s, n) \<in> (rule_edges rules)\<^sup>* \<Longrightarrow> s \<in> R \<Longrightarrow> n \<in> R" for s n
      by (induction rule: rtrancl_induct) (use reach_pass_step [OF eq] in blast)+
    then show ?thesis using True eq by (auto simp: reach_loop.simps [of rules R])
  next
    case False
    then have "reach_loop rules R = (rule_edges rules)\<^sup>* `` ?after"
      using "1.IH" [OF refl False fin] by (simp add: reach_loop.simps [of rules R])
    moreover have "(rule_edges rules)\<^sup>* `` ?after = (rule_edges rules)\<^sup>* `` R"
    proof
      show "(rule_edges rules)\<^sup>* `` ?after \<subseteq> (rule_edges rules)\<^sup>* `` R"
        using sub(2) by (meson ImageE ImageI rtrancl_trans subsetD subsetI)
    qed (use sub(1) in blast)
    ultimately show ?thesis by simp
  qed
qed

section \<open>The references between documents\<close>

lemma try_concat_ok: "(\<And>x. x \<in> set xs \<Longrightarrow> f x = Ok (g x)) \<Longrightarrow> try_concat f xs = Ok (concat (map g xs))"
  by (induction xs) auto

text \<open>An ownership edge: a document of the child holds the parent's id in the declared attribute.\<close>

definition owns ::
  "cascade_rule list \<Rightarrow> (bytes \<Rightarrow> (string, scan_document list) result list) \<Rightarrow> ns_reference_edge set" where
  "owns rules scan = {(p, q, c, x). \<exists>r \<in> set rules. p = cr_parent r \<and> c = cr_child r \<and>
     (\<exists>docs doc values. Ok docs \<in> set (scan c) \<and> doc \<in> set docs \<and> x = sdoc_id doc
       \<and> sdoc_attributes doc = Some values \<and> (cr_attribute r, PvId128 q) \<in> set values)}"

text \<open>Every page of a participant can be read and every declared reference holds an id.\<close>

definition document_ready :: "cascade_rule list \<Rightarrow> bytes \<Rightarrow> scan_document \<Rightarrow> bool" where
  "document_ready rules n doc \<longleftrightarrow>
     (\<forall>values. sdoc_attributes doc = Some values \<longrightarrow> (\<forall>a \<in> set values.
        (\<exists>r \<in> set rules. cr_child r = n \<and> cr_attribute r = fst a) \<longrightarrow> (\<exists>q. snd a = PvId128 q)))"

lemma document_readyD:
  "document_ready rules n doc \<Longrightarrow> sdoc_attributes doc = Some vs \<Longrightarrow> a \<in> set vs \<Longrightarrow> r \<in> set rules \<Longrightarrow>
   cr_child r = n \<Longrightarrow> cr_attribute r = fst a \<Longrightarrow> \<exists>q. snd a = PvId128 q"
  unfolding document_ready_def by blast

definition scan_ready ::
  "cascade_rule list \<Rightarrow> (bytes \<Rightarrow> (string, scan_document list) result list) \<Rightarrow> bytes \<Rightarrow> bool" where
  "scan_ready rules scan n \<longleftrightarrow>
     (\<forall>page \<in> set (scan n). \<exists>docs. page = Ok docs \<and> (\<forall>doc \<in> set docs. document_ready rules n doc))"

definition id_value :: "predicate_value \<Rightarrow> u128" where
  "id_value v = (case v of PvId128 q \<Rightarrow> q | _ \<Rightarrow> 0)"

definition attribute_edges :: "cascade_rule list \<Rightarrow> bytes \<Rightarrow> u128 \<Rightarrow> u32 \<times> predicate_value \<Rightarrow> ns_reference_edge list" where
  "attribute_edges child_rules n x a =
     map (\<lambda>r. (cr_parent r, id_value (snd a), n, x)) (filter (\<lambda>r. cr_attribute r = fst a) child_rules)"

definition document_edges :: "cascade_rule list \<Rightarrow> bytes \<Rightarrow> scan_document \<Rightarrow> ns_reference_edge list" where
  "document_edges child_rules n doc =
     concat (map (attribute_edges child_rules n (sdoc_id doc)) (case sdoc_attributes doc of None \<Rightarrow> [] | Some vs \<Rightarrow> vs))"

definition source_edges ::
  "cascade_rule list \<Rightarrow> (bytes \<Rightarrow> (string, scan_document list) result list) \<Rightarrow> bytes \<times> schema \<Rightarrow> ns_reference_edge list" where
  "source_edges active scan source =
     (let child_rules = filter (\<lambda>r. cr_child r = fst source) active in
      if child_rules = [] then []
      else concat (map (\<lambda>page. concat (map (document_edges child_rules (fst source)) (projr page))) (scan (fst source))))"

lemma attribute_references_ok:
  assumes "\<exists>r \<in> set child_rules. cr_attribute r = fst a \<Longrightarrow> \<exists>q. snd a = PvId128 q"
  shows "attribute_references child_rules n x a = Ok (attribute_edges child_rules n x a)"
proof -
  have "try_concat (\<lambda>rule. case snd a of PvId128 q \<Rightarrow> Ok [(cr_parent rule, q, n, x)]
        | _ \<Rightarrow> Err (NsInvalid ''cascade reference is not id128'')) (filter (\<lambda>r. cr_attribute r = fst a) child_rules) =
      Ok (concat (map (\<lambda>r. [(cr_parent r, id_value (snd a), n, x)]) (filter (\<lambda>r. cr_attribute r = fst a) child_rules)))"
  proof (rule try_concat_ok)
    fix r assume "r \<in> set (filter (\<lambda>r. cr_attribute r = fst a) child_rules)"
    then obtain q where "snd a = PvId128 q" using assms by auto
    then show "(case snd a of PvId128 q \<Rightarrow> Ok [(cr_parent r, q, n, x)]
        | _ \<Rightarrow> Err (NsInvalid ''cascade reference is not id128'')) = Ok [(cr_parent r, id_value (snd a), n, x)]"
      by (simp add: id_value_def)
  qed
  then show ?thesis by (simp add: attribute_references_def attribute_edges_def case_prod_beta concat_map_singleton)
qed

lemma document_references_ok:
  assumes "document_ready rules n doc" "set child_rules \<subseteq> set rules" "\<forall>r \<in> set child_rules. cr_child r = n"
  shows "document_references child_rules n doc = Ok (document_edges child_rules n doc)"
  unfolding document_references_def document_edges_def
proof (rule try_concat_ok, rule attribute_references_ok)
  fix a assume a: "a \<in> set (case sdoc_attributes doc of None \<Rightarrow> [] | Some vs \<Rightarrow> vs)"
    "\<exists>r \<in> set child_rules. cr_attribute r = fst a"
  then obtain vs where "sdoc_attributes doc = Some vs" "a \<in> set vs" by (cases "sdoc_attributes doc") auto
  then show "\<exists>q. snd a = PvId128 q"
    using document_readyD [OF assms(1)] assms(2,3) a(2) by (meson subsetD)
qed

lemma source_references_ok:
  assumes "scan_ready rules scan (fst source)" "set active \<subseteq> set rules"
  shows "source_references active scan source = Ok (source_edges active scan source)"
proof -
  let ?cr = "filter (\<lambda>r. cr_child r = fst source) active"
  have page: "and_then (map_err NsInvalid page) (try_concat (document_references ?cr (fst source))) =
      Ok (concat (map (document_edges ?cr (fst source)) (projr page)))" if p: "page \<in> set (scan (fst source))" for page
  proof -
    obtain docs where d: "page = Ok docs" "\<forall>doc \<in> set docs. document_ready rules (fst source) doc"
      using assms(1) p by (auto simp: scan_ready_def)
    have "try_concat (document_references ?cr (fst source)) docs = Ok (concat (map (document_edges ?cr (fst source)) docs))"
      by (rule try_concat_ok, rule document_references_ok) (use d(2) assms(2) in auto)
    then show ?thesis using d(1) by simp
  qed
  have "try_concat (\<lambda>page. and_then (map_err NsInvalid page) (try_concat (document_references ?cr (fst source))))
      (scan (fst source)) = Ok (concat (map (\<lambda>page. concat (map (document_edges ?cr (fst source)) (projr page)))
      (scan (fst source))))"
    by (rule try_concat_ok) (rule page)
  then show ?thesis by (simp add: source_references_def source_edges_def Let_def)
qed

lemma document_edges_iff:
  assumes "document_ready rules n doc" "set child_rules \<subseteq> set rules" "\<forall>r \<in> set child_rules. cr_child r = n"
  shows "(p, q, c, x) \<in> set (document_edges child_rules n doc) \<longleftrightarrow> c = n \<and> x = sdoc_id doc
    \<and> (\<exists>r \<in> set child_rules. \<exists>vs. p = cr_parent r \<and> sdoc_attributes doc = Some vs \<and> (cr_attribute r, PvId128 q) \<in> set vs)"
    (is "?l \<longleftrightarrow> ?r")
proof (cases "sdoc_attributes doc")
  case (Some vs)
  have id: "snd a = PvId128 (id_value (snd a))"
    if a: "a \<in> set vs" "r \<in> set child_rules" "cr_attribute r = fst a" for a r
  proof -
    obtain q where "snd a = PvId128 q" using document_readyD [OF assms(1) Some] assms(2,3) a by (meson subsetD)
    then show ?thesis by (simp add: id_value_def)
  qed
  show ?thesis
  proof
    assume ?l
    then obtain a r where "a \<in> set vs" "r \<in> set child_rules" "cr_attribute r = fst a"
        "(p, q, c, x) = (cr_parent r, id_value (snd a), n, sdoc_id doc)"
      using Some by (auto simp: document_edges_def attribute_edges_def)
    then show ?r using Some id [of a r] by (cases a) auto
  next
    assume ?r
    then obtain r where "c = n" "x = sdoc_id doc" "r \<in> set child_rules" "p = cr_parent r" "(cr_attribute r, PvId128 q) \<in> set vs"
      using Some by auto
    then show ?l using Some by (force simp: document_edges_def attribute_edges_def id_value_def)
  qed
qed (simp add: document_edges_def)

lemma source_edges_iff:
  assumes "scan_ready rules scan n" "set active \<subseteq> set rules"
  shows "(p, q, c, x) \<in> set (source_edges active scan (n, s)) \<longleftrightarrow> c = n \<and> (p, q, c, x) \<in> owns active scan"
proof -
  let ?cr = "filter (\<lambda>r. cr_child r = n) active"
  have ok: "page = Ok (projr page)" if "page \<in> set (scan n)" for page using assms(1) that by (auto simp: scan_ready_def)
  have ready: "document_ready rules n doc" if "Ok docs \<in> set (scan n)" "doc \<in> set docs" for docs doc
    using assms(1) that by (auto simp: scan_ready_def)
  have "(p, q, c, x) \<in> set (source_edges active scan (n, s)) \<longleftrightarrow>
      (\<exists>docs doc. Ok docs \<in> set (scan n) \<and> doc \<in> set docs \<and> (p, q, c, x) \<in> set (document_edges ?cr n doc))"
  proof (cases "?cr = []")
    case True
    have "document_edges [] n doc = []" for doc
      by (simp add: document_edges_def attribute_edges_def split: option.splits)
    then show ?thesis using True by (simp add: source_edges_def)
  next
    case False
    then have "(p, q, c, x) \<in> set (source_edges active scan (n, s)) \<longleftrightarrow>
        (\<exists>page \<in> set (scan n). \<exists>doc \<in> set (projr page). (p, q, c, x) \<in> set (document_edges ?cr n doc))"
      by (simp add: source_edges_def Let_def)
    then show ?thesis using ok by (metis sum.sel(2))
  qed
  also have "\<dots> \<longleftrightarrow> (\<exists>docs doc. Ok docs \<in> set (scan n) \<and> doc \<in> set docs \<and> c = n \<and> x = sdoc_id doc
      \<and> (\<exists>r \<in> set ?cr. \<exists>vs. p = cr_parent r \<and> sdoc_attributes doc = Some vs \<and> (cr_attribute r, PvId128 q) \<in> set vs))"
  proof -
    have "set ?cr \<subseteq> set rules" "\<forall>r \<in> set ?cr. cr_child r = n" using assms(2) by auto
    then have "Ok docs \<in> set (scan n) \<and> doc \<in> set docs \<and> (p, q, c, x) \<in> set (document_edges ?cr n doc) \<longleftrightarrow>
        Ok docs \<in> set (scan n) \<and> doc \<in> set docs \<and> c = n \<and> x = sdoc_id doc
        \<and> (\<exists>r \<in> set ?cr. \<exists>vs. p = cr_parent r \<and> sdoc_attributes doc = Some vs \<and> (cr_attribute r, PvId128 q) \<in> set vs)" for docs doc
      using document_edges_iff [of rules n doc ?cr p q c x] ready [of docs doc] by blast
    then show ?thesis by (simp only:)
  qed
  also have "\<dots> \<longleftrightarrow> c = n \<and> (p, q, c, x) \<in> owns active scan"
    by (auto simp: owns_def)
  finally show ?thesis .
qed

section \<open>Expanding a batch\<close>

definition explicit :: "ns_mutation list \<Rightarrow> bytes \<Rightarrow> u128 set" where
  "explicit ms n = {x. \<exists>m \<in> set ms. nm_name m = n \<and> x \<in> set (nm_deletes m)}"

lemma collect_ids_other: "n \<notin> nm_name ` set ms \<Longrightarrow> collect_ids ms ids n = ids n"
  by (induction ms arbitrary: ids) auto

lemma collect_ids_named:
  "distinct (map nm_name ms) \<Longrightarrow> m \<in> set ms \<Longrightarrow> collect_ids ms ids (nm_name m) = Some (set (nm_deletes m))"
  by (induction ms arbitrary: ids) (auto simp: collect_ids_other)

lemma collect_ids_listed:
  assumes "distinct (map nm_name ms)"
  shows "listed (collect_ids ms Map.empty) n x \<longleftrightarrow> x \<in> explicit ms n" "dom (collect_ids ms Map.empty) = nm_name ` set ms"
proof -
  show "dom (collect_ids ms Map.empty) = nm_name ` set ms"
  proof (intro set_eqI iffI)
    show "n \<in> nm_name ` set ms" if "n \<in> dom (collect_ids ms Map.empty)" for n
      using that collect_ids_other [of n ms Map.empty] by (meson domIff)
    show "n \<in> dom (collect_ids ms Map.empty)" if "n \<in> nm_name ` set ms" for n
      using that collect_ids_named [OF assms] by auto
  qed
  show "listed (collect_ids ms Map.empty) n x \<longleftrightarrow> x \<in> explicit ms n"
  proof (cases "n \<in> nm_name ` set ms")
    case True
    then obtain m where m: "m \<in> set ms" "n = nm_name m" by auto
    have "x \<in> explicit ms n \<longleftrightarrow> x \<in> set (nm_deletes m)"
      using assms m by (auto simp: explicit_def distinct_map inj_on_def)
    then show ?thesis using collect_ids_named [OF assms m(1)] m(2) by (simp add: listed_def)
  next
    case False
    then show ?thesis using collect_ids_other [OF False] by (auto simp: listed_def explicit_def)
  qed
qed

lemma assign_deletes_ok:
  "distinct (map nm_name ms) \<Longrightarrow> nm_name ` set ms \<subseteq> dom ids \<Longrightarrow>
   assign_deletes ms ids = Ok (map (\<lambda>m. m\<lparr>nm_deletes := sorted_list_of_set {x. listed ids (nm_name m) x}\<rparr>) ms)"
proof (induction ms arbitrary: ids)
  case (Cons m ms)
  then obtain known where k: "ids (nm_name m) = Some known" by auto
  have rest: "listed (ids(nm_name m := None)) (nm_name m') x = listed ids (nm_name m') x" if "m' \<in> set ms" for m' x
  proof -
    have "nm_name m' \<noteq> nm_name m" using Cons.prems(1) that by (metis distinct.simps(2) image_eqI list.set_map list.simps(9))
    then show ?thesis by (simp add: listed_def)
  qed
  have "nm_name m \<notin> nm_name ` set ms" using Cons.prems(1) by simp
  then have "nm_name ` set ms \<subseteq> dom (ids(nm_name m := None))" using Cons.prems(2) by (simp, blast)
  then have "assign_deletes ms (ids(nm_name m := None)) =
      Ok (map (\<lambda>m. m\<lparr>nm_deletes := sorted_list_of_set {x. listed ids (nm_name m) x}\<rparr>) ms)"
    using Cons.IH [of "ids(nm_name m := None)"] Cons.prems(1) rest by (simp del: fun_upd_apply cong: map_cong)
  moreover have "{x. listed ids (nm_name m) x} = known" using k by (simp add: listed_def)
  ultimately show ?case using k by simp
qed simp

lemma validate_rules_ok: "\<forall>r \<in> set rs. validate_rule sources r = Ok () \<Longrightarrow> validate_rules sources rs = Ok ()"
  by (induction rs) auto

lemma validate_rule_child: "validate_rule sources r = Ok u \<Longrightarrow> cr_child r \<in> fst ` set sources"
proof -
  assume "validate_rule sources r = Ok u"
  then obtain s where "map_of sources (cr_child r) = Some s" by (auto simp: validate_rule_def result_Inr)
  then show ?thesis by (metis dom_map_of_conv_image_fst domI)
qed

text \<open>Rules whose parent is no participant never fire, so the active ones and all of them doom the same.\<close>

lemma doomed_active:
  assumes "\<forall>n. start n \<noteq> {} \<longrightarrow> n \<in> K" "\<forall>r \<in> set rules. cr_parent r \<in> K \<longrightarrow> cr_child r \<in> K \<and> r \<in> set active"
    "set active \<subseteq> set rules" "\<And>p q c x. (p, q, c, x) \<in> refs \<longleftrightarrow> c \<in> K \<and> (p, q, c, x) \<in> owns active scan"
  shows "doomed refs start n x \<longleftrightarrow> doomed (owns rules scan) start n x"
proof
  show "doomed (owns rules scan) start n x" if "doomed refs start n x"
    using that
  proof (induction rule: doomed.induct)
    case (doomed_reference p q c x)
    then have "(p, q, c, x) \<in> owns rules scan" using assms(3,4) by (auto simp: owns_def)
    then show ?case using doomed_reference.IH doomed.doomed_reference by blast
  qed (rule doomed_start)
  have "n \<in> K \<and> doomed refs start n x" if "doomed (owns rules scan) start n x"
    using that
  proof (induction rule: doomed.induct)
    case (doomed_start x n)
    then show ?case using assms(1) by (auto intro: doomed.doomed_start)
  next
    case (doomed_reference p q c x)
    then have "c \<in> K \<and> (p, q, c, x) \<in> refs" using assms(2,4) by (fastforce simp: owns_def)
    then show ?case using doomed_reference.IH doomed.doomed_reference by blast
  qed
  then show "doomed refs start n x" if "doomed (owns rules scan) start n x" using that by blast
qed

lemma expand_rules_exact:
  assumes names: "distinct (map nm_name ms)" "set (map nm_name ms) = set (map fst sources)"
    and valid: "\<forall>r \<in> set rules. cr_parent r \<in> set (map fst sources) \<longrightarrow> validate_rule sources r = Ok ()"
    and ready: "\<forall>n \<in> set (map fst sources). scan_ready rules scan n"
  shows "expand_rules sources scan rules ms =
    Ok (map (\<lambda>m. m\<lparr>nm_deletes := sorted_list_of_set {x. doomed (owns rules scan) (explicit ms) (nm_name m) x}\<rparr>) ms)"
proof -
  let ?K = "set (map fst sources)" let ?ids = "collect_ids ms Map.empty"
  have closed: "cr_parent r \<in> ?K \<Longrightarrow> cr_child r \<in> ?K" if "r \<in> set rules" for r
    using valid validate_rule_child that by fastforce
  have step: "rule_edges rules `` ?K \<subseteq> ?K" using closed unfolding rule_edges_def by blast
  have "(s, n) \<in> (rule_edges rules)\<^sup>* \<Longrightarrow> s \<in> ?K \<Longrightarrow> n \<in> ?K" for s n
    by (induction rule: rtrancl_induct) (use step in blast)+
  then have reach: "reach_loop rules ?K = ?K" by (subst reach_loop_exact) auto
  let ?active = "filter (\<lambda>r. cr_parent r \<in> ?K) rules"
  let ?refs = "concat (map (source_edges ?active scan) sources)"
  have sub: "set ?active \<subseteq> set rules" by auto
  have refs: "try_concat (source_references ?active scan) sources = Ok ?refs"
    by (rule try_concat_ok, rule source_references_ok [OF _ sub]) (use ready in auto)
  have mem: "(p, q, c, x) \<in> set ?refs \<longleftrightarrow> c \<in> ?K \<and> (p, q, c, x) \<in> owns ?active scan" for p q c x
    using source_edges_iff [OF _ sub, of scan _ p q c x] ready by (fastforce simp del: set_filter)
  have dom: "dom ?ids = ?K" using collect_ids_listed(2) [OF names(1)] names(2) by simp
  then have "\<forall>(p, q, c, x) \<in> set ?refs. c \<in> dom ?ids" using mem by blast
  then obtain ids' where ids': "close_loop ?refs ?ids = Ok ids'" "dom ids' = ?K"
      "\<forall>n x. listed ids' n x \<longleftrightarrow> doomed (set ?refs) (\<lambda>n. {x. listed ?ids n x}) n x"
    using close_loop_exact [of ?refs ?ids] dom by auto
  have "doomed (set ?refs) (explicit ms) n x \<longleftrightarrow> doomed (owns rules scan) (explicit ms) n x" for n x
  proof (rule doomed_active [where K = ?K and active = ?active])
    show "\<forall>n. explicit ms n \<noteq> {} \<longrightarrow> n \<in> ?K" unfolding names(2) [symmetric] by (auto simp: explicit_def)
    show "\<forall>r \<in> set rules. cr_parent r \<in> ?K \<longrightarrow> cr_child r \<in> ?K \<and> r \<in> set ?active" using closed by simp
  qed (use sub mem in auto)
  then have "{x. listed ids' n x} = {x. doomed (owns rules scan) (explicit ms) n x}" for n
    using ids'(3) collect_ids_listed(1) [OF names(1)] by simp
  moreover have "assign_deletes ms ids' = Ok (map (\<lambda>m. m\<lparr>nm_deletes := sorted_list_of_set {x. listed ids' (nm_name m) x}\<rparr>) ms)"
    by (rule assign_deletes_ok) (use names ids'(2) in auto)
  ultimately show ?thesis
    unfolding expand_rules_def Let_def reach using refs ids'(1) valid by (simp add: validate_rules_ok)
qed

end
