(* ===== verification/Namespace_Theorems.thy ===== *)
theory Namespace_Theorems
  imports Cascade_Closure
begin

text \<open>
  Properties of the namespace root: its records read back what was written, except for one pair of
  formats that share a magic number; its cascade rules stay acyclic through every failure; and a
  cascade delete removes exactly what depends on the documents it names.
\<close>

section \<open>Root records\<close>

text \<open>
  C29: A root record reads back as it was written, with and without a root identity, for route tables
  and staged decisions alike. The one exception is a logical (cascade) decision written without a
  root identity.
\<close>

theorem root_record_roundtrip:
  assumes "encode_root_record X H i desc = Ok bs" "root_descriptor_ok X desc" "i \<noteq> Some 0"
    and "i \<noteq> None \<or> (\<forall>d. desc = Staged d \<longrightarrow> \<not> first_logical d)"
  shows "decode_root_record X H bs = Ok (i, desc)"
  by (rule decode_encode_root_record) (use assms in auto)

definition demo_selection :: "bool \<Rightarrow> staged_selection" where
  "demo_selection logical = \<lparr>ss_logical_delete = logical, ss_manifest = ascii ''.ze-manifest-1'', ss_binding = demo_binding\<rparr>"

definition demo_descriptor :: "bool \<Rightarrow> staged_descriptor" where
  "demo_descriptor logical = \<lparr>sd_selections = [(ascii ''a'', demo_selection logical)], sd_routes = []\<rparr>"

lemma demo_names: "name_valid (ascii ''a'')" "name_valid (ascii ''b'')" "name_valid (ascii ''ze-manifest-1'')"
  by (simp_all add: name_valid_def ascii_def is_alphanumeric_def)

lemma demo_binding_bytes: "\<exists>bb. binding_encode demo_binding = Ok bb \<and> length bb = 64"
  using demo_count by (simp add: binding_encode_def)

lemma demo_routes: "length (encode_routes X []) = 16" "routes_ok X []"
  by (simp_all add: encode_routes_def envelope_def Let_def NS_MAGIC_def ascii_def routes_ok_def MAX_RECORD_def)

lemma demo_selections: "\<exists>body. encode_selections l [(ascii ''a'', demo_selection l)] None {} = Ok body \<and> length body = 83"
proof -
  obtain bb where bb: "binding_encode demo_binding = Ok bb" "length bb = 64" using demo_binding_bytes by blast
  have dots: "\<not> sublist (ascii ''..'') (ascii ''.ze-manifest-1'')"
    "dropWhile (\<lambda>c. c = 46) (ascii ''.ze-manifest-1'') = ascii ''ze-manifest-1''"
    by (simp_all add: ascii_def sublist_Cons_right)
  show ?thesis
    using bb demo_names dots
    by (simp add: demo_selection_def Let_def selection_text_def u16_of_usize_def) (simp add: ascii_def)
qed

lemma demo_staged: "\<exists>bs. encode_staged X (demo_descriptor l) = Ok bs"
proof -
  obtain body where b: "encode_selections l [(ascii ''a'', demo_selection l)] None {} = Ok body" "length body = 83"
    using demo_selections by blast
  have "first_logical (demo_descriptor l) = l" by (simp add: first_logical_def demo_descriptor_def demo_selection_def)
  then show ?thesis
    using b demo_routes(1) [of X]
    by (simp add: encode_staged_def demo_descriptor_def Let_def u32_try_from_def u32_max_def MAX_RECORD_def
        LOGICAL_STAGED_MAGIC_def STAGED_MAGIC_def ascii_def)
qed

lemma demo_descriptor_ok: "descriptor_ok X (demo_descriptor l)" "first_logical (demo_descriptor l) = l"
  by (simp_all add: descriptor_ok_def demo_descriptor_def demo_routes first_logical_def demo_selection_def)

theorem root_record_roundtrip_witness:
  "\<exists>bs. encode_root_record sum_lib (\<lambda>_. 2) None (Staged (demo_descriptor False)) = Ok bs
     \<and> decode_root_record sum_lib (\<lambda>_. 2) bs = Ok (None, Staged (demo_descriptor False))"
proof -
  obtain bs where "encode_staged sum_lib (demo_descriptor False) = Ok bs" using demo_staged by blast
  then have e: "encode_root_record sum_lib (\<lambda>_. 2) None (Staged (demo_descriptor False)) = Ok bs"
    by (simp add: encode_root_record_def)
  then show ?thesis
    using root_record_roundtrip [OF e] demo_descriptor_ok by (simp add: root_descriptor_ok.simps)
qed

text \<open>
  C30: A cascade decision published on a root without an identity can never be read again: both
  formats begin with the same eight bytes, so every later read takes the record for a portable root
  and refuses it, whatever the participants and their names are.
\<close>

theorem legacy_cascade_unreadable:
  assumes "encode_root_record X H None (Staged d) = Ok bs" "first_logical d"
  shows "\<exists>err. decode_root_record X H bs = Err err"
  by (rule logical_record_refused) (use assms in \<open>simp_all add: encode_root_record_def\<close>)

theorem legacy_cascade_unreadable_witness:
  "\<exists>bs err. encode_root_record sum_lib (\<lambda>_. 2) None (Staged (demo_descriptor True)) = Ok bs
     \<and> decode_root_record sum_lib (\<lambda>_. 2) bs = Err err"
proof -
  obtain bs where "encode_staged sum_lib (demo_descriptor True) = Ok bs" using demo_staged by blast
  then have e: "encode_root_record sum_lib (\<lambda>_. 2) None (Staged (demo_descriptor True)) = Ok bs"
    by (simp add: encode_root_record_def)
  then show ?thesis using legacy_cascade_unreadable [OF e] demo_descriptor_ok(2) by blast
qed

section \<open>Cascade rules\<close>

text \<open>
  C12: The cycle check is exact. A rule set that can be read is acyclic; a new rule is accepted exactly
  when the rules stay acyclic with it; and a refusal names a cycle of declared rules through the new
  one.
\<close>

theorem cascade_cycle_exact:
  assumes "decode_cascades X bs = Ok rules"
  shows "acyclic (rule_edges rules)
    \<and> (reject_cycle rules new = Ok () \<longleftrightarrow> acyclic (rule_edges (new # rules)))
    \<and> (\<forall>e. reject_cycle rules new = Err e \<longrightarrow> (\<exists>path. e = NsCascadeCycle path \<and> 2 \<le> length path
         \<and> hd path = cr_parent new \<and> last path = cr_parent new
         \<and> successively (\<lambda>x y. (x, y) \<in> rule_edges (new # rules)) path))"
proof -
  have ac: "acyclic (rule_edges rules)" using decode_cascades_ok [OF assms] by (simp add: rules_ok_def)
  have edges: "cycle_edges rules new = rule_edges (new # rules)" by (simp add: cycle_edges_def)
  show ?thesis
    using ac reject_cycle_iff [OF ac, of new] reject_cycle_Err [of rules new] unfolding edges by blast
qed

definition demo_rule :: cascade_rule where
  "demo_rule = CascadeRule (ascii ''a'') (ascii ''b'') 1"

lemma demo_rule_ok: "rule_ok demo_rule" "rules_ok X [demo_rule]" "rules_ok X []"
proof -
  show ok: "rule_ok demo_rule" using demo_names by (simp add: rule_ok_def demo_rule_def)
  have d: "dec_digits 1 = [49]" by (simp add: dec_digits.simps)
  have "acyclic {(ascii ''a'', ascii ''b'')}" 
    unfolding acyclic_insert by (simp add: acyclic_def ascii_def)
  then show "rules_ok X [demo_rule]"
    using ok by (simp add: rules_ok_def demo_rule_def encode_cascades_def envelope_def Let_def NS_MAGIC_def
        CASCADE_VERSION_def rule_line_def MAX_RECORD_def d [simplified]) (simp add: ascii_def)
  show "rules_ok X []"
    by (simp add: rules_ok_def encode_cascades_def envelope_def Let_def NS_MAGIC_def CASCADE_VERSION_def
        MAX_RECORD_def ascii_def acyclic_def)
qed

theorem cascade_cycle_exact_witness:
  "reject_cycle [demo_rule] (CascadeRule (ascii ''b'') (ascii ''a'') 1) \<noteq> Ok ()
   \<and> reject_cycle [demo_rule] (CascadeRule (ascii ''b'') (ascii ''c'') 1) = Ok ()"
proof -
  have r: "decode_cascades sum_lib (encode_cascades sum_lib [demo_rule]) = Ok [demo_rule]"
    by (rule decode_encode_cascades [OF demo_rule_ok(2)])
  have "(ascii ''b'', ascii ''b'') \<in> {(ascii ''b'', ascii ''a''), (ascii ''a'', ascii ''b'')}\<^sup>+"
    by (rule trancl_trans [of _ "ascii ''a''"]) auto
  then have "\<not> acyclic {(ascii ''b'', ascii ''a''), (ascii ''a'', ascii ''b'')}" by (auto simp: acyclic_def)
  moreover have "reject_cycle [demo_rule] (CascadeRule (ascii ''b'') (ascii ''c'') 1) = Ok ()"
    by (simp add: reject_cycle_def demo_rule_def ascii_def)
  ultimately show ?thesis
    using cascade_cycle_exact [OF r, of "CascadeRule (ascii ''b'') (ascii ''a'') 1"] by (simp add: demo_rule_def)
qed

section \<open>Declaring a rule\<close>

lemma read_cascades_file:
  "d CASCADE_FILE = Some bs \<Longrightarrow> length bs \<le> MAX_RECORD \<Longrightarrow> read_cascades X None None d = decode_cascades X bs"
  "d CASCADE_FILE = None \<Longrightarrow> read_cascades X None None d = Ok []"
  by (simp_all add: read_cascades_def read_optional_def vfs_open_def vfs_read_def unat_u64_of_usize MAX_RECORD_def
      usize_max_def)

lemma read_cascades_cong:
  assumes "d CASCADE_FILE = d' CASCADE_FILE"
  shows "read_cascades X f g d = read_cascades X f g d'"
proof -
  have "vfs_open f CASCADE_FILE d = vfs_open f CASCADE_FILE d'" "vfs_read g CASCADE_FILE d = vfs_read g CASCADE_FILE d'"
    using assms by (simp_all only: vfs_open_def vfs_read_def)
  then show ?thesis by (simp only: read_cascades_def read_optional_def)
qed

lemma read_cascades_rules_ok: "read_cascades X f g d = Ok rules \<Longrightarrow> rules_ok X rules"
  using decode_cascades_ok demo_rule_ok(3) by (auto simp: read_cascades_def result_Inr split: option.splits)

lemma read_cascades_faults:
  assumes "read_cascades X f g d = Ok rules" "f \<noteq> Some NotFound"
  shows "read_cascades X None None d = Ok rules"
proof (cases f)
  case None
  then show ?thesis
    using assms(1) by (cases g; cases "d CASCADE_FILE")
      (auto simp: read_cascades_def read_optional_def vfs_open_def vfs_read_def result_Inr split: if_splits)
next
  case (Some e)
  then show ?thesis
    using assms by (auto simp: read_cascades_def read_optional_def vfs_open_def result_Inr)
qed

lemma cascade_files: "CASCADE_TEMP \<noteq> CASCADE_FILE"
  by (simp add: CASCADE_TEMP_def CASCADE_FILE_def ascii_def)

lemma validate_rule_names:
  "validate_rule sources r = Ok u \<Longrightarrow> cr_parent r \<in> set (map fst sources) \<and> cr_child r \<in> set (map fst sources)"
  by (auto simp: validate_rule_def result_Inr simp del: map_of_eq_None_iff dest!: map_of_SomeD)
    (metis fst_conv image_eqI)+

lemma declare_cases:
  assumes "declare_rule X env sources rule d = (res, d')" "read_cascades X None None d = Ok rules"
    "de_open env \<noteq> Some NotFound" "bset_ok rules"
  obtains (same) "d' = d" "res = Ok () \<longrightarrow> rule \<in> set rules"
  | (publish) "validate_rule sources rule = Ok ()" "reject_cycle rules rule = Ok ()"
      "length (encode_cascades X (snd (bset_insert rule rules))) \<le> MAX_RECORD"
      "publish_file (de_replace env) CASCADE_TEMP CASCADE_FILE (encode_cascades X (snd (bset_insert rule rules))) d = (res, d')"
proof (cases "and_then (validate_rule sources rule) (\<lambda>_. and_then (read_cascades X (de_open env) (de_read env) d)
    (\<lambda>rules. and_then (reject_cycle rules rule) (\<lambda>_. Ok (bset_insert rule rules))))")
  case (Inl e)
  then show ?thesis using assms(1) by (intro same) (auto simp: declare_rule_def)
next
  case (Inr y)
  then obtain rules' where r: "validate_rule sources rule = Ok ()" "read_cascades X (de_open env) (de_read env) d = Ok rules'"
      "reject_cycle rules' rule = Ok ()" "y = bset_insert rule rules'"
    by (auto simp: result_Inr)
  have "rules' = rules" using read_cascades_faults [OF r(2) assms(3)] assms(2) by simp
  note r = r [unfolded this]
  show ?thesis
  proof (cases "fst y")
    case True
    then have e: "bset_insert rule rules = (True, snd y)" using r(4) by (simp add: prod_eq_iff)
    then have "declare_rule X env sources rule d =
        (if MAX_RECORD < length (encode_cascades X (snd y)) then (Err (NsInvalid ''cascade record too large''), d)
         else publish_file (de_replace env) CASCADE_TEMP CASCADE_FILE (encode_cascades X (snd y)) d)"
      unfolding declare_rule_def r(1,2) result_simps r(3)
      by (simp only: result_simps sum.case prod.case Let_def MAX_RECORD_def not_True_eq_False if_False)
    then have res: "(if MAX_RECORD < length (encode_cascades X (snd y)) then (Err (NsInvalid ''cascade record too large''), d)
         else publish_file (de_replace env) CASCADE_TEMP CASCADE_FILE (encode_cascades X (snd y)) d) = (res, d')"
      using assms(1) by (simp only:)
    show ?thesis
    proof (cases "MAX_RECORD < length (encode_cascades X (snd y))")
      case True
      then have "res = Err (NsInvalid ''cascade record too large'')" "d' = d" using res by (simp_all only: if_True prod.inject)
      then show ?thesis by (intro same) (simp_all only: sum.distinct, simp)
    next
      case False
      then have "publish_file (de_replace env) CASCADE_TEMP CASCADE_FILE (encode_cascades X (snd y)) d = (res, d')"
        using res by (simp only: if_False)
      then show ?thesis using False r(1,3) e by (intro publish) (simp_all only: snd_conv not_less)
    qed
  next
    case False
    then have old: "rule \<in> set rules" using bset_insert_new [OF assms(4), of rule] r(4) by simp
    then have "declare_rule X env sources rule d = (Ok (), d)"
      using r(1-3) bset_insert_old [OF assms(4) old] by (simp add: declare_rule_def)
    then show ?thesis using assms(1) old by (intro same) simp_all
  qed
qed

text \<open>
  C11: Declaring a rule is atomic. Whatever the filesystem answers, the stored rules afterwards are the
  old ones or the old ones with the new rule, they can be read and are acyclic, no other file changes,
  and success means the new rule is stored.
\<close>

theorem cascade_declare_atomic:
  assumes "\<forall>n \<in> set (map fst sources). name_valid n" "read_cascades X None None d = Ok rules"
    "de_open env \<noteq> Some NotFound" "declare_rule X env sources rule d = (res, d')"
  shows "(\<exists>stored. read_cascades X None None d' = Ok stored \<and> acyclic (rule_edges stored)
      \<and> (set stored = set rules \<or> set stored = insert rule (set rules))
      \<and> (res = Ok () \<longrightarrow> set stored = insert rule (set rules)))
    \<and> (\<forall>f. f \<noteq> CASCADE_FILE \<longrightarrow> f \<noteq> CASCADE_TEMP \<longrightarrow> d' f = d f)"
proof -
  have ok: "rules_ok X rules" by (rule read_cascades_rules_ok [OF assms(2)])
  then have old: "acyclic (rule_edges rules)" "bset_ok rules" by (simp_all add: rules_ok_def)
  let ?new = "snd (bset_insert rule rules)"
  from assms(4) consider
      (same) "d' = d" "res = Ok () \<longrightarrow> rule \<in> set rules"
    | (publish) "validate_rule sources rule = Ok ()" "reject_cycle rules rule = Ok ()"
        "length (encode_cascades X ?new) \<le> MAX_RECORD"
        "publish_file (de_replace env) CASCADE_TEMP CASCADE_FILE (encode_cascades X ?new) d = (res, d')"
    by (rule declare_cases [OF _ assms(2,3) old(2)])
  then show ?thesis
  proof cases
    case same
    then show ?thesis using assms(2) old(1) by auto
  next
    case publish
    have "rule_ok rule" using validate_rule_names [OF publish(1)] assms(1) by (auto simp: rule_ok_def)
    moreover have ac: "acyclic (rule_edges ?new)"
      using reject_cycle_iff [OF old(1)] publish(2) by (simp add: cycle_edges_def)
    ultimately have "rules_ok X ?new"
      using ok publish(3) by (simp add: rules_ok_def bset_insert_ok del: rule_edges_insert)
    then have decoded: "decode_cascades X (encode_cascades X ?new) = Ok ?new" by (rule decode_encode_cascades)
    have new: "read_cascades X None None d' = Ok ?new" if "d' CASCADE_FILE = Some (encode_cascades X ?new)"
      using read_cascades_file(1) [of d', OF that publish(3)] decoded by simp
    note p = publish_file_atomic [OF publish(4) cascade_files]
    show ?thesis
    proof (cases "d' CASCADE_FILE = Some (encode_cascades X ?new)")
      case True
      then show ?thesis using new ac p(3) by auto
    next
      case False
      then have "d' CASCADE_FILE = d CASCADE_FILE" "res \<noteq> Ok ()" using p(1,2) by auto
      then show ?thesis using read_cascades_cong [of d' d X None None] assms(2) old(1) p(3) by auto
    qed
  qed
qed

definition demo_columns :: schema where
  "demo_columns = \<lparr>columns = [ts_column, \<lparr>col_id = 1, col_name = [0x6F], col_type = TypeId128, col_nullable = True\<rparr>]\<rparr>"

definition demo_sources :: ns_sources where
  "demo_sources = [(ascii ''a'', demo_columns), (ascii ''b'', demo_columns)]"

definition demo_declare :: declare_env where
  "demo_declare = \<lparr>de_open = None, de_read = None,
     de_replace = \<lparr>re_write = WriteOk, re_sync = None, re_rename = None, re_sync_dir = None\<rparr>\<rparr>"

lemma demo_sources_names: "set (map fst demo_sources) = {ascii ''a'', ascii ''b''}"
  by (simp add: demo_sources_def)

lemma demo_validate: "validate_rule demo_sources demo_rule = Ok ()"
  by (simp add: validate_rule_def demo_sources_def demo_rule_def demo_columns_def schema_column_def ascii_def
      ts_column_def TIMESTAMP_COLUMN_def)

theorem cascade_declare_atomic_witness:
  "\<exists>res d' stored. declare_rule sum_lib demo_declare demo_sources demo_rule Map.empty = (res, d')
     \<and> read_cascades sum_lib None None d' = Ok stored \<and> acyclic (rule_edges stored)"
proof -
  obtain res d' where r: "declare_rule sum_lib demo_declare demo_sources demo_rule Map.empty = (res, d')" by force
  have "\<forall>n \<in> set (map fst demo_sources). name_valid n" unfolding demo_sources_names using demo_names by simp
  moreover have "read_cascades sum_lib None None Map.empty = Ok []" by (simp add: read_cascades_file)
  ultimately show ?thesis
    using cascade_declare_atomic [OF _ _ _ r] r by (auto simp: demo_declare_def)
qed

section \<open>Cascade deletes\<close>

text \<open>
  C10: A cascade delete removes exactly what depends on the documents it names. When the declared rules
  can be read, every participant's rules are valid and its documents can be scanned, expansion
  terminates and gives each namespace, in ascending order, the documents that are deleted explicitly or
  refer through a declared attribute to one that is deleted, transitively; nothing else is removed and
  the other parts of the batch are unchanged.
\<close>

theorem cascade_expand_exact:
  assumes "read_cascades X f g d = Ok rules"
    and "distinct (map nm_name ms)" "set (map nm_name ms) = set (map fst sources)"
    and "\<forall>r \<in> set rules. cr_parent r \<in> set (map fst sources) \<longrightarrow> validate_rule sources r = Ok ()"
    and "\<forall>n \<in> set (map fst sources). scan_ready rules scan n"
  shows "expand X f g d sources scan ms =
    Ok (map (\<lambda>m. m\<lparr>nm_deletes := sorted_list_of_set {x. doomed (owns rules scan) (explicit ms) (nm_name m) x}\<rparr>) ms)"
  using expand_rules_exact [OF assms(2-5)] assms(1) by (simp add: expand_def)

definition demo_scan :: "bytes \<Rightarrow> (string, scan_document list) result list" where
  "demo_scan n = (if n = ascii ''b''
     then [Ok [\<lparr>sdoc_id = 7, sdoc_attributes = Some [(1, PvId128 5)]\<rparr>, \<lparr>sdoc_id = 8, sdoc_attributes = None\<rparr>]] else [])"

definition demo_mutations :: "ns_mutation list" where
  "demo_mutations = [\<lparr>nm_name = ascii ''b'', nm_deletes = []\<rparr>, \<lparr>nm_name = ascii ''a'', nm_deletes = [5]\<rparr>]"

theorem cascade_expand_exact_witness:
  "\<exists>out. expand sum_lib None None [CASCADE_FILE \<mapsto> encode_cascades sum_lib [demo_rule]] demo_sources demo_scan
       demo_mutations = Ok out \<and> doomed (owns [demo_rule] demo_scan) (explicit demo_mutations) (ascii ''b'') 7"
proof -
  let ?d = "[CASCADE_FILE \<mapsto> encode_cascades sum_lib [demo_rule]]"
  have "read_cascades sum_lib None None ?d = Ok [demo_rule]"
    using read_cascades_file(1) [of ?d "encode_cascades sum_lib [demo_rule]" sum_lib]
      decode_encode_cascades [OF demo_rule_ok(2)] demo_rule_ok(2) by (simp add: rules_ok_def)
  moreover have "\<forall>n \<in> set (map fst demo_sources). scan_ready [demo_rule] demo_scan n"
    by (simp add: scan_ready_def demo_scan_def document_ready_def demo_rule_def)
  moreover have "doomed (owns [demo_rule] demo_scan) (explicit demo_mutations) (ascii ''a'') 5"
    by (rule doomed_start) (simp add: explicit_def demo_mutations_def)
  then have "doomed (owns [demo_rule] demo_scan) (explicit demo_mutations) (ascii ''b'') 7"
    by (rule doomed_reference) (auto simp: owns_def demo_rule_def demo_scan_def)
  ultimately show ?thesis
    using cascade_expand_exact [of sum_lib None None ?d "[demo_rule]" demo_mutations demo_sources demo_scan] demo_validate
    by (simp add: demo_mutations_def demo_sources_def insert_commute) (simp add: ascii_def)
qed

end
