(* ===== verification/Accounting.thy ===== *)
theory Accounting
  imports Prelude
begin

text \<open>
  The memory accounting of an open store: \<open>lifecycle/stats.rs\<close>, \<open>lifecycle/stats/allocation_interval.rs\<close>
  and \<open>lifecycle/budget.rs\<close>. One accounting block holds the byte totals of every component behind a
  mutex; a reservation is an owned value that charged the block when it was made and releases its
  bytes when it is dropped. The block is passed explicitly and a reservation is a record; the ledger
  at the end of the theory pairs the block with the reservations that are alive, and its steps are the
  operations of the code, interleaved in any order.
\<close>

section \<open>Components, errors and budgets\<close>

datatype allocation_component =
  AcSnapshot | AcActive | AcWal | AcCache | AcTemporary | AcQueryPool | AcNativeGraph

definition component_name :: "allocation_component \<Rightarrow> string" where
  "component_name c =
     (case c of AcSnapshot \<Rightarrow> ''snapshot'' | AcActive \<Rightarrow> ''active segment'' | AcWal \<Rightarrow> ''wal'' | AcCache \<Rightarrow> ''cache''
      | AcTemporary \<Rightarrow> ''temporary'' | AcQueryPool \<Rightarrow> ''query pool'' | AcNativeGraph \<Rightarrow> ''native graph registry'')"

definition is_temporary :: "allocation_component \<Rightarrow> bool" where
  "is_temporary c = (case c of AcTemporary \<Rightarrow> True | _ \<Rightarrow> False)"

datatype memory_error =
    BudgetExceeded (be_needed: u64) (be_budget: u64) (be_component: string)
  | AllocationFailed (af_needed: u64) (af_component: string)
  | MemSynchronization string
  | MemStatistics string string
  | ActiveRowOverflow

record budgets =
  bu_resident :: u64
  bu_temporary :: u64

definition u64_max :: u64 where "u64_max = - 1"

definition budgets_check ::
  "budgets \<Rightarrow> u64 \<Rightarrow> u64 \<Rightarrow> u64 \<Rightarrow> string \<Rightarrow> bool \<Rightarrow> (memory_error, u64 \<times> u64) result" where
  "budgets_check bu resident_now temporary_now n component temporary =
     and_then (ok_or (BudgetExceeded u64_max (bu_resident bu) component) (checked_add_u64 resident_now n))
       (\<lambda>needed_resident.
     and_then (if temporary
               then ok_or (BudgetExceeded u64_max (bu_temporary bu) component) (checked_add_u64 temporary_now n)
               else Ok temporary_now)
       (\<lambda>needed_temporary.
     if temporary \<and> bu_temporary bu < needed_temporary
     then Err (BudgetExceeded needed_temporary (bu_temporary bu) component)
     else if bu_resident bu < needed_resident
     then Err (BudgetExceeded needed_resident (bu_resident bu) component)
     else Ok (needed_resident, needed_temporary)))"

section \<open>The accounting block\<close>

text \<open>What the planner reports of a segment: the branch taken and the reason for a scan.\<close>

datatype segment_branch =
  SbPruned | SbExactAllowList | SbMaskedScan | SbFilteredGraph | SbGraphExactFallback | SbGraph

datatype explicit_scan_tier = EstExact | EstScan

datatype scan_reason =
    BelowGraphThreshold (sr_rows: u32) (sr_min_rows: u32)
  | GraphPending
  | ActiveSegment
  | FullMaterialization
  | WideningCap (sr_ef: nat) (sr_row_count: nat)
  | ExplicitTier explicit_scan_tier

datatype scan_reason_counter =
  CtBelowGraphThreshold | CtGraphPending | CtActiveSegment | CtFullMaterialization | CtWideningCap
  | CtExplicitExact | CtExplicitScan

definition counter_index :: "scan_reason_counter \<Rightarrow> nat" where
  "counter_index k =
     (case k of CtBelowGraphThreshold \<Rightarrow> 0 | CtGraphPending \<Rightarrow> 1 | CtActiveSegment \<Rightarrow> 2 | CtFullMaterialization \<Rightarrow> 3
      | CtWideningCap \<Rightarrow> 4 | CtExplicitExact \<Rightarrow> 5 | CtExplicitScan \<Rightarrow> 6)"

definition SCAN_REASON_COUNTER_COUNT :: nat where "SCAN_REASON_COUNTER_COUNT = 7"

definition reason_counter :: "scan_reason \<Rightarrow> scan_reason_counter" where
  "reason_counter r =
     (case r of BelowGraphThreshold _ _ \<Rightarrow> CtBelowGraphThreshold | GraphPending \<Rightarrow> CtGraphPending
      | ActiveSegment \<Rightarrow> CtActiveSegment | FullMaterialization \<Rightarrow> CtFullMaterialization
      | WideningCap _ _ \<Rightarrow> CtWideningCap
      | ExplicitTier t \<Rightarrow> (case t of EstExact \<Rightarrow> CtExplicitExact | EstScan \<Rightarrow> CtExplicitScan))"

text \<open>The two fields of a segment plan that the statistics read.\<close>

record segment_plan =
  sp_branch :: segment_branch
  sp_scan_reason :: "scan_reason option"

record interval_state =
  iv_owner :: u64
  iv_start :: u64
  iv_peak :: u64

record accounting_state =
  as_resident_owned :: u64
  as_resident_peak :: u64
  as_application :: u64
  as_application_peak :: u64
  as_wal :: u64
  as_cache :: u64
  as_temporary :: u64
  as_snapshot :: u64
  as_active :: u64
  as_query_pool :: u64
  as_native_graph :: u64
  as_mapped :: u64
  as_scans_by_reason :: "u64 list"
  as_graph_segments_served :: u64
  as_interval_owner :: u64
  as_interval :: "interval_state option"

text \<open>
  \<open>ac_poisoned\<close> is the poison flag of the mutex around the state: set when a thread panics while it
  holds the lock, and never cleared.
\<close>

record accounting =
  ac_budgets :: budgets
  ac_ceiling :: u64
  ac_poisoned :: bool
  ac_state :: accounting_state

definition accounting_new :: "u64 \<Rightarrow> u64 \<Rightarrow> accounting" where
  "accounting_new max_resident max_temp =
     \<lparr>ac_budgets = \<lparr>bu_resident = max_resident, bu_temporary = max_temp\<rparr>,
      ac_ceiling = max_resident, ac_poisoned = False,
      ac_state = \<lparr>as_resident_owned = 0, as_resident_peak = 0, as_application = 0, as_application_peak = 0,
        as_wal = 0, as_cache = 0, as_temporary = 0, as_snapshot = 0, as_active = 0, as_query_pool = 0,
        as_native_graph = 0, as_mapped = 0, as_scans_by_reason = replicate SCAN_REASON_COUNTER_COUNT 0,
        as_graph_segments_served = 0, as_interval_owner = 0, as_interval = None\<rparr>\<rparr>"

definition acct_lock :: "string \<Rightarrow> accounting \<Rightarrow> (memory_error, accounting_state) result" where
  "acct_lock component a = (if ac_poisoned a then Err (MemSynchronization component) else Ok (ac_state a))"

definition component_bytes :: "allocation_component \<Rightarrow> accounting_state \<Rightarrow> u64" where
  "component_bytes c st =
     (case c of AcSnapshot \<Rightarrow> as_snapshot st | AcActive \<Rightarrow> as_active st | AcWal \<Rightarrow> as_wal st | AcCache \<Rightarrow> as_cache st
      | AcTemporary \<Rightarrow> as_temporary st | AcQueryPool \<Rightarrow> as_query_pool st | AcNativeGraph \<Rightarrow> as_native_graph st)"

definition update_component ::
  "allocation_component \<Rightarrow> (u64 \<Rightarrow> u64) \<Rightarrow> accounting_state \<Rightarrow> accounting_state" where
  "update_component c f st =
     (case c of
        AcSnapshot \<Rightarrow> st\<lparr>as_snapshot := f (as_snapshot st)\<rparr>
      | AcActive \<Rightarrow> st\<lparr>as_active := f (as_active st)\<rparr>
      | AcWal \<Rightarrow> st\<lparr>as_wal := f (as_wal st)\<rparr>
      | AcCache \<Rightarrow> st\<lparr>as_cache := f (as_cache st)\<rparr>
      | AcTemporary \<Rightarrow> st\<lparr>as_temporary := f (as_temporary st)\<rparr>
      | AcQueryPool \<Rightarrow> st\<lparr>as_query_pool := f (as_query_pool st)\<rparr>
      | AcNativeGraph \<Rightarrow> st\<lparr>as_native_graph := f (as_native_graph st)\<rparr>)"

definition MAX_GRAPH_RESIDENT_BYTES :: u64 where "MAX_GRAPH_RESIDENT_BYTES = 268435456"

definition enable_graph_ceiling :: "accounting \<Rightarrow> (memory_error, accounting) result" where
  "enable_graph_ceiling a =
     and_then (acct_lock ''memory accounting'' a) (\<lambda>st.
     let limit = min (ac_ceiling a) MAX_GRAPH_RESIDENT_BYTES in
     if limit < as_resident_owned st
     then Err (BudgetExceeded (as_resident_owned st) limit ''graph aggregate configuration'')
     else Ok (a\<lparr>ac_ceiling := limit\<rparr>))"

definition check_temporary_capacity :: "accounting \<Rightarrow> nat \<Rightarrow> string \<Rightarrow> (memory_error, unit) result" where
  "check_temporary_capacity a n component =
     and_then (acct_lock ''memory accounting'' a) (\<lambda>st.
     and_then (budgets_check (ac_budgets a) (as_resident_owned st) (as_temporary st) (u64_of_usize n) component True)
       (\<lambda>(resident, _).
     if ac_ceiling a < resident then Err (BudgetExceeded resident (ac_ceiling a) component) else Ok ()))"

definition accounting_add :: "accounting \<Rightarrow> u64 \<Rightarrow> allocation_component \<Rightarrow> (memory_error, accounting) result" where
  "accounting_add a n c =
     and_then (acct_lock ''memory accounting'' a) (\<lambda>st.
     and_then (budgets_check (ac_budgets a) (as_resident_owned st) (as_temporary st) n (component_name c) (is_temporary c))
       (\<lambda>(resident, temporary).
     if ac_ceiling a < resident then Err (BudgetExceeded resident (ac_ceiling a) (component_name c))
     else
       let st1 = st\<lparr>as_resident_owned := resident,
                    as_resident_peak := max (as_resident_peak st) resident,
                    as_interval := map_option (\<lambda>i. i\<lparr>iv_peak := max (iv_peak i) resident\<rparr>) (as_interval st)\<rparr>;
           st2 = update_component c
                   (\<lambda>old. if is_temporary c then temporary else saturating_add_u64 old n) st1
       in Ok (a\<lparr>ac_state := st2\<rparr>)))"

section \<open>Reservations\<close>

record reservation =
  rv_bytes :: u64
  rv_component :: allocation_component

definition accounting_reserve ::
  "accounting \<Rightarrow> u64 \<Rightarrow> allocation_component \<Rightarrow> (memory_error, accounting \<times> reservation) result" where
  "accounting_reserve a n c =
     map_ok (\<lambda>a'. (a', \<lparr>rv_bytes = n, rv_component = c\<rparr>)) (accounting_add a n c)"

text \<open>Growing charges the block first; the bytes of the reservation follow.\<close>

definition reservation_grow ::
  "accounting \<Rightarrow> reservation \<Rightarrow> u64 \<Rightarrow> (memory_error, unit) result \<times> accounting \<times> reservation" where
  "reservation_grow a r additional =
     (case accounting_add a additional (rv_component r) of
        Inl e \<Rightarrow> (Err e, a, r)
      | Inr a' \<Rightarrow>
          (case checked_add_u64 (rv_bytes r) additional of
             None \<Rightarrow> (Err (BudgetExceeded u64_max u64_max (component_name (rv_component r))), a', r)
           | Some n \<Rightarrow> (Ok (), a', r\<lparr>rv_bytes := n\<rparr>)))"

definition release_bytes :: "accounting \<Rightarrow> allocation_component \<Rightarrow> u64 \<Rightarrow> accounting" where
  "release_bytes a c n =
     a\<lparr>ac_state := update_component c (\<lambda>old. saturating_sub_u64 old n)
         ((ac_state a)\<lparr>as_resident_owned := saturating_sub_u64 (as_resident_owned (ac_state a)) n\<rparr>)\<rparr>"

definition reservation_shrink :: "accounting \<Rightarrow> reservation \<Rightarrow> u64 \<Rightarrow> accounting \<times> reservation" where
  "reservation_shrink a r released_bytes =
     (let released = min released_bytes (rv_bytes r) in
      (release_bytes a (rv_component r) released, r\<lparr>rv_bytes := saturating_sub_u64 (rv_bytes r) released\<rparr>))"

definition reservation_drop :: "accounting \<Rightarrow> reservation \<Rightarrow> accounting" where
  "reservation_drop a r = release_bytes a (rv_component r) (rv_bytes r)"

text \<open>A counter over one reservation: its bytes are set to any value.\<close>

definition counter_new :: "accounting \<Rightarrow> allocation_component \<Rightarrow> (memory_error, accounting \<times> reservation) result" where
  "counter_new a c = accounting_reserve a 0 c"

definition counter_set ::
  "accounting \<Rightarrow> reservation \<Rightarrow> nat \<Rightarrow> (memory_error, unit) result \<times> accounting \<times> reservation" where
  "counter_set a r requested =
     (if usize_max < requested
      then (Err (BudgetExceeded u64_max u64_max (component_name (rv_component r))), a, r)
      else
        let n = u64_of_usize requested in
        if rv_bytes r \<le> n then reservation_grow a r (saturating_sub_u64 n (rv_bytes r))
        else (Ok (), reservation_shrink a r (saturating_sub_u64 (rv_bytes r) n)))"

definition counter_release :: "accounting \<Rightarrow> reservation \<Rightarrow> u64 \<Rightarrow> accounting \<times> reservation" where
  "counter_release a r n = reservation_shrink a r n"

section \<open>Mappings and application memory\<close>

definition track_mapping :: "accounting \<Rightarrow> u64 \<Rightarrow> (memory_error, accounting) result" where
  "track_mapping a n =
     and_then (acct_lock ''memory accounting'' a) (\<lambda>st.
     and_then (ok_or (MemStatistics ''mapped bytes'' ''mapped byte count overflow'') (checked_add_u64 (as_mapped st) n))
       (\<lambda>total. Ok (a\<lparr>ac_state := st\<lparr>as_mapped := total\<rparr>\<rparr>)))"

definition mapping_drop :: "accounting \<Rightarrow> u64 \<Rightarrow> accounting" where
  "mapping_drop a n =
     a\<lparr>ac_state := (ac_state a)\<lparr>as_mapped := saturating_sub_u64 (as_mapped (ac_state a)) n\<rparr>\<rparr>"

definition reserve_application :: "accounting \<Rightarrow> u64 \<Rightarrow> (memory_error, accounting) result" where
  "reserve_application a n =
     and_then (acct_lock ''application retention'' a) (\<lambda>st.
     and_then (ok_or (BudgetExceeded u64_max u64_max ''application retention arithmetic'')
         (checked_add_u64 (as_application st) n)) (\<lambda>total.
     Ok (a\<lparr>ac_state := st\<lparr>as_application := total,
              as_application_peak := max (as_application_peak st) total\<rparr>\<rparr>)))"

definition application_drop :: "accounting \<Rightarrow> u64 \<Rightarrow> accounting" where
  "application_drop a n =
     a\<lparr>ac_state := (ac_state a)\<lparr>as_application := saturating_sub_u64 (as_application (ac_state a)) n\<rparr>\<rparr>"

section \<open>Query plan statistics\<close>

text \<open>The counters are copied, counted on, and written back when every plan was counted.\<close>

definition count_plan ::
  "segment_plan \<Rightarrow> u64 list \<times> u64 \<Rightarrow> (memory_error, u64 list \<times> u64) result" where
  "count_plan plan = (\<lambda>(scans, served).
     and_then
       (case sp_scan_reason plan of
          None \<Rightarrow> Ok scans
        | Some reason \<Rightarrow>
            let slot = counter_index (reason_counter reason) in
            if length scans \<le> slot
            then Err (MemStatistics ''scan reason counter'' ''scan reason slot is outside the registry'')
            else
              and_then (ok_or (MemStatistics ''scan reason counter'' ''scan reason counter overflow'')
                  (checked_add_u64 (scans ! slot) 1)) (\<lambda>n. Ok (scans[slot := n])))
       (\<lambda>scans'.
     if sp_branch plan = SbGraph \<or> sp_branch plan = SbFilteredGraph
     then and_then (ok_or (MemStatistics ''graph segment counter'' ''graph segment counter overflow'')
              (checked_add_u64 served 1)) (\<lambda>n. Ok (scans', n))
     else Ok (scans', served)))"

primrec count_plans ::
  "segment_plan list \<Rightarrow> u64 list \<times> u64 \<Rightarrow> (memory_error, u64 list \<times> u64) result" where
  "count_plans [] acc = Ok acc"
| "count_plans (p # ps) acc = and_then (count_plan p acc) (count_plans ps)"

definition record_plans :: "accounting \<Rightarrow> segment_plan list \<Rightarrow> (memory_error, accounting) result" where
  "record_plans a plans =
     and_then (acct_lock ''query plan accounting'' a) (\<lambda>st.
     and_then (count_plans plans (as_scans_by_reason st, as_graph_segments_served st)) (\<lambda>(scans, served).
     Ok (a\<lparr>ac_state := st\<lparr>as_scans_by_reason := scans, as_graph_segments_served := served\<rparr>\<rparr>)))"

section \<open>The audit\<close>

definition component_sum :: "accounting_state \<Rightarrow> u64" where
  "component_sum st =
     saturating_add_u64 (saturating_add_u64 (saturating_add_u64 (saturating_add_u64 (saturating_add_u64
       (saturating_add_u64 (as_wal st) (as_cache st)) (as_temporary st)) (as_snapshot st)) (as_active st))
       (as_query_pool st)) (as_native_graph st)"

text \<open>The conservation check that \<open>stats\<close> performs on the audited totals before it reports them.\<close>

definition stats_conservation :: "accounting \<Rightarrow> (memory_error, accounting_state) result" where
  "stats_conservation a =
     and_then (acct_lock ''memory accounting'' a) (\<lambda>st.
     if as_resident_owned st \<noteq> component_sum st
     then Err (MemStatistics ''resident accounting conservation''
            ''resident-owned total disagrees with component counters'')
     else Ok st)"

section \<open>Allocation intervals\<close>

datatype interval_error = IvBusy | IvSynchronization | IvInactive

record interval_guard =
  ig_owner :: u64
  ig_active :: bool

record interval_snapshot =
  is_start :: u64
  is_current :: u64
  is_peak :: u64

definition begin_allocation_interval :: "accounting \<Rightarrow> (interval_error, accounting \<times> interval_guard) result" where
  "begin_allocation_interval a =
     and_then (map_err (\<lambda>_. IvSynchronization) (acct_lock '''' a)) (\<lambda>st.
     if as_interval st \<noteq> None then Err IvBusy
     else
       let owner = as_interval_owner st + 1; current = as_resident_owned st in
       Ok (a\<lparr>ac_state := st\<lparr>as_interval_owner := owner,
                as_interval := Some \<lparr>iv_owner = owner, iv_start = current, iv_peak = current\<rparr>\<rparr>\<rparr>,
           \<lparr>ig_owner = owner, ig_active = True\<rparr>))"

definition snapshot_for :: "accounting_state \<Rightarrow> u64 \<Rightarrow> (interval_error, interval_snapshot) result" where
  "snapshot_for st owner =
     (case as_interval st of
        None \<Rightarrow> Err IvInactive
      | Some i \<Rightarrow>
          if iv_owner i = owner
          then Ok \<lparr>is_start = iv_start i, is_current = as_resident_owned st, is_peak = iv_peak i\<rparr>
          else Err IvInactive)"

definition interval_snapshot_now :: "accounting \<Rightarrow> interval_guard \<Rightarrow> (interval_error, interval_snapshot) result" where
  "interval_snapshot_now a g =
     and_then (map_err (\<lambda>_. IvSynchronization) (acct_lock '''' a)) (\<lambda>st. snapshot_for st (ig_owner g))"

definition interval_drop :: "accounting \<Rightarrow> interval_guard \<Rightarrow> accounting" where
  "interval_drop a g =
     (if \<not> ig_active g then a
      else case as_interval (ac_state a) of
             None \<Rightarrow> a
           | Some i \<Rightarrow>
               if iv_owner i = ig_owner g then a\<lparr>ac_state := (ac_state a)\<lparr>as_interval := None\<rparr>\<rparr> else a)"

text \<open>
  \<open>finish\<close> consumes the guard: it is dropped as inactive after the slot was released, and as active
  when the snapshot was refused.
\<close>

definition interval_finish ::
  "accounting \<Rightarrow> interval_guard \<Rightarrow> (interval_error, interval_snapshot) result \<times> accounting" where
  "interval_finish a g =
     (case interval_snapshot_now a g of
        Inl e \<Rightarrow> (Err e, interval_drop a g)
      | Inr s \<Rightarrow> (Ok s, interval_drop (a\<lparr>ac_state := (ac_state a)\<lparr>as_interval := None\<rparr>\<rparr>) (g\<lparr>ig_active := False\<rparr>)))"

section \<open>The ledger: the block and everything that is alive\<close>

record ledger =
  lg_accounting :: accounting
  lg_live :: "reservation list"
  lg_mappings :: "u64 list"
  lg_applications :: "u64 list"

definition ledger_new :: "u64 \<Rightarrow> u64 \<Rightarrow> ledger" where
  "ledger_new max_resident max_temp =
     \<lparr>lg_accounting = accounting_new max_resident max_temp, lg_live = [], lg_mappings = [], lg_applications = []\<rparr>"

text \<open>
  One operation on a block shared by any number of owners. The mutex makes each operation atomic, so a
  concurrent run is a sequence of these steps. A refused reservation leaves the block as it was and is
  no step; a refused growth is one, since it may have charged the block.
\<close>

inductive ledger_step :: "ledger \<Rightarrow> ledger \<Rightarrow> bool" where
  ls_reserve: "accounting_reserve a n c = Ok (a', r) \<Longrightarrow>
     ledger_step \<lparr>lg_accounting = a, lg_live = rs, lg_mappings = ms, lg_applications = ps\<rparr>
       \<lparr>lg_accounting = a', lg_live = r # rs, lg_mappings = ms, lg_applications = ps\<rparr>"
| ls_grow: "reservation_grow a r n = (res, a', r') \<Longrightarrow>
     ledger_step \<lparr>lg_accounting = a, lg_live = xs @ r # ys, lg_mappings = ms, lg_applications = ps\<rparr>
       \<lparr>lg_accounting = a', lg_live = xs @ r' # ys, lg_mappings = ms, lg_applications = ps\<rparr>"
| ls_shrink: "reservation_shrink a r n = (a', r') \<Longrightarrow>
     ledger_step \<lparr>lg_accounting = a, lg_live = xs @ r # ys, lg_mappings = ms, lg_applications = ps\<rparr>
       \<lparr>lg_accounting = a', lg_live = xs @ r' # ys, lg_mappings = ms, lg_applications = ps\<rparr>"
| ls_set: "counter_set a r n = (res, a', r') \<Longrightarrow>
     ledger_step \<lparr>lg_accounting = a, lg_live = xs @ r # ys, lg_mappings = ms, lg_applications = ps\<rparr>
       \<lparr>lg_accounting = a', lg_live = xs @ r' # ys, lg_mappings = ms, lg_applications = ps\<rparr>"
| ls_drop:
    "ledger_step \<lparr>lg_accounting = a, lg_live = xs @ r # ys, lg_mappings = ms, lg_applications = ps\<rparr>
       \<lparr>lg_accounting = reservation_drop a r, lg_live = xs @ ys, lg_mappings = ms, lg_applications = ps\<rparr>"
| ls_map: "track_mapping a n = Ok a' \<Longrightarrow>
     ledger_step \<lparr>lg_accounting = a, lg_live = rs, lg_mappings = ms, lg_applications = ps\<rparr>
       \<lparr>lg_accounting = a', lg_live = rs, lg_mappings = n # ms, lg_applications = ps\<rparr>"
| ls_unmap:
    "ledger_step \<lparr>lg_accounting = a, lg_live = rs, lg_mappings = xs @ n # ys, lg_applications = ps\<rparr>
       \<lparr>lg_accounting = mapping_drop a n, lg_live = rs, lg_mappings = xs @ ys, lg_applications = ps\<rparr>"
| ls_application: "reserve_application a n = Ok a' \<Longrightarrow>
     ledger_step \<lparr>lg_accounting = a, lg_live = rs, lg_mappings = ms, lg_applications = ps\<rparr>
       \<lparr>lg_accounting = a', lg_live = rs, lg_mappings = ms, lg_applications = n # ps\<rparr>"
| ls_application_drop:
    "ledger_step \<lparr>lg_accounting = a, lg_live = rs, lg_mappings = ms, lg_applications = xs @ n # ys\<rparr>
       \<lparr>lg_accounting = application_drop a n, lg_live = rs, lg_mappings = ms, lg_applications = xs @ ys\<rparr>"
| ls_ceiling: "enable_graph_ceiling a = Ok a' \<Longrightarrow>
     ledger_step \<lparr>lg_accounting = a, lg_live = rs, lg_mappings = ms, lg_applications = ps\<rparr>
       \<lparr>lg_accounting = a', lg_live = rs, lg_mappings = ms, lg_applications = ps\<rparr>"
| ls_plans: "record_plans a plans = Ok a' \<Longrightarrow>
     ledger_step \<lparr>lg_accounting = a, lg_live = rs, lg_mappings = ms, lg_applications = ps\<rparr>
       \<lparr>lg_accounting = a', lg_live = rs, lg_mappings = ms, lg_applications = ps\<rparr>"
| ls_interval: "begin_allocation_interval a = Ok (a', g) \<Longrightarrow>
     ledger_step \<lparr>lg_accounting = a, lg_live = rs, lg_mappings = ms, lg_applications = ps\<rparr>
       \<lparr>lg_accounting = a', lg_live = rs, lg_mappings = ms, lg_applications = ps\<rparr>"
| ls_interval_drop:
    "ledger_step \<lparr>lg_accounting = a, lg_live = rs, lg_mappings = ms, lg_applications = ps\<rparr>
       \<lparr>lg_accounting = interval_drop a g, lg_live = rs, lg_mappings = ms, lg_applications = ps\<rparr>"
| ls_interval_finish: "interval_finish a g = (res, a') \<Longrightarrow>
     ledger_step \<lparr>lg_accounting = a, lg_live = rs, lg_mappings = ms, lg_applications = ps\<rparr>
       \<lparr>lg_accounting = a', lg_live = rs, lg_mappings = ms, lg_applications = ps\<rparr>"
| ls_poison:
    "ledger_step \<lparr>lg_accounting = a, lg_live = rs, lg_mappings = ms, lg_applications = ps\<rparr>
       \<lparr>lg_accounting = a\<lparr>ac_poisoned := True\<rparr>, lg_live = rs, lg_mappings = ms, lg_applications = ps\<rparr>"

inductive ledger_reachable :: "u64 \<Rightarrow> u64 \<Rightarrow> ledger \<Rightarrow> bool" for max_resident max_temp where
  lr_new: "ledger_reachable max_resident max_temp (ledger_new max_resident max_temp)"
| lr_step: "ledger_reachable max_resident max_temp l \<Longrightarrow> ledger_step l l' \<Longrightarrow> ledger_reachable max_resident max_temp l'"

end
