(* ===== verification/Accounting_Inv.thy ===== *)
theory Accounting_Inv
  imports Accounting
begin

text \<open>
  Conservation: in every reachable ledger the totals of the block are the sums over what is alive, the
  budgets and the graph ceiling hold, and the peaks bound the current totals. No saturating operation
  of the code ever saturates.
\<close>

section \<open>Saturating and checked arithmetic as natural numbers\<close>

lemma unat_saturating_add_u64: "unat (saturating_add_u64 a b) = min (unat a + unat b) usize_max"
proof -
  have "unat (- 1 :: u64) = usize_max" by (simp add: usize_max_def unsigned_minus_1_eq_mask mask_eq_exp_minus_1)
  then show ?thesis by (simp add: saturating_add_u64_def unat_word_ariths usize_max_def)
qed

lemma unat_saturating_sub_u64: "unat (saturating_sub_u64 a b) = unat a - unat b"
  by (simp add: saturating_sub_u64_def unat_sub word_le_nat_alt)

lemma unat_max_word: "unat (max a b :: u64) = max (unat a) (unat b)"
  by (simp add: max_def word_le_nat_alt)

lemma unat_min_word: "unat (min a b :: u64) = min (unat a) (unat b)"
  by (simp add: min_def word_le_nat_alt)

lemmas u64_nat = unat_saturating_add_u64 unat_saturating_sub_u64 unat_max_word unat_min_word

section \<open>The slots of the block\<close>

lemma component_update [simp]:
  "component_bytes d (update_component c f st) = (if d = c then f (component_bytes c st) else component_bytes d st)"
  by (cases c; cases d) (simp_all add: component_bytes_def update_component_def)

lemma update_component_frame [simp]:
  "as_resident_owned (update_component c f st) = as_resident_owned st"
  "as_resident_peak (update_component c f st) = as_resident_peak st"
  "as_application (update_component c f st) = as_application st"
  "as_application_peak (update_component c f st) = as_application_peak st"
  "as_mapped (update_component c f st) = as_mapped st"
  "as_interval (update_component c f st) = as_interval st"
  "as_scans_by_reason (update_component c f st) = as_scans_by_reason st"
  by (cases c; simp add: update_component_def)+

lemma component_bytes_frame [simp]:
  "component_bytes c (st\<lparr>as_resident_owned := x\<rparr>) = component_bytes c st"
  "component_bytes c (st\<lparr>as_resident_peak := x\<rparr>) = component_bytes c st"
  "component_bytes c (st\<lparr>as_application := x\<rparr>) = component_bytes c st"
  "component_bytes c (st\<lparr>as_application_peak := x\<rparr>) = component_bytes c st"
  "component_bytes c (st\<lparr>as_mapped := x\<rparr>) = component_bytes c st"
  "component_bytes c (st\<lparr>as_interval := v\<rparr>) = component_bytes c st"
  "component_bytes c (st\<lparr>as_interval_owner := x\<rparr>) = component_bytes c st"
  "component_bytes c (st\<lparr>as_scans_by_reason := xs\<rparr>) = component_bytes c st"
  "component_bytes c (st\<lparr>as_graph_segments_served := x\<rparr>) = component_bytes c st"
  by (cases c; simp add: component_bytes_def)+

section \<open>What is held\<close>

definition held :: "allocation_component \<Rightarrow> reservation list \<Rightarrow> nat" where
  "held c rs = (\<Sum>r\<leftarrow>rs. if rv_component r = c then unat (rv_bytes r) else 0)"

definition held_total :: "reservation list \<Rightarrow> nat" where
  "held_total rs = (\<Sum>r\<leftarrow>rs. unat (rv_bytes r))"

lemma held_simps [simp]:
  "held c [] = 0"
  "held c (r # rs) = (if rv_component r = c then unat (rv_bytes r) else 0) + held c rs"
  "held c (xs @ ys) = held c xs + held c ys"
  by (simp_all add: held_def)

lemma held_total_simps [simp]:
  "held_total [] = 0"
  "held_total (r # rs) = unat (rv_bytes r) + held_total rs"
  "held_total (xs @ ys) = held_total xs + held_total ys"
  by (simp_all add: held_total_def)

lemma held_le_total: "held c rs \<le> held_total rs"
  by (induction rs) auto

lemma held_total_components:
  "held_total rs = held AcWal rs + held AcCache rs + held AcTemporary rs + held AcSnapshot rs
     + held AcActive rs + held AcQueryPool rs + held AcNativeGraph rs"
proof (induction rs)
  case (Cons r rs)
  then show ?case by (cases "rv_component r") auto
qed simp

section \<open>The invariant\<close>

definition totals_exact :: "accounting_state \<Rightarrow> reservation list \<Rightarrow> bool" where
  "totals_exact st rs \<longleftrightarrow>
     unat (as_resident_owned st) = held_total rs \<and> (\<forall>c. unat (component_bytes c st) = held c rs)"

definition peaks_bound :: "accounting_state \<Rightarrow> bool" where
  "peaks_bound st \<longleftrightarrow>
     as_resident_owned st \<le> as_resident_peak st \<and> as_application st \<le> as_application_peak st \<and>
     (case as_interval st of None \<Rightarrow> True
      | Some i \<Rightarrow> as_resident_owned st \<le> iv_peak i \<and> iv_start i \<le> iv_peak i \<and> iv_peak i \<le> as_resident_peak st)"

definition limits_hold :: "accounting \<Rightarrow> bool" where
  "limits_hold a \<longleftrightarrow>
     as_resident_owned (ac_state a) \<le> ac_ceiling a \<and> ac_ceiling a \<le> bu_resident (ac_budgets a) \<and>
     as_temporary (ac_state a) \<le> bu_temporary (ac_budgets a)"

definition ledger_inv :: "ledger \<Rightarrow> bool" where
  "ledger_inv l \<longleftrightarrow>
     (let a = lg_accounting l; st = ac_state a in
      totals_exact st (lg_live l) \<and> peaks_bound st \<and> limits_hold a \<and>
      unat (as_mapped st) = (\<Sum>n\<leftarrow>lg_mappings l. unat n) \<and>
      unat (as_application st) = (\<Sum>n\<leftarrow>lg_applications l. unat n) \<and>
      length (as_scans_by_reason st) = SCAN_REASON_COUNTER_COUNT)"

lemma temporary_component: "as_temporary st = component_bytes AcTemporary st"
  by (simp add: component_bytes_def)

lemma is_temporary_iff: "is_temporary c \<longleftrightarrow> c = AcTemporary"
  by (cases c) (simp_all add: is_temporary_def)

lemma acct_lock_Ok: "acct_lock s a = Ok st \<longleftrightarrow> \<not> ac_poisoned a \<and> st = ac_state a"
  by (auto simp: acct_lock_def)

lemma budgets_check_Ok:
  "budgets_check bu r t n s temp = Ok (r', t') \<longleftrightarrow>
     checked_add_u64 r n = Some r' \<and> (if temp then checked_add_u64 t n = Some t' else t' = t) \<and>
     (temp \<longrightarrow> t' \<le> bu_temporary bu) \<and> r' \<le> bu_resident bu"
  by (cases "checked_add_u64 r n"; cases "checked_add_u64 t n"; cases temp) (auto simp: budgets_check_def not_less)

text \<open>The state after a charge, field by field.\<close>

lemma accounting_add_Ok:
  assumes "accounting_add a n c = Ok a'" "totals_exact (ac_state a) rs"
  shows "unat (as_resident_owned (ac_state a')) = held_total rs + unat n"
    "unat (component_bytes d (ac_state a')) = held d rs + (if d = c then unat n else 0)"
    "as_resident_owned (ac_state a') \<le> ac_ceiling a"
    "c = AcTemporary \<Longrightarrow> as_temporary (ac_state a') \<le> bu_temporary (ac_budgets a)"
    "as_resident_peak (ac_state a') = max (as_resident_peak (ac_state a)) (as_resident_owned (ac_state a'))"
    "as_interval (ac_state a') = map_option (\<lambda>i. i\<lparr>iv_peak := max (iv_peak i) (as_resident_owned (ac_state a'))\<rparr>)
       (as_interval (ac_state a))"
    "as_application (ac_state a') = as_application (ac_state a)"
    "as_application_peak (ac_state a') = as_application_peak (ac_state a)"
    "as_mapped (ac_state a') = as_mapped (ac_state a)"
    "as_scans_by_reason (ac_state a') = as_scans_by_reason (ac_state a)"
    "ac_ceiling a' = ac_ceiling a" "ac_budgets a' = ac_budgets a"
proof -
  let ?st = "ac_state a"
  obtain res temp where check: "budgets_check (ac_budgets a) (as_resident_owned ?st) (as_temporary ?st) n
        (component_name c) (is_temporary c) = Ok (res, temp)" and ceiling: "res \<le> ac_ceiling a"
    and a': "a' = a\<lparr>ac_state := update_component c
        (\<lambda>old. if is_temporary c then temp else saturating_add_u64 old n)
        (?st\<lparr>as_resident_owned := res, as_resident_peak := max (as_resident_peak ?st) res,
             as_interval := map_option (\<lambda>i. i\<lparr>iv_peak := max (iv_peak i) res\<rparr>) (as_interval ?st)\<rparr>)\<rparr>"
    using assms(1) by (auto simp: accounting_add_def result_Inr acct_lock_Ok Let_def split: if_splits prod.splits)
  have res: "unat res = held_total rs + unat n"
    using check assms(2) checked_add_u64_Some [of "as_resident_owned ?st" n res]
    by (auto simp: budgets_check_Ok totals_exact_def)
  then have fits: "held_total rs + unat n \<le> usize_max" by (metis unat_u64_le)
  have slot: "unat (component_bytes d ?st) = held d rs" for d
    using assms(2) by (simp add: totals_exact_def)
  have no_saturation: "unat (saturating_add_u64 (component_bytes c ?st) n) = held c rs + unat n"
    using fits held_le_total [of c rs] by (simp add: unat_saturating_add_u64 slot)
  have temp: "c = AcTemporary \<Longrightarrow> unat temp = held c rs + unat n"
    using check checked_add_u64_Some [of "as_temporary ?st" n temp] slot [of AcTemporary]
    by (auto simp: budgets_check_Ok is_temporary_iff component_bytes_def)
  show "unat (as_resident_owned (ac_state a')) = held_total rs + unat n" by (simp add: a' res)
  show "unat (component_bytes d (ac_state a')) = held d rs + (if d = c then unat n else 0)"
    by (simp add: a' slot no_saturation temp is_temporary_iff)
  show "as_resident_owned (ac_state a') \<le> ac_ceiling a" by (simp add: a' ceiling)
  show "as_temporary (ac_state a') \<le> bu_temporary (ac_budgets a)" if "c = AcTemporary"
    using check by (simp add: that a' temporary_component budgets_check_Ok is_temporary_iff)
qed (use assms(1) in \<open>auto simp: accounting_add_def result_Inr acct_lock_Ok Let_def split: if_splits prod.splits\<close>)

lemma peaks_bound_add:
  assumes "accounting_add a n c = Ok a'" "totals_exact (ac_state a) rs" "peaks_bound (ac_state a)"
  shows "peaks_bound (ac_state a')"
  using assms(3) accounting_add_Ok(5-8) [OF assms(1,2)]
  by (auto simp: peaks_bound_def le_max_iff_disj split: option.splits)

lemma limits_hold_add:
  assumes "accounting_add a n c = Ok a'" "totals_exact (ac_state a) rs" "limits_hold a"
  shows "limits_hold a'"
proof -
  have "as_temporary (ac_state a') = as_temporary (ac_state a)" if "c \<noteq> AcTemporary"
    using accounting_add_Ok(2) [OF assms(1,2), of AcTemporary] assms(2) that
    by (simp add: temporary_component totals_exact_def word_unat_eq_iff)
  then show ?thesis
    using assms(3) accounting_add_Ok(3,4,11,12) [OF assms(1,2)] by (cases "c = AcTemporary") (auto simp: limits_hold_def)
qed

text \<open>A charge of \<open>n\<close> bytes that some reservation of the component now holds.\<close>

lemma ledger_inv_charge:
  assumes "ledger_inv \<lparr>lg_accounting = a, lg_live = rs, lg_mappings = ms, lg_applications = ps\<rparr>"
    and "accounting_add a n c = Ok a'"
    and "held_total rs' = held_total rs + unat n" "\<And>d. held d rs' = held d rs + (if d = c then unat n else 0)"
  shows "ledger_inv \<lparr>lg_accounting = a', lg_live = rs', lg_mappings = ms, lg_applications = ps\<rparr>"
proof -
  have exact: "totals_exact (ac_state a) rs" using assms(1) by (simp add: ledger_inv_def Let_def)
  note after = accounting_add_Ok [OF assms(2) exact]
  have "totals_exact (ac_state a') rs'" using after(1,2) assms(3,4) by (simp add: totals_exact_def)
  then show ?thesis
    using assms(1) peaks_bound_add [OF assms(2) exact] limits_hold_add [OF assms(2) exact] after(7,9,10)
    by (simp add: ledger_inv_def Let_def)
qed

section \<open>Releases\<close>

lemma ledger_inv_release:
  assumes inv: "ledger_inv \<lparr>lg_accounting = a, lg_live = rs, lg_mappings = ms, lg_applications = ps\<rparr>"
    and total: "held_total rs = held_total rs' + unat n"
    and slot: "\<And>d. held d rs = held d rs' + (if d = c then unat n else 0)"
  shows "ledger_inv \<lparr>lg_accounting = release_bytes a c n, lg_live = rs', lg_mappings = ms, lg_applications = ps\<rparr>"
proof -
  have res: "unat (as_resident_owned (ac_state a)) = held_total rs"
    and comp: "\<And>d. unat (component_bytes d (ac_state a)) = held d rs"
    using inv by (simp_all add: ledger_inv_def Let_def totals_exact_def)
  have less: "as_resident_owned (ac_state (release_bytes a c n)) \<le> as_resident_owned (ac_state a)"
    "as_temporary (ac_state (release_bytes a c n)) \<le> as_temporary (ac_state a)"
    by (simp_all add: release_bytes_def temporary_component word_le_nat_alt unat_saturating_sub_u64)
  have "totals_exact (ac_state (release_bytes a c n)) rs'"
    by (simp add: totals_exact_def release_bytes_def unat_saturating_sub_u64 res total comp slot)
  moreover have "peaks_bound (ac_state (release_bytes a c n))"
    using inv order_trans [OF less(1)]
    by (simp add: ledger_inv_def Let_def peaks_bound_def release_bytes_def split: option.splits)
  moreover have "limits_hold (release_bytes a c n)"
    using inv order_trans [OF less(1)] order_trans [OF less(2)]
    by (simp add: ledger_inv_def Let_def limits_hold_def release_bytes_def)
  ultimately show ?thesis using inv by (simp add: ledger_inv_def Let_def release_bytes_def)
qed

text \<open>
  The overflow branch of a growth is dead: what the reservation holds is part of the resident total,
  which the charge has just shown to fit.
\<close>

lemma grow_exact:
  assumes "totals_exact (ac_state a) (xs @ r # ys)" "accounting_add a n (rv_component r) = Ok a'"
  shows "reservation_grow a r n = (Ok (), a', r\<lparr>rv_bytes := rv_bytes r + n\<rparr>)"
    "unat (rv_bytes r + n) = unat (rv_bytes r) + unat n"
proof -
  have "unat (as_resident_owned (ac_state a')) = held_total (xs @ r # ys) + unat n"
    using accounting_add_Ok(1) [OF assms(2,1)] .
  then have fits: "unat (rv_bytes r) + unat n \<le> usize_max"
    using unat_u64_le [of "as_resident_owned (ac_state a')"] by simp
  then have add: "checked_add_u64 (rv_bytes r) n = Some (rv_bytes r + n)" by (simp add: checked_add_u64_def)
  then show "unat (rv_bytes r + n) = unat (rv_bytes r) + unat n" using checked_add_u64_Some by blast
  show "reservation_grow a r n = (Ok (), a', r\<lparr>rv_bytes := rv_bytes r + n\<rparr>)"
    using add by (simp add: reservation_grow_def assms(2))
qed

lemma ledger_inv_grow:
  assumes "ledger_inv \<lparr>lg_accounting = a, lg_live = xs @ r # ys, lg_mappings = ms, lg_applications = ps\<rparr>"
    and "reservation_grow a r n = (res, a', r')"
  shows "ledger_inv \<lparr>lg_accounting = a', lg_live = xs @ r' # ys, lg_mappings = ms, lg_applications = ps\<rparr>"
proof (cases "accounting_add a n (rv_component r)")
  case (Inl e)
  then show ?thesis using assms by (simp add: reservation_grow_def)
next
  case (Inr b)
  have "totals_exact (ac_state a) (xs @ r # ys)" using assms(1) by (simp add: ledger_inv_def Let_def)
  note g = grow_exact [OF this Inr]
  then have eq: "a' = b" "r' = r\<lparr>rv_bytes := rv_bytes r + n\<rparr>" using assms(2) by simp_all
  show ?thesis unfolding eq by (rule ledger_inv_charge [OF assms(1) Inr]) (simp_all add: g(2))
qed

lemma ledger_inv_shrink:
  assumes "ledger_inv \<lparr>lg_accounting = a, lg_live = xs @ r # ys, lg_mappings = ms, lg_applications = ps\<rparr>"
    and "reservation_shrink a r n = (a', r')"
  shows "ledger_inv \<lparr>lg_accounting = a', lg_live = xs @ r' # ys, lg_mappings = ms, lg_applications = ps\<rparr>"
  using assms(2)
  by (auto simp: reservation_shrink_def Let_def u64_nat intro!: ledger_inv_release [OF assms(1)])

lemma ledger_inv_set:
  assumes "ledger_inv \<lparr>lg_accounting = a, lg_live = xs @ r # ys, lg_mappings = ms, lg_applications = ps\<rparr>"
    and "counter_set a r n = (res, a', r')"
  shows "ledger_inv \<lparr>lg_accounting = a', lg_live = xs @ r' # ys, lg_mappings = ms, lg_applications = ps\<rparr>"
  using assms(2) ledger_inv_grow [OF assms(1)] ledger_inv_shrink [OF assms(1)] assms(1)
  by (auto simp: counter_set_def Let_def split: if_splits)

section \<open>Statistics and intervals\<close>

lemma count_plan_length: "count_plan p acc = Ok acc' \<Longrightarrow> length (fst acc') = length (fst acc)"
  by (auto simp: count_plan_def result_Inr Let_def split: if_splits option.splits prod.splits)

lemma count_plans_length: "count_plans ps acc = Ok acc' \<Longrightarrow> length (fst acc') = length (fst acc)"
  by (induction ps arbitrary: acc) (auto simp: result_Inr dest!: count_plan_length)

lemma ledger_inv_interval_None:
  "ledger_inv \<lparr>lg_accounting = a, lg_live = rs, lg_mappings = ms, lg_applications = ps\<rparr> \<Longrightarrow>
   ledger_inv \<lparr>lg_accounting = a\<lparr>ac_state := (ac_state a)\<lparr>as_interval := None\<rparr>\<rparr>, lg_live = rs,
     lg_mappings = ms, lg_applications = ps\<rparr>"
  by (simp add: ledger_inv_def Let_def totals_exact_def peaks_bound_def limits_hold_def split: option.splits)

lemma ledger_inv_interval_drop:
  "ledger_inv \<lparr>lg_accounting = a, lg_live = rs, lg_mappings = ms, lg_applications = ps\<rparr> \<Longrightarrow>
   ledger_inv \<lparr>lg_accounting = interval_drop a g, lg_live = rs, lg_mappings = ms, lg_applications = ps\<rparr>"
  by (auto simp: interval_drop_def ledger_inv_interval_None split: option.splits)

section \<open>Every step keeps the invariant\<close>

lemma ledger_inv_new: "ledger_inv (ledger_new max_resident max_temp)"
proof -
  have "component_bytes c (ac_state (accounting_new max_resident max_temp)) = 0" for c
    by (cases c) (simp_all add: component_bytes_def accounting_new_def)
  then show ?thesis
    by (simp add: ledger_inv_def ledger_new_def Let_def totals_exact_def peaks_bound_def limits_hold_def)
      (simp add: accounting_new_def)
qed

lemma ledger_inv_step: "ledger_step l l' \<Longrightarrow> ledger_inv l \<Longrightarrow> ledger_inv l'"
proof (induction rule: ledger_step.induct)
  case (ls_reserve a n c a' r rs ms ps)
  then have add: "accounting_add a n c = Ok a'" and r: "r = \<lparr>rv_bytes = n, rv_component = c\<rparr>"
    by (auto simp: accounting_reserve_def map_ok_eq_Inr)
  show ?case by (rule ledger_inv_charge [OF ls_reserve(2) add]) (simp_all add: r)
next
  case (ls_drop a xs r ys ms ps)
  then show ?case unfolding reservation_drop_def by (rule ledger_inv_release) simp_all
next
  case (ls_map a n a' rs ms ps)
  then show ?case
    by (auto simp: track_mapping_def result_Inr acct_lock_Ok ledger_inv_def Let_def totals_exact_def
        peaks_bound_def limits_hold_def dest!: checked_add_u64_Some split: option.splits)
next
  case (ls_unmap a rs xs n ys ps)
  then show ?case
    by (auto simp: mapping_drop_def ledger_inv_def Let_def totals_exact_def peaks_bound_def limits_hold_def
        unat_saturating_sub_u64 split: option.splits)
next
  case (ls_application a n a' rs ms ps)
  then show ?case
    by (auto simp: reserve_application_def result_Inr acct_lock_Ok ledger_inv_def Let_def totals_exact_def
        peaks_bound_def limits_hold_def dest!: checked_add_u64_Some split: option.splits)
next
  case (ls_application_drop a rs ms xs n ys)
  then show ?case
    by (auto simp: application_drop_def ledger_inv_def Let_def totals_exact_def peaks_bound_def limits_hold_def
        unat_saturating_sub_u64 word_le_nat_alt split: option.splits)
next
  case (ls_ceiling a a' rs ms ps)
  then show ?case
    by (auto simp: enable_graph_ceiling_def result_Inr acct_lock_Ok Let_def ledger_inv_def totals_exact_def
        peaks_bound_def limits_hold_def not_less min_le_iff_disj split: if_splits option.splits)
next
  case (ls_plans a plans a' rs ms ps)
  then show ?case
    by (auto simp: record_plans_def result_Inr acct_lock_Ok ledger_inv_def Let_def totals_exact_def
        peaks_bound_def limits_hold_def dest!: count_plans_length split: option.splits)
next
  case (ls_interval a a' g rs ms ps)
  then show ?case
    by (auto simp: begin_allocation_interval_def result_Inr acct_lock_Ok ledger_inv_def Let_def totals_exact_def
        peaks_bound_def limits_hold_def split: if_splits)
next
  case (ls_interval_finish a g res a' rs ms ps)
  then show ?case
    by (auto simp: interval_finish_def split: sum.splits
        intro!: ledger_inv_interval_drop ledger_inv_interval_None)
next
  case (ls_poison a rs ms ps)
  then show ?case by (simp add: ledger_inv_def Let_def limits_hold_def)
qed (auto intro: ledger_inv_grow ledger_inv_shrink ledger_inv_set ledger_inv_interval_drop)

lemma ledger_reachable_inv: "ledger_reachable max_resident max_temp l \<Longrightarrow> ledger_inv l"
  by (induction rule: ledger_reachable.induct) (auto intro: ledger_inv_new ledger_inv_step)

lemma component_sum_exact:
  assumes "totals_exact st rs" shows "component_sum st = as_resident_owned st"
proof -
  have slot: "unat (component_bytes c st) = held c rs" for c using assms by (simp add: totals_exact_def)
  have total: "held_total rs \<le> usize_max" using assms unat_u64_le by (metis totals_exact_def)
  have "unat (component_sum st) = held_total rs"
    using total slot [of AcWal] slot [of AcCache] slot [of AcTemporary] slot [of AcSnapshot] slot [of AcActive]
      slot [of AcQueryPool] slot [of AcNativeGraph]
    by (simp add: component_sum_def component_bytes_def unat_saturating_add_u64 held_total_components)
  then show ?thesis using assms by (simp add: totals_exact_def word_unat_eq_iff)
qed

end
