(* ===== verification/Accounted_Vec.thy ===== *)
theory Accounted_Vec
  imports Accounting_Inv
begin

text \<open>
  \<open>Accounted<Vec<T>>\<close> of \<open>lifecycle/stats.rs\<close>: a vector whose buffer is charged before it is allocated.
  The vector's operations are steps of the ledger, and its elements never outgrow the reservation.
\<close>

section \<open>The standard vector\<close>

text \<open>
  The allocator is a parameter: \<open>grant n\<close> is the capacity it provides for \<open>n\<close> elements, or \<open>None\<close> when the
  allocation fails. \<open>try_reserve_exact\<close> asks it only when the spare capacity is too small.
\<close>

type_synonym allocator = "nat \<Rightarrow> nat option"

definition grants :: "allocator \<Rightarrow> bool" where
  "grants grant \<longleftrightarrow> (\<forall>n k. grant n = Some k \<longrightarrow> n \<le> k)"

definition vec_reserve_exact :: "allocator \<Rightarrow> nat \<Rightarrow> nat \<Rightarrow> nat \<Rightarrow> nat option" where
  "vec_reserve_exact grant len capacity additional =
     (if additional \<le> capacity - len then Some capacity
      else if usize_max < len + additional then None
      else grant (len + additional))"

text \<open>\<open>copy_within\<close> and \<open>copy_from_slice\<close>; \<open>None\<close> is the panic on a range outside the slice.\<close>

definition copy_within :: "nat \<Rightarrow> nat \<Rightarrow> nat \<Rightarrow> 'a list \<Rightarrow> 'a list option" where
  "copy_within s e dest xs =
     (if s \<le> e \<and> e \<le> length xs \<and> dest \<le> length xs - (e - s)
      then Some (take dest xs @ take (e - s) (drop s xs) @ drop (dest + (e - s)) xs) else None)"

definition copy_from_slice :: "nat \<Rightarrow> nat \<Rightarrow> 'a list \<Rightarrow> 'a list \<Rightarrow> 'a list option" where
  "copy_from_slice s e src xs =
     (if length src = e - s then Some (take s xs @ src @ drop e xs) else None)"

section \<open>Accounted vectors\<close>

record 'a accounted =
  av_value :: "'a list"
  av_capacity :: nat
  av_reservation :: "reservation option"
  av_limit :: "nat option"

definition unaccounted_empty :: "'a accounted" where
  "unaccounted_empty = \<lparr>av_value = [], av_capacity = 0, av_reservation = None, av_limit = None\<rparr>"

definition capacity_bytes :: "nat \<Rightarrow> nat \<Rightarrow> allocation_component \<Rightarrow> (memory_error, u64) result" where
  "capacity_bytes sz capacity c =
     map_ok u64_of_usize
       (ok_or (BudgetExceeded u64_max u64_max (component_name c)) (checked_mul_usize capacity sz))"

definition try_with_capacity ::
  "allocator \<Rightarrow> nat \<Rightarrow> accounting \<Rightarrow> nat \<Rightarrow> allocation_component \<Rightarrow> (memory_error, 'a accounted) result \<times> accounting" where
  "try_with_capacity grant sz a capacity c =
     (case and_then (capacity_bytes sz capacity c) (\<lambda>n. accounting_reserve a n c) of
        Inl e \<Rightarrow> (Err e, a)
      | Inr (a1, r) \<Rightarrow>
          (case vec_reserve_exact grant 0 0 capacity of
             None \<Rightarrow> (Err (AllocationFailed (rv_bytes r) (component_name c)), reservation_drop a1 r)
           | Some k \<Rightarrow>
               (Ok \<lparr>av_value = [], av_capacity = k, av_reservation = Some r, av_limit = Some capacity\<rparr>, a1)))"

definition try_from_vec ::
  "nat \<Rightarrow> accounting \<Rightarrow> 'a list \<Rightarrow> nat \<Rightarrow> allocation_component \<Rightarrow> (memory_error, accounting \<times> 'a accounted) result" where
  "try_from_vec sz a xs capacity c =
     and_then (capacity_bytes sz capacity c) (\<lambda>n.
     map_ok (\<lambda>(a1, r). (a1, \<lparr>av_value = xs, av_capacity = capacity, av_reservation = Some r, av_limit = Some capacity\<rparr>))
       (accounting_reserve a n c))"

definition resident_bytes :: "'a accounted \<Rightarrow> u64" where
  "resident_bytes v = (case av_reservation v of None \<Rightarrow> 0 | Some r \<Rightarrow> rv_bytes r)"

text \<open>Dropping a vector drops its reservation.\<close>

definition accounted_drop :: "accounting \<Rightarrow> 'a accounted \<Rightarrow> accounting" where
  "accounted_drop a v = (case av_reservation v of None \<Rightarrow> a | Some r \<Rightarrow> reservation_drop a r)"

text \<open>Growing makes a replacement first, so both buffers are charged until the old one is dropped.\<close>

definition try_reserve_total ::
  "allocator \<Rightarrow> nat \<Rightarrow> accounting \<Rightarrow> 'a accounted \<Rightarrow> nat \<Rightarrow> allocation_component
   \<Rightarrow> (memory_error, unit) result \<times> accounting \<times> 'a accounted" where
  "try_reserve_total grant sz a v capacity c =
     (if capacity \<le> (case av_limit v of None \<Rightarrow> 0 | Some n \<Rightarrow> n) then (Ok (), a, v)
      else
        case try_with_capacity grant sz a capacity c :: (memory_error, 'a accounted) result \<times> accounting of
          (Inl e, a1) \<Rightarrow> (Err e, a1, v)
        | (Inr new, a1) \<Rightarrow>
            if capacity < length (av_value v)
            then (Err (AllocationFailed (u64_of_usize (length (av_value v))) ''accounted vector capacity''),
                  accounted_drop a1 new, v)
            else (Ok (), accounted_drop a1 v, new\<lparr>av_value := av_value v\<rparr>))"

definition accounted_push :: "'a accounted \<Rightarrow> 'a \<Rightarrow> (memory_error, 'a accounted) result" where
  "accounted_push v x =
     (let len = length (av_value v); elements = (case av_limit v of None \<Rightarrow> usize_max | Some n \<Rightarrow> n) in
      if elements \<le> len \<or> len = av_capacity v
      then Err (AllocationFailed (u64_of_usize (saturating_add_usize len 1)) ''accounted vector capacity'')
      else Ok (v\<lparr>av_value := av_value v @ [x]\<rparr>))"

definition extend_from_slice :: "'a accounted \<Rightarrow> 'a list \<Rightarrow> (memory_error, 'a accounted) result" where
  "extend_from_slice v xs =
     and_then (ok_or (AllocationFailed u64_max ''accounted vector capacity'')
         (checked_add_usize (length (av_value v)) (length xs))) (\<lambda>new_len.
     let elements = (case av_limit v of None \<Rightarrow> usize_max | Some n \<Rightarrow> n) in
     if elements < new_len \<or> av_capacity v < new_len
     then Err (AllocationFailed (u64_of_usize new_len) ''accounted vector capacity'')
     else Ok (v\<lparr>av_value := av_value v @ xs\<rparr>))"

text \<open>
  \<open>replace_range\<close> grows with default elements, moves the tail, copies the replacement over the gap and
  truncates; \<open>None\<close> is a panic of one of the slice operations.
\<close>

definition replace_range ::
  "'a \<Rightarrow> 'a accounted \<Rightarrow> nat \<Rightarrow> nat \<Rightarrow> 'a list \<Rightarrow> (memory_error, 'a accounted) result option" where
  "replace_range dflt v s e replacement =
     (let xs = av_value v; old_len = length xs in
      if e < s \<or> old_len < e then Some (Err ActiveRowOverflow)
      else
        case Option.bind (checked_sub_usize old_len (e - s)) (\<lambda>n. checked_add_usize n (length replacement)) of
          None \<Rightarrow> Some (Err ActiveRowOverflow)
        | Some new_len \<Rightarrow>
            let elements = (case av_limit v of None \<Rightarrow> usize_max | Some n \<Rightarrow> n) in
            if elements < new_len \<or> av_capacity v < new_len
            then Some (Err (AllocationFailed (u64_of_usize new_len) ''accounted vector capacity''))
            else
              let grown = (if old_len < new_len then xs @ replicate (new_len - old_len) dflt else xs) in
              case checked_add_usize s (length replacement) of
                None \<Rightarrow> Some (Err ActiveRowOverflow)
              | Some replacement_end \<Rightarrow>
                  Option.bind (copy_within e old_len replacement_end grown) (\<lambda>moved.
                  if length moved < replacement_end then Some (Err ActiveRowOverflow)
                  else Option.bind (copy_from_slice s replacement_end replacement moved) (\<lambda>filled.
                    Some (Ok (v\<lparr>av_value := take new_len filled\<rparr>)))))"

definition accounted_clear :: "'a accounted \<Rightarrow> 'a accounted" where
  "accounted_clear v = v\<lparr>av_value := []\<rparr>"

definition accounted_dedup :: "'a accounted \<Rightarrow> 'a accounted" where
  "accounted_dedup v = v\<lparr>av_value := remdups_adj (av_value v)\<rparr>"

definition reserve_additional_bytes ::
  "accounting \<Rightarrow> 'a accounted \<Rightarrow> u64 \<Rightarrow> (memory_error, unit) result \<times> accounting \<times> 'a accounted" where
  "reserve_additional_bytes a v additional =
     (case av_reservation v of
        Some r \<Rightarrow> (case reservation_grow a r additional of (res, a1, r1) \<Rightarrow> (res, a1, v\<lparr>av_reservation := Some r1\<rparr>))
      | None \<Rightarrow>
          if additional = 0 then (Ok (), a, v)
          else (Err (AllocationFailed additional ''unaccounted vector''), a, v))"

section \<open>The operations as steps\<close>

inductive vec_step :: "allocator \<Rightarrow> nat \<Rightarrow> accounting \<times> 'a accounted \<Rightarrow> accounting \<times> 'a accounted \<Rightarrow> bool"
  for grant sz where
  vs_reserve: "try_reserve_total grant sz a v capacity c = (res, a', v') \<Longrightarrow> vec_step grant sz (a, v) (a', v')"
| vs_push: "accounted_push v x = Ok v' \<Longrightarrow> vec_step grant sz (a, v) (a, v')"
| vs_extend: "extend_from_slice v xs = Ok v' \<Longrightarrow> vec_step grant sz (a, v) (a, v')"
| vs_replace: "replace_range dflt v s e xs = Some (Ok v') \<Longrightarrow> vec_step grant sz (a, v) (a, v')"
| vs_clear: "vec_step grant sz (a, v) (a, accounted_clear v)"
| vs_dedup: "vec_step grant sz (a, v) (a, accounted_dedup v)"
| vs_additional: "reserve_additional_bytes a v n = (res, a', v') \<Longrightarrow> vec_step grant sz (a, v) (a', v')"

text \<open>The well-formed vectors: what is stored fits in what was charged and in the buffer.\<close>

definition accounted_ok :: "nat \<Rightarrow> 'a accounted \<Rightarrow> bool" where
  "accounted_ok sz v \<longleftrightarrow>
     length (av_value v) \<le> av_capacity v \<and>
     (case (av_reservation v, av_limit v) of
        (None, None) \<Rightarrow> av_capacity v = 0
      | (Some r, Some n) \<Rightarrow> length (av_value v) \<le> n \<and> n * sz \<le> unat (rv_bytes r)
      | _ \<Rightarrow> False)"

text \<open>The ledger a vector stands for, beside the reservations of the other owners.\<close>

definition vec_ledger :: "reservation list \<Rightarrow> u64 list \<Rightarrow> u64 list \<Rightarrow> accounting \<times> 'a accounted \<Rightarrow> ledger" where
  "vec_ledger rs ms ps = (\<lambda>(a, v).
     \<lparr>lg_accounting = a, lg_live = (case av_reservation v of None \<Rightarrow> [] | Some r \<Rightarrow> [r]) @ rs,
      lg_mappings = ms, lg_applications = ps\<rparr>)"

section \<open>Splicing\<close>

lemma replace_range_splice:
  assumes "s \<le> e" "e \<le> length (av_value v)"
    and "length (av_value v) - (e - s) + length xs \<le> av_capacity v"
    and "length (av_value v) - (e - s) + length xs \<le> (case av_limit v of None \<Rightarrow> usize_max | Some n \<Rightarrow> n)"
    and "length (av_value v) - (e - s) + length xs \<le> usize_max"
  shows "replace_range dflt v s e xs = Some (Ok (v\<lparr>av_value := take s (av_value v) @ xs @ drop e (av_value v)\<rparr>))"
proof -
  define ys where "ys = av_value v"
  define new where "new = length ys - (e - s) + length xs"
  define pad where "pad = replicate (new - length ys) dflt"
  define moved where "moved = take (s + length xs) (ys @ pad) @ drop e ys @ drop new (ys @ pad)"
  have bounds: "s \<le> e" "e \<le> length ys" "new \<le> length (ys @ pad)" "s + length xs + (length ys - e) = new"
    using assms(1,2) by (auto simp: ys_def new_def pad_def)
  have grown: "(if length ys < new then ys @ pad else ys) = ys @ pad" by (simp add: pad_def)
  have sub: "checked_sub_usize (length ys) (e - s) = Some (length ys - (e - s))"
    using bounds by (simp add: checked_sub_usize_def)
  have add: "checked_add_usize (length ys - (e - s)) (length xs) = Some new"
    "checked_add_usize s (length xs) = Some (s + length xs)"
    using assms(5) bounds by (auto simp: new_def ys_def)
  have copied: "copy_within e (length ys) (s + length xs) (ys @ pad) = Some moved"
    using bounds by (auto simp: copy_within_def moved_def)
  have len: "s + length xs \<le> length moved" using bounds by (auto simp: moved_def)
  have prefix: "take s moved = take s ys" using bounds by (auto simp: moved_def min_def)
  have "length (take (s + length xs) (ys @ pad)) = s + length xs" using bounds by auto
  then have suffix: "drop (s + length xs) moved = drop e ys @ drop new (ys @ pad)"
    by (simp only: moved_def append_eq_conv_conj drop_append) simp
  have filled: "copy_from_slice s (s + length xs) xs moved = Some (take s ys @ xs @ drop e ys @ drop new (ys @ pad))"
    by (simp add: copy_from_slice_def prefix suffix)
  have "length (take s ys @ xs @ drop e ys) = new" using bounds by auto
  then have final: "take new (take s ys @ xs @ drop e ys @ drop new (ys @ pad)) = take s ys @ xs @ drop e ys"
    by (metis append.assoc append_eq_conv_conj)
  have guards: "\<not> (e < s \<or> length ys < e)" "\<not> length moved < s + length xs"
    "\<not> ((case av_limit v of None \<Rightarrow> usize_max | Some n \<Rightarrow> n) < new \<or> av_capacity v < new)"
    using assms bounds len by (simp_all add: new_def ys_def not_less)
  show ?thesis
    unfolding replace_range_def Let_def
    by (simp only: guards if_False sub add ys_def [symmetric] pad_def [symmetric] grown copied filled final
        Option.bind.simps option.case)
qed

section \<open>Vectors refine the ledger\<close>

abbreviation ledger_of :: "accounting \<Rightarrow> reservation list \<Rightarrow> u64 list \<Rightarrow> u64 list \<Rightarrow> ledger" where
  "ledger_of a rs ms ps \<equiv> \<lparr>lg_accounting = a, lg_live = rs, lg_mappings = ms, lg_applications = ps\<rparr>"

lemma capacity_bytes_Ok: "capacity_bytes sz n c = Ok b \<Longrightarrow> unat b = n * sz"
  by (auto simp: capacity_bytes_def result_Inr checked_mul_usize_def unat_u64_of_usize split: if_splits)

lemma drop_first: "ledger_step (ledger_of a (r # rs) ms ps) (ledger_of (reservation_drop a r) rs ms ps)"
  using ls_drop [where xs = "[]"] by simp

lemma drop_second: "ledger_step (ledger_of a (q # r # rs) ms ps) (ledger_of (reservation_drop a r) (q # rs) ms ps)"
  using ls_drop [where xs = "[q]"] by simp

text \<open>A vector that was made charges one reservation; one that was refused leaves nothing charged.\<close>

lemma try_with_capacity_Ok:
  assumes "try_with_capacity grant sz a capacity c = (Ok v, a')" "grants grant"
  obtains r where "av_reservation v = Some r" "av_limit v = Some capacity" "av_value v = []"
    "capacity \<le> av_capacity v" "unat (rv_bytes r) = capacity * sz"
    "\<And>rs ms ps. ledger_step (ledger_of a rs ms ps) (ledger_of a' (r # rs) ms ps)"
proof -
  obtain n r k where n: "capacity_bytes sz capacity c = Ok n" "accounting_reserve a n c = Ok (a', r)"
    and k: "vec_reserve_exact grant 0 0 capacity = Some k"
    and v: "v = \<lparr>av_value = [], av_capacity = k, av_reservation = Some r, av_limit = Some capacity\<rparr>"
    using assms(1) by (auto simp: try_with_capacity_def result_Inr split: sum.splits option.splits prod.splits)
  have "rv_bytes r = n" using n(2) by (auto simp: accounting_reserve_def map_ok_eq_Inr)
  moreover have "capacity \<le> k"
    using k assms(2) by (auto simp: vec_reserve_exact_def grants_def split: if_splits)
  ultimately show thesis
    using that [of r] v capacity_bytes_Ok [OF n(1)] ls_reserve [OF n(2)] by simp
qed

lemma try_with_capacity_Err:
  assumes "try_with_capacity grant sz a capacity c = (Err e, a')"
  shows "ledger_step\<^sup>*\<^sup>* (ledger_of a rs ms ps) (ledger_of a' rs ms ps)"
proof (cases "a' = a")
  case False
  then obtain n a1 r where "accounting_reserve a n c = Ok (a1, r)" "a' = reservation_drop a1 r"
    using assms by (auto simp: try_with_capacity_def result_Inr split: sum.splits option.splits prod.splits)
  then show ?thesis
    using ls_reserve drop_first by (metis r_into_rtranclp rtranclp.rtrancl_into_rtrancl)
qed simp

lemma vec_ledger_simps [simp]:
  "vec_ledger rs ms ps (a, v) =
     ledger_of a ((case av_reservation v of None \<Rightarrow> [] | Some r \<Rightarrow> [r]) @ rs) ms ps"
  by (simp add: vec_ledger_def)

lemma reserve_total_ledger:
  assumes "try_reserve_total grant sz a v capacity c = (res, a', v')" "grants grant"
  shows "ledger_step\<^sup>*\<^sup>* (vec_ledger rs ms ps (a, v)) (vec_ledger rs ms ps (a', v'))"
proof (cases "capacity \<le> (case av_limit v of None \<Rightarrow> 0 | Some n \<Rightarrow> n)")
  case True
  then show ?thesis using assms(1) by (simp add: try_reserve_total_def)
next
  case False
  obtain made a1 where made: "try_with_capacity grant sz a capacity c = (made :: (memory_error, 'a accounted) result, a1)"
    by fastforce
  show ?thesis
  proof (cases made)
    case (Inl e)
    then show ?thesis
      using assms(1) False made try_with_capacity_Err by (auto simp: try_reserve_total_def)
  next
    case (Inr new)
    note made_Ok = made [unfolded Inr]
    obtain r where r: "av_reservation new = Some r"
      and step: "\<And>rs ms ps. ledger_step (ledger_of a rs ms ps) (ledger_of a1 (r # rs) ms ps)"
      using try_with_capacity_Ok [OF made_Ok assms(2)] by metis
    have undone: "ledger_step\<^sup>*\<^sup>* (ledger_of a rs' ms ps) (ledger_of (reservation_drop a1 r) rs' ms ps)" for rs'
      using step drop_first by (meson converse_rtranclp_into_rtranclp r_into_rtranclp)
    have swapped: "ledger_step\<^sup>*\<^sup>* (ledger_of a (q # rs') ms ps) (ledger_of (reservation_drop a1 q) (r # rs') ms ps)" for q rs'
      using step drop_second by (meson converse_rtranclp_into_rtranclp r_into_rtranclp)
    show ?thesis
    proof (cases "capacity < length (av_value v)")
      case True
      then show ?thesis
        using assms(1) False made_Ok r undone by (auto simp: try_reserve_total_def accounted_drop_def)
    next
      case nested: False
      then show ?thesis
        using assms(1) False made_Ok r r_into_rtranclp [of ledger_step, OF step] swapped
        by (auto simp: try_reserve_total_def accounted_drop_def split: option.splits)
    qed
  qed
qed

lemma vec_step_ledger:
  assumes "vec_step grant sz (a, v) (a', v')" "grants grant"
  shows "ledger_step\<^sup>*\<^sup>* (vec_ledger rs ms ps (a, v)) (vec_ledger rs ms ps (a', v'))"
  using assms(1)
proof cases
  case (vs_reserve capacity c res)
  then show ?thesis using reserve_total_ledger assms(2) by blast
next
  case (vs_push x)
  then show ?thesis by (auto simp: accounted_push_def Let_def split: if_splits)
next
  case (vs_extend xs)
  then show ?thesis by (auto simp: extend_from_slice_def result_Inr Let_def split: if_splits)
next
  case (vs_replace dflt s e xs)
  then have "av_reservation v' = av_reservation v"
    by (auto simp: replace_range_def Let_def bind_eq_Some_conv split: if_splits option.splits)
  then show ?thesis using vs_replace by simp
next
  case (vs_additional n res)
  then show ?thesis
    using ls_grow [where xs = "[]"]
    by (auto simp: reserve_additional_bytes_def split: option.splits prod.splits if_splits)
qed (simp_all add: accounted_clear_def accounted_dedup_def)

lemma length_remdups_adj_le: "length (remdups_adj xs) \<le> length xs"
  by (induction xs rule: remdups_adj.induct) auto

lemma accounted_ok_value:
  assumes "accounted_ok sz v" "length xs \<le> av_capacity v"
    "length xs \<le> (case av_limit v of None \<Rightarrow> usize_max | Some n \<Rightarrow> n)"
  shows "accounted_ok sz (v\<lparr>av_value := xs\<rparr>)"
  using assms by (auto simp: accounted_ok_def split: option.splits)

lemma accounted_ok_step:
  assumes "vec_step grant sz (a, v) (a', v')" "grants grant" "accounted_ok sz v"
    and "totals_exact (ac_state a) ((case av_reservation v of None \<Rightarrow> [] | Some r \<Rightarrow> [r]) @ rs)"
  shows "accounted_ok sz v'"
  using assms(1)
proof cases
  case (vs_reserve capacity c res)
  show ?thesis
  proof (cases "v' = v")
    case False
    then obtain new a1 where new: "try_with_capacity grant sz a capacity c = (Ok new, a1)"
      "v' = new\<lparr>av_value := av_value v\<rparr>" "length (av_value v) \<le> capacity"
      using vs_reserve by (auto simp: try_reserve_total_def split: if_splits sum.splits prod.splits)
    then show ?thesis
      by (elim try_with_capacity_Ok [OF _ assms(2)]) (auto simp: accounted_ok_def)
  qed (simp add: assms(3))
next
  case (vs_push x)
  then show ?thesis
    using assms(3) by (auto simp: accounted_push_def Let_def not_le split: if_splits option.splits
        intro!: accounted_ok_value) (auto simp: accounted_ok_def split: option.splits)
next
  case (vs_extend xs)
  then show ?thesis
    using assms(3) by (auto simp: extend_from_slice_def result_Inr Let_def not_less checked_add_usize_def
        split: if_splits intro!: accounted_ok_value)
next
  case (vs_replace dflt s e xs)
  then obtain ys n where "v' = v\<lparr>av_value := take n ys\<rparr>" "n \<le> av_capacity v"
    "n \<le> (case av_limit v of None \<Rightarrow> usize_max | Some n \<Rightarrow> n)"
    by (auto simp: replace_range_def Let_def bind_eq_Some_conv not_less split: if_splits option.splits)
  then show ?thesis using assms(3) by (auto intro!: accounted_ok_value)
next
  case (vs_additional n res)
  show ?thesis
  proof (cases "av_reservation v")
    case None
    then show ?thesis using vs_additional assms(3) by (auto simp: reserve_additional_bytes_def split: if_splits)
  next
    case (Some r)
    have exact: "totals_exact (ac_state a) ([] @ r # rs)" using assms(4) Some by simp
    show ?thesis
    proof (cases "accounting_add a n (rv_component r)")
      case (Inl x)
      then show ?thesis using vs_additional Some assms(3)
        by (auto simp: reserve_additional_bytes_def reservation_grow_def accounted_ok_def split: option.splits)
    next
      case (Inr b)
      then show ?thesis
        using vs_additional Some assms(3) grow_exact [OF exact Inr]
        by (auto simp: reserve_additional_bytes_def accounted_ok_def split: option.splits)
    qed
  qed
next
  case vs_clear
  then show ?thesis using assms(3) by (auto simp: accounted_clear_def intro!: accounted_ok_value)
next
  case vs_dedup
  then show ?thesis
    using assms(3) le_trans [OF length_remdups_adj_le [of "av_value v"]]
    by (auto simp: accounted_dedup_def accounted_ok_def split: option.splits)
qed

end
