(* ===== verification/Memory_Theorems.thy ===== *)
theory Memory_Theorems
  imports Accounted_Vec
begin

text \<open>
  Properties of the memory accounting: its totals are exact and its budgets hold under any interleaving
  of the owners, and an accounted vector refines the ledger.
\<close>

section \<open>Conservation\<close>

lemma ledger_step_budgets: "ledger_step l l' \<Longrightarrow> ac_budgets (lg_accounting l') = ac_budgets (lg_accounting l)"
proof (induction rule: ledger_step.induct)
  case (ls_set a r n res a' r' xs ys ms ps)
  then show ?case
    by (auto simp: counter_set_def Let_def reservation_grow_def reservation_shrink_def release_bytes_def
        accounting_add_def result_Inr split: if_splits sum.splits option.splits)
next
  case (ls_grow a r n res a' r' xs ys ms ps)
  then show ?case
    by (auto simp: reservation_grow_def accounting_add_def result_Inr Let_def split: if_splits sum.splits option.splits)
next
  case (ls_interval_finish a g res a' rs ms ps)
  then show ?case
    by (auto simp: interval_finish_def interval_drop_def split: sum.splits option.splits if_splits)
qed (auto simp: accounting_reserve_def accounting_add_def reservation_shrink_def reservation_drop_def release_bytes_def
      track_mapping_def mapping_drop_def reserve_application_def application_drop_def enable_graph_ceiling_def
      record_plans_def begin_allocation_interval_def interval_drop_def result_Inr Let_def
      split: if_splits option.splits)

lemma ledger_budgets:
  "ledger_reachable max_resident max_temp l \<Longrightarrow>
   ac_budgets (lg_accounting l) = \<lparr>bu_resident = max_resident, bu_temporary = max_temp\<rparr>"
  by (induction rule: ledger_reachable.induct)
    (simp_all add: ledger_new_def accounting_new_def ledger_step_budgets)

lemma held_filter: "held c rs = (\<Sum>r\<leftarrow>filter (\<lambda>r. rv_component r = c) rs. unat (rv_bytes r))"
  by (induction rs) auto

text \<open>
  C6: The accounting is exact. After any interleaving of reservations, growths (also refused ones),
  releases, drops, mappings, application charges, plan statistics, interval observations, a lowered graph
  ceiling and panics under the lock, the resident total is the sum of the live reservations, every
  component counter is the sum of its own, no budget is exceeded, the peak bounds the total, and the
  conservation check of \<open>stats\<close> passes whenever the lock is not poisoned.
\<close>

theorem memory_conservation:
  assumes "ledger_reachable max_resident max_temp l"
  defines "st \<equiv> ac_state (lg_accounting l)"
  shows "unat (as_resident_owned st) = (\<Sum>r\<leftarrow>lg_live l. unat (rv_bytes r))
    \<and> (\<forall>c. unat (component_bytes c st) = (\<Sum>r\<leftarrow>filter (\<lambda>r. rv_component r = c) (lg_live l). unat (rv_bytes r)))
    \<and> unat (as_mapped st) = (\<Sum>n\<leftarrow>lg_mappings l. unat n)
    \<and> as_resident_owned st \<le> max_resident \<and> as_temporary st \<le> max_temp
    \<and> as_resident_owned st \<le> as_resident_peak st
    \<and> (\<not> ac_poisoned (lg_accounting l) \<longrightarrow> stats_conservation (lg_accounting l) = Ok st)"
proof -
  have inv: "totals_exact st (lg_live l)" "peaks_bound st" "limits_hold (lg_accounting l)"
    "unat (as_mapped st) = (\<Sum>n\<leftarrow>lg_mappings l. unat n)"
    using ledger_reachable_inv [OF assms(1)] by (simp_all add: ledger_inv_def Let_def st_def)
  show ?thesis
    using inv component_sum_exact [OF inv(1)] ledger_budgets [OF assms(1)]
    by (auto simp: totals_exact_def held_total_def held_filter peaks_bound_def limits_hold_def st_def
        stats_conservation_def acct_lock_def intro: order_trans)
qed

definition demo_block :: accounting where
  "demo_block = (case accounting_reserve (accounting_new 100 50) 30 AcTemporary of Inr (a, r) \<Rightarrow> a)"

lemma demo_reserve:
  "accounting_reserve (accounting_new 100 50) 30 AcTemporary = Ok (demo_block, \<lparr>rv_bytes = 30, rv_component = AcTemporary\<rparr>)"
  "\<not> ac_poisoned demo_block"
  by (simp_all add: demo_block_def accounting_reserve_def accounting_add_def acct_lock_def accounting_new_def
      budgets_check_def checked_add_u64_def usize_max_def is_temporary_def Let_def update_component_def)

lemma demo_reachable:
  "ledger_reachable 100 50 (ledger_of demo_block [\<lparr>rv_bytes = 30, rv_component = AcTemporary\<rparr>] [] [])"
  using lr_step [OF lr_new, of 100 50] ls_reserve [OF demo_reserve(1), of "[]" "[]" "[]"]
  by (simp add: ledger_new_def)

theorem memory_conservation_witness:
  "unat (as_resident_owned (ac_state demo_block)) = 30 \<and> as_temporary (ac_state demo_block) \<le> 50
   \<and> stats_conservation demo_block = Ok (ac_state demo_block)"
  using memory_conservation [OF demo_reachable] demo_reserve(2) by simp

section \<open>Accounted vectors\<close>

text \<open>
  C13: An accounted vector refines the ledger. Every operation on it, refused or not, is a sequence of
  steps of the ledger on its one reservation, so the accounting stays exact; and the elements it stores
  never take more bytes than that reservation holds.
\<close>

theorem accounted_vec_refines:
  assumes "vec_step grant sz (a, v) (a', v')" "grants grant" "accounted_ok sz v"
    and "ledger_reachable max_resident max_temp (vec_ledger rs ms ps (a, v))"
  shows "ledger_step\<^sup>*\<^sup>* (vec_ledger rs ms ps (a, v)) (vec_ledger rs ms ps (a', v'))
    \<and> ledger_reachable max_resident max_temp (vec_ledger rs ms ps (a', v'))
    \<and> accounted_ok sz v' \<and> length (av_value v') * sz \<le> unat (resident_bytes v')"
proof -
  have steps: "ledger_step\<^sup>*\<^sup>* (vec_ledger rs ms ps (a, v)) (vec_ledger rs ms ps (a', v'))"
    by (rule vec_step_ledger [OF assms(1,2)])
  have reach: "ledger_reachable max_resident max_temp (vec_ledger rs ms ps (a', v'))"
    using steps assms(4) by (induction rule: rtranclp_induct) (auto intro: lr_step)
  have "totals_exact (ac_state a) ((case av_reservation v of None \<Rightarrow> [] | Some r \<Rightarrow> [r]) @ rs)"
    using ledger_reachable_inv [OF assms(4)] by (simp add: ledger_inv_def Let_def)
  then have ok: "accounted_ok sz v'" by (rule accounted_ok_step [OF assms(1-3)])
  then have "length (av_value v') * sz \<le> unat (resident_bytes v')"
    by (auto simp: accounted_ok_def resident_bytes_def split: option.splits intro: le_trans [OF mult_le_mono1])
  then show ?thesis using steps reach ok by blast
qed

theorem accounted_vec_refines_witness:
  "\<exists>a' v'. try_reserve_total Some 4 (accounting_new 100 50) (unaccounted_empty :: nat accounted) 3 AcTemporary = (Ok (), a', v')
    \<and> av_limit v' = Some 3 \<and> length (av_value v') * 4 \<le> unat (resident_bytes v')"
proof -
  have new: "ledger_reachable 100 50 (vec_ledger [] [] [] (accounting_new 100 50, unaccounted_empty :: nat accounted))"
    using lr_new [of 100 50] by (simp add: ledger_new_def unaccounted_empty_def)
  obtain a' v' where grown: "try_reserve_total Some 4 (accounting_new 100 50) (unaccounted_empty :: nat accounted) 3 AcTemporary
      = (Ok (), a', v')" "av_limit v' = Some 3"
    by (simp add: try_reserve_total_def try_with_capacity_def capacity_bytes_def unaccounted_empty_def usize_max_def
        accounting_reserve_def accounting_add_def acct_lock_def accounting_new_def budgets_check_def checked_add_u64_def
        is_temporary_def Let_def update_component_def u64_of_usize_def vec_reserve_exact_def)
  have "grants Some" "accounted_ok 4 (unaccounted_empty :: nat accounted)"
    by (simp_all add: grants_def accounted_ok_def unaccounted_empty_def)
  then show ?thesis
    using accounted_vec_refines [OF vs_reserve [OF grown(1)] _ _ new] grown by blast
qed

text \<open>
  C26: \<open>replace_range\<close> is a splice. On an accounted vector with room for the result it never panics and
  leaves the elements before the range, the replacement and the elements after it; a range outside the
  vector and a result beyond the accounted capacity are refused.
\<close>

theorem replace_range_exact:
  "replace_range dflt v s e xs =
    (let n = length (av_value v) - (e - s) + length xs; limit = (case av_limit v of None \<Rightarrow> usize_max | Some m \<Rightarrow> m) in
     if e < s \<or> length (av_value v) < e \<or> usize_max < n then Some (Err ActiveRowOverflow)
     else if limit < n \<or> av_capacity v < n
     then Some (Err (AllocationFailed (u64_of_usize n) ''accounted vector capacity''))
     else Some (Ok (v\<lparr>av_value := take s (av_value v) @ xs @ drop e (av_value v)\<rparr>)))"
proof -
  let ?n = "length (av_value v) - (e - s) + length xs"
  consider "e < s \<or> length (av_value v) < e" | "s \<le> e" "e \<le> length (av_value v)" "usize_max < ?n"
    | "s \<le> e" "e \<le> length (av_value v)" "?n \<le> usize_max"
      "(case av_limit v of None \<Rightarrow> usize_max | Some m \<Rightarrow> m) < ?n \<or> av_capacity v < ?n"
    | "s \<le> e" "e \<le> length (av_value v)" "?n \<le> usize_max"
      "?n \<le> (case av_limit v of None \<Rightarrow> usize_max | Some m \<Rightarrow> m)" "?n \<le> av_capacity v"
    by fastforce
  then show ?thesis
  proof cases
    case 1
    then show ?thesis by (auto simp: replace_range_def Let_def)
  next
    case 2
    then show ?thesis by (simp add: replace_range_def Let_def checked_sub_usize_def checked_add_usize_def)
  next
    case 3
    then show ?thesis by (simp add: replace_range_def Let_def checked_sub_usize_def not_less [symmetric])
  next
    case 4
    then show ?thesis using replace_range_splice [of s e v xs dflt] by (simp add: Let_def not_less)
  qed
qed

end
