(* ===== verification/Topk.thy ===== *)
theory Topk
  imports Accounted_Vec "HOL-Library.Multiset" "HOL-Library.Product_Lexorder"
begin

text \<open>
  Bounded exact top-k selection: \<open>scan/topk.rs\<close>, and the candidate type and the tie-keeping truncation of
  \<open>scan/mod.rs\<close>. Scores are the bit patterns of \<open>f32\<close> values, compared as \<open>f32::total_cmp\<close> does; the memory
  of a collector is a counter of the store's accounting block.
\<close>

unbundle bit_operations_syntax

section \<open>The total order on floats\<close>

text \<open>
  \<open>total_cmp\<close> compares the bits as signed integers after it flipped the magnitude bits of the negative
  patterns: \<open>bits ^ (((bits >> 31) as u32) >> 1)\<close>.
\<close>

definition total_key :: "f32 \<Rightarrow> int" where
  "total_key x = sint (x XOR drop_bit 1 (signed_drop_bit 31 x))"

section \<open>Candidates\<close>

record scan_candidate =
  sc_row_id :: nat
  sc_score :: f32

abbreviation score_key :: "scan_candidate \<Rightarrow> int" where
  "score_key c \<equiv> total_key (sc_score c)"

text \<open>Best first: larger scores, then smaller row ids.\<close>

definition candidate_key :: "scan_candidate \<Rightarrow> int \<times> nat" where
  "candidate_key c = (- score_key c, sc_row_id c)"

definition sort_candidates :: "scan_candidate list \<Rightarrow> scan_candidate list" where
  "sort_candidates cs = sort_key candidate_key cs"

text \<open>The heap order: the greatest candidate is the worst.\<close>

lemma xor_sign_inj:
  fixes x y :: f32
  assumes "x XOR drop_bit 1 (signed_drop_bit 31 x) = y XOR drop_bit 1 (signed_drop_bit 31 y)"
  shows "x = y"
proof -
  have bit: "bit (x XOR drop_bit 1 (signed_drop_bit 31 x)) n \<longleftrightarrow> bit x n \<noteq> (n < 31 \<and> bit x 31)" if "n < 32" for n and x :: f32
    using that by (auto simp: bit_simps min_def dest: bit_imp_le_length)
  have "bit x 31 = bit y 31" using bit [of 31 x] bit [of 31 y] assms by simp
  then have "bit x n = bit y n" if "n < 32" for n using bit [OF that, of x] bit [OF that, of y] assms that by auto
  then show ?thesis by (intro bit_word_eqI) simp
qed

lemma total_key_inj: "total_key x = total_key y \<longleftrightarrow> x = y"
  by (metis total_key_def xor_sign_inj word_eq_iff_signed)

lemma candidate_key_inj: "candidate_key a = candidate_key b \<longleftrightarrow> a = b"
  by (auto simp: candidate_key_def total_key_inj)

datatype heap_candidate = HeapCandidate (heap_inner: scan_candidate)

definition heap_candidate_le :: "heap_candidate \<Rightarrow> heap_candidate \<Rightarrow> bool" where
  "heap_candidate_le a b \<longleftrightarrow> candidate_key (heap_inner a) \<le> candidate_key (heap_inner b)"

instantiation heap_candidate :: linorder
begin

definition less_eq_heap_candidate :: "heap_candidate \<Rightarrow> heap_candidate \<Rightarrow> bool" where
  "less_eq_heap_candidate a b \<longleftrightarrow> heap_candidate_le a b"

definition less_heap_candidate :: "heap_candidate \<Rightarrow> heap_candidate \<Rightarrow> bool" where
  "less_heap_candidate a b \<longleftrightarrow> candidate_key (heap_inner a) < candidate_key (heap_inner b)"

instance
  by standard
    (auto simp: less_eq_heap_candidate_def heap_candidate_le_def less_heap_candidate_def heap_candidate.expand
      dest: order.antisym [of "candidate_key _"] simp flip: candidate_key_inj)

end

section \<open>The standard heap and vector growth\<close>

text \<open>
  \<open>BinaryHeap\<close> by its contract: a heap is listed from its greatest element, so \<open>peek\<close> and \<open>pop\<close> see the
  head. The order in which the array behind it lists the rest is not observed, since every reader sorts.
\<close>

type_synonym 'a binary_heap = "'a list"

primrec heap_push :: "'a::linorder \<Rightarrow> 'a binary_heap \<Rightarrow> 'a binary_heap" where
  "heap_push x [] = [x]"
| "heap_push x (y # ys) = (if y \<le> x then x # y # ys else y # heap_push x ys)"

definition heap_peek :: "'a binary_heap \<Rightarrow> 'a option" where
  "heap_peek h = (case h of [] \<Rightarrow> None | x # _ \<Rightarrow> Some x)"

definition heap_pop :: "'a binary_heap \<Rightarrow> ('a \<times> 'a binary_heap) option" where
  "heap_pop h = (case h of [] \<Rightarrow> None | x # xs \<Rightarrow> Some (x, xs))"

text \<open>The capacity after \<open>Vec::push\<close> (amortised growth, at least four elements).\<close>

definition push_capacity :: "nat \<Rightarrow> nat \<Rightarrow> nat" where
  "push_capacity len capacity = (if len = capacity then max 4 (max (capacity * 2) (len + 1)) else capacity)"

section \<open>Sizes and errors\<close>

definition SCAN_CANDIDATE_SIZE :: nat where "SCAN_CANDIDATE_SIZE = 16"

definition saturating_mul_usize :: "nat \<Rightarrow> nat \<Rightarrow> nat" where
  "saturating_mul_usize a b = min (a * b) usize_max"

definition allocation_error :: "nat \<Rightarrow> memory_error" where
  "allocation_error capacity =
     AllocationFailed (u64_of_usize (saturating_mul_usize capacity SCAN_CANDIDATE_SIZE)) ''exact scan collector''"

definition candidate_bytes :: "nat \<Rightarrow> (memory_error, nat) result" where
  "candidate_bytes capacity =
     ok_or (allocation_error usize_max) (checked_mul_usize capacity SCAN_CANDIDATE_SIZE)"

text \<open>The caller's counter: the accounting block and the reservation it charges.\<close>

type_synonym scan_memory = "accounting \<times> reservation"

definition memory_set :: "scan_memory \<Rightarrow> nat \<Rightarrow> (memory_error, unit) result \<times> scan_memory" where
  "memory_set mem n = (case counter_set (fst mem) (snd mem) n of (res, a, r) \<Rightarrow> (res, (a, r)))"

text \<open>\<open>memory.set(candidate_bytes(n)?)?\<close>\<close>

definition charge :: "scan_memory \<Rightarrow> nat \<Rightarrow> (memory_error, unit) result \<times> scan_memory" where
  "charge mem n = (case candidate_bytes n of Inl e \<Rightarrow> (Err e, mem) | Inr b \<Rightarrow> memory_set mem b)"

section \<open>The bounded collector\<close>

record bounded_topk =
  bt_limit :: nat
  bt_heap :: "heap_candidate binary_heap"
  bt_heap_capacity :: nat
  bt_boundary :: "scan_candidate list"
  bt_boundary_capacity :: nat

definition bounded_new :: "nat \<Rightarrow> bounded_topk" where
  "bounded_new limit =
     \<lparr>bt_limit = limit, bt_heap = [], bt_heap_capacity = limit, bt_boundary = [], bt_boundary_capacity = 0\<rparr>"

definition bounded_try_new ::
  "allocator \<Rightarrow> nat \<Rightarrow> scan_memory \<Rightarrow> (memory_error, bounded_topk) result \<times> scan_memory" where
  "bounded_try_new grant limit mem =
     (case charge mem limit of
        (Inl e, mem1) \<Rightarrow> (Err e, mem1)
      | (Inr _, mem1) \<Rightarrow>
          (case vec_reserve_exact grant 0 0 limit of
             None \<Rightarrow> (Err (allocation_error limit), mem1)
           | Some capacity \<Rightarrow>
               (Ok \<lparr>bt_limit = limit, bt_heap = [], bt_heap_capacity = capacity, bt_boundary = [],
                    bt_boundary_capacity = 0\<rparr>, mem1)))"

text \<open>Appending to the boundary, once room was reserved.\<close>

definition boundary_push :: "bounded_topk \<Rightarrow> scan_candidate \<Rightarrow> nat \<Rightarrow> bounded_topk" where
  "boundary_push t c capacity =
     t\<lparr>bt_boundary := bt_boundary t @ [c],
       bt_boundary_capacity := push_capacity (length (bt_boundary t)) capacity\<rparr>"

text \<open>
  \<open>reserve\<close> is the closure of the caller: from its own state and the length and capacity of the boundary
  it gives the new capacity or an error. A refusal comes after an eviction already took place.
\<close>

definition push_with_reserve ::
  "('m \<Rightarrow> nat \<Rightarrow> nat \<Rightarrow> ('e, nat) result \<times> 'm) \<Rightarrow> 'm \<Rightarrow> bounded_topk \<Rightarrow> scan_candidate
   \<Rightarrow> ('e, unit) result \<times> 'm \<times> bounded_topk" where
  "push_with_reserve reserve mem t c =
     (if bt_limit t = 0 then (Ok (), mem, t)
      else if length (bt_heap t) < bt_limit t
      then (Ok (), mem, t\<lparr>bt_heap := heap_push (HeapCandidate c) (bt_heap t)\<rparr>)
      else case heap_peek (bt_heap t) of
        None \<Rightarrow> (Ok (), mem, t\<lparr>bt_heap := heap_push (HeapCandidate c) (bt_heap t)\<rparr>)
      | Some worst \<Rightarrow>
          let worst_score = score_key (heap_inner worst) in
          if score_key c < worst_score then (Ok (), mem, t)
          else if score_key c = worst_score
          then (case reserve mem (length (bt_boundary t)) (bt_boundary_capacity t) of
                  (Inl e, mem1) \<Rightarrow> (Err e, mem1, t)
                | (Inr capacity, mem1) \<Rightarrow> (Ok (), mem1, boundary_push t c capacity))
          else (case heap_pop (bt_heap t) of
              None \<Rightarrow> (Ok (), mem, t\<lparr>bt_heap := heap_push (HeapCandidate c) (bt_heap t)\<rparr>)
            | Some (evicted, rest) \<Rightarrow>
                let t1 = t\<lparr>bt_heap := heap_push (HeapCandidate c) rest\<rparr> in
                (case heap_peek (bt_heap t1) of
                   None \<Rightarrow> (Ok (), mem, t1\<lparr>bt_boundary := []\<rparr>)
                 | Some new_worst \<Rightarrow>
                     let new_score = score_key (heap_inner new_worst);
                         retain = (\<lambda>u. u\<lparr>bt_boundary := filter (\<lambda>tied. score_key tied = new_score) (bt_boundary u)\<rparr>) in
                     if score_key (heap_inner evicted) = new_score
                     then (case reserve mem (length (bt_boundary t1)) (bt_boundary_capacity t1) of
                             (Inl e, mem1) \<Rightarrow> (Err e, mem1, t1)
                           | (Inr capacity, mem1) \<Rightarrow>
                               (Ok (), mem1, retain (boundary_push t1 (heap_inner evicted) capacity)))
                     else (Ok (), mem, retain t1))))"

text \<open>The infallible push reserves nothing; the fallible one charges before it grows the boundary.\<close>

definition bounded_push :: "bounded_topk \<Rightarrow> scan_candidate \<Rightarrow> bounded_topk" where
  "bounded_push t c = snd (snd (push_with_reserve (\<lambda>m len capacity. (Ok capacity :: (unit, nat) result, m)) () t c))"

definition reserve_boundary ::
  "allocator \<Rightarrow> nat \<Rightarrow> scan_memory \<Rightarrow> nat \<Rightarrow> nat \<Rightarrow> (memory_error, nat) result \<times> scan_memory" where
  "reserve_boundary grant heap_capacity mem len old_capacity =
     (if len \<noteq> old_capacity then (Ok old_capacity, mem)
      else
        case checked_mul_usize (max old_capacity 1) 2 of
          None \<Rightarrow> (Err (allocation_error usize_max), mem)
        | Some capacity \<Rightarrow>
            (case checked_add_usize heap_capacity capacity of
               None \<Rightarrow> (Err (allocation_error usize_max), mem)
             | Some both \<Rightarrow>
                 (case charge mem both of
                    (Inl e, mem1) \<Rightarrow> (Err e, mem1)
                  | (Inr _, mem1) \<Rightarrow>
                      (case vec_reserve_exact grant len old_capacity (capacity - len) of
                         None \<Rightarrow> (Err (allocation_error capacity), mem1)
                       | Some granted \<Rightarrow> (Ok granted, mem1)))))"

definition bounded_try_push ::
  "allocator \<Rightarrow> bounded_topk \<Rightarrow> scan_candidate \<Rightarrow> scan_memory \<Rightarrow> (memory_error, unit) result \<times> scan_memory \<times> bounded_topk" where
  "bounded_try_push grant t c mem = push_with_reserve (reserve_boundary grant (bt_heap_capacity t)) mem t c"

definition bounded_capacity :: "bounded_topk \<Rightarrow> nat" where
  "bounded_capacity t = saturating_add_usize (bt_heap_capacity t) (bt_boundary_capacity t)"

definition into_sorted_with_ties :: "bounded_topk \<Rightarrow> scan_candidate list" where
  "into_sorted_with_ties t = sort_candidates (map heap_inner (bt_heap t) @ bt_boundary t)"

definition into_sorted :: "bounded_topk \<Rightarrow> scan_candidate list" where
  "into_sorted t = take (bt_limit t) (into_sorted_with_ties t)"

text \<open>The drain reuses the boundary as the output buffer.\<close>

definition bounded_drain ::
  "allocator \<Rightarrow> bounded_topk \<Rightarrow> scan_memory \<Rightarrow> (memory_error, scan_candidate list \<times> nat) result \<times> scan_memory" where
  "bounded_drain grant t mem =
     (case checked_add_usize (length (bt_heap t)) (length (bt_boundary t)) of
        None \<Rightarrow> (Err (allocation_error usize_max), mem)
      | Some len \<Rightarrow>
          let grown =
            (if bt_boundary_capacity t < len
             then (case checked_add_usize (bt_heap_capacity t) len of
                     None \<Rightarrow> (Err (allocation_error usize_max), mem)
                   | Some capacity \<Rightarrow>
                       (case charge mem capacity of
                          (Inl e, mem1) \<Rightarrow> (Err e, mem1)
                        | (Inr _, mem1) \<Rightarrow>
                            (case vec_reserve_exact grant (length (bt_boundary t)) (bt_boundary_capacity t)
                                    (len - length (bt_boundary t)) of
                               None \<Rightarrow> (Err (allocation_error len), mem1)
                             | Some granted \<Rightarrow> (Ok granted, mem1))))
             else (Ok (bt_boundary_capacity t), mem)) in
          (case grown of
             (Inl e, mem1) \<Rightarrow> (Err e, mem1)
           | (Inr granted, mem1) \<Rightarrow>
               let peak = saturating_add_usize (bt_heap_capacity t) granted in
               (case charge mem1 granted of
                  (Inl e, mem2) \<Rightarrow> (Err e, mem2)
                | (Inr _, mem2) \<Rightarrow>
                    (Ok (sort_candidates (bt_boundary t @ map heap_inner (bt_heap t)), peak), mem2))))"

section \<open>The exact collector\<close>

datatype exact_topk =
    EtHeap bounded_topk
  | EtUnordered (eu_limit: nat) (eu_candidates: "scan_candidate list") (eu_capacity: nat)

definition exact_try_new ::
  "allocator \<Rightarrow> nat \<Rightarrow> nat \<Rightarrow> scan_memory \<Rightarrow> (memory_error, exact_topk) result \<times> scan_memory" where
  "exact_try_new grant k eligible mem =
     (let limit = min k eligible in
      if eligible \<le> saturating_mul_usize limit 2
      then (case charge mem eligible of
              (Inl e, mem1) \<Rightarrow> (Err e, mem1)
            | (Inr _, mem1) \<Rightarrow>
                (case vec_reserve_exact grant 0 0 eligible of
                   None \<Rightarrow> (Err (allocation_error eligible), mem1)
                 | Some capacity \<Rightarrow> (Ok (EtUnordered limit [] capacity), mem1)))
      else (case bounded_try_new grant limit mem of
              (Inl e, mem1) \<Rightarrow> (Err e, mem1)
            | (Inr t, mem1) \<Rightarrow> (Ok (EtHeap t), mem1)))"

definition exact_try_push ::
  "allocator \<Rightarrow> exact_topk \<Rightarrow> scan_candidate \<Rightarrow> scan_memory \<Rightarrow> (memory_error, unit) result \<times> scan_memory \<times> exact_topk" where
  "exact_try_push grant x c mem =
     (case x of
        EtHeap t \<Rightarrow> (case bounded_try_push grant t c mem of (res, mem1, t1) \<Rightarrow> (res, mem1, EtHeap t1))
      | EtUnordered limit cs capacity \<Rightarrow>
          if length cs = capacity then (Err (allocation_error (saturating_add_usize (length cs) 1)), mem, x)
          else (Ok (), mem, EtUnordered limit (cs @ [c]) capacity))"

text \<open>
  \<open>select_nth_unstable_by\<close> puts the element of rank \<open>n\<close> at position \<open>n\<close>; a full sort by score is one of its
  outcomes, and what follows depends on the selected score and on the multiset only.
\<close>

definition select_nth :: "nat \<Rightarrow> scan_candidate list \<Rightarrow> scan_candidate list" where
  "select_nth n cs = sort_key (\<lambda>c. - score_key c) cs"

definition exact_drain ::
  "allocator \<Rightarrow> exact_topk \<Rightarrow> scan_memory \<Rightarrow> (memory_error, scan_candidate list \<times> nat) result \<times> scan_memory" where
  "exact_drain grant x mem =
     (case x of
        EtHeap t \<Rightarrow> bounded_drain grant t mem
      | EtUnordered limit cs capacity \<Rightarrow>
          let retained =
            (if limit = 0 then []
             else if limit < length cs
             then (let selected = select_nth (limit - 1) cs; score = score_key (selected ! (limit - 1)) in
                   filter (\<lambda>c. \<not> score_key c < score) selected)
             else cs)
          in (Ok (sort_candidates retained, capacity), mem))"

text \<open>A scan pushes its candidates until one is refused.\<close>

primrec exact_push_all ::
  "allocator \<Rightarrow> scan_candidate list \<Rightarrow> exact_topk \<Rightarrow> scan_memory \<Rightarrow> (memory_error, unit) result \<times> scan_memory \<times> exact_topk" where
  "exact_push_all grant [] x mem = (Ok (), mem, x)"
| "exact_push_all grant (c # cs) x mem =
     (case exact_try_push grant x c mem of
        (Inl e, mem1, x1) \<Rightarrow> (Err e, mem1, x1)
      | (Inr _, mem1, x1) \<Rightarrow> exact_push_all grant cs x1 mem1)"

section \<open>Truncation that keeps ties\<close>

primrec tie_count :: "int \<Rightarrow> int list \<Rightarrow> nat" where
  "tie_count boundary [] = 0"
| "tie_count boundary (s # ss) = (if s \<noteq> boundary then 0 else Suc (tie_count boundary ss))"

definition truncate_to_k_with_score_ties :: "nat \<Rightarrow> ('a \<Rightarrow> f32) \<Rightarrow> 'a list \<Rightarrow> 'a list" where
  "truncate_to_k_with_score_ties k score cs =
     (if k = 0 then []
      else if length cs \<le> k then cs
      else
        let boundary = total_key (score (cs ! (k - 1))) in
        take (k + tie_count boundary (map (\<lambda>c. total_key (score c)) (drop k cs))) cs)"

section \<open>The specification\<close>

text \<open>
  The best \<open>k\<close> candidates with every tie of the last one: a candidate is kept when fewer than \<open>k\<close> have a
  strictly greater score. The answer is listed best first.
\<close>

definition topk_spec :: "nat \<Rightarrow> scan_candidate list \<Rightarrow> scan_candidate list" where
  "topk_spec k cs =
     sort_candidates (filter (\<lambda>c. length (filter (\<lambda>d. score_key c < score_key d) cs) < k) cs)"

end
