(* ===== verification/Topk_Inv.thy ===== *)
theory Topk_Inv
  imports Topk
begin

text \<open>
  The collectors against the specification. What a collector holds is related to the multiset of the
  candidates pushed so far; one characterisation of the kept candidates serves the heap, the unordered
  buffer and the truncation.
\<close>

section \<open>Sorting forgets the order of arrival\<close>

lemma map_sort_key: "map f (sort_key f xs) = sort (map f xs)"
  by (rule properties_for_sort [symmetric]) (simp_all add: mset_map [symmetric] del: mset_map, simp)

lemma sort_candidates_cong: "mset xs = mset ys \<Longrightarrow> sort_candidates xs = sort_candidates ys"
proof -
  assume "mset xs = mset ys"
  then have "map candidate_key (sort_candidates xs) = map candidate_key (sort_candidates ys)"
    unfolding sort_candidates_def map_sort_key by (metis mset_map sorted_list_of_multiset_mset)
  then show ?thesis by (simp add: inj_map_eq_map inj_def candidate_key_inj)
qed

lemma set_sort_candidates [simp]: "set (sort_candidates xs) = set xs"
  by (simp add: sort_candidates_def)

lemma mset_sort_candidates [simp]: "mset (sort_candidates xs) = mset xs"
  by (simp add: sort_candidates_def)

lemma sort_candidates_scores: "sorted_wrt (\<lambda>c d. score_key d \<le> score_key c) (sort_candidates xs)"
proof -
  have "sorted_wrt (\<le>) (map candidate_key (sort_candidates xs))"
    unfolding sort_candidates_def by simp
  then have "sorted_wrt (\<lambda>c d. candidate_key c \<le> candidate_key d) (sort_candidates xs)"
    by (simp add: sorted_wrt_map)
  then show ?thesis by (rule sorted_wrt_mono_rel [rotated]) (auto simp: candidate_key_def less_eq_prod_def)
qed

section \<open>The kept candidates\<close>

definition kept :: "nat \<Rightarrow> scan_candidate multiset \<Rightarrow> scan_candidate multiset" where
  "kept k M = filter_mset (\<lambda>c. size (filter_mset (\<lambda>d. score_key c < score_key d) M) < k) M"

lemma kept_mset:
  "kept k (mset cs) = mset (filter (\<lambda>c. length (filter (\<lambda>d. score_key c < score_key d) cs) < k) cs)"
  by (simp add: kept_def mset_filter [symmetric] size_mset del: mset_filter)

lemma topk_spec_eq: "mset xs = kept k (mset cs) \<Longrightarrow> sort_candidates xs = topk_spec k cs"
  unfolding topk_spec_def by (rule sort_candidates_cong) (simp add: kept_mset)

lemma size_filter_mono: "(\<And>x. x \<in># M \<Longrightarrow> P x \<Longrightarrow> Q x) \<Longrightarrow> size (filter_mset P M) \<le> size (filter_mset Q M)"
  by (induction M) (auto simp: le_Suc_eq)

text \<open>
  A part \<open>A\<close> of the candidates is what is kept, if a score \<open>w\<close> separates it from the rest, fewer than \<open>k\<close> of
  it lie above \<open>w\<close>, and \<open>A\<close> has \<open>k\<close> candidates whenever something was left out.
\<close>

lemma kept_char:
  assumes "\<And>c. c \<in># A \<Longrightarrow> w \<le> score_key c" "\<And>c. c \<in># R \<Longrightarrow> score_key c < w"
    and "size (filter_mset (\<lambda>c. w < score_key c) A) < k" "R \<noteq> {#} \<Longrightarrow> k \<le> size A"
  shows "kept k (A + R) = A"
proof -
  have none: "filter_mset (\<lambda>d. score_key c < score_key d) R = {#}" if "c \<in># A" for c
    using assms(1) [OF that] assms(2) by (fastforce simp: filter_mset_eq_conv)
  have above: "size (filter_mset (\<lambda>d. score_key c < score_key d) A) < k" if "c \<in># A" for c
  proof -
    have "size (filter_mset (\<lambda>d. score_key c < score_key d) A) \<le> size (filter_mset (\<lambda>d. w < score_key d) A)"
      using assms(1) [OF that] by (intro size_filter_mono) auto
    then show ?thesis using assms(3) by simp
  qed
  have all: "filter_mset (\<lambda>d. score_key c < score_key d) A = A" if "c \<in># R" for c
    using assms(1) assms(2) [OF that] by (fastforce simp: filter_mset_eq_conv)
  have "filter_mset (\<lambda>c. size (filter_mset (\<lambda>d. score_key c < score_key d) (A + R)) < k) A = A"
    using above by (simp add: filter_mset_eq_conv none cong: filter_mset_cong)
  moreover have "filter_mset (\<lambda>c. size (filter_mset (\<lambda>d. score_key c < score_key d) (A + R)) < k) R = {#}"
  proof (cases "R = {#}")
    case False
    then show ?thesis using assms(4) by (simp add: all not_less cong: filter_mset_cong)
  qed simp
  ultimately show ?thesis by (simp add: kept_def)
qed

lemma kept_zero [simp]: "kept 0 M = {#}"
  by (simp add: kept_def)

lemma size_filter_less: "x \<in># M \<Longrightarrow> \<not> P x \<Longrightarrow> size (filter_mset P M) < size M"
  by (metis filter_mset_eq_conv leD mset_subset_size multiset_filter_subset subset_mset.less_le)

text \<open>Nothing is cut when there are no more candidates than asked for.\<close>

lemma kept_all: "size M \<le> k \<Longrightarrow> kept k M = M"
  by (auto simp: kept_def filter_mset_eq_conv intro: order.strict_trans2 [OF size_filter_less])

text \<open>A limit beyond the number of candidates changes nothing.\<close>

lemma kept_min: "size M \<le> n \<Longrightarrow> kept (min k n) M = kept k M"
  by (cases "k \<le> n") (simp_all add: min_def kept_all)

section \<open>A list in descending order of score\<close>

lemma descending_high:
  assumes "sorted_wrt (\<lambda>c d. score_key d \<le> score_key c) xs" "0 < k" "k \<le> length xs"
  shows "k \<le> length (filter (\<lambda>c. score_key (xs ! (k - 1)) \<le> score_key c) xs)"
proof -
  let ?P = "\<lambda>c. score_key (xs ! (k - 1)) \<le> score_key c"
  have "?P (xs ! i)" if "i < k" for i
    using assms that by (cases "i = k - 1") (auto simp: sorted_wrt_iff_nth_less)
  then have "filter ?P (take k xs) = take k xs" using assms(3) by (auto simp: filter_id_conv in_set_conv_nth)
  then have "filter ?P xs = take k xs @ filter ?P (drop k xs)" by (metis append_take_drop_id filter_append)
  then have "length (filter ?P xs) = k + length (filter ?P (drop k xs))" using assms(3) by simp
  then show ?thesis by linarith
qed

lemma descending_split:
  assumes "sorted_wrt (\<lambda>c d. score_key d \<le> score_key c) xs" "0 < k" "k \<le> length xs"
  shows "kept k (mset xs) = filter_mset (\<lambda>c. score_key (xs ! (k - 1)) \<le> score_key c) (mset xs)"
proof -
  let ?w = "score_key (xs ! (k - 1))"
  let ?A = "filter_mset (\<lambda>c. ?w \<le> score_key c) (mset xs)"
  let ?R = "filter_mset (\<lambda>c. \<not> ?w \<le> score_key c) (mset xs)"
  have order: "score_key (xs ! j) \<le> score_key (xs ! i)" if "i \<le> j" "j < length xs" for i j
    using assms(1) that by (cases "i = j") (auto simp: sorted_wrt_iff_nth_less)
  have low: "\<forall>c\<in>set (drop (k - 1) xs). \<not> ?w < score_key c"
    using order by (auto simp: in_set_conv_nth not_less)
  have "length (filter (\<lambda>c. ?w < score_key c) xs)
      = length (filter (\<lambda>c. ?w < score_key c) (take (k - 1) xs @ drop (k - 1) xs))"
    by simp
  also have "\<dots> \<le> length (take (k - 1) xs)"
    unfolding filter_append filter_False [OF low] by (simp del: length_take)
  finally have few: "length (filter (\<lambda>c. ?w < score_key c) xs) < k" using assms(2) by auto
  have "filter_mset (\<lambda>c. ?w < score_key c) ?A = mset (filter (\<lambda>c. ?w < score_key c) xs)"
    by (auto intro!: multiset_eqI)
  then have "size (filter_mset (\<lambda>c. ?w < score_key c) ?A) < k" using few by (metis size_mset)
  moreover have "k \<le> size ?A" using descending_high [OF assms] by (metis mset_filter size_mset)
  ultimately have "kept k (?A + ?R) = ?A" by (intro kept_char [where w = ?w]) auto
  then show ?thesis by (metis multiset_partition)
qed

section \<open>Selections compose\<close>

definition better :: "scan_candidate \<Rightarrow> scan_candidate multiset \<Rightarrow> scan_candidate multiset" where
  "better c M = filter_mset (\<lambda>d. score_key c < score_key d) M"

lemma kept_better: "kept k M = filter_mset (\<lambda>c. size (better c M) < k) M"
  by (simp add: kept_def better_def)

lemma better_union [simp]: "better c (A + B) = better c A + better c B"
  by (simp add: better_def)

lemma size_kept: "k \<le> size M \<Longrightarrow> k \<le> size (kept k M)"
proof (cases "k = 0")
  case False
  assume "k \<le> size M"
  obtain xs where "M = mset xs" using ex_mset by metis
  define ys where "ys = sort_candidates xs"
  have ys: "M = mset ys" by (simp add: ys_def \<open>M = mset xs\<close>)
  then have len: "0 < k" "k \<le> length ys" using False \<open>k \<le> size M\<close> by simp_all
  have order: "sorted_wrt (\<lambda>c d. score_key d \<le> score_key c) ys" unfolding ys_def by (rule sort_candidates_scores)
  show ?thesis
    unfolding ys descending_split [OF order len] using descending_high [OF order len] by (metis mset_filter size_mset)
qed simp

text \<open>Whether fewer than \<open>k\<close> candidates are better is decided by the kept ones alone.\<close>

lemma better_kept: "size (better c (kept k A)) < k \<longleftrightarrow> size (better c A) < k"
  "size (better c A) < k \<Longrightarrow> better c (kept k A) = better c A"
proof -
  show few: "better c (kept k A) = better c A" if "size (better c A) < k"
  proof -
    have "size (better d A) < k" if "score_key c < score_key d" for d
    proof -
      have "size (better d A) \<le> size (better c A)"
        unfolding better_def using that by (intro size_filter_mono) auto
      then show ?thesis using \<open>size (better c A) < k\<close> by simp
    qed
    then show ?thesis by (auto simp: kept_better better_def filter_filter_mset intro!: filter_mset_cong)
  qed
  have "k \<le> size (better c (kept k A))" if "k \<le> size (better c A)"
  proof -
    have "better d (better c A) = better d A" if "score_key c < score_key d" for d
      using that by (auto simp: better_def filter_filter_mset intro!: filter_mset_cong)
    then have "kept k (better c A) = better c (kept k A)"
      by (auto simp: kept_better filter_filter_mset better_def [of c] intro!: filter_mset_cong)
    then show ?thesis using size_kept [OF that] by simp
  qed
  then show "size (better c (kept k A)) < k \<longleftrightarrow> size (better c A) < k" using few by (metis not_less)
qed

lemma kept_union_left: "kept k (kept k A + B) = kept k (A + B)"
proof -
  have same: "size (better c (kept k A + B)) < k \<longleftrightarrow> size (better c (A + B)) < k" for c
  proof (cases "size (better c A) < k")
    case True
    then show ?thesis by (simp add: better_kept(2))
  next
    case False
    then show ?thesis using better_kept(1) [of c k A] by simp
  qed
  have "filter_mset (\<lambda>c. size (better c (A + B)) < k) (kept k A) = filter_mset (\<lambda>c. size (better c (A + B)) < k) A"
    unfolding kept_better [of k A] filter_filter_mset by (auto intro!: filter_mset_cong)
  then show ?thesis unfolding kept_better [of k "_ + _"] same by simp
qed

lemma kept_union: "kept k (kept k A + kept k B) = kept k (A + B)"
  by (metis kept_union_left union_commute)

lemma kept_concat: "kept k (mset (concat (map (topk_spec k) parts))) = kept k (mset (concat parts))"
proof (induction parts)
  case (Cons p ps)
  have "mset (topk_spec k p) = kept k (mset p)" by (simp add: topk_spec_def kept_mset)
  then show ?case using Cons kept_union_left by (metis concat.simps(2) kept_union list.simps(9) mset_append)
qed simp

lemma topk_spec_concat: "topk_spec k (concat (map (topk_spec k) parts)) = topk_spec k (concat parts)"
  using kept_concat by (metis topk_spec_eq kept_mset)

section \<open>The heap\<close>

locale priority_queue =
  fixes push :: "'a::linorder \<Rightarrow> 'h \<Rightarrow> 'h"
    and peek :: "'h \<Rightarrow> 'a option"
    and pop :: "'h \<Rightarrow> ('a \<times> 'h) option"
    and contents :: "'h \<Rightarrow> 'a multiset"
    and wf :: "'h \<Rightarrow> bool"
  assumes push_wf: "wf h \<Longrightarrow> wf (push x h)"
    and push_contents: "contents (push x h) = add_mset x (contents h)"
    and peek_None: "peek h = None \<longleftrightarrow> contents h = {#}"
    and peek_Some: "wf h \<Longrightarrow> peek h = Some x \<Longrightarrow> x \<in># contents h \<and> (\<forall>y\<in>#contents h. y \<le> x)"
    and pop_Some: "wf h \<Longrightarrow> peek h = Some x \<Longrightarrow> \<exists>h'. pop h = Some (x, h') \<and> wf h' \<and> contents h = add_mset x (contents h')"
begin

lemma replace_top:
  assumes "wf h" "peek h = Some x" "pop h = Some (y, h')"
  shows "y = x" "wf (push z h')" "add_mset x (contents (push z h')) = add_mset z (contents h)"
  using pop_Some [OF assms(1,2)] assms(3) by (auto simp: push_wf push_contents)

lemma replace_nonempty: "peek (push z h) \<noteq> None"
  by (simp add: peek_None push_contents)

end

lemma heap_push_mset [simp]: "mset (heap_push x h) = add_mset x (mset h)"
  by (induction h) auto

lemma heap_push_length [simp]: "length (heap_push x h) = Suc (length h)"
  by (induction h) auto

lemma heap_push_set [simp]: "set (heap_push x h) = insert x (set h)"
  by (induction h) auto

lemma heap_push_sorted: "sorted_wrt (\<ge>) h \<Longrightarrow> sorted_wrt (\<ge>) (heap_push x h)"
  by (induction h) auto

interpretation binary_heap: priority_queue heap_push heap_peek heap_pop mset "sorted_wrt (\<ge>)"
  by unfold_locales (auto simp: heap_push_sorted heap_peek_def heap_pop_def split: list.splits)

end
