(* ===== verification/Topk_Collector.thy ===== *)
theory Topk_Collector
  imports Topk_Inv
begin

text \<open>
  The two collectors hold what the specification keeps: the relation between a collector and the
  candidates pushed into it, its preservation by a push, and the answer of the drain. The contract they
  share is the locale \<open>collector\<close>.
\<close>

section \<open>The contract\<close>

text \<open>
  A collector is started for a limit, takes candidates until one is refused, and is drained. \<open>holds k M s\<close>
  relates a state to the multiset pushed so far.
\<close>

primrec collect :: "('s \<Rightarrow> scan_candidate \<Rightarrow> ('e, 's) result) \<Rightarrow> scan_candidate list \<Rightarrow> 's \<Rightarrow> ('e, 's) result" where
  "collect push [] s = Ok s"
| "collect push (c # cs) s = and_then (push s c) (collect push cs)"

locale collector =
  fixes push :: "'s \<Rightarrow> scan_candidate \<Rightarrow> ('e, 's) result"
    and drain :: "'s \<Rightarrow> ('e, scan_candidate list) result"
    and holds :: "nat \<Rightarrow> scan_candidate multiset \<Rightarrow> 's \<Rightarrow> bool"
  assumes push_holds: "holds k M s \<Longrightarrow> push s c = Ok s' \<Longrightarrow> holds k (add_mset c M) s'"
    and drain_kept: "holds k M s \<Longrightarrow> drain s = Ok out \<Longrightarrow> \<exists>xs. out = sort_candidates xs \<and> mset xs = kept k M"
begin

lemma collect_holds: "holds k M s \<Longrightarrow> collect push cs s = Ok s' \<Longrightarrow> holds k (M + mset cs) s'"
  by (induction cs arbitrary: M s) (fastforce simp: and_then_eq_Inr dest: push_holds)+

lemma answer:
  assumes "holds k {#} s" "collect push cs s = Ok s'" "drain s' = Ok out"
  shows "out = topk_spec k cs"
  using drain_kept [OF collect_holds [OF assms(1,2)] assms(3)] topk_spec_eq by auto

end

section \<open>The heap collector\<close>

abbreviation heap_candidates :: "bounded_topk \<Rightarrow> scan_candidate list" where
  "heap_candidates t \<equiv> map heap_inner (bt_heap t)"

lemma heap_le_score: "x \<le> y \<Longrightarrow> score_key (heap_inner y) \<le> score_key (heap_inner x)"
  by (auto simp: less_eq_heap_candidate_def heap_candidate_le_def candidate_key_def less_eq_prod_def)

text \<open>
  Once the heap is full its worst score separates what is held from what was left out, and the boundary
  holds the ties of that score.
\<close>

definition separated :: "bounded_topk \<Rightarrow> scan_candidate multiset \<Rightarrow> bool" where
  "separated t R \<longleftrightarrow>
     (\<forall>w. heap_peek (bt_heap t) = Some w \<longrightarrow>
        (\<forall>c\<in>set (bt_boundary t). score_key c = score_key (heap_inner w)) \<and>
        (\<forall>c\<in>#R. score_key c < score_key (heap_inner w)))"

definition bounded_holds :: "nat \<Rightarrow> scan_candidate multiset \<Rightarrow> bounded_topk \<Rightarrow> bool" where
  "bounded_holds k M t \<longleftrightarrow>
     bt_limit t = k \<and> sorted_wrt (\<ge>) (bt_heap t) \<and>
     (\<exists>R. M = mset (heap_candidates t) + mset (bt_boundary t) + R \<and>
          (if length (bt_heap t) < k then bt_boundary t = [] \<and> R = {#}
           else length (bt_heap t) = k \<and> (k = 0 \<longrightarrow> bt_boundary t = []) \<and> separated t R))"

lemma bounded_kept:
  assumes "bounded_holds k M t"
  shows "kept k M = mset (heap_candidates t @ bt_boundary t)"
proof (cases "length (bt_heap t) < k")
  case True
  then have "M = mset (heap_candidates t)" "bt_boundary t = []" using assms by (auto simp: bounded_holds_def)
  then show ?thesis using True by (simp add: kept_all)
next
  case False
  then obtain R where R: "M = mset (heap_candidates t) + mset (bt_boundary t) + R" "separated t R"
    and len: "length (bt_heap t) = k" "k = 0 \<longrightarrow> bt_boundary t = []" and sorted: "sorted_wrt (\<ge>) (bt_heap t)"
    using assms by (auto simp: bounded_holds_def)
  show ?thesis
  proof (cases "bt_heap t")
    case Nil
    then show ?thesis using len by simp
  next
    case (Cons w h)
    let ?w = "score_key (heap_inner w)"
    let ?A = "mset (heap_candidates t) + mset (bt_boundary t)"
    have peek: "heap_peek (bt_heap t) = Some w" by (simp add: Cons heap_peek_def)
    have heap: "?w \<le> score_key c" if "c \<in> set (heap_candidates t)" for c
      using that sorted heap_le_score by (auto simp: Cons)
    have tied: "score_key c = ?w" if "c \<in> set (bt_boundary t)" for c using R(2) peek that by (auto simp: separated_def)
    have none: "filter_mset (\<lambda>c. ?w < score_key c) (mset (bt_boundary t)) = {#}"
      using tied by (fastforce simp: filter_mset_eq_conv)
    have "size (filter_mset (\<lambda>c. ?w < score_key c) (mset (heap_candidates t))) < size (mset (heap_candidates t))"
      by (rule size_filter_less [of "heap_inner w"]) (simp_all add: Cons)
    then have few: "size (filter_mset (\<lambda>c. ?w < score_key c) ?A) < k" using len by (simp only: filter_union_mset none) simp
    have "kept k (?A + R) = ?A"
      by (rule kept_char [where w = ?w]) (use heap tied R(2) peek few len in \<open>auto simp: separated_def\<close>)
    then show ?thesis using R(1) by simp
  qed
qed

lemma push_heap_room:
  assumes "bounded_holds k M t" "length (bt_heap t) < k"
  shows "bounded_holds k (add_mset c M) (t\<lparr>bt_heap := heap_push (HeapCandidate c) (bt_heap t)\<rparr>)"
  using assms by (auto simp: bounded_holds_def heap_push_sorted separated_def)

text \<open>A full heap that evicts its worst candidate for a better one.\<close>

lemma evict_worst:
  assumes "bounded_holds k M t" "\<not> length (bt_heap t) < k"
    and "heap_peek (bt_heap t) = Some worst" "heap_pop (bt_heap t) = Some (evicted, rest)"
    and "score_key (heap_inner worst) < score_key c"
    and "heap_peek (heap_push (HeapCandidate c) rest) = Some new_worst"
    and "bt_limit t' = bt_limit t" "bt_heap t' = heap_push (HeapCandidate c) rest"
    and "bt_boundary t' = filter (\<lambda>tied. score_key tied = score_key (heap_inner new_worst))
          (bt_boundary t @ (if score_key (heap_inner evicted) = score_key (heap_inner new_worst)
                            then [heap_inner evicted] else []))"
  shows "bounded_holds k (add_mset c M) t'"
proof -
  let ?new = "score_key (heap_inner new_worst)" and ?old = "score_key (heap_inner worst)"
  let ?heap = "heap_push (HeapCandidate c) rest"
  obtain R where R: "M = mset (heap_candidates t) + mset (bt_boundary t) + R" "separated t R"
    and len: "length (bt_heap t) = k" and sorted: "sorted_wrt (\<ge>) (bt_heap t)" and limit: "bt_limit t = k"
    using assms(1,2) by (auto simp: bounded_holds_def)
  note evicted = binary_heap.replace_top(1) [OF sorted assms(3,4)]
  note wf = binary_heap.replace_top(2) [OF sorted assms(3,4), of "HeapCandidate c"]
  note swap = binary_heap.replace_top(3) [OF sorted assms(3,4), of "HeapCandidate c"]
  have k: "k \<noteq> 0" using len assms(3) by (auto simp: heap_peek_def)
  have split: "mset (bt_heap t) = add_mset worst (mset rest)" using swap by simp
  then have heap: "mset (heap_candidates t) = add_mset (heap_inner worst) (image_mset heap_inner (mset rest))"
    by simp
  have length: "length ?heap = k" using len arg_cong [OF split, of size] by simp
  have up: "?old \<le> ?new"
  proof -
    have "new_worst \<in># mset ?heap" using binary_heap.peek_Some [OF wf assms(6)] by blast
    then consider "new_worst = HeapCandidate c" | "new_worst \<in># mset rest" by auto
    then show ?thesis
    proof cases
      case 2
      then have "new_worst \<le> worst"
        using binary_heap.peek_Some [OF sorted assms(3)] by (simp add: split)
      then show ?thesis by (rule heap_le_score)
    qed (use assms(5) in simp)
  qed
  let ?bs = "bt_boundary t"
  have tied: "\<forall>b\<in>set ?bs. score_key b = ?old" and out: "\<forall>b\<in>#R. score_key b < ?old"
    using R(2) assms(3) by (auto simp: separated_def)
  define R' where "R' = (if ?old = ?new then R else add_mset (heap_inner worst) (mset ?bs) + R)"
  have "add_mset c M = mset (heap_candidates t') + mset (bt_boundary t') + R'"
  proof (cases "?old = ?new")
    case True
    then have "filter (\<lambda>b. score_key b = ?new) ?bs = ?bs" using tied by (simp add: filter_id_conv)
    then show ?thesis using True R(1) heap evicted by (simp add: assms(8,9) R'_def del: filter_True)
  next
    case False
    then have "filter (\<lambda>b. score_key b = ?new) ?bs = []" using tied by (simp add: filter_empty_conv)
    then show ?thesis using False R(1) heap evicted by (simp add: assms(8,9) R'_def del: filter_False)
  qed
  moreover have "separated t' R'"
    using assms(6) up out tied by (auto simp: separated_def assms(8,9) R'_def dest: order.strict_trans2)
  ultimately show ?thesis
    using length k wf limit by (auto simp: bounded_holds_def assms(7,8))
qed

lemma push_with_reserve_holds:
  assumes "bounded_holds k M t" "push_with_reserve reserve mem t c = (Ok (), mem', t')"
  shows "bounded_holds k (add_mset c M) t'"
proof (cases "k = 0")
  case True
  then have "t' = t" using assms by (auto simp: push_with_reserve_def bounded_holds_def)
  then show ?thesis using assms(1) True by (fastforce simp: bounded_holds_def separated_def heap_peek_def)
next
  case k: False
  have limit: "bt_limit t = k" using assms(1) by (simp add: bounded_holds_def)
  show ?thesis
  proof (cases "length (bt_heap t) < k")
    case True
    then show ?thesis using assms k limit push_heap_room by (auto simp: push_with_reserve_def)
  next
    case full: False
    then have "length (bt_heap t) = k" using assms(1) by (auto simp: bounded_holds_def)
    then obtain worst rest where heap: "bt_heap t = worst # rest" using k by (cases "bt_heap t") auto
    let ?w = "score_key (heap_inner worst)"
    have peek: "heap_peek (bt_heap t) = Some worst" and pop: "heap_pop (bt_heap t) = Some (worst, rest)"
      by (simp_all add: heap heap_peek_def heap_pop_def)
    consider "score_key c < ?w" | "score_key c = ?w" | "?w < score_key c" by linarith
    then show ?thesis
    proof cases
      case 1
      then have "t' = t" using assms(2) k limit full peek by (simp add: push_with_reserve_def)
      moreover obtain R where "M = mset (heap_candidates t) + mset (bt_boundary t) + R" "separated t R"
        using assms(1) full by (auto simp: bounded_holds_def)
      ultimately show ?thesis
        using assms(1) full 1 peek k
        by (auto simp: bounded_holds_def separated_def intro!: exI [of _ "add_mset c R"])
    next
      case 2
      then obtain n where "t' = boundary_push t c n"
        using assms(2) k limit full peek
        by (auto simp: push_with_reserve_def Let_def split: prod.splits sum.splits)
      then show ?thesis
        using assms(1) full 2 peek k by (auto simp: bounded_holds_def separated_def boundary_push_def)
    next
      case 3
      obtain new_worst where new: "heap_peek (heap_push (HeapCandidate c) rest) = Some new_worst"
        using binary_heap.replace_nonempty by fastforce
      have "bt_limit t' = bt_limit t" "bt_heap t' = heap_push (HeapCandidate c) rest"
        "bt_boundary t' = filter (\<lambda>tied. score_key tied = score_key (heap_inner new_worst))
          (bt_boundary t @ (if ?w = score_key (heap_inner new_worst) then [heap_inner worst] else []))"
        using assms(2) k limit full peek 3 pop new
        by (auto simp: push_with_reserve_def Let_def boundary_push_def split: prod.splits sum.splits if_splits)
      then show ?thesis by (rule evict_worst [OF assms(1) full peek pop 3 new])
    qed
  qed
qed

lemma bounded_holds_new:
  "bt_limit t = k \<Longrightarrow> bt_heap t = [] \<Longrightarrow> bt_boundary t = [] \<Longrightarrow> bounded_holds k {#} t"
  by (auto simp: bounded_holds_def separated_def heap_peek_def)

lemma bounded_push_result:
  "push_with_reserve (\<lambda>m len capacity. (Ok capacity :: (unit, nat) result, m)) () t c = (Ok (), (), bounded_push t c)"
  by (auto simp: bounded_push_def push_with_reserve_def Let_def split: option.splits prod.splits)

interpretation bounded: collector "\<lambda>t c. Ok (bounded_push t c)" "\<lambda>t. Ok (into_sorted_with_ties t)" bounded_holds
proof
  show "bounded_holds k (add_mset c M) s'" if "bounded_holds k M s" "Ok (bounded_push s c) = Ok s'" for k M s c s'
    using push_with_reserve_holds [OF that(1) bounded_push_result, of c] that(2) by simp
  show "\<exists>xs. out = sort_candidates xs \<and> mset xs = kept k M"
    if "bounded_holds k M s" "Ok (into_sorted_with_ties s) = Ok out" for k M s out
    using that bounded_kept [OF that(1)] by (auto simp: into_sorted_with_ties_def)
qed

lemma collect_Ok: "collect (\<lambda>s c. Ok (f s c)) cs s = Ok (foldl f s cs)"
  by (induction cs arbitrary: s) auto

lemma bounded_answer:
  "into_sorted_with_ties (foldl bounded_push (bounded_new k) cs) = topk_spec k cs"
  by (rule bounded.answer [of k "bounded_new k"])
    (simp_all add: bounded_holds_new bounded_new_def collect_Ok)

lemma push_with_reserve_limit:
  "push_with_reserve reserve mem t c = (res, mem', t') \<Longrightarrow> bt_limit t' = bt_limit t"
  by (auto simp: push_with_reserve_def Let_def boundary_push_def split: if_splits option.splits prod.splits sum.splits)

lemma bounded_push_limit: "bt_limit (foldl bounded_push t cs) = bt_limit t"
  by (induction cs arbitrary: t) (simp_all add: push_with_reserve_limit [OF bounded_push_result])

section \<open>The exact collector\<close>

definition exact_push_step ::
  "allocator \<Rightarrow> exact_topk \<times> scan_memory \<Rightarrow> scan_candidate \<Rightarrow> (memory_error, exact_topk \<times> scan_memory) result" where
  "exact_push_step grant = (\<lambda>(x, mem) c.
     case exact_try_push grant x c mem of (Inl e, _) \<Rightarrow> Err e | (Inr _, mem1, x1) \<Rightarrow> Ok (x1, mem1))"

definition exact_drain_step ::
  "allocator \<Rightarrow> exact_topk \<times> scan_memory \<Rightarrow> (memory_error, scan_candidate list) result" where
  "exact_drain_step grant = (\<lambda>(x, mem). map_ok fst (fst (exact_drain grant x mem)))"

definition exact_holds :: "nat \<Rightarrow> scan_candidate multiset \<Rightarrow> exact_topk \<times> scan_memory \<Rightarrow> bool" where
  "exact_holds k M = (\<lambda>(x, mem).
     case x of EtHeap t \<Rightarrow> bounded_holds k M t | EtUnordered limit cs capacity \<Rightarrow> limit = k \<and> mset cs = M)"

lemma collect_exact:
  "exact_push_all grant cs x mem = (Ok u, mem', x') \<longleftrightarrow> collect (exact_push_step grant) cs (x, mem) = Ok (x', mem')"
  by (induction cs arbitrary: x mem)
    (auto simp: exact_push_step_def and_then_def split: prod.splits sum.splits)

lemma bounded_drain_answer:
  "bounded_drain grant t mem = (Ok (out, n), mem') \<Longrightarrow> out = sort_candidates (bt_boundary t @ heap_candidates t)"
  by (auto simp: bounded_drain_def Let_def split: option.splits if_splits prod.splits sum.splits)

lemma select_nth_mset [simp]: "mset (select_nth n cs) = mset cs"
  by (simp add: select_nth_def)

lemma select_nth_descending: "sorted_wrt (\<lambda>c d. score_key d \<le> score_key c) (select_nth n cs)"
proof -
  have "sorted_wrt (\<le>) (map (\<lambda>c. - score_key c) (select_nth n cs))" by (simp add: select_nth_def)
  then show ?thesis by (simp add: sorted_wrt_map)
qed

lemma unordered_answer:
  assumes "exact_drain grant (EtUnordered k cs capacity) mem = (Ok (out, n), mem')"
  shows "\<exists>xs. out = sort_candidates xs \<and> mset xs = kept k (mset cs)"
proof -
  let ?sel = "select_nth (k - 1) cs"
  have "length ?sel = length cs" by (metis select_nth_mset size_mset)
  then have "kept k (mset cs) = mset (filter (\<lambda>c. \<not> score_key c < score_key (?sel ! (k - 1))) ?sel)"
    if "0 < k" "k < length cs"
    using descending_split [OF select_nth_descending [of "k - 1" cs], of k] that by (simp add: not_less)
  then show ?thesis
    using assms by (auto simp: exact_drain_def Let_def kept_all split: if_splits)
qed

interpretation exact: collector "exact_push_step grant" "exact_drain_step grant" exact_holds for grant
proof
  show "exact_holds k (add_mset c M) s'" if "exact_holds k M s" "exact_push_step grant s c = Ok s'" for k M s c s'
    using that push_with_reserve_holds
    by (auto simp: exact_holds_def exact_push_step_def exact_try_push_def bounded_try_push_def
        split: exact_topk.splits prod.splits sum.splits if_splits)
  show "\<exists>xs. out = sort_candidates xs \<and> mset xs = kept k M"
    if "exact_holds k M s" "exact_drain_step grant s = Ok out" for k M s out
  proof -
    note given = that
    obtain x mem where s: "s = (x, mem)" by (cases s)
    obtain n mem' where drain: "exact_drain grant x mem = (Ok (out, n), mem')"
      using given(2) by (cases "exact_drain grant x mem") (auto simp: s exact_drain_step_def map_ok_eq_Inr)
    show ?thesis
    proof (cases x)
      case (EtHeap t)
      then have "bounded_holds k M t" using given(1) by (simp add: s exact_holds_def)
      then show ?thesis
        using bounded_drain_answer [of grant t mem out n mem'] bounded_kept drain EtHeap
        by (auto simp: exact_drain_def intro!: exI [of _ "bt_boundary t @ heap_candidates t"])
    next
      case (EtUnordered limit cs capacity)
      then have "limit = k" "mset cs = M" using given(1) by (simp_all add: s exact_holds_def)
      then show ?thesis using unordered_answer [OF drain [unfolded EtUnordered]] by simp
    qed
  qed
qed

lemma exact_new_holds:
  assumes "exact_try_new grant k eligible mem = (Ok x, mem')"
  shows "exact_holds (min k eligible) {#} (x, mem')"
  using assms
  by (auto simp: exact_try_new_def bounded_try_new_def Let_def exact_holds_def
      split: if_splits prod.splits sum.splits option.splits intro!: bounded_holds_new)

lemma exact_answer:
  assumes "exact_try_new grant k eligible mem = (Ok x, mem1)"
    and "exact_push_all grant cs x mem1 = (Ok (), mem2, y)"
    and "exact_drain grant y mem2 = (Ok (out, n), mem3)" "length cs \<le> eligible"
  shows "out = topk_spec k cs"
proof -
  have "out = topk_spec (min k eligible) cs"
    using exact.answer [OF exact_new_holds [OF assms(1)], of grant cs "(y, mem2)" out] assms(2,3)
    by (simp add: collect_exact exact_drain_step_def)
  moreover have "kept (min k eligible) (mset cs) = kept k (mset cs)" using assms(4) by (simp add: kept_min)
  ultimately show ?thesis
    by (metis (no_types, lifting) kept_mset sort_candidates_cong topk_spec_def)
qed

section \<open>Truncation\<close>

lemma tie_count_take: "take (tie_count b (map f xs)) xs = takeWhile (\<lambda>x. f x = b) xs"
  by (induction xs) auto

lemma descending_ties:
  assumes "\<forall>c\<in>set xs. score_key c \<le> w" "sorted_wrt (\<lambda>c d. score_key d \<le> score_key c) xs"
  shows "filter (\<lambda>c. w \<le> score_key c) xs = takeWhile (\<lambda>c. score_key c = w) xs"
  using assms
proof (induction xs)
  case (Cons a xs)
  show ?case
  proof (cases "w \<le> score_key a")
    case True
    then show ?thesis using Cons by auto
  next
    case False
    then have "\<forall>c\<in>set xs. \<not> w \<le> score_key c" using Cons.prems by fastforce
    then show ?thesis using False by (auto simp: filter_empty_conv)
  qed
qed simp

lemma truncate_answer: "truncate_to_k_with_score_ties k sc_score (sort_candidates cs) = topk_spec k cs"
proof (cases "k = 0 \<or> length cs \<le> k")
  case True
  then have "mset (if k = 0 then [] else cs) = kept k (mset cs)" by (auto simp: kept_all)
  then have "sort_candidates (if k = 0 then [] else cs) = topk_spec k cs" by (rule topk_spec_eq)
  then show ?thesis
    using True by (auto simp: truncate_to_k_with_score_ties_def sort_candidates_def split: if_splits)
next
  case False
  let ?s = "sort_candidates cs"
  let ?w = "score_key (?s ! (k - 1))"
  have len: "length ?s = length cs" by (simp add: sort_candidates_def)
  have order: "score_key (?s ! j) \<le> score_key (?s ! i)" if "i \<le> j" "j < length ?s" for i j
    using sort_candidates_scores [of cs] that by (cases "i = j") (auto simp: sorted_wrt_iff_nth_less)
  have "filter (\<lambda>c. ?w \<le> score_key c) (take k ?s) = take k ?s"
    using order False len by (auto simp: filter_id_conv in_set_conv_nth)
  moreover have "filter (\<lambda>c. ?w \<le> score_key c) (drop k ?s) = takeWhile (\<lambda>c. score_key c = ?w) (drop k ?s)"
  proof -
    have tail: "sorted_wrt (\<lambda>c d. score_key d \<le> score_key c) (drop k ?s)"
      using sort_candidates_scores by (rule sorted_wrt_drop)
    have "\<forall>c\<in>set (drop k ?s). score_key c \<le> ?w"
      using order False len by (auto simp: in_set_conv_nth)
    then show ?thesis using tail by (rule descending_ties)
  qed
  ultimately have "filter (\<lambda>c. ?w \<le> score_key c) ?s = take k ?s @ takeWhile (\<lambda>c. score_key c = ?w) (drop k ?s)"
    by (metis append_take_drop_id filter_append)
  then have "truncate_to_k_with_score_ties k sc_score ?s = filter (\<lambda>c. ?w \<le> score_key c) ?s"
    using False len by (simp add: truncate_to_k_with_score_ties_def Let_def take_add tie_count_take)
  also have "\<dots> = sort_candidates (filter (\<lambda>c. ?w \<le> score_key c) cs)"
    by (simp add: sort_candidates_def filter_sort)
  also have "\<dots> = topk_spec k cs"
    using descending_split [OF sort_candidates_scores [of cs], of k] False len
    by (intro topk_spec_eq) simp
  finally show ?thesis .
qed

end
