(* ===== verification/Topk_Memory.thy ===== *)
theory Topk_Memory
  imports Topk_Collector
begin

text \<open>
  A collector is never refused while its counter has room: a bound on what it charges, and the resulting
  guarantee that the selection returns.
\<close>

section \<open>Room in the accounting block\<close>

definition room :: "nat \<Rightarrow> scan_memory \<Rightarrow> bool" where
  "room limit = (\<lambda>(a, r).
     \<not> ac_poisoned a \<and> rv_component r = AcTemporary \<and>
     rv_bytes r \<le> as_resident_owned (ac_state a) \<and> rv_bytes r \<le> as_temporary (ac_state a) \<and>
     unat (as_resident_owned (ac_state a)) - unat (rv_bytes r) + limit \<le> unat (ac_ceiling a) \<and>
     unat (as_resident_owned (ac_state a)) - unat (rv_bytes r) + limit \<le> unat (bu_resident (ac_budgets a)) \<and>
     unat (as_temporary (ac_state a)) - unat (rv_bytes r) + limit \<le> unat (bu_temporary (ac_budgets a)))"

lemma checked_add_fits:
  assumes "unat a + unat b \<le> unat (c :: u64)"
  shows "checked_add_u64 a b = Some (a + b)" "unat (a + b) = unat a + unat b"
proof -
  have "unat a + unat b \<le> usize_max" using assms unat_u64_le [of c] by linarith
  then show "checked_add_u64 a b = Some (a + b)" by (simp add: checked_add_u64_def)
  then show "unat (a + b) = unat a + unat b" using checked_add_u64_Some by blast
qed

lemma room_le:
  assumes "room limit mem" shows "limit \<le> usize_max"
proof (cases mem)
  case (Pair a r)
  have "limit \<le> unat (ac_ceiling a)" using assms by (simp add: room_def Pair)
  also have "\<dots> \<le> usize_max" by simp
  finally show ?thesis .
qed

lemma grow_room:
  assumes "room limit (a, r)" "unat (rv_bytes r) + unat n \<le> limit"
  shows "\<exists>a' r'. reservation_grow a r n = (Ok (), a', r') \<and> room limit (a', r')"
proof -
  let ?st = "ac_state a"
  let ?res = "as_resident_owned ?st + n" and ?temp = "as_temporary ?st + n"
  have r: "rv_component r = AcTemporary" "\<not> ac_poisoned a"
    "unat (rv_bytes r) \<le> unat (as_resident_owned ?st)" "unat (rv_bytes r) \<le> unat (as_temporary ?st)"
    using assms(1) by (auto simp: room_def word_le_nat_alt)
  have resident: "unat (as_resident_owned ?st) + unat n \<le> unat (ac_ceiling a)"
    "unat (as_resident_owned ?st) + unat n \<le> unat (bu_resident (ac_budgets a))"
    "unat (as_temporary ?st) + unat n \<le> unat (bu_temporary (ac_budgets a))"
    using assms r(3,4) by (auto simp: room_def)
  note adds = checked_add_fits [OF resident(1)] checked_add_fits [OF resident(3)]
  have check: "budgets_check (ac_budgets a) (as_resident_owned ?st) (as_temporary ?st) n
      (component_name AcTemporary) (is_temporary AcTemporary) = Ok (?res, ?temp)"
    using adds resident by (auto simp: budgets_check_Ok is_temporary_iff word_le_nat_alt)
  obtain a' where add: "accounting_add a n (rv_component r) = Ok a'"
    and a': "ac_poisoned a' = ac_poisoned a" "ac_ceiling a' = ac_ceiling a" "ac_budgets a' = ac_budgets a"
      "as_resident_owned (ac_state a') = ?res" "as_temporary (ac_state a') = ?temp"
    using check resident(1) adds r(1,2)
    by (auto simp: accounting_add_def acct_lock_def Let_def not_less word_le_nat_alt update_component_def
        is_temporary_iff)
  have sum: "checked_add_u64 (rv_bytes r) n = Some (rv_bytes r + n)" "unat (rv_bytes r + n) = unat (rv_bytes r) + unat n"
    using checked_add_fits [of "rv_bytes r" n "ac_ceiling a"] resident(1) r(3) by linarith+
  have "room limit (a', r\<lparr>rv_bytes := rv_bytes r + n\<rparr>)"
    using assms(1) r a' adds sum(2) by (simp add: room_def word_le_nat_alt)
  then show ?thesis using add sum(1) by (simp add: reservation_grow_def)
qed

lemma shrink_room:
  assumes "room limit (a, r)" "n \<le> rv_bytes r"
  shows "room limit (reservation_shrink a r n)"
proof -
  have n: "unat n \<le> unat (rv_bytes r)" "min n (rv_bytes r) = n"
    using assms(2) by (simp_all add: word_le_nat_alt min_def)
  show ?thesis
    using assms(1) n
    by (simp add: room_def reservation_shrink_def Let_def release_bytes_def word_le_nat_alt
        temporary_component unat_saturating_sub_u64) linarith
qed

lemma memory_set_room:
  assumes "room limit mem" "n \<le> limit"
  shows "\<exists>mem'. memory_set mem n = (Ok (), mem') \<and> room limit mem'"
proof -
  obtain a r where mem: "mem = (a, r)" by (cases mem)
  have n: "n \<le> usize_max" using assms room_le by fastforce
  then have unat_n: "unat (u64_of_usize n) = n" by (rule unat_u64_of_usize)
  show ?thesis
  proof (cases "rv_bytes r \<le> u64_of_usize n")
    case True
    then have "unat (rv_bytes r) + unat (saturating_sub_u64 (u64_of_usize n) (rv_bytes r)) \<le> limit"
      using assms(2) by (simp add: unat_saturating_sub_u64 unat_n word_le_nat_alt)
    then show ?thesis
      using grow_room [OF assms(1) [unfolded mem]] True n
      by (auto simp: memory_set_def counter_set_def mem Let_def)
  next
    case False
    have "saturating_sub_u64 (rv_bytes r) (u64_of_usize n) \<le> rv_bytes r"
      by (simp add: word_le_nat_alt unat_saturating_sub_u64)
    then show ?thesis
      using shrink_room [OF assms(1) [unfolded mem]] False n
      by (auto simp: memory_set_def counter_set_def mem Let_def split: prod.splits)
  qed
qed

lemma charge_room:
  assumes "room limit mem" "SCAN_CANDIDATE_SIZE * n \<le> limit"
  shows "\<exists>mem'. charge mem n = (Ok (), mem') \<and> room limit mem'"
proof -
  have "n * SCAN_CANDIDATE_SIZE \<le> usize_max" using assms room_le by (fastforce simp: mult.commute)
  then show ?thesis
    using memory_set_room [OF assms(1), of "n * SCAN_CANDIDATE_SIZE"] assms(2)
    by (simp add: charge_def candidate_bytes_def mult.commute)
qed

section \<open>What the heap collector charges\<close>

text \<open>After \<open>n\<close> pushes: the boundary holds at most \<open>n\<close> candidates in at most \<open>2 * n + 2\<close> slots.\<close>

definition sized :: "nat \<Rightarrow> nat \<Rightarrow> bounded_topk \<Rightarrow> bool" where
  "sized k n t \<longleftrightarrow> bt_limit t = k \<and> bt_heap_capacity t = k \<and> length (bt_heap t) + length (bt_boundary t) \<le> n \<and>
     length (bt_boundary t) \<le> bt_boundary_capacity t \<and> bt_boundary_capacity t \<le> 2 * n + 2"

lemma reserve_boundary_room:
  assumes "room limit mem" "SCAN_CANDIDATE_SIZE * (heap_capacity + (2 * n + 2)) \<le> limit"
    and "len \<le> n" "len \<le> old_capacity" "old_capacity \<le> 2 * n + 2"
  shows "\<exists>capacity mem'. reserve_boundary Some heap_capacity mem len old_capacity = (Ok capacity, mem') \<and>
    len < capacity \<and> capacity \<le> 2 * n + 2 \<and> room limit mem'"
proof (cases "len = old_capacity")
  case False
  then show ?thesis using assms by (auto simp: reserve_boundary_def)
next
  case True
  define c where "c = max old_capacity 1 * 2"
  have c: "c \<le> 2 * n + 2" "len < c" using assms(3) True by (auto simp: c_def)
  have bytes: "SCAN_CANDIDATE_SIZE * (heap_capacity + c) \<le> limit"
    using assms(2) c(1) by (metis add_left_mono le_trans mult_le_mono2)
  then obtain mem' where mem': "charge mem (heap_capacity + c) = (Ok (), mem')" "room limit mem'"
    using charge_room assms(1) by blast
  have fits: "heap_capacity + c \<le> usize_max" "c \<le> usize_max"
    using bytes room_le [OF assms(1)] by (simp_all add: SCAN_CANDIDATE_SIZE_def)
  have mul: "checked_mul_usize (max old_capacity 1) 2 = Some c"
    using fits(2) unfolding c_def by (rule checked_mul_usize_ok)
  have grow: "vec_reserve_exact Some len old_capacity (c - len) = Some c"
    using True c(2) fits(2) by (simp add: vec_reserve_exact_def)
  have "reserve_boundary Some heap_capacity mem len old_capacity = (Ok c, mem')"
    unfolding reserve_boundary_def mul using True fits(1) mem'(1) grow by simp
  then show ?thesis using c mem'(2) by blast
qed

lemma push_room:
  assumes "room limit mem" "SCAN_CANDIDATE_SIZE * (k + (2 * n + 2)) \<le> limit" "sized k n t"
  shows "\<exists>mem' t'. bounded_try_push Some t c mem = (Ok (), mem', t') \<and> room limit mem' \<and> sized k (Suc n) t'"
proof -
  have t: "bt_limit t = k" "bt_heap_capacity t = k" "length (bt_boundary t) \<le> n"
    "length (bt_boundary t) \<le> bt_boundary_capacity t" "bt_boundary_capacity t \<le> 2 * n + 2"
    "length (bt_heap t) + length (bt_boundary t) \<le> n"
    using assms(3) by (auto simp: sized_def)
  obtain capacity mem' where reserve:
    "reserve_boundary Some k mem (length (bt_boundary t)) (bt_boundary_capacity t) = (Ok capacity, mem')"
    "length (bt_boundary t) < capacity" "capacity \<le> 2 * n + 2" "room limit mem'"
    using reserve_boundary_room [OF assms(1,2) t(3-5)] by blast
  show ?thesis
  proof (cases "bt_limit t = 0 \<or> length (bt_heap t) < bt_limit t")
    case True
    then show ?thesis using t assms(1) by (cases mem) (auto simp: bounded_try_push_def push_with_reserve_def sized_def)
  next
    case False
    then obtain w rest where heap: "bt_heap t = w # rest" by (cases "bt_heap t") auto
    obtain v h where next_heap: "heap_push (HeapCandidate c) rest = v # h"
      by (cases "heap_push (HeapCandidate c) rest") (auto dest: arg_cong [of _ _ length])
    have len: "length h = length rest" using next_heap by (metis heap_push_length length_Cons nat.inject)
    consider "score_key c < score_key (heap_inner w)" | "score_key c = score_key (heap_inner w)"
      | "score_key (heap_inner w) < score_key c" "score_key (heap_inner w) = score_key (heap_inner v)"
      | "score_key (heap_inner w) < score_key c" "score_key (heap_inner w) \<noteq> score_key (heap_inner v)"
      by linarith
    then show ?thesis
    proof cases
      case 1
      then show ?thesis using t assms(1) heap False
        by (cases mem) (simp add: bounded_try_push_def push_with_reserve_def sized_def heap_peek_def)
    next
      case 2
      then show ?thesis using t heap False reserve
        by (simp add: bounded_try_push_def push_with_reserve_def sized_def heap_peek_def boundary_push_def push_capacity_def)
    next
      case 3
      then show ?thesis
        using t heap False reserve len next_heap
          length_filter_le [of "\<lambda>tied. score_key tied = score_key (heap_inner v)" "bt_boundary t"]
        by (simp add: bounded_try_push_def push_with_reserve_def sized_def heap_peek_def heap_pop_def Let_def
            boundary_push_def push_capacity_def del: length_filter_le)
    next
      case 4
      then show ?thesis
        using t heap False assms(1) len next_heap
          length_filter_le [of "\<lambda>tied. score_key tied = score_key (heap_inner v)" "bt_boundary t"]
        by (simp add: bounded_try_push_def push_with_reserve_def sized_def heap_peek_def heap_pop_def Let_def
            del: length_filter_le)
    qed
  qed
qed

lemma push_all_room:
  assumes "room limit mem" "SCAN_CANDIDATE_SIZE * (k + (2 * (n + length cs) + 2)) \<le> limit" "sized k n t"
  shows "\<exists>mem' t'. exact_push_all Some cs (EtHeap t) mem = (Ok (), mem', EtHeap t') \<and> room limit mem'
    \<and> sized k (n + length cs) t'"
  using assms
proof (induction cs arbitrary: n t mem)
  case Nil
  then show ?case by (cases mem) auto
next
  case (Cons c cs)
  have "SCAN_CANDIDATE_SIZE * (k + (2 * n + 2)) \<le> limit"
    using Cons.prems(2) by (simp add: SCAN_CANDIDATE_SIZE_def)
  then obtain mem1 t1 where step: "bounded_try_push Some t c mem = (Ok (), mem1, t1)" "room limit mem1" "sized k (Suc n) t1"
    using push_room [OF Cons.prems(1) _ Cons.prems(3)] by blast
  have "SCAN_CANDIDATE_SIZE * (k + (2 * (Suc n + length cs) + 2)) \<le> limit" using Cons.prems(2) by simp
  then show ?case using Cons.IH [OF step(2) _ step(3)] step(1) by (auto simp: exact_try_push_def)
qed

lemma drain_room:
  assumes "room limit mem" "SCAN_CANDIDATE_SIZE * (k + (2 * n + 2)) \<le> limit" "sized k n t"
  shows "\<exists>out m mem'. bounded_drain Some t mem = (Ok (out, m), mem')"
proof -
  let ?len = "length (bt_heap t) + length (bt_boundary t)"
  have t: "bt_heap_capacity t = k" "?len \<le> n" "bt_boundary_capacity t \<le> 2 * n + 2" using assms(3) by (auto simp: sized_def)
  have below: "SCAN_CANDIDATE_SIZE * m \<le> limit \<and> m \<le> usize_max" if "m \<le> k + (2 * n + 2)" for m
    using assms(2) that room_le [OF assms(1)] by (simp add: SCAN_CANDIDATE_SIZE_def)
  have fits: "?len \<le> usize_max" "k + ?len \<le> usize_max" using below [of ?len] below [of "k + ?len"] t(2) by auto
  have charge: "\<exists>mem'. charge mem1 m = (Ok (), mem') \<and> room limit mem'" if "room limit mem1" "m \<le> k + (2 * n + 2)" for m mem1
    using charge_room [OF that(1)] below [OF that(2)] by blast
  show ?thesis
  proof (cases "bt_boundary_capacity t < ?len")
    case True
    obtain mem1 where mem1: "charge mem (k + ?len) = (Ok (), mem1)" "room limit mem1"
      using charge [OF assms(1), of "k + ?len"] t(2) by auto
    obtain mem2 where mem2: "charge mem1 ?len = (Ok (), mem2)" using charge [OF mem1(2), of ?len] t(2) by auto
    have "vec_reserve_exact Some (length (bt_boundary t)) (bt_boundary_capacity t) (length (bt_heap t)) = Some ?len"
      using True fits assms(3) by (auto simp: vec_reserve_exact_def sized_def)
    then show ?thesis
      using True fits mem1(1) mem2 t(1) by (simp add: bounded_drain_def Let_def)
  next
    case False
    obtain mem2 where "charge mem (bt_boundary_capacity t) = (Ok (), mem2)"
      using charge [OF assms(1), of "bt_boundary_capacity t"] t(3) by auto
    then show ?thesis using False fits by (simp add: bounded_drain_def Let_def)
  qed
qed

section \<open>The selection returns\<close>

text \<open>The bytes a selection of \<open>n\<close> candidates may charge at any moment.\<close>

definition topk_bytes :: "nat \<Rightarrow> nat \<Rightarrow> nat" where
  "topk_bytes limit n = SCAN_CANDIDATE_SIZE * (limit + (2 * n + 2))"

lemma unordered_push_all:
  assumes "length xs + length cs \<le> capacity"
  shows "exact_push_all grant cs (EtUnordered k xs capacity) mem = (Ok (), mem, EtUnordered k (xs @ cs) capacity)"
  using assms by (induction cs arbitrary: xs) (auto simp: exact_try_push_def)

lemma exact_completes:
  assumes "room limit mem" "topk_bytes (min k eligible) eligible \<le> limit" "length cs \<le> eligible"
  shows "\<exists>x mem1 y mem2 out n mem3. exact_try_new Some k eligible mem = (Ok x, mem1) \<and>
    exact_push_all Some cs x mem1 = (Ok (), mem2, y) \<and> exact_drain Some y mem2 = (Ok (out, n), mem3)"
proof -
  have bytes: "SCAN_CANDIDATE_SIZE * m \<le> limit" "m \<le> usize_max" if "m \<le> min k eligible + (2 * eligible + 2)" for m
    using assms(2) that room_le [OF assms(1)] by (simp_all add: topk_bytes_def SCAN_CANDIDATE_SIZE_def)
  show ?thesis
  proof (cases "eligible \<le> saturating_mul_usize (min k eligible) 2")
    case True
    obtain mem1 where "charge mem eligible = (Ok (), mem1)" using charge_room [OF assms(1) bytes(1), of eligible] by auto
    moreover have "vec_reserve_exact Some 0 0 eligible = Some eligible"
      using bytes(2) [of eligible] by (simp add: vec_reserve_exact_def)
    ultimately show ?thesis
      using True assms(3) by (simp add: exact_try_new_def Let_def unordered_push_all exact_drain_def)
  next
    case False
    let ?k = "min k eligible"
    obtain mem1 where mem1: "charge mem ?k = (Ok (), mem1)" "room limit mem1"
      using charge_room [OF assms(1) bytes(1), of ?k] by auto
    have "vec_reserve_exact Some 0 0 ?k = Some ?k" using bytes(2) [of eligible] by (simp add: vec_reserve_exact_def)
    then obtain t where new: "exact_try_new Some k eligible mem = (Ok (EtHeap t), mem1)" and t: "sized ?k 0 t"
      using False mem1(1) by (simp add: exact_try_new_def bounded_try_new_def Let_def sized_def)
    have enough: "SCAN_CANDIDATE_SIZE * (?k + (2 * (0 + length cs) + 2)) \<le> limit"
      using bytes(1) [of "?k + (2 * (0 + length cs) + 2)"] assms(3) by simp
    obtain mem2 t' where pushed: "exact_push_all Some cs (EtHeap t) mem1 = (Ok (), mem2, EtHeap t')" "room limit mem2"
        "sized ?k (0 + length cs) t'"
      using push_all_room [OF mem1(2) enough t] by blast
    then show ?thesis using new drain_room [OF pushed(2) enough pushed(3)] by (fastforce simp: exact_drain_def)
  qed
qed

end
