(* ===== verification/Scan.thy ===== *)
theory Scan
  imports Payload Bitmap Topk_Memory
begin

text \<open>
  The exact scan of \<open>scan/mod.rs\<close>: request geometry and validation, the row-major scans of the four
  schemes, the partition scan, and the gather over an allow-list. The floating-point kernels are the
  fields of a parameter: a scan is about which rows are scored, in which order errors surface, and
  which candidates are kept, whatever number a kernel gives a row.
\<close>

section \<open>Kernels, queries and rows\<close>

datatype scan_scheme = SchemeF32 | SchemeF16 | SchemeInt8 | SchemeBit4

record int8_factors =
  i8_scale :: f32
  i8_offset :: f32

datatype int8_factors_error = NonFiniteScale | NegativeScale | NonFiniteOffset

text \<open>\<open>scale < 0.0\<close> on a finite value: the sign bit is set and the value is not negative zero.\<close>

definition f32_is_negative :: "f32 \<Rightarrow> bool" where
  "f32_is_negative x \<longleftrightarrow> bit x 31 \<and> x \<noteq> 0x80000000"

definition int8_factors_new :: "f32 \<Rightarrow> f32 \<Rightarrow> (int8_factors_error, int8_factors) result" where
  "int8_factors_new scale offset =
     (if \<not> f32_is_finite scale then Err NonFiniteScale
      else if f32_is_negative scale then Err NegativeScale
      else if \<not> f32_is_finite offset then Err NonFiniteOffset
      else Ok \<lparr>i8_scale = scale, i8_offset = offset\<rparr>)"

text \<open>
  What the scan calls of the kernels and the quantizers: the dot products of one row, the lengths of
  prepared queries, and the batch estimator of packed four-bit rows.
\<close>

record ('q8, 'q4, 'f4, 'qe) scan_kernels =
  k_dot_f32 :: "f32 list \<Rightarrow> f32 list \<Rightarrow> f32"
  k_dot_f16 :: "u16 list \<Rightarrow> u16 list \<Rightarrow> f32"
  k_int8_len :: "'q8 \<Rightarrow> nat"
  k_dot_int8 :: "'q8 \<Rightarrow> u8 list \<Rightarrow> int8_factors \<Rightarrow> ('qe, f32) result"
  k_bit4_len :: "'q4 \<Rightarrow> nat"
  k_bit4_batch :: "'q4 \<Rightarrow> u8 list \<Rightarrow> 'f4 list \<Rightarrow> ('qe, f32 list) result"

datatype ('q8, 'q4) scan_query =
    SqF32 "f32 list"
  | SqF16 "u16 list"
  | SqInt8 'q8
  | SqBit4 'q4

record f32_rows =
  fr_values :: "f32 list"
  fr_first_non_finite :: "nat option"

definition f32_rows_new :: "f32 list \<Rightarrow> f32_rows" where
  "f32_rows_new vs = \<lparr>fr_values = vs, fr_first_non_finite = position (\<lambda>v. \<not> f32_is_finite v) vs\<rparr>"

datatype 'f4 scan_rows =
    SrF32 f32_rows
  | SrF32Borrowed "f32 list"
  | SrF16 "u16 list"
  | SrInt8 "u8 list" "int8_factors list"
  | SrBit4 "u8 list" "'f4 list"

record ('q8, 'q4, 'f4, 'b) scan_request =
  rq_query :: "('q8, 'q4) scan_query"
  rq_rows :: "'f4 scan_rows"
  rq_mask :: "'b option"

text \<open>
  The errors of a scan. \<open>ScanPanicked\<close> is no error value of the code: it is the panic of a division by an
  empty query's length.
\<close>

datatype 'qe scan_error =
    ZeroDimension
  | RowDataLength nat nat
  | SchemeMismatch scan_scheme scan_scheme
  | FactorCount nat nat
  | NonFiniteInput nat
  | NonFiniteScore nat
  | QuantFailed 'qe
  | ScanOverflow
  | WorkerPanicked
  | ScanTimeout
  | ScanCancelled
  | ScanReadCancelled
  | ScanPanicked

primrec query_scheme :: "('q8, 'q4) scan_query \<Rightarrow> scan_scheme" where
  "query_scheme (SqF32 q) = SchemeF32"
| "query_scheme (SqF16 q) = SchemeF16"
| "query_scheme (SqInt8 q) = SchemeInt8"
| "query_scheme (SqBit4 q) = SchemeBit4"

primrec rows_scheme :: "'f4 scan_rows \<Rightarrow> scan_scheme" where
  "rows_scheme (SrF32 r) = SchemeF32"
| "rows_scheme (SrF32Borrowed r) = SchemeF32"
| "rows_scheme (SrF16 r) = SchemeF16"
| "rows_scheme (SrInt8 c f) = SchemeInt8"
| "rows_scheme (SrBit4 c f) = SchemeBit4"

section \<open>Cancellation\<close>

text \<open>
  Where a scan asks its cancellation. The answers come from clocks, tokens and the snapshot lease, so
  they are an arbitrary function of the place; a scan without cancellation has the constant \<open>None\<close>.
\<close>

datatype check_point = CpEntry | CpScore nat | CpCount nat

type_synonym 'qe cancel = "check_point \<Rightarrow> 'qe scan_error option"

definition CANCELLATION_CHECK_ROWS :: nat where "CANCELLATION_CHECK_ROWS = 64"

definition check_cancellation :: "'qe cancel \<Rightarrow> check_point \<Rightarrow> ('qe scan_error, unit) result" where
  "check_cancellation cancel p = (case cancel p of None \<Rightarrow> Ok () | Some e \<Rightarrow> Err e)"

definition check_cancellation_at_row ::
  "'qe cancel \<Rightarrow> (nat \<Rightarrow> check_point) \<Rightarrow> nat \<Rightarrow> ('qe scan_error, unit) result" where
  "check_cancellation_at_row cancel p local_row =
     (if local_row mod CANCELLATION_CHECK_ROWS = 0 then check_cancellation cancel (p local_row) else Ok ())"

section \<open>Geometry and validation\<close>

record scan_geometry =
  sg_row_count :: nat
  sg_work_units :: nat

definition div_ceil :: "nat \<Rightarrow> nat \<Rightarrow> nat" where
  "div_ceil n d = (n + d - 1) div d"

definition query_dimensions :: "('q8, 'q4, 'f4, 'qe) scan_kernels \<Rightarrow> ('q8, 'q4) scan_query \<Rightarrow> nat" where
  "query_dimensions K q =
     (case q of SqF32 v \<Rightarrow> length v | SqF16 v \<Rightarrow> length v | SqInt8 p \<Rightarrow> k_int8_len K p | SqBit4 p \<Rightarrow> k_bit4_len K p)"

definition query_bytes_per_row ::
  "('q8, 'q4, 'f4, 'qe) scan_kernels \<Rightarrow> ('q8, 'q4) scan_query \<Rightarrow> ('qe scan_error, nat) result" where
  "query_bytes_per_row K q =
     (case q of
        SqF32 v \<Rightarrow> ok_or ScanOverflow (checked_mul_usize (length v) 4)
      | SqF16 v \<Rightarrow> ok_or ScanOverflow (checked_mul_usize (length v) 2)
      | SqInt8 p \<Rightarrow> Ok (k_int8_len K p)
      | SqBit4 p \<Rightarrow> Ok (div_ceil (k_bit4_len K p) 2))"

definition row_major_geometry :: "nat \<Rightarrow> nat \<Rightarrow> ('qe scan_error, nat \<times> nat) result" where
  "row_major_geometry scalar_count row_width =
     (if \<not> row_width dvd scalar_count then Err (RowDataLength row_width scalar_count)
      else Ok (scalar_count div row_width, scalar_count div row_width))"

definition require_factor_count :: "nat \<Rightarrow> nat \<Rightarrow> ('qe scan_error, unit) result" where
  "require_factor_count expected actual =
     (if expected \<noteq> actual then Err (FactorCount expected actual) else Ok ())"

definition validate_input :: "f32 list \<Rightarrow> nat option \<Rightarrow> ('qe scan_error, unit) result" where
  "validate_input q first_bad =
     (case position (\<lambda>v. \<not> f32_is_finite v) q of
        Some index \<Rightarrow> Err (NonFiniteInput index)
      | None \<Rightarrow>
          (case first_bad of
             None \<Rightarrow> Ok ()
           | Some local_index \<Rightarrow>
               and_then (ok_or ScanOverflow (checked_add_usize (length q) local_index))
                 (\<lambda>index. Err (NonFiniteInput index))))"

definition validate_f32 :: "f32 list \<Rightarrow> f32_rows \<Rightarrow> ('qe scan_error, unit) result" where
  "validate_f32 q r = validate_input q (fr_first_non_finite r)"

definition validate_f32_slice :: "f32 list \<Rightarrow> f32 list \<Rightarrow> ('qe scan_error, unit) result" where
  "validate_f32_slice q vs = validate_input q (position (\<lambda>v. \<not> f32_is_finite v) vs)"

definition scan_geometry_of ::
  "('q8, 'q4, 'f4, 'qe) scan_kernels \<Rightarrow> ('q8, 'q4, 'f4, 'b) scan_request \<Rightarrow> ('qe scan_error, scan_geometry) result" where
  "scan_geometry_of K req =
     (let q = rq_query req; dim = query_dimensions K q in
      if query_scheme q \<noteq> rows_scheme (rq_rows req)
      then Err (SchemeMismatch (query_scheme q) (rows_scheme (rq_rows req)))
      else if dim = 0 then Err ZeroDimension
      else
        map_ok (\<lambda>(row_count, work_units). \<lparr>sg_row_count = row_count, sg_work_units = work_units\<rparr>)
          (case rq_rows req of
             SrF32 r \<Rightarrow>
               and_then (row_major_geometry (length (fr_values r)) dim) (\<lambda>geometry.
               (case q of
                  SqF32 v \<Rightarrow> and_then (validate_f32 v r) (\<lambda>_. Ok geometry)
                | _ \<Rightarrow> Err ScanOverflow))
           | SrF32Borrowed vs \<Rightarrow>
               and_then (row_major_geometry (length vs) dim) (\<lambda>geometry.
               (case q of
                  SqF32 v \<Rightarrow> and_then (validate_f32_slice v vs) (\<lambda>_. Ok geometry)
                | _ \<Rightarrow> Err ScanOverflow))
           | SrF16 vs \<Rightarrow> row_major_geometry (length vs) dim
           | SrInt8 codes factors \<Rightarrow>
               and_then (row_major_geometry (length codes) dim) (\<lambda>geometry.
               and_then (require_factor_count (fst geometry) (length factors)) (\<lambda>_. Ok geometry))
           | SrBit4 codes factors \<Rightarrow>
               and_then (row_major_geometry (length codes) (div_ceil dim 2)) (\<lambda>geometry.
               and_then (require_factor_count (fst geometry) (length factors)) (\<lambda>_. Ok geometry))))"

section \<open>Rows\<close>

text \<open>\<open>slice.chunks_exact(n)\<close>, for a positive width.\<close>

definition chunks_exact :: "nat \<Rightarrow> 'a list \<Rightarrow> 'a list list" where
  "chunks_exact n xs = map (\<lambda>i. take n (drop (i * n) xs)) [0..<length xs div n]"

definition scalar_row_range :: "'a list \<Rightarrow> nat \<Rightarrow> nat \<Rightarrow> nat \<Rightarrow> ('qe scan_error, 'a list) result" where
  "scalar_row_range vs row_width first_row end_row =
     and_then (ok_or ScanOverflow (checked_mul_usize first_row row_width)) (\<lambda>s.
     and_then (ok_or ScanOverflow (checked_mul_usize end_row row_width)) (\<lambda>e.
     ok_or ScanOverflow (slice_range vs s e)))"

definition row_is_allowed :: "'b roaring \<Rightarrow> 'b option \<Rightarrow> nat \<Rightarrow> bool" where
  "row_is_allowed R rmask row_id =
     (case rmask of
        None \<Rightarrow> True
      | Some m \<Rightarrow> (case u32_try_from row_id of None \<Rightarrow> False | Some i \<Rightarrow> rb_contains R m i))"

primrec allowed_row_loop ::
  "'b roaring \<Rightarrow> 'b option \<Rightarrow> 'qe cancel \<Rightarrow> nat \<Rightarrow> nat list \<Rightarrow> nat \<Rightarrow> ('qe scan_error, nat) result" where
  "allowed_row_loop R rmask cancel local_row [] allowed = Ok allowed"
| "allowed_row_loop R rmask cancel local_row (row_id # ids) allowed =
     and_then (check_cancellation_at_row cancel CpCount local_row) (\<lambda>_.
     if row_is_allowed R rmask row_id
     then and_then (ok_or ScanOverflow (checked_add_usize allowed 1))
            (allowed_row_loop R rmask cancel (Suc local_row) ids)
     else allowed_row_loop R rmask cancel (Suc local_row) ids allowed)"

definition allowed_row_count ::
  "'b roaring \<Rightarrow> 'b option \<Rightarrow> nat \<Rightarrow> nat \<Rightarrow> 'qe cancel \<Rightarrow> ('qe scan_error, nat) result" where
  "allowed_row_count R rmask s e cancel = allowed_row_loop R rmask cancel 0 [s..<e] 0"

section \<open>The row-major scans\<close>

text \<open>
  The loop the three row-at-a-time scans share: the cancellation check, the row id, the mask, the score
  and its finiteness, then the push.
\<close>

primrec scan_row_loop ::
  "('row \<Rightarrow> ('qe scan_error, f32) result) \<Rightarrow> 'b roaring \<Rightarrow> 'b option \<Rightarrow> 'qe cancel \<Rightarrow> nat \<Rightarrow> nat \<Rightarrow> 'row list
   \<Rightarrow> bounded_topk \<Rightarrow> ('qe scan_error, bounded_topk) result" where
  "scan_row_loop score R rmask cancel first_row local_row [] selected = Ok selected"
| "scan_row_loop score R rmask cancel first_row local_row (row # rest) selected =
     and_then (check_cancellation_at_row cancel CpScore local_row) (\<lambda>_.
     and_then (ok_or ScanOverflow (checked_add_usize first_row local_row)) (\<lambda>row_id.
     if \<not> row_is_allowed R rmask row_id
     then scan_row_loop score R rmask cancel first_row (Suc local_row) rest selected
     else
       and_then (score row) (\<lambda>s.
       if \<not> f32_is_finite s then Err (NonFiniteScore row_id)
       else scan_row_loop score R rmask cancel first_row (Suc local_row) rest
              (bounded_push selected \<lparr>sc_row_id = row_id, sc_score = s\<rparr>))))"

definition scan_f32_rows ::
  "('q8, 'q4, 'f4, 'qe) scan_kernels \<Rightarrow> 'b roaring \<Rightarrow> f32 list \<Rightarrow> f32 list \<Rightarrow> 'b option \<Rightarrow> nat \<Rightarrow> nat \<Rightarrow> 'qe cancel
   \<Rightarrow> ('qe scan_error, scan_candidate list) result" where
  "scan_f32_rows K R q vs rmask k first_row cancel =
     (if q = [] then Err ScanPanicked
      else map_ok into_sorted_with_ties
        (scan_row_loop (\<lambda>row. Ok (k_dot_f32 K q row)) R rmask cancel first_row 0 (chunks_exact (length q) vs)
           (bounded_new (min k (length vs div length q)))))"

definition scan_f32 ::
  "('q8, 'q4, 'f4, 'qe) scan_kernels \<Rightarrow> 'b roaring \<Rightarrow> f32 list \<Rightarrow> f32_rows \<Rightarrow> 'b option \<Rightarrow> nat
   \<Rightarrow> ('qe scan_error, scan_candidate list) result" where
  "scan_f32 K R q r rmask k =
     (if q = [] then Err ZeroDimension
      else if \<not> length q dvd length (fr_values r) then Err (RowDataLength (length q) (length (fr_values r)))
      else and_then (validate_f32 q r) (\<lambda>_. scan_f32_rows K R q (fr_values r) rmask k 0 (\<lambda>_. None)))"

definition scan_f16_rows ::
  "('q8, 'q4, 'f4, 'qe) scan_kernels \<Rightarrow> 'b roaring \<Rightarrow> u16 list \<Rightarrow> u16 list \<Rightarrow> 'b option \<Rightarrow> nat \<Rightarrow> nat \<Rightarrow> 'qe cancel
   \<Rightarrow> ('qe scan_error, scan_candidate list) result" where
  "scan_f16_rows K R q vs rmask k first_row cancel =
     (if q = [] then Err ZeroDimension
      else if \<not> length q dvd length vs then Err (RowDataLength (length q) (length vs))
      else map_ok into_sorted_with_ties
        (scan_row_loop (\<lambda>row. Ok (k_dot_f16 K q row)) R rmask cancel first_row 0 (chunks_exact (length q) vs)
           (bounded_new (min k (length vs div length q)))))"

definition scan_int8_rows ::
  "('q8, 'q4, 'f4, 'qe) scan_kernels \<Rightarrow> 'b roaring \<Rightarrow> 'q8 \<Rightarrow> u8 list \<Rightarrow> int8_factors list \<Rightarrow> 'b option \<Rightarrow> nat \<Rightarrow> nat
   \<Rightarrow> 'qe cancel \<Rightarrow> ('qe scan_error, scan_candidate list) result" where
  "scan_int8_rows K R q codes factors rmask k first_row cancel =
     (let dim = k_int8_len K q in
      if dim = 0 then Err ZeroDimension
      else if \<not> dim dvd length codes then Err (RowDataLength dim (length codes))
      else if length factors \<noteq> length codes div dim then Err (FactorCount (length codes div dim) (length factors))
      else map_ok into_sorted_with_ties
        (scan_row_loop (\<lambda>(row, factor). map_err QuantFailed (k_dot_int8 K q row factor)) R rmask cancel first_row 0
           (zip (chunks_exact dim codes) factors) (bounded_new (min k (length codes div dim)))))"

text \<open>The packed rows are scored four at a time; the masked rows of a batch are scored too.\<close>

primrec bit4_push_loop ::
  "'b roaring \<Rightarrow> 'b option \<Rightarrow> nat \<Rightarrow> nat \<Rightarrow> nat \<Rightarrow> f32 list \<Rightarrow> bounded_topk \<Rightarrow> ('qe scan_error, bounded_topk) result" where
  "bit4_push_loop R rmask first_row batch_start batch_row [] selected = Ok selected"
| "bit4_push_loop R rmask first_row batch_start batch_row (s # ss) selected =
     and_then (ok_or ScanOverflow (checked_add_usize batch_start batch_row)) (\<lambda>local_row.
     and_then (ok_or ScanOverflow (checked_add_usize first_row local_row)) (\<lambda>row_id.
     if \<not> row_is_allowed R rmask row_id
     then bit4_push_loop R rmask first_row batch_start (Suc batch_row) ss selected
     else if \<not> f32_is_finite s then Err (NonFiniteScore row_id)
     else bit4_push_loop R rmask first_row batch_start (Suc batch_row) ss
            (bounded_push selected \<lparr>sc_row_id = row_id, sc_score = s\<rparr>)))"

function bit4_batch_loop ::
  "('q8, 'q4, 'f4, 'qe) scan_kernels \<Rightarrow> 'b roaring \<Rightarrow> 'q4 \<Rightarrow> u8 list \<Rightarrow> 'f4 list \<Rightarrow> 'b option \<Rightarrow> nat \<Rightarrow> 'qe cancel
   \<Rightarrow> nat \<Rightarrow> nat \<Rightarrow> nat \<Rightarrow> bounded_topk \<Rightarrow> ('qe scan_error, bounded_topk) result" where
  "bit4_batch_loop K R q codes factors rmask first_row cancel row_width row_count batch_start selected =
     (if row_count \<le> batch_start then Ok selected
      else
        and_then (check_cancellation_at_row cancel CpScore batch_start) (\<lambda>_.
        let batch_rows = min (row_count - batch_start) 4 in
        and_then (ok_or ScanOverflow (checked_add_usize batch_start batch_rows)) (\<lambda>batch_end.
        and_then (ok_or ScanOverflow (checked_mul_usize batch_start row_width)) (\<lambda>code_start.
        and_then (ok_or ScanOverflow (checked_mul_usize batch_end row_width)) (\<lambda>code_end.
        and_then (ok_or ScanOverflow (slice_range codes code_start code_end)) (\<lambda>batch_codes.
        and_then (ok_or ScanOverflow (slice_range factors batch_start batch_end)) (\<lambda>batch_factors.
        and_then (map_err QuantFailed (k_bit4_batch K q batch_codes batch_factors)) (\<lambda>batch_scores.
        and_then (bit4_push_loop R rmask first_row batch_start 0 batch_scores selected) (\<lambda>selected'.
        bit4_batch_loop K R q codes factors rmask first_row cancel row_width row_count
          (batch_start + batch_rows) selected')))))))))"
  by pat_completeness auto

termination
  by (relation "measure (\<lambda>(_, _, _, _, _, _, _, _, _, row_count, batch_start, _). row_count - batch_start)") auto

definition scan_bit4_rows ::
  "('q8, 'q4, 'f4, 'qe) scan_kernels \<Rightarrow> 'b roaring \<Rightarrow> 'q4 \<Rightarrow> u8 list \<Rightarrow> 'f4 list \<Rightarrow> 'b option \<Rightarrow> nat \<Rightarrow> nat
   \<Rightarrow> 'qe cancel \<Rightarrow> ('qe scan_error, scan_candidate list) result" where
  "scan_bit4_rows K R q codes factors rmask k first_row cancel =
     (let dim = k_bit4_len K q; row_width = div_ceil dim 2 in
      if dim = 0 then Err ZeroDimension
      else if \<not> row_width dvd length codes then Err (RowDataLength row_width (length codes))
      else
        let row_count = length codes div row_width in
        if length factors \<noteq> row_count then Err (FactorCount row_count (length factors))
        else map_ok into_sorted_with_ties
          (bit4_batch_loop K R q codes factors rmask first_row cancel row_width row_count 0
             (bounded_new (min k row_count))))"

section \<open>Whole scans\<close>

definition scan_top_k ::
  "('q8, 'q4, 'f4, 'qe) scan_kernels \<Rightarrow> 'b roaring \<Rightarrow> ('q8, 'q4, 'f4, 'b) scan_request \<Rightarrow> nat
   \<Rightarrow> ('qe scan_error, scan_candidate list) result" where
  "scan_top_k K R req k =
     (let rmask = rq_mask req in
      case (rq_query req, rq_rows req) of
        (SqF32 q, SrF32 r) \<Rightarrow> scan_f32 K R q r rmask k
      | (SqF32 q, SrF32Borrowed vs) \<Rightarrow>
          and_then (validate_f32_slice q vs) (\<lambda>_. scan_f32_rows K R q vs rmask k 0 (\<lambda>_. None))
      | (SqF16 q, SrF16 vs) \<Rightarrow> scan_f16_rows K R q vs rmask k 0 (\<lambda>_. None)
      | (SqInt8 q, SrInt8 codes factors) \<Rightarrow> scan_int8_rows K R q codes factors rmask k 0 (\<lambda>_. None)
      | (SqBit4 q, SrBit4 codes factors) \<Rightarrow> scan_bit4_rows K R q codes factors rmask k 0 (\<lambda>_. None)
      | (q, rs) \<Rightarrow> Err (SchemeMismatch (query_scheme q) (rows_scheme rs)))"

definition top_k ::
  "('q8, 'q4, 'f4, 'qe) scan_kernels \<Rightarrow> 'b roaring \<Rightarrow> ('q8, 'q4, 'f4, 'b) scan_request \<Rightarrow> nat
   \<Rightarrow> ('qe scan_error, scan_candidate list) result" where
  "top_k K R req k = map_ok (take k) (scan_top_k K R req k)"

record partition_scan =
  ps_candidates :: "scan_candidate list"
  ps_dims_touched :: u64
  ps_bytes_read :: u64
  ps_thread :: nat

definition checked_mul_u64 :: "u64 \<Rightarrow> u64 \<Rightarrow> u64 option" where
  "checked_mul_u64 a b = (if unat a * unat b \<le> usize_max then Some (a * b) else None)"

definition partition_stat_counts ::
  "('q8, 'q4, 'f4, 'qe) scan_kernels \<Rightarrow> nat \<Rightarrow> ('q8, 'q4) scan_query \<Rightarrow> ('qe scan_error, u64 \<times> u64) result" where
  "partition_stat_counts K scored_rows q =
     and_then (ok_or ScanOverflow
       (checked_mul_u64 (u64_of_usize scored_rows) (u64_of_usize (query_dimensions K q)))) (\<lambda>dims_touched.
     and_then (query_bytes_per_row K q) (\<lambda>bytes_per_row.
     and_then (ok_or ScanOverflow (map_option u64_of_usize (checked_mul_usize scored_rows bytes_per_row)))
       (\<lambda>bytes_read. Ok (dims_touched, bytes_read))))"

text \<open>The rows of a partition, sliced and scanned by their scheme.\<close>

definition partition_candidates ::
  "('q8, 'q4, 'f4, 'qe) scan_kernels \<Rightarrow> 'b roaring \<Rightarrow> ('q8, 'q4, 'f4, 'b) scan_request \<Rightarrow> nat \<Rightarrow> nat \<Rightarrow> nat \<Rightarrow> 'qe cancel
   \<Rightarrow> ('qe scan_error, scan_candidate list) result" where
  "partition_candidates K R req k s e cancel =
     (let rmask = rq_mask req in
      case (rq_query req, rq_rows req) of
        (SqF32 q, SrF32 r) \<Rightarrow>
          and_then (scalar_row_range (fr_values r) (length q) s e) (\<lambda>vs. scan_f32_rows K R q vs rmask k s cancel)
      | (SqF32 q, SrF32Borrowed values) \<Rightarrow>
          and_then (scalar_row_range values (length q) s e) (\<lambda>vs. scan_f32_rows K R q vs rmask k s cancel)
      | (SqF16 q, SrF16 values) \<Rightarrow>
          and_then (scalar_row_range values (length q) s e) (\<lambda>vs. scan_f16_rows K R q vs rmask k s cancel)
      | (SqInt8 q, SrInt8 codes factors) \<Rightarrow>
          and_then (scalar_row_range codes (k_int8_len K q) s e) (\<lambda>cs.
          and_then (ok_or ScanOverflow (slice_range factors s e)) (\<lambda>fs.
          scan_int8_rows K R q cs fs rmask k s cancel))
      | (SqBit4 q, SrBit4 codes factors) \<Rightarrow>
          and_then (scalar_row_range codes (div_ceil (k_bit4_len K q) 2) s e) (\<lambda>cs.
          and_then (ok_or ScanOverflow (slice_range factors s e)) (\<lambda>fs.
          scan_bit4_rows K R q cs fs rmask k s cancel))
      | (q, rs) \<Rightarrow> Err (SchemeMismatch (query_scheme q) (rows_scheme rs)))"

definition scan_partition ::
  "('q8, 'q4, 'f4, 'qe) scan_kernels \<Rightarrow> 'b roaring \<Rightarrow> nat \<Rightarrow> ('q8, 'q4, 'f4, 'b) scan_request \<Rightarrow> nat \<Rightarrow> nat \<times> nat
   \<Rightarrow> 'qe cancel \<Rightarrow> ('qe scan_error, partition_scan) result" where
  "scan_partition K R thread req k part cancel =
     (let (s, e) = part in
      and_then (check_cancellation cancel CpEntry) (\<lambda>_.
      and_then (scan_geometry_of K req) (\<lambda>geometry.
      if e < s \<or> sg_row_count geometry < e then Err ScanOverflow
      else
        and_then (partition_candidates K R req k s e cancel)
        (\<lambda>candidates.
        and_then (case rq_rows req of SrBit4 _ _ \<Rightarrow> Ok (e - s) | _ \<Rightarrow> allowed_row_count R (rq_mask req) s e cancel) (\<lambda>scored_rows.
        and_then (partition_stat_counts K scored_rows (rq_query req)) (\<lambda>(dims_touched, bytes_read).
        Ok \<lparr>ps_candidates = candidates, ps_dims_touched = dims_touched, ps_bytes_read = bytes_read,
            ps_thread = thread\<rparr>))))))"

section \<open>The gather\<close>

text \<open>One row, scored as the gather scores it.\<close>

definition row_score ::
  "('q8, 'q4, 'f4, 'qe) scan_kernels \<Rightarrow> ('q8, 'q4, 'f4, 'b) scan_request \<Rightarrow> nat \<Rightarrow> ('qe scan_error, f32) result" where
  "row_score K req row =
     (case (rq_query req, rq_rows req) of
        (SqF32 q, SrF32 r) \<Rightarrow>
          and_then (scalar_row_range (fr_values r) (length q) row (row + 1)) (\<lambda>v. Ok (k_dot_f32 K q v))
      | (SqF32 q, SrF32Borrowed values) \<Rightarrow>
          and_then (scalar_row_range values (length q) row (row + 1)) (\<lambda>v. Ok (k_dot_f32 K q v))
      | (SqF16 q, SrF16 values) \<Rightarrow>
          and_then (scalar_row_range values (length q) row (row + 1)) (\<lambda>v. Ok (k_dot_f16 K q v))
      | (SqInt8 q, SrInt8 codes factors) \<Rightarrow>
          and_then (scalar_row_range codes (k_int8_len K q) row (row + 1)) (\<lambda>v.
          and_then (ok_or ScanOverflow (list_get factors row)) (\<lambda>factor.
          map_err QuantFailed (k_dot_int8 K q v factor)))
      | (SqBit4 q, SrBit4 codes factors) \<Rightarrow>
          and_then (scalar_row_range codes (div_ceil (k_bit4_len K q) 2) row (row + 1)) (\<lambda>v.
          and_then (ok_or ScanOverflow (list_get factors row)) (\<lambda>factor.
          map_ok hd (map_err QuantFailed (k_bit4_batch K q v [factor]))))
      | (q, rs) \<Rightarrow> Err (SchemeMismatch (query_scheme q) (rows_scheme rs)))"

definition score_gather_row ::
  "('q8, 'q4, 'f4, 'qe) scan_kernels \<Rightarrow> ('q8, 'q4, 'f4, 'b) scan_request \<Rightarrow> nat \<Rightarrow> ('qe scan_error, scan_candidate) result" where
  "score_gather_row K req row =
     and_then (row_score K req row)
     (\<lambda>s. if \<not> f32_is_finite s then Err (NonFiniteScore row) else Ok \<lparr>sc_row_id = row, sc_score = s\<rparr>)"

primrec gather_loop ::
  "('q8, 'q4, 'f4, 'qe) scan_kernels \<Rightarrow> ('q8, 'q4, 'f4, 'b) scan_request \<Rightarrow> 'qe cancel \<Rightarrow> nat \<Rightarrow> nat \<Rightarrow> nat list
   \<Rightarrow> bounded_topk \<times> nat \<Rightarrow> ('qe scan_error, bounded_topk \<times> nat) result" where
  "gather_loop K req cancel row_count ordinal [] acc = Ok acc"
| "gather_loop K req cancel row_count ordinal (row # rest) acc =
     and_then (check_cancellation_at_row cancel CpScore ordinal) (\<lambda>_.
     if row_count \<le> row then gather_loop K req cancel row_count (Suc ordinal) rest acc
     else
       and_then (score_gather_row K req row) (\<lambda>c.
       and_then (ok_or ScanOverflow (checked_add_usize (snd acc) 1)) (\<lambda>scored.
       gather_loop K req cancel row_count (Suc ordinal) rest (bounded_push (fst acc) c, scored))))"

record scan_outcome =
  so_candidates :: "scan_candidate list"
  so_worst_score :: "f32 option"
  so_dims_touched :: u64
  so_bytes_read :: u64
  so_threads_used :: nat
  so_worker_threads :: "nat list"

definition gather_top_k ::
  "('q8, 'q4, 'f4, 'qe) scan_kernels \<Rightarrow> 'b roaring \<Rightarrow> nat \<Rightarrow> ('q8, 'q4, 'f4, 'b) scan_request \<Rightarrow> nat \<Rightarrow> 'qe cancel
   \<Rightarrow> ('qe scan_error, scan_outcome) result" where
  "gather_top_k K R thread req k cancel =
     and_then (check_cancellation cancel CpEntry) (\<lambda>_.
     and_then (scan_geometry_of K req) (\<lambda>geometry.
     let row_count = sg_row_count geometry;
         ids = (case rq_mask req of
                  Some allow_list \<Rightarrow> map unat (rb_iter R allow_list)
                | None \<Rightarrow> [0..<row_count]) in
     and_then (gather_loop K req cancel row_count 0 ids (bounded_new (min k row_count), 0)) (\<lambda>(selected, scored_rows).
     and_then (partition_stat_counts K scored_rows (rq_query req)) (\<lambda>(dims_touched, bytes_read).
     let threads = (if scored_rows \<noteq> 0 then [thread] else []) in
     Ok \<lparr>so_candidates = into_sorted_with_ties selected, so_worst_score = None,
         so_dims_touched = dims_touched, so_bytes_read = bytes_read,
         so_threads_used = length threads, so_worker_threads = threads\<rparr>))))"

end
