(* ===== verification/Scan_Exact.thy ===== *)
theory Scan_Exact
  imports Scan
begin

text \<open>
  Every way of scanning gives the same answer: the best candidates among the allowed rows, each scored
  alone. The row loops, the batched loop and the gather are related to one list of candidates.
\<close>

section \<open>Candidates of a set of rows\<close>

primrec try_map :: "('a \<Rightarrow> ('e, 'b) result) \<Rightarrow> 'a list \<Rightarrow> ('e, 'b list) result" where
  "try_map f [] = Ok []"
| "try_map f (x # xs) = and_then (f x) (\<lambda>y. map_ok ((#) y) (try_map f xs))"

lemma try_map_Ok: "try_map f xs = Ok ys \<longleftrightarrow> list_all2 (\<lambda>x y. f x = Ok y) xs ys"
  by (induction xs arbitrary: ys) (auto simp: result_Inr list_all2_Cons1)

lemma try_map_append: "try_map f xs = Ok as \<Longrightarrow> try_map f ys = Ok bs \<Longrightarrow> try_map f (xs @ ys) = Ok (as @ bs)"
  by (simp add: try_map_Ok list_all2_appendI)

lemma try_map_length: "try_map f xs = Ok ys \<Longrightarrow> length ys = length xs"
  by (auto simp: try_map_Ok dest: list_all2_lengthD)

text \<open>The candidates of the allowed rows from \<open>s\<close> up to \<open>e\<close>, in the order of the rows.\<close>

definition row_candidates ::
  "('q8, 'q4, 'f4, 'qe) scan_kernels \<Rightarrow> 'b roaring \<Rightarrow> ('q8, 'q4, 'f4, 'b) scan_request \<Rightarrow> nat \<Rightarrow> nat
   \<Rightarrow> ('qe scan_error, scan_candidate list) result" where
  "row_candidates K R req s e = try_map (score_gather_row K req) (filter (row_is_allowed R (rq_mask req)) [s..<e])"

lemma row_candidates_Nil [simp]: "row_candidates K R req s s = Ok []"
  by (simp add: row_candidates_def)

lemma row_candidates_append:
  assumes "row_candidates K R req s m = Ok xs" "row_candidates K R req m e = Ok ys" "s \<le> m" "m \<le> e"
  shows "row_candidates K R req s e = Ok (xs @ ys)"
proof -
  have "[s..<e] = [s..<m] @ [m..<e]" using assms(3,4) by (metis le_Suc_ex upt_add_eq_append)
  then show ?thesis using assms(1,2) by (simp add: row_candidates_def try_map_append)
qed

lemma row_candidates_skip:
  assumes "\<not> row_is_allowed R (rq_mask req) s" "s < e"
  shows "row_candidates K R req s e = row_candidates K R req (Suc s) e"
  using assms by (simp add: row_candidates_def upt_conv_Cons)

lemma row_candidates_step:
  assumes "row_is_allowed R (rq_mask req) s" "s < e" "row_score K req s = Ok x" "f32_is_finite x"
    "row_candidates K R req (Suc s) e = Ok cs"
  shows "row_candidates K R req s e = Ok (\<lparr>sc_row_id = s, sc_score = x\<rparr> # cs)"
  using assms by (simp add: row_candidates_def upt_conv_Cons score_gather_row_def)

lemma row_candidates_length: "row_candidates K R req s e = Ok cs \<Longrightarrow> length cs \<le> e - s"
  unfolding row_candidates_def by (drule try_map_length) (metis length_filter_le length_upt)

text \<open>What a full collector answers, when its limit was clamped to the number of rows.\<close>

lemma clamped_answer:
  assumes "length cs \<le> n"
  shows "into_sorted_with_ties (foldl bounded_push (bounded_new (min k n)) cs) = topk_spec k cs"
proof -
  have "kept (min k n) (mset cs) = kept k (mset cs)" using assms by (simp add: kept_min)
  then have "topk_spec (min k n) cs = topk_spec k cs" by (metis kept_mset topk_spec_eq topk_spec_def)
  then show ?thesis by (simp add: bounded_answer)
qed

section \<open>The row loop\<close>

lemma scan_row_loop_exact:
  assumes "scan_row_loop score R (rq_mask req) cancel first_row local_row rs t = Ok t'"
    and "\<And>i. i < length rs \<Longrightarrow> score (rs ! i) = row_score K req (first_row + local_row + i)"
  shows "\<exists>cs. row_candidates K R req (first_row + local_row) (first_row + local_row + length rs) = Ok cs \<and>
    t' = foldl bounded_push t cs"
  using assms
proof (induction rs arbitrary: local_row t)
  case (Cons r rs)
  let ?row = "first_row + local_row"
  have tail: "\<And>i. i < length rs \<Longrightarrow> score (rs ! i) = row_score K req (first_row + Suc local_row + i)"
    using Cons.prems(2) [of "Suc _"] by simp
  have id: "checked_add_usize first_row local_row = Some ?row"
    using Cons.prems(1) by (auto simp: result_Inr checked_add_usize_def split: if_splits)
  show ?case
  proof (cases "row_is_allowed R (rq_mask req) ?row")
    case False
    then have "scan_row_loop score R (rq_mask req) cancel first_row (Suc local_row) rs t = Ok t'"
      using Cons.prems(1) id by (auto simp: result_Inr)
    then show ?thesis using Cons.IH [OF _ tail] row_candidates_skip [OF False, of "?row + Suc (length rs)" K] by auto
  next
    case True
    then obtain x where x: "score r = Ok x" "f32_is_finite x"
      and rest: "scan_row_loop score R (rq_mask req) cancel first_row (Suc local_row) rs
        (bounded_push t \<lparr>sc_row_id = ?row, sc_score = x\<rparr>) = Ok t'"
      using Cons.prems(1) id by (auto simp: result_Inr split: if_splits)
    have "row_score K req ?row = Ok x" using Cons.prems(2) [of 0] x(1) by simp
    then show ?thesis
      using Cons.IH [OF rest tail] row_candidates_step [OF True _ _ x(2), of "?row + Suc (length rs)" K] by auto
  qed
qed simp

section \<open>The batched loop\<close>

text \<open>
  The batch estimator scores every row as it scores that row alone: the documented behaviour of the
  kernel, whose scalar table is the oracle of every dispatched tier.
\<close>

definition bit4_rowwise :: "('q8, 'q4, 'f4, 'qe) scan_kernels \<Rightarrow> bool" where
  "bit4_rowwise K \<longleftrightarrow>
     (\<forall>q codes factors. length codes = length factors * div_ceil (k_bit4_len K q) 2 \<longrightarrow>
        k_bit4_batch K q codes factors =
          try_map (\<lambda>i. map_ok hd (k_bit4_batch K q
             (take (div_ceil (k_bit4_len K q) 2) (drop (i * div_ceil (k_bit4_len K q) 2) codes)) [factors ! i]))
            [0..<length factors])"

lemma bit4_push_loop_exact:
  fixes K :: "('q8, 'q4, 'f4, 'qe) scan_kernels"
  assumes "bit4_push_loop R (rq_mask req) first_row batch_start batch_row ss t = (Ok t' :: ('qe scan_error, bounded_topk) result)"
    and "\<And>i. i < length ss \<Longrightarrow> row_score K req (first_row + batch_start + batch_row + i) = Ok (ss ! i)"
  shows "\<exists>cs. row_candidates K R req (first_row + batch_start + batch_row)
      (first_row + batch_start + batch_row + length ss) = Ok cs \<and> t' = foldl bounded_push t cs"
  using assms
proof (induction ss arbitrary: batch_row t)
  case (Cons s ss)
  let ?row = "first_row + batch_start + batch_row"
  have tail: "\<And>i. i < length ss \<Longrightarrow> row_score K req (first_row + batch_start + Suc batch_row + i) = Ok (ss ! i)"
    using Cons.prems(2) [of "Suc _"] by simp
  have id: "checked_add_usize batch_start batch_row = Some (batch_start + batch_row)"
    "checked_add_usize first_row (batch_start + batch_row) = Some ?row"
    using Cons.prems(1) by (auto simp: result_Inr checked_add_usize_def split: if_splits)
  show ?case
  proof (cases "row_is_allowed R (rq_mask req) ?row")
    case False
    then have "bit4_push_loop R (rq_mask req) first_row batch_start (Suc batch_row) ss t = (Ok t' :: ('qe scan_error, bounded_topk) result)"
      using Cons.prems(1) id by (auto simp: result_Inr)
    then show ?thesis using Cons.IH [OF _ tail] row_candidates_skip [OF False, of "?row + Suc (length ss)" K] by auto
  next
    case True
    then have fin: "f32_is_finite s"
      and rest: "bit4_push_loop R (rq_mask req) first_row batch_start (Suc batch_row) ss
        (bounded_push t \<lparr>sc_row_id = ?row, sc_score = s\<rparr>) = (Ok t' :: ('qe scan_error, bounded_topk) result)"
      using Cons.prems(1) id by (auto simp: result_Inr split: if_splits)
    have "row_score K req ?row = Ok s" using Cons.prems(2) [of 0] by simp
    then show ?thesis
      using Cons.IH [OF rest tail] row_candidates_step [OF True _ _ fin, of "?row + Suc (length ss)" K] by auto
  qed
qed simp

declare bit4_batch_loop.simps [simp del]

text \<open>One batch: the scores of its rows, each as if it were scored alone.\<close>

lemma bit4_batch_scores:
  fixes K :: "('q8, 'q4, 'f4, 'qe) scan_kernels"
  assumes "bit4_rowwise K" "w = div_ceil (k_bit4_len K q) 2" "length codes = length factors * w"
    and "a \<le> b" "b \<le> length factors"
    and "k_bit4_batch K q (take ((b - a) * w) (drop (a * w) codes)) (take (b - a) (drop a factors)) = Ok scores"
  shows "length scores = b - a"
    "i < b - a \<Longrightarrow> map_ok hd (k_bit4_batch K q (take w (drop ((a + i) * w) codes)) [factors ! (a + i)]) = Ok (scores ! i)"
proof -
  let ?codes = "take ((b - a) * w) (drop (a * w) codes)" and ?fs = "take (b - a) (drop a factors)"
  have len: "length ?fs = b - a" using assms(5) by simp
  have "b * w \<le> length factors * w" using assms(5) by (rule mult_le_mono1)
  then have "(b - a) * w + a * w \<le> length factors * w" using assms(4) by (simp add: algebra_simps)
  then have "length ?codes = length ?fs * w" using assms(3) len by simp
  then have "k_bit4_batch K q ?codes ?fs =
      try_map (\<lambda>i. map_ok hd (k_bit4_batch K q (take w (drop (i * w) ?codes)) [?fs ! i])) [0..<length ?fs]"
    using assms(1) unfolding bit4_rowwise_def assms(2) by blast
  then have rowwise: "try_map (\<lambda>i. map_ok hd (k_bit4_batch K q (take w (drop (i * w) ?codes)) [?fs ! i])) [0..<b - a] = Ok scores"
    unfolding len assms(6) by simp
  then show "length scores = b - a" using try_map_length by fastforce
  assume i: "i < b - a"
  then have "Suc i * w \<le> (b - a) * w" by (intro mult_le_mono1) simp
  then have row: "take w (drop (i * w) ?codes) = take w (drop ((a + i) * w) codes)"
    by (simp add: drop_take algebra_simps min_def)
  have factor: "?fs ! i = factors ! (a + i)" using i assms(5) by simp
  show "map_ok hd (k_bit4_batch K q (take w (drop ((a + i) * w) codes)) [factors ! (a + i)]) = Ok (scores ! i)"
    using list_all2_nthD [OF rowwise [unfolded try_map_Ok], of i] i unfolding row [symmetric] factor [symmetric] by simp
qed

lemma bit4_batch_loop_exact:
  fixes K :: "('q8, 'q4, 'f4, 'qe) scan_kernels"
  assumes rowwise: "bit4_rowwise K" and w: "w = div_ceil (k_bit4_len K q) 2"
    and len: "length codes = length factors * w"
    and score: "\<And>i. i < length factors \<Longrightarrow> row_score K req (first_row + i) =
      map_err QuantFailed (map_ok hd (k_bit4_batch K q (take w (drop (i * w) codes)) [factors ! i]))"
    and "bit4_batch_loop K R q codes factors (rq_mask req) first_row cancel w (length factors) a t = Ok t'"
    and "a \<le> length factors"
  shows "\<exists>cs. row_candidates K R req (first_row + a) (first_row + length factors) = Ok cs \<and> t' = foldl bounded_push t cs"
  using assms(5,6)
proof (induction "length factors - a" arbitrary: a t rule: less_induct)
  case less
  show ?case
  proof (cases "length factors \<le> a")
    case True
    then show ?thesis using less.prems by (simp add: bit4_batch_loop.simps)
  next
    case False
    define b where "b = a + min (length factors - a) 4"
    have b: "a < b" "b \<le> length factors" using False by (auto simp: b_def)
    obtain scores t1 where
      batch: "k_bit4_batch K q (take (b * w - a * w) (drop (a * w) codes)) (take (b - a) (drop a factors)) = Ok scores"
      and push: "bit4_push_loop R (rq_mask req) first_row a 0 scores t = (Ok t1 :: ('qe scan_error, bounded_topk) result)"
      and rest: "bit4_batch_loop K R q codes factors (rq_mask req) first_row cancel w (length factors) b t1 = Ok t'"
      using less.prems(1) False
      by (subst (asm) bit4_batch_loop.simps)
        (auto simp: result_Inr Let_def checked_add_usize_def checked_mul_usize_def slice_range_def b_def [symmetric]
          split: if_splits)
    have "b * w - a * w = (b - a) * w" by (simp add: diff_mult_distrib)
    then have batch': "k_bit4_batch K q (take ((b - a) * w) (drop (a * w) codes)) (take (b - a) (drop a factors)) = Ok scores"
      using batch by simp
    note scores = bit4_batch_scores [OF rowwise w len less_imp_le [OF b(1)] b(2) batch']
    have "row_score K req (first_row + a + 0 + i) = Ok (scores ! i)" if "i < length scores" for i
      using score [of "a + i"] scores that b by (simp add: add.assoc)
    from bit4_push_loop_exact [OF push this]
    obtain xs where xs: "row_candidates K R req (first_row + a) (first_row + b) = Ok xs" "t1 = foldl bounded_push t xs"
      using scores(1) b by auto
    have smaller: "length factors - b < length factors - a" using b by linarith
    obtain ys where ys: "row_candidates K R req (first_row + b) (first_row + length factors) = Ok ys"
      "t' = foldl bounded_push t1 ys"
      using less.hyps [OF smaller rest b(2)] by auto
    show ?thesis using row_candidates_append [OF xs(1) ys(1)] b xs(2) ys(2) by (intro exI [of _ "xs @ ys"]) simp
  qed
qed

section \<open>Slices of rows\<close>

lemma scalar_row_range_Ok:
  "scalar_row_range xs w s e = Ok vs \<longleftrightarrow>
     s * w \<le> usize_max \<and> e * w \<le> usize_max \<and> s * w \<le> e * w \<and> e * w \<le> length xs \<and>
     vs = take (e * w - s * w) (drop (s * w) xs)"
  by (auto simp: scalar_row_range_def result_Inr checked_mul_usize_def slice_range_def split: if_splits)

lemma row_slice:
  fixes vs xs :: "'a list"
  assumes "scalar_row_range xs w s e = (Ok vs :: ('qe scan_error, 'a list) result)" "0 < w" "s \<le> e"
  shows "length vs = (e - s) * w" "length (chunks_exact w vs) = e - s"
    "i < e - s \<Longrightarrow> scalar_row_range xs w (s + i) (s + i + 1) = (Ok (chunks_exact w vs ! i) :: ('qe scan_error, 'a list) result)"
    "i < e - s \<Longrightarrow> chunks_exact w vs ! i = take w (drop (i * w) vs)"
proof -
  have vs: "e * w \<le> usize_max" "e * w \<le> length xs" "vs = take ((e - s) * w) (drop (s * w) xs)"
    using assms(1) by (auto simp: scalar_row_range_Ok diff_mult_distrib)
  show len: "length vs = (e - s) * w" using vs assms(3) by (simp add: diff_mult_distrib)
  then show "length (chunks_exact w vs) = e - s" using assms(2) by (simp add: chunks_exact_def)
  assume i: "i < e - s"
  then have "Suc i * w \<le> (e - s) * w" by (intro mult_le_mono1) simp
  then have inner: "take w (drop (i * w) vs) = take w (drop ((s + i) * w) xs)"
    by (simp add: vs(3) drop_take algebra_simps min_def)
  show chunk: "chunks_exact w vs ! i = take w (drop (i * w) vs)"
    using i len assms(2) by (simp add: chunks_exact_def)
  have "(s + i + 1) * w \<le> e * w" using i by (intro mult_le_mono1) simp
  then show "scalar_row_range xs w (s + i) (s + i + 1) = (Ok (chunks_exact w vs ! i) :: ('qe scan_error, 'a list) result)"
    using vs(1,2) unfolding chunk inner scalar_row_range_Ok by (simp add: algebra_simps)
qed

lemma whole_slice:
  assumes "w dvd length xs" "0 < w" "length xs \<le> usize_max"
  shows "scalar_row_range xs w 0 (length xs div w) = Ok xs"
  using assms by (simp add: scalar_row_range_Ok)

section \<open>Each scheme\<close>

text \<open>What a scan of the rows from \<open>s\<close> up to \<open>e\<close> has to answer.\<close>

definition scans_rows ::
  "('q8, 'q4, 'f4, 'qe) scan_kernels \<Rightarrow> 'b roaring \<Rightarrow> ('q8, 'q4, 'f4, 'b) scan_request \<Rightarrow> nat \<Rightarrow> nat \<Rightarrow> nat
   \<Rightarrow> scan_candidate list \<Rightarrow> bool" where
  "scans_rows K R req k s e out \<longleftrightarrow> (\<exists>cs. row_candidates K R req s e = Ok cs \<and> out = topk_spec k cs)"

lemma row_loop_scans:
  assumes "scan_row_loop score R (rq_mask req) cancel s 0 rs (bounded_new (min k n)) = Ok t"
    and "\<And>i. i < e - s \<Longrightarrow> score (rs ! i) = row_score K req (s + i)" "length rs = e - s" "e - s = n" "s \<le> e"
  shows "scans_rows K R req k s e (into_sorted_with_ties t)"
proof -
  obtain cs where cs: "row_candidates K R req s e = Ok cs" "t = foldl bounded_push (bounded_new (min k n)) cs"
    using scan_row_loop_exact [OF assms(1), of K] assms(2,3) le_add_diff_inverse [OF assms(5)] by auto
  then show ?thesis
    using clamped_answer [of cs n k] row_candidates_length [OF cs(1)] assms(4) by (auto simp: scans_rows_def)
qed

lemma f32_scans:
  assumes "scan_f32_rows K R q vs (rq_mask req) k s cancel = Ok out"
    and "scalar_row_range xs (length q) s e = (Ok vs :: ('qe scan_error, f32 list) result)" "s \<le> e"
    and "\<And>row. row_score K req row = and_then (scalar_row_range xs (length q) row (row + 1)) (\<lambda>v. Ok (k_dot_f32 K q v))"
  shows "scans_rows (K :: ('q8, 'q4, 'f4, 'qe) scan_kernels) R req k s e out"
proof -
  obtain t where t: "q \<noteq> []" "out = into_sorted_with_ties t"
    "scan_row_loop (\<lambda>row. Ok (k_dot_f32 K q row)) R (rq_mask req) cancel s 0 (chunks_exact (length q) vs)
       (bounded_new (min k (length vs div length q))) = Ok t"
    using assms(1) by (auto simp: scan_f32_rows_def map_ok_eq_Inr split: if_splits)
  have w: "0 < length q" using t(1) by simp
  note slice = row_slice [OF assms(2) w assms(3)]
  show ?thesis
    unfolding t(2) by (rule row_loop_scans [OF t(3)]) (use slice assms(3,4) w in simp_all)
qed

lemma f16_scans:
  assumes "scan_f16_rows K R q vs (rq_mask req) k s cancel = Ok out"
    and "scalar_row_range xs (length q) s e = (Ok vs :: ('qe scan_error, u16 list) result)" "s \<le> e"
    and "\<And>row. row_score K req row = and_then (scalar_row_range xs (length q) row (row + 1)) (\<lambda>v. Ok (k_dot_f16 K q v))"
  shows "scans_rows (K :: ('q8, 'q4, 'f4, 'qe) scan_kernels) R req k s e out"
proof -
  obtain t where t: "q \<noteq> []" "out = into_sorted_with_ties t"
    "scan_row_loop (\<lambda>row. Ok (k_dot_f16 K q row)) R (rq_mask req) cancel s 0 (chunks_exact (length q) vs)
       (bounded_new (min k (length vs div length q))) = Ok t"
    using assms(1) by (auto simp: scan_f16_rows_def map_ok_eq_Inr split: if_splits)
  have w: "0 < length q" using t(1) by simp
  note slice = row_slice [OF assms(2) w assms(3)]
  show ?thesis
    unfolding t(2) by (rule row_loop_scans [OF t(3)]) (use slice assms(3,4) w in simp_all)
qed

lemma int8_scans:
  assumes "scan_int8_rows K R q cs fs (rq_mask req) k s cancel = Ok out"
    and "scalar_row_range codes (k_int8_len K q) s e = (Ok cs :: ('qe scan_error, u8 list) result)" "s \<le> e"
    and "slice_range factors s e = Some fs"
    and "\<And>row. row_score K req row = and_then (scalar_row_range codes (k_int8_len K q) row (row + 1)) (\<lambda>v.
      and_then (ok_or ScanOverflow (list_get factors row)) (\<lambda>factor. map_err QuantFailed (k_dot_int8 K q v factor)))"
  shows "scans_rows (K :: ('q8, 'q4, 'f4, 'qe) scan_kernels) R req k s e out"
proof -
  let ?w = "k_int8_len K q"
  obtain t where t: "0 < ?w" "out = into_sorted_with_ties t"
    "scan_row_loop (\<lambda>(row, factor). map_err QuantFailed (k_dot_int8 K q row factor)) R (rq_mask req) cancel s 0
       (zip (chunks_exact ?w cs) fs) (bounded_new (min k (length cs div ?w))) = Ok t"
    using assms(1) by (auto simp: scan_int8_rows_def Let_def map_ok_eq_Inr split: if_splits)
  note slice = row_slice [OF assms(2) t(1) assms(3)]
  have fs: "fs = take (e - s) (drop s factors)" "e \<le> length factors"
    using assms(4) by (auto simp: slice_range_def split: if_splits)
  have get: "list_get factors (s + i) = Some (fs ! i)" if "i < e - s" for i
    using that fs by (simp add: list_get_def)
  have len: "length fs = e - s" using fs by simp
  show ?thesis
    unfolding t(2) by (rule row_loop_scans [OF t(3)]) (use slice assms(3,5) t(1) get len in simp_all)
qed

lemma bit4_scans:
  fixes K :: "('q8, 'q4, 'f4, 'qe) scan_kernels"
  assumes "scan_bit4_rows K R q cs fs (rq_mask req) k s cancel = Ok out"
    and "scalar_row_range codes (div_ceil (k_bit4_len K q) 2) s e = (Ok cs :: ('qe scan_error, u8 list) result)" "s \<le> e"
    and "slice_range factors s e = Some fs" "bit4_rowwise K"
    and "\<And>row. row_score K req row = and_then (scalar_row_range codes (div_ceil (k_bit4_len K q) 2) row (row + 1)) (\<lambda>v.
      and_then (ok_or ScanOverflow (list_get factors row)) (\<lambda>factor.
      map_ok hd (map_err QuantFailed (k_bit4_batch K q v [factor]))))"
  shows "scans_rows K R req k s e out"
proof -
  let ?w = "div_ceil (k_bit4_len K q) 2"
  have dim: "0 < k_bit4_len K q" using assms(1) by (auto simp: scan_bit4_rows_def Let_def split: if_splits)
  then have w: "0 < ?w" by (simp add: div_ceil_def)
  obtain t where t: "out = into_sorted_with_ties t"
    "bit4_batch_loop K R q cs fs (rq_mask req) s cancel ?w (length fs) 0 (bounded_new (min k (length fs))) = Ok t"
    using assms(1) by (auto simp: scan_bit4_rows_def Let_def map_ok_eq_Inr split: if_splits)
  note slice = row_slice [OF assms(2) w assms(3)]
  have fs: "fs = take (e - s) (drop s factors)" "e \<le> length factors" "length fs = e - s"
    using assms(4) by (auto simp: slice_range_def split: if_splits)
  have len: "length cs = length fs * ?w" using slice(1) fs(3) by simp
  have score: "row_score K req (s + i) = map_err QuantFailed (map_ok hd (k_bit4_batch K q (take ?w (drop (i * ?w) cs)) [fs ! i]))"
    if "i < length fs" for i
  proof -
    have "i < e - s" using that fs(3) by simp
    then show ?thesis
      using assms(6) [of "s + i"] slice(3,4) [of i] fs
      by (cases "k_bit4_batch K q (take ?w (drop (i * ?w) cs)) [fs ! i]") (simp_all add: list_get_def)
  qed
  obtain xs where xs: "row_candidates K R req (s + 0) (s + length fs) = Ok xs"
    "t = foldl bounded_push (bounded_new (min k (length fs))) xs"
    using bit4_batch_loop_exact [OF assms(5) refl len score t(2)] by auto
  then show ?thesis
    using clamped_answer [of xs "length fs" k] row_candidates_length [OF xs(1)] fs(3) assms(3) t(1)
    by (auto simp: scans_rows_def)
qed

section \<open>Partitions, whole scans and gathers\<close>

lemma partition_candidates_scans:
  fixes K :: "('q8, 'q4, 'f4, 'qe) scan_kernels"
  assumes "partition_candidates K R req k s e cancel = Ok out" "bit4_rowwise K" "s \<le> e"
  shows "scans_rows K R req k s e out"
proof -
  consider (f32) q r vs where "rq_query req = SqF32 q" "rq_rows req = SrF32 r"
      "scalar_row_range (fr_values r) (length q) s e = (Ok vs :: ('qe scan_error, f32 list) result)"
      "scan_f32_rows K R q vs (rq_mask req) k s cancel = Ok out"
    | (borrowed) q xs vs where "rq_query req = SqF32 q" "rq_rows req = SrF32Borrowed xs"
      "scalar_row_range xs (length q) s e = (Ok vs :: ('qe scan_error, f32 list) result)"
      "scan_f32_rows K R q vs (rq_mask req) k s cancel = Ok out"
    | (f16) q xs vs where "rq_query req = SqF16 q" "rq_rows req = SrF16 xs"
      "scalar_row_range xs (length q) s e = (Ok vs :: ('qe scan_error, u16 list) result)"
      "scan_f16_rows K R q vs (rq_mask req) k s cancel = Ok out"
    | (int8) q codes factors cs fs where "rq_query req = SqInt8 q" "rq_rows req = SrInt8 codes factors"
      "scalar_row_range codes (k_int8_len K q) s e = (Ok cs :: ('qe scan_error, u8 list) result)"
      "slice_range factors s e = Some fs" "scan_int8_rows K R q cs fs (rq_mask req) k s cancel = Ok out"
    | (bit4) q codes factors cs fs where "rq_query req = SqBit4 q" "rq_rows req = SrBit4 codes factors"
      "scalar_row_range codes (div_ceil (k_bit4_len K q) 2) s e = (Ok cs :: ('qe scan_error, u8 list) result)"
      "slice_range factors s e = Some fs" "scan_bit4_rows K R q cs fs (rq_mask req) k s cancel = Ok out"
    using assms(1)
    by (cases "rq_query req"; cases "rq_rows req") (auto simp: partition_candidates_def Let_def result_Inr)
  then show ?thesis
  proof cases
    case f32
    show ?thesis by (rule f32_scans [OF f32(4,3) assms(3)]) (simp add: row_score_def f32(1,2))
  next
    case borrowed
    show ?thesis by (rule f32_scans [OF borrowed(4,3) assms(3)]) (simp add: row_score_def borrowed(1,2))
  next
    case f16
    show ?thesis by (rule f16_scans [OF f16(4,3) assms(3)]) (simp add: row_score_def f16(1,2))
  next
    case int8
    show ?thesis by (rule int8_scans [OF int8(5,3) assms(3) int8(4)]) (simp add: row_score_def int8(1,2))
  next
    case bit4
    show ?thesis by (rule bit4_scans [OF bit4(5,3) assms(3) bit4(4) assms(2)]) (simp add: row_score_def bit4(1,2))
  qed
qed

lemma scan_partition_scans:
  assumes "scan_partition K R thread req k (s, e) cancel = Ok p" "bit4_rowwise K"
  shows "s \<le> e" "scans_rows K R req k s e (ps_candidates p)"
proof -
  show s: "s \<le> e" using assms(1) by (auto simp: scan_partition_def Let_def result_Inr split: if_splits)
  have "partition_candidates K R req k s e cancel = Ok (ps_candidates p)"
    using assms(1) by (auto simp: scan_partition_def Let_def result_Inr split: if_splits prod.splits)
  then show "scans_rows K R req k s e (ps_candidates p)" using assms(2) s by (rule partition_candidates_scans)
qed

text \<open>Slices in memory are shorter than the address space.\<close>

definition request_sized :: "('q8, 'q4, 'f4, 'b) scan_request \<Rightarrow> bool" where
  "request_sized req \<longleftrightarrow>
     (case rq_rows req of SrF32 r \<Rightarrow> length (fr_values r) \<le> usize_max | SrF32Borrowed xs \<Rightarrow> length xs \<le> usize_max
      | SrF16 xs \<Rightarrow> length xs \<le> usize_max | SrInt8 cs fs \<Rightarrow> length cs \<le> usize_max | SrBit4 cs fs \<Rightarrow> length cs \<le> usize_max)"

text \<open>With a valid geometry, the serial scan is the partition scan of all rows without cancellation.\<close>

lemma scan_top_k_partition:
  fixes K :: "('q8, 'q4, 'f4, 'qe) scan_kernels"
  assumes "scan_geometry_of K req = Ok g" "request_sized req"
  shows "scan_top_k K R req k = partition_candidates K R req k 0 (sg_row_count g) (\<lambda>_. None)"
proof -
  have dims: "0 < query_dimensions K (rq_query req)"
    using assms(1) by (auto simp: scan_geometry_of_def Let_def split: if_splits)
  then have width: "0 < div_ceil (query_dimensions K (rq_query req)) 2" by (simp add: div_ceil_def)
  have factors: "slice_range fs 0 (length fs) = Some fs" for fs :: "'x list" by (simp add: slice_range_def)
  show ?thesis
    using assms dims width
    by (cases "rq_query req"; cases "rq_rows req")
      (auto simp: scan_geometry_of_def Let_def result_Inr row_major_geometry_def require_factor_count_def
        query_dimensions_def request_sized_def scan_top_k_def partition_candidates_def scan_f32_def
        whole_slice factors split: if_splits)
qed

lemma scan_top_k_scans:
  assumes "scan_geometry_of K req = Ok g" "request_sized req" "bit4_rowwise K" "scan_top_k K R req k = Ok out"
  shows "scans_rows K R req k 0 (sg_row_count g) out"
  using partition_candidates_scans [OF _ assms(3)] assms(4) scan_top_k_partition [OF assms(1,2)] by fastforce

text \<open>The gather visits the allow-list in ascending order, which is the order of the rows.\<close>

lemma allowed_ids:
  assumes "roaring_ok R"
  shows "filter (row_is_allowed R (Some m)) [0..<n] = filter (\<lambda>r. r < n) (map unat (rb_iter R m))"
proof -
  let ?ids = "map unat (rb_iter R m)"
  have iter: "rb_iter R m = sorted_list_of_set (Bitmap.rows R m)" using assms by (simp add: roaring_ok_def)
  have "sorted_wrt (<) ?ids"
    unfolding iter sorted_wrt_map
    by (rule sorted_wrt_mono_rel [OF _ strict_sorted_list_of_set]) (simp add: word_less_nat_alt)
  then have right: "sorted_wrt (<) (filter (\<lambda>r. r < n) ?ids)" by (rule sorted_wrt_filter)
  have left: "sorted_wrt (<) (filter (row_is_allowed R (Some m)) [0..<n])" by (intro sorted_wrt_filter) simp
  have "row_is_allowed R (Some m) r \<longleftrightarrow> r \<in> set ?ids" for r
  proof (cases "r \<le> u32_max")
    case True
    then have "row_is_allowed R (Some m) r \<longleftrightarrow> rb_contains R m (word_of_nat r)"
      by (simp add: row_is_allowed_def u32_try_from_def)
    moreover have "r = unat w \<longleftrightarrow> w = word_of_nat r" for w :: u32
      using True by (metis unat_word_of_nat_u32 word_unat_eq_iff)
    ultimately show ?thesis by (auto simp: iter Bitmap.rows_def image_iff)
  next
    case False
    then have "r \<noteq> unat w" for w :: u32 using unat_u32_le [of w] by linarith
    then show ?thesis using False by (auto simp: row_is_allowed_def u32_try_from_def)
  qed
  then have "set (filter (row_is_allowed R (Some m)) [0..<n]) = set (filter (\<lambda>r. r < n) ?ids)" by auto
  then show ?thesis using left right by (simp add: strict_sorted_equal)
qed

lemma gather_loop_exact:
  assumes "gather_loop K req cancel n ordinal ids acc = Ok acc'"
  shows "\<exists>cs. try_map (score_gather_row K req) (filter (\<lambda>r. r < n) ids) = Ok cs \<and> fst acc' = foldl bounded_push (fst acc) cs"
  using assms
proof (induction ids arbitrary: ordinal acc)
  case (Cons r ids)
  show ?case
  proof (cases "n \<le> r")
    case True
    then have "gather_loop K req cancel n (Suc ordinal) ids acc = Ok acc'" using Cons.prems by (auto simp: result_Inr)
    then show ?thesis using Cons.IH True by fastforce
  next
    case False
    then obtain c m where c: "score_gather_row K req r = Ok c"
      and rest: "gather_loop K req cancel n (Suc ordinal) ids (bounded_push (fst acc) c, m) = Ok acc'"
      using Cons.prems by (auto simp: result_Inr)
    then show ?thesis using Cons.IH [OF rest] False by auto
  qed
qed simp

lemma gather_scans:
  assumes "gather_top_k K R thread req k cancel = Ok out" "roaring_ok R"
  obtains g where "scan_geometry_of K req = Ok g" "scans_rows K R req k 0 (sg_row_count g) (so_candidates out)"
proof -
  let ?ids = "\<lambda>n. case rq_mask req of Some m \<Rightarrow> map unat (rb_iter R m) | None \<Rightarrow> [0..<n]"
  obtain g t m where g: "scan_geometry_of K req = Ok g" and out: "so_candidates out = into_sorted_with_ties t"
    and loop: "gather_loop K req cancel (sg_row_count g) 0 (?ids (sg_row_count g)) (bounded_new (min k (sg_row_count g)), 0) = Ok (t, m)"
    using assms(1) by (auto simp: gather_top_k_def Let_def result_Inr split: prod.splits)
  let ?n = "sg_row_count g"
  have "filter (\<lambda>r. r < ?n) (?ids ?n) = filter (row_is_allowed R (rq_mask req)) [0..<?n]"
    using allowed_ids [OF assms(2)] by (auto simp: row_is_allowed_def filter_id_conv split: option.splits)
  then obtain cs where cs: "row_candidates K R req 0 ?n = Ok cs" "t = foldl bounded_push (bounded_new (min k ?n)) cs"
    using gather_loop_exact [OF loop] by (auto simp: row_candidates_def)
  then have "scans_rows K R req k 0 ?n (so_candidates out)"
    using clamped_answer [of cs ?n k] row_candidates_length [OF cs(1)] out by (auto simp: scans_rows_def)
  then show thesis using that g by blast
qed

lemma scans_rows_unique: "scans_rows K R req k s e xs \<Longrightarrow> scans_rows K R req k s e ys \<Longrightarrow> xs = ys"
  by (auto simp: scans_rows_def)

end
