(* ===== verification/Scan_Pool.thy ===== *)
theory Scan_Pool
  imports Scan_Exact
begin

text \<open>
  The parallel scan of \<open>lifecycle/pool.rs\<close>: the rows are cut into ranges, one per worker, each worker
  completes its slot in its own time, and the caller merges the slots. The workers are a step relation
  on the completion state, so a run is any interleaving of completions.
\<close>

section \<open>Planning\<close>

definition partition_row_count :: "nat \<Rightarrow> nat \<Rightarrow> ('qe scan_error, (nat \<times> nat) list) result" where
  "partition_row_count row_count workers =
     try_map (\<lambda>worker.
       and_then (ok_or ScanOverflow (checked_mul_usize worker row_count)) (\<lambda>s.
       and_then (ok_or ScanOverflow
           (Option.bind (checked_add_usize worker 1) (\<lambda>value. checked_mul_usize value row_count))) (\<lambda>e.
       Ok (s div workers, e div workers)))) [0..<workers]"

text \<open>How many workers \<open>execute\<close> uses: the requested budget, the pool and the work units bound it.\<close>

definition pool_workers :: "nat \<Rightarrow> nat \<Rightarrow> scan_geometry \<Rightarrow> nat" where
  "pool_workers worker_count thread_budget geometry =
     (let requested = (if thread_budget = 0 then worker_count else min thread_budget worker_count) in
      min requested (max (sg_work_units geometry) 1))"

definition pool_plan ::
  "('q8, 'q4, 'f4, 'qe) scan_kernels \<Rightarrow> nat \<Rightarrow> nat \<Rightarrow> ('q8, 'q4, 'f4, 'b) scan_request
   \<Rightarrow> ('qe scan_error, scan_geometry \<times> nat \<times> (nat \<times> nat) list) result" where
  "pool_plan K worker_count thread_budget req =
     and_then (scan_geometry_of K req) (\<lambda>geometry.
     let workers = pool_workers worker_count thread_budget geometry in
     map_ok (\<lambda>ranges. (geometry, workers, ranges)) (partition_row_count (sg_row_count geometry) workers))"

section \<open>Completion\<close>

record 'qe completion =
  cp_remaining :: nat
  cp_results :: "('qe scan_error, partition_scan) result option list"

definition execution_new :: "nat \<Rightarrow> 'qe completion" where
  "execution_new workers = \<lparr>cp_remaining = workers, cp_results = replicate workers None\<rparr>"

text \<open>The first result of a slot counts; a second one is ignored.\<close>

definition execution_complete ::
  "nat \<Rightarrow> ('qe scan_error, partition_scan) result \<Rightarrow> 'qe completion \<Rightarrow> 'qe completion" where
  "execution_complete slot res c =
     (if slot < length (cp_results c) \<and> cp_results c ! slot = None
      then \<lparr>cp_remaining = cp_remaining c - 1, cp_results = (cp_results c)[slot := Some res]\<rparr>
      else c)"

text \<open>
  A worker runs its range under its own cancellation answers, or its panic is reported; a worker that is
  gone is reported by the submitter in the same way.
\<close>

inductive execution_step ::
  "('q8, 'q4, 'f4, 'qe) scan_kernels \<Rightarrow> 'b roaring \<Rightarrow> ('q8, 'q4, 'f4, 'b) scan_request \<Rightarrow> nat \<Rightarrow> (nat \<times> nat) list
   \<Rightarrow> 'qe completion \<Rightarrow> 'qe completion \<Rightarrow> bool" for K R req k ranges where
  es_run: "slot < length ranges \<Longrightarrow>
     execution_step K R req k ranges c
       (execution_complete slot (scan_partition K R thread req k (ranges ! slot) cancel) c)"
| es_panic: "slot < length ranges \<Longrightarrow>
     execution_step K R req k ranges c (execution_complete slot (Err WorkerPanicked) c)"

datatype 'qe query_error =
    QueryScan "'qe scan_error"
  | QuerySynchronization string
  | QueryReadCancelled
  | QueryTimeout
  | QueryCancelled

text \<open>
  Waiting: \<open>None\<close> while a slot is missing. Then the lease and the control of the query are consulted, and
  the slots are read in order, so the first failing slot decides the error.
\<close>

primrec collect_slots ::
  "('qe scan_error, partition_scan) result option list \<Rightarrow> ('qe query_error, partition_scan list) result" where
  "collect_slots [] = Ok []"
| "collect_slots (r # rs) =
     and_then (ok_or (QuerySynchronization ''query result slot'') r) (\<lambda>res.
     and_then (map_err QueryScan res) (\<lambda>p. map_ok ((#) p) (collect_slots rs)))"

definition execution_wait ::
  "bool \<Rightarrow> 'qe query_error option \<Rightarrow> 'qe completion \<Rightarrow> ('qe query_error, partition_scan list) result option" where
  "execution_wait lease_cancelled control_error c =
     (if 0 < cp_remaining c then None
      else if lease_cancelled then Some (Err QueryReadCancelled)
      else case control_error of Some e \<Rightarrow> Some (Err e) | None \<Rightarrow> Some (collect_slots (cp_results c)))"

section \<open>Merging\<close>

primrec merge_loop ::
  "partition_scan list \<Rightarrow> bounded_topk \<Rightarrow> u64 \<Rightarrow> u64 \<Rightarrow> nat list \<Rightarrow> ('qe scan_error, bounded_topk \<times> u64 \<times> u64 \<times> nat list) result" where
  "merge_loop [] merged dims bytes_read threads = Ok (merged, dims, bytes_read, threads)"
| "merge_loop (p # ps) merged dims bytes_read threads =
     and_then (ok_or ScanOverflow (checked_add_u64 dims (ps_dims_touched p))) (\<lambda>dims'.
     and_then (ok_or ScanOverflow (checked_add_u64 bytes_read (ps_bytes_read p))) (\<lambda>bytes'.
     merge_loop ps (foldl bounded_push merged (ps_candidates p)) dims' bytes'
       (if ps_thread p \<in> set threads then threads else threads @ [ps_thread p])))"

definition merge_partitions ::
  "partition_scan list \<Rightarrow> scan_geometry \<Rightarrow> nat \<Rightarrow> nat \<Rightarrow> ('qe scan_error, scan_outcome) result" where
  "merge_partitions parts geometry workers k =
     map_ok (\<lambda>(merged, dims, bytes_read, threads).
       \<lparr>so_candidates = into_sorted_with_ties merged, so_worst_score = None, so_dims_touched = dims,
        so_bytes_read = bytes_read, so_threads_used = workers, so_worker_threads = threads\<rparr>)
     (merge_loop parts (bounded_new (min k (sg_row_count geometry))) 0 0 [])"

section \<open>The ranges cover the rows\<close>

definition range_start :: "nat \<Rightarrow> nat \<Rightarrow> nat \<Rightarrow> nat" where
  "range_start row_count workers i = i * row_count div workers"

lemma partition_row_count_nth:
  assumes "partition_row_count n w = Ok ranges"
  shows "length ranges = w" "i < w \<Longrightarrow> ranges ! i = (range_start n w i, range_start n w (Suc i))"
proof -
  show len: "length ranges = w" using assms by (auto simp: partition_row_count_def dest: try_map_length)
  assume i: "i < w"
  show "ranges ! i = (range_start n w i, range_start n w (Suc i))"
    using list_all2_nthD [OF assms [unfolded partition_row_count_def try_map_Ok], of i] i
    by (auto simp: result_Inr checked_mul_usize_def checked_add_usize_def range_start_def
        simp del: mult_Suc split: if_splits)
qed

lemma range_start_mono: "i \<le> j \<Longrightarrow> range_start n w i \<le> range_start n w j"
  unfolding range_start_def by (intro div_le_mono mult_le_mono1)

lemma range_ends: "range_start n w 0 = 0" "0 < w \<Longrightarrow> range_start n w w = n"
  by (simp_all add: range_start_def)

lemma ranges_concat:
  assumes "\<And>i. i < m \<Longrightarrow> row_candidates K R req (range_start n w i) (range_start n w (Suc i)) = Ok (css ! i)"
    and "length css = m"
  shows "row_candidates K R req 0 (range_start n w m) = Ok (concat css)"
  using assms
proof (induction m arbitrary: css)
  case (Suc m)
  have "row_candidates K R req 0 (range_start n w m) = Ok (concat (take m css))"
    using Suc.IH [of "take m css"] Suc.prems by simp
  moreover have "row_candidates K R req (range_start n w m) (range_start n w (Suc m)) = Ok (css ! m)"
    using Suc.prems by simp
  ultimately have "row_candidates K R req 0 (range_start n w (Suc m)) = Ok (concat (take m css) @ css ! m)"
    by (rule row_candidates_append) (simp_all add: range_start_mono)
  moreover have "css = take m css @ [css ! m]" using Suc.prems(2) by (metis lessI order_refl take_Suc_conv_app_nth take_all_iff)
  ultimately show ?case by (metis concat.simps concat_append append_Nil2)
qed (simp add: range_ends)

section \<open>What the slots hold\<close>

definition completion_inv ::
  "('q8, 'q4, 'f4, 'qe) scan_kernels \<Rightarrow> 'b roaring \<Rightarrow> ('q8, 'q4, 'f4, 'b) scan_request \<Rightarrow> nat \<Rightarrow> (nat \<times> nat) list
   \<Rightarrow> 'qe completion \<Rightarrow> bool" where
  "completion_inv K R req k ranges c \<longleftrightarrow>
     length (cp_results c) = length ranges \<and>
     cp_remaining c = length (filter (\<lambda>r. r = None) (cp_results c)) \<and>
     (\<forall>i p. i < length ranges \<longrightarrow> cp_results c ! i = Some (Ok p) \<longrightarrow>
        scans_rows K R req k (fst (ranges ! i)) (snd (ranges ! i)) (ps_candidates p))"

lemma filter_None_update:
  "i < length xs \<Longrightarrow> xs ! i = None \<Longrightarrow>
   Suc (length (filter (\<lambda>r. r = None) (xs[i := Some y]))) = length (filter (\<lambda>r. r = None) xs)"
  by (induction xs arbitrary: i) (auto split: nat.splits)

lemma completion_inv_complete:
  assumes "completion_inv K R req k ranges c"
    and "\<And>p. slot < length ranges \<Longrightarrow> res = Ok p \<Longrightarrow> scans_rows K R req k (fst (ranges ! slot)) (snd (ranges ! slot)) (ps_candidates p)"
  shows "completion_inv K R req k ranges (execution_complete slot res c)"
proof (cases "slot < length (cp_results c) \<and> cp_results c ! slot = None")
  case True
  have "Suc (length (filter (\<lambda>r. r = None) ((cp_results c)[slot := Some res]))) = cp_remaining c"
    using True assms(1) filter_None_update [of slot "cp_results c" res] by (simp add: completion_inv_def)
  then show ?thesis using True assms by (auto simp: completion_inv_def execution_complete_def nth_list_update)
next
  case False
  then show ?thesis using assms(1) by (auto simp: execution_complete_def)
qed

lemma completion_inv_step:
  assumes "execution_step K R req k ranges c c'" "bit4_rowwise K" "completion_inv K R req k ranges c"
  shows "completion_inv K R req k ranges c'"
  using assms(1)
proof cases
  case (es_run slot thread cancel)
  show ?thesis
    unfolding es_run(1)
    by (rule completion_inv_complete [OF assms(3)])
      (metis assms(2) prod.collapse scan_partition_scans(2))
next
  case (es_panic slot)
  show ?thesis unfolding es_panic(1) by (rule completion_inv_complete [OF assms(3)]) simp
qed

lemma completion_inv_reachable:
  assumes "(execution_step K R req k ranges)\<^sup>*\<^sup>* (execution_new (length ranges)) c" "bit4_rowwise K"
  shows "completion_inv K R req k ranges c"
  using assms(1)
proof (induction rule: rtranclp_induct)
  case base
  then show ?case by (simp add: completion_inv_def execution_new_def)
next
  case (step c c')
  then show ?case using completion_inv_step assms(2) by blast
qed

lemma collect_slots_Ok: "collect_slots rs = Ok ps \<longleftrightarrow> rs = map (\<lambda>p. Some (Ok p)) ps"
  by (induction rs arbitrary: ps) (auto simp: result_Inr map_eq_Cons_conv)

section \<open>The merge\<close>

lemma merge_loop_Ok:
  "merge_loop ps t d b th = Ok (t', d', b', th') \<Longrightarrow> t' = foldl bounded_push t (concat (map ps_candidates ps))"
  by (induction ps arbitrary: t d b th) (auto simp: result_Inr)

lemma topk_spec_length: "length (topk_spec k cs) \<le> length cs"
  by (simp add: topk_spec_def sort_candidates_def)

lemma concat_length_le: "(\<And>x. length (f x) \<le> length x) \<Longrightarrow> length (concat (map f xss)) \<le> length (concat xss)"
  by (induction xss) (auto intro: add_mono)

lemma merge_scans:
  assumes "merge_partitions parts g w k = Ok out" "length parts = w" "0 < w"
    and "\<And>i. i < w \<Longrightarrow> scans_rows K R req k (range_start (sg_row_count g) w i) (range_start (sg_row_count g) w (Suc i)) (ps_candidates (parts ! i))"
  shows "scans_rows K R req k 0 (sg_row_count g) (so_candidates out)"
proof -
  let ?n = "sg_row_count g"
  define css where "css = map (\<lambda>i. SOME cs. row_candidates K R req (range_start ?n w i) (range_start ?n w (Suc i)) = Ok cs \<and>
      ps_candidates (parts ! i) = topk_spec k cs) [0..<w]"
  have css: "row_candidates K R req (range_start ?n w i) (range_start ?n w (Suc i)) = Ok (css ! i) \<and>
      ps_candidates (parts ! i) = topk_spec k (css ! i)" if "i < w" for i
    using someI_ex [OF assms(4) [OF that, unfolded scans_rows_def]] that by (simp add: css_def)
  have len: "length css = w" by (simp add: css_def)
  have all: "row_candidates K R req 0 ?n = Ok (concat css)"
    using ranges_concat [of w K R req ?n w css] css len range_ends(2) [OF assms(3)] by simp
  have "map ps_candidates parts = map (topk_spec k) css"
    using css len assms(2) by (intro nth_equalityI) simp_all
  then obtain t where t: "so_candidates out = into_sorted_with_ties t"
    "t = foldl bounded_push (bounded_new (min k ?n)) (concat (map (topk_spec k) css))"
    using assms(1) by (auto simp: merge_partitions_def map_ok_eq_Inr dest!: merge_loop_Ok)
  have "length (concat (map (topk_spec k) css)) \<le> ?n"
    using concat_length_le [of "topk_spec k", OF topk_spec_length] row_candidates_length [OF all] by (metis diff_zero le_trans)
  then have "so_candidates out = topk_spec k (concat css)"
    using clamped_answer t topk_spec_concat by simp
  then show ?thesis using all by (auto simp: scans_rows_def)
qed

lemma pool_scans:
  fixes K :: "('q8, 'q4, 'f4, 'qe) scan_kernels"
  assumes plan: "pool_plan K worker_count budget req = Ok (g, w, ranges)" and pool: "0 < worker_count"
    and run: "(execution_step K R req k ranges)\<^sup>*\<^sup>* (execution_new w) c"
    and wait: "execution_wait lease_cancelled control_error c = Some (Ok parts)"
    and merge: "merge_partitions parts g w k = Ok out" and rowwise: "bit4_rowwise K"
  shows "scans_rows K R req k 0 (sg_row_count g) (so_candidates out)"
proof -
  have ranges: "partition_row_count (sg_row_count g) w = (Ok ranges :: ('qe scan_error, (nat \<times> nat) list) result)"
    and w: "0 < w"
    using plan pool by (auto simp: pool_plan_def pool_workers_def Let_def result_Inr min_def)
  note nth = partition_row_count_nth [OF ranges]
  have inv: "completion_inv K R req k ranges c"
    by (rule completion_inv_reachable [OF _ rowwise]) (simp add: nth(1) run)
  have slots: "cp_results c = map (\<lambda>p. Some (Ok p)) parts"
    using wait by (auto simp: execution_wait_def collect_slots_Ok split: if_splits option.splits)
  then have len: "length parts = w" using inv nth(1) by (simp add: completion_inv_def)
  show ?thesis
    by (rule merge_scans [OF merge len w]) (use inv slots nth len in \<open>auto simp: completion_inv_def\<close>)
qed

end
