(* ===== verification/Scan_Theorems.thy ===== *)
theory Scan_Theorems
  imports Scan_Pool
begin

text \<open>
  Properties of exact selection and of the scans: the collectors answer the specification, the selection
  returns within its memory bound, and serial, gathered and parallel scans give one answer.
\<close>

section \<open>Selection\<close>

text \<open>
  C7: The exact collector refines the selection. Whatever the allocator and the memory budget do, when a
  collector for \<open>eligible\<close> candidates was made, took them all and was drained, it answers exactly the best
  \<open>k\<close> with every tie of the last score, best first, whether it used the heap or the unordered buffer.
\<close>

theorem topk_refines:
  assumes "exact_try_new grant k eligible mem = (Ok x, mem1)"
    and "exact_push_all grant cs x mem1 = (Ok (), mem2, y)"
    and "exact_drain grant y mem2 = (Ok (out, n), mem3)" "length cs \<le> eligible"
  shows "out = topk_spec k cs"
  by (rule exact_answer [OF assms])

definition demo_memory :: scan_memory where
  "demo_memory = (accounting_new 1000 1000, \<lparr>rv_bytes = 0, rv_component = AcTemporary\<rparr>)"

definition demo_candidates :: "scan_candidate list" where
  "demo_candidates = map (\<lambda>(i, s). \<lparr>sc_row_id = i, sc_score = s\<rparr>)
     [(0, 0x3F800000), (1, 0x40000000), (2, 0x80000000), (3, 0x40000000), (4, 0)]"

lemma demo_room: "room 1000 demo_memory"
  by (simp add: room_def demo_memory_def accounting_new_def)

lemma demo_topk: "map sc_row_id (topk_spec 1 demo_candidates) = [1, 3]"
  by code_simp

text \<open>
  C18: The selection returns. With an exact allocator and room for \<open>16 * (min k n + 2 * n + 2)\<close> bytes the
  collector is made, takes up to \<open>n\<close> candidates and drains without an error, and its answer is the
  specification's.
\<close>

theorem topk_returns:
  assumes "room limit mem" "topk_bytes (min k eligible) eligible \<le> limit" "length cs \<le> eligible"
  shows "\<exists>x mem1 y mem2 n mem3. exact_try_new Some k eligible mem = (Ok x, mem1) \<and>
    exact_push_all Some cs x mem1 = (Ok (), mem2, y) \<and> exact_drain Some y mem2 = (Ok (topk_spec k cs, n), mem3)"
  using exact_completes [OF assms] exact_answer [OF _ _ _ assms(3)] by metis

theorem topk_returns_witness:
  "\<exists>x mem1 y mem2 n mem3 out. exact_try_new Some 1 5 demo_memory = (Ok x, mem1) \<and>
    exact_push_all Some demo_candidates x mem1 = (Ok (), mem2, y) \<and> exact_drain Some y mem2 = (Ok (out, n), mem3) \<and>
    map sc_row_id out = [1, 3]"
  using topk_returns [OF demo_room, of 1 5 demo_candidates] demo_topk
  by (fastforce simp: topk_bytes_def SCAN_CANDIDATE_SIZE_def demo_candidates_def)

theorem topk_refines_witness:
  "\<exists>x mem1 y mem2 n mem3 out. exact_try_new Some 1 5 demo_memory = (Ok x, mem1) \<and>
    exact_push_all Some demo_candidates x mem1 = (Ok (), mem2, y) \<and> exact_drain Some y mem2 = (Ok (out, n), mem3) \<and>
    map sc_row_id out = [1, 3]"
proof -
  have len: "length demo_candidates \<le> 5" "topk_bytes (min 1 5) 5 \<le> 1000"
    by (simp_all add: demo_candidates_def topk_bytes_def SCAN_CANDIDATE_SIZE_def)
  obtain x mem1 y mem2 out n mem3 where "exact_try_new Some 1 5 demo_memory = (Ok x, mem1)"
    "exact_push_all Some demo_candidates x mem1 = (Ok (), mem2, y)" "exact_drain Some y mem2 = (Ok (out, n), mem3)"
    using exact_completes [OF demo_room len(2,1)] by blast
  then show ?thesis using topk_refines [OF _ _ _ len(1)] demo_topk by metis
qed

text \<open>
  C19: Three routines, one selection. The infallible collector, its cut to \<open>k\<close> results, and the truncation
  that keeps ties of a sorted list all compute the specification, for every list of candidates and every
  bit pattern of a score.
\<close>

theorem selection_routines_agree:
  "into_sorted_with_ties (foldl bounded_push (bounded_new k) cs) = topk_spec k cs
   \<and> into_sorted (foldl bounded_push (bounded_new k) cs) = take k (topk_spec k cs)
   \<and> truncate_to_k_with_score_ties k sc_score (sort_candidates cs) = topk_spec k cs"
proof -
  have "bt_limit (bounded_new k) = k" by (simp add: bounded_new_def)
  then show ?thesis
    by (simp add: bounded_answer truncate_answer into_sorted_def bounded_push_limit)
qed

section \<open>Scans\<close>

definition demo_kernels :: "(unit, unit, unit, unit) scan_kernels" where
  "demo_kernels = \<lparr>k_dot_f32 = (\<lambda>q v. hd v), k_dot_f16 = (\<lambda>q v. 0), k_int8_len = (\<lambda>_. 1),
     k_dot_int8 = (\<lambda>_ _ _. Ok 0), k_bit4_len = (\<lambda>_. 1),
     k_bit4_batch = (\<lambda>_ _ fs. Ok (map (\<lambda>_. 0) fs))\<rparr>"

definition demo_request :: "(unit, unit, unit, u32 set) scan_request" where
  "demo_request = \<lparr>rq_query = SqF32 [0x3F800000], rq_rows = SrF32Borrowed [0x3F800000, 0x40000000, 0x40000000],
     rq_mask = Some {0, 2}\<rparr>"

lemma demo_rowwise: "bit4_rowwise demo_kernels"
proof -
  have "map (\<lambda>_. 0 :: f32) fs = map (\<lambda>_. 0) [0..<length fs]" for fs :: "unit list" by (simp add: map_replicate_const)
  moreover have "try_map (\<lambda>i. Ok (0 :: f32)) xs = (Ok (map (\<lambda>_. 0) xs) :: (unit, f32 list) result)" for xs :: "nat list"
    by (induction xs) simp_all
  ultimately show ?thesis by (simp add: bit4_rowwise_def demo_kernels_def)
qed

text \<open>
  C14: A gather answers what a scan answers. When the planner scores only the rows of an allow-list and
  when it sweeps the segment under that list as a mask, the candidates are the same: the best among the
  allowed rows, each scored alone.
\<close>

theorem gather_matches_scan:
  assumes "roaring_ok R" "bit4_rowwise K" "request_sized req"
    and "gather_top_k K R thread req k cancel = Ok gathered" "scan_top_k K R req k = Ok scanned"
  shows "so_candidates gathered = scanned \<and>
    (\<exists>g cs. scan_geometry_of K req = Ok g \<and> row_candidates K R req 0 (sg_row_count g) = Ok cs \<and> scanned = topk_spec k cs)"
proof -
  obtain g where g: "scan_geometry_of K req = Ok g" "scans_rows K R req k 0 (sg_row_count g) (so_candidates gathered)"
    using gather_scans [OF assms(4,1)] .
  have "scans_rows K R req k 0 (sg_row_count g) scanned" by (rule scan_top_k_scans [OF g(1) assms(3,2,5)])
  then show ?thesis using g scans_rows_unique by (auto simp: scans_rows_def)
qed

lemma demo_keys: "total_key 0x3F800000 = 1065353216" "total_key 0x40000000 = 1073741824"
  by code_simp+

lemma demo_chunks: "chunks_exact (Suc 0) [a, b, c] = [[a], [b], [c]]"
  by (simp add: chunks_exact_def upt_rec)

lemmas demo_simps = demo_request_def demo_kernels_def demo_keys demo_chunks set_bitmap_def row_is_allowed_def
  u32_try_from_def u32_max_def usize_max_def check_cancellation_at_row_def check_cancellation_def f32_is_finite_def
  bounded_push_def bounded_new_def push_with_reserve_def heap_peek_def heap_pop_def
  into_sorted_with_ties_def sort_candidates_def

lemma demo_scanned:
  "scan_geometry_of demo_kernels demo_request = Ok \<lparr>sg_row_count = 3, sg_work_units = 3\<rparr>"
  "request_sized demo_request"
  "scan_top_k demo_kernels set_bitmap demo_request 1 = Ok [\<lparr>sc_row_id = 2, sc_score = 0x40000000\<rparr>]"
proof -
  show "scan_geometry_of demo_kernels demo_request = Ok \<lparr>sg_row_count = 3, sg_work_units = 3\<rparr>"
    by (simp add: demo_request_def demo_kernels_def scan_geometry_of_def query_dimensions_def row_major_geometry_def
      validate_f32_slice_def validate_input_def f32_is_finite_def)
  show "request_sized demo_request" by (simp add: request_sized_def demo_request_def usize_max_def)
  show "scan_top_k demo_kernels set_bitmap demo_request 1 = Ok [\<lparr>sc_row_id = 2, sc_score = 0x40000000\<rparr>]"
    by (simp add: scan_top_k_def validate_f32_slice_def validate_input_def scan_f32_rows_def Let_def demo_simps)
qed

lemmas demo_counts_def = partition_stat_counts_def query_dimensions_def query_bytes_per_row_def checked_mul_u64_def
  u64_of_usize_def usize_max_def

lemma demo_gather:
  "\<exists>out. gather_top_k demo_kernels set_bitmap 7 demo_request 1 (\<lambda>_. None) = Ok out"
proof -
  have iter: "rb_iter set_bitmap {0, 2} = [0, 2]" by (simp add: set_bitmap_def)
  show ?thesis
    by (simp add: gather_top_k_def demo_scanned(1) check_cancellation_def Let_def)
      (simp add: demo_request_def iter check_cancellation_at_row_def check_cancellation_def score_gather_row_def
        row_score_def scalar_row_range_def slice_range_def demo_kernels_def f32_is_finite_def demo_counts_def
        CANCELLATION_CHECK_ROWS_def)
qed

theorem gather_matches_scan_witness:
  "\<exists>out. gather_top_k demo_kernels set_bitmap 7 demo_request 1 (\<lambda>_. None) = Ok out
    \<and> so_candidates out = [\<lparr>sc_row_id = 2, sc_score = 0x40000000\<rparr>]"
  using gather_matches_scan [OF set_bitmap_ok demo_rowwise demo_scanned(2) _ demo_scanned(3)] demo_gather by blast

text \<open>
  C5: The parallel scan refines the serial one. For every number of workers, every order in which their
  slots complete, every duplicate or late completion and whatever their cancellation answered, if the
  pool returns an outcome its candidates are those of the single-threaded scan; a worker that panicked or
  was cancelled can only turn the outcome into an error.
\<close>

theorem pool_matches_scan:
  assumes "pool_plan K worker_count budget req = Ok (g, w, ranges)" "0 < worker_count"
    and "(execution_step K R req k ranges)\<^sup>*\<^sup>* (execution_new w) c"
    and "execution_wait lease_cancelled control_error c = Some (Ok parts)"
    and "merge_partitions parts g w k = Ok out"
    and "bit4_rowwise K" "request_sized req" "scan_top_k K R req k = Ok serial"
  shows "so_candidates out = serial \<and>
    (\<exists>cs. row_candidates K R req 0 (sg_row_count g) = Ok cs \<and> serial = topk_spec k cs)"
proof -
  have g: "scan_geometry_of K req = Ok g" using assms(1) by (auto simp: pool_plan_def result_Inr Let_def)
  have "scans_rows K R req k 0 (sg_row_count g) (so_candidates out)" by (rule pool_scans [OF assms(1-6)])
  moreover have "scans_rows K R req k 0 (sg_row_count g) serial" by (rule scan_top_k_scans [OF g assms(7,6,8)])
  ultimately show ?thesis using scans_rows_unique by (auto simp: scans_rows_def)
qed

definition demo_part :: "nat \<Rightarrow> scan_candidate list \<Rightarrow> partition_scan" where
  "demo_part thread cs = \<lparr>ps_candidates = cs, ps_dims_touched = 1, ps_bytes_read = 4, ps_thread = thread\<rparr>"

lemma demo_plan: "pool_plan demo_kernels 2 0 demo_request = Ok (\<lparr>sg_row_count = 3, sg_work_units = 3\<rparr>, 2, [(0, 1), (1, 3)])"
  by (simp add: pool_plan_def demo_scanned(1) pool_workers_def partition_row_count_def upt_rec checked_mul_usize_def
      checked_add_usize_def usize_max_def)

lemma demo_parts:
  "scan_partition demo_kernels set_bitmap 5 demo_request 1 (0, 1) (\<lambda>_. None)
    = Ok (demo_part 5 [\<lparr>sc_row_id = 0, sc_score = 0x3F800000\<rparr>])"
  "scan_partition demo_kernels set_bitmap 6 demo_request 1 (1, 3) (\<lambda>_. None)
    = Ok (demo_part 6 [\<lparr>sc_row_id = 2, sc_score = 0x40000000\<rparr>])"
proof -
  have rows: "chunks_exact (Suc 0) [a] = [[a]]" "chunks_exact (Suc 0) [a, b] = [[a], [b]]" for a b :: f32
    by (simp_all add: chunks_exact_def)
  have part: "scan_partition demo_kernels set_bitmap t demo_request 1 (s, e) (\<lambda>_. None) = Ok (demo_part t out)"
    if "s \<le> e" "e \<le> 3" "partition_candidates demo_kernels set_bitmap demo_request 1 s e (\<lambda>_. None) = Ok out"
      "allowed_row_count set_bitmap (Some {0, 2}) s e (\<lambda>_. None) = (Ok 1 :: (unit scan_error, nat) result)" for s e t out
    using that demo_scanned(1)
    by (simp add: scan_partition_def check_cancellation_def demo_part_def)
      (simp add: demo_request_def demo_counts_def demo_kernels_def)
  show "scan_partition demo_kernels set_bitmap 5 demo_request 1 (0, 1) (\<lambda>_. None)
    = Ok (demo_part 5 [\<lparr>sc_row_id = 0, sc_score = 0x3F800000\<rparr>])"
    by (rule part) (simp_all add: partition_candidates_def scalar_row_range_def slice_range_def scan_f32_rows_def Let_def
        rows demo_simps allowed_row_count_def upt_rec)
  show "scan_partition demo_kernels set_bitmap 6 demo_request 1 (1, 3) (\<lambda>_. None)
    = Ok (demo_part 6 [\<lparr>sc_row_id = 2, sc_score = 0x40000000\<rparr>])"
    by (rule part) (simp_all add: partition_candidates_def scalar_row_range_def slice_range_def scan_f32_rows_def Let_def
        rows demo_simps allowed_row_count_def upt_rec)
qed

theorem pool_matches_scan_witness:
  "\<exists>c parts out. (execution_step demo_kernels set_bitmap demo_request 1 [(0, 1), (1, 3)])\<^sup>*\<^sup>* (execution_new 2) c
    \<and> execution_wait False None c = Some (Ok parts)
    \<and> merge_partitions parts \<lparr>sg_row_count = 3, sg_work_units = 3\<rparr> 2 1 = (Ok out :: (unit scan_error, scan_outcome) result)
    \<and> so_candidates out = [\<lparr>sc_row_id = 2, sc_score = 0x40000000\<rparr>]"
proof -
  let ?step = "execution_step demo_kernels set_bitmap demo_request 1 [(0, 1), (1, 3)]"
  define p0 where "p0 = demo_part 5 [\<lparr>sc_row_id = 0, sc_score = 0x3F800000\<rparr>]"
  define p1 where "p1 = demo_part 6 [\<lparr>sc_row_id = 2, sc_score = 0x40000000\<rparr>]"
  define c1 where "c1 = execution_complete 1 (Ok p1) (execution_new 2 :: unit completion)"
  define c where "c = execution_complete 0 (Ok p0) c1"
  have one: "?step (execution_new 2) c1"
    using es_run [of 1 "[(0, 1), (1, 3)]" demo_kernels set_bitmap demo_request 1 "execution_new 2" 6 "\<lambda>_. None"] demo_parts(2)
    by (simp add: c1_def p1_def)
  have two: "?step c1 c"
    using es_run [of 0 "[(0, 1), (1, 3)]" demo_kernels set_bitmap demo_request 1 c1 5 "\<lambda>_. None"] demo_parts(1)
    by (simp add: c_def p0_def)
  have run: "?step\<^sup>*\<^sup>* (execution_new 2) c" using one two by (meson converse_rtranclp_into_rtranclp r_into_rtranclp)
  have wait: "execution_wait False None c = Some (Ok [p0, p1])"
    by (simp add: c_def c1_def execution_complete_def execution_new_def execution_wait_def numeral_2_eq_2)
  obtain out where merge: "merge_partitions [p0, p1] \<lparr>sg_row_count = 3, sg_work_units = 3\<rparr> 2 1 = (Ok out :: (unit scan_error, scan_outcome) result)"
    by (simp add: merge_partitions_def p0_def p1_def demo_part_def checked_add_u64_def usize_max_def)
  show ?thesis
    using pool_matches_scan [OF demo_plan _ run wait merge demo_rowwise demo_scanned(2,3)] run wait merge by auto
qed

section \<open>Shapes the public scan does not check\<close>

lemma chunks_exact_whole:
  assumes "0 < w" shows "chunks_exact w (take (length xs div w * w) xs) = chunks_exact w xs"
proof -
  have n: "length (take (length xs div w * w) xs) div w = length xs div w"
    using assms div_times_less_eq_dividend [of "length xs" w] by (simp add: min_def)
  have "take w (drop (i * w) (take (length xs div w * w) xs)) = take w (drop (i * w) xs)" if "i < length xs div w" for i
  proof -
    have "Suc i * w \<le> length xs div w * w" using that by (intro mult_le_mono1) simp
    then show ?thesis by (simp add: drop_take algebra_simps min_def)
  qed
  then show ?thesis unfolding chunks_exact_def n by simp
qed

text \<open>
  C25: The public scan does not check the shape of borrowed rows. With finite values, an empty query makes
  it panic where owned rows give the zero-dimension error, and rows that do not fill the last vector are
  cut silently where owned rows give the row-length error.
\<close>

theorem borrowed_rows_unchecked:
  assumes "\<forall>v\<in>set vs. f32_is_finite v" "\<forall>v\<in>set q. f32_is_finite v" "q \<noteq> []" "\<not> length q dvd length vs"
  shows "top_k K R \<lparr>rq_query = SqF32 [], rq_rows = SrF32Borrowed vs, rq_mask = m\<rparr> k = Err ScanPanicked
    \<and> top_k K R \<lparr>rq_query = SqF32 [], rq_rows = SrF32 (f32_rows_new vs), rq_mask = m\<rparr> k = Err ZeroDimension
    \<and> top_k K R \<lparr>rq_query = SqF32 q, rq_rows = SrF32Borrowed vs, rq_mask = m\<rparr> k
      = top_k K R \<lparr>rq_query = SqF32 q, rq_rows = SrF32Borrowed (take (length vs div length q * length q) vs), rq_mask = m\<rparr> k
    \<and> top_k K R \<lparr>rq_query = SqF32 q, rq_rows = SrF32 (f32_rows_new vs), rq_mask = m\<rparr> k
      = Err (RowDataLength (length q) (length vs))"
proof -
  let ?whole = "take (length vs div length q * length q) vs"
  have none: "position (\<lambda>v. \<not> f32_is_finite v) vs = None" "position (\<lambda>v. \<not> f32_is_finite v) q = None"
    "position (\<lambda>v. \<not> f32_is_finite v) ?whole = None"
    using assms(1,2) by (auto simp: position_None dest: in_set_takeD)
  have w: "0 < length q" using assms(3) by simp
  have "length ?whole div length q = length vs div length q"
    using w div_times_less_eq_dividend [of "length vs" "length q"] by (simp add: min_def)
  then have "scan_f32_rows K R q vs m k 0 c = scan_f32_rows K R q ?whole m k 0 c" for c
    using chunks_exact_whole [OF w, of vs] by (simp add: scan_f32_rows_def)
  then show ?thesis
    using none assms(3,4)
    by (simp add: top_k_def scan_top_k_def scan_f32_def f32_rows_new_def validate_f32_slice_def validate_input_def
        scan_f32_rows_def [of K R "[]"])
qed

theorem borrowed_rows_unchecked_witness:
  "top_k demo_kernels set_bitmap \<lparr>rq_query = SqF32 [], rq_rows = SrF32Borrowed [0, 0, 0], rq_mask = None\<rparr> 1 = Err ScanPanicked"
proof -
  have "\<not> length [0, 0 :: f32] dvd length [0, 0, 0 :: f32]" by simp presburger
  then show ?thesis
    using borrowed_rows_unchecked [of "[0, 0, 0]" "[0, 0]" demo_kernels set_bitmap None 1]
    by (simp add: f32_is_finite_def del: list.size)
qed

end
