(* ===== verification/Spec2Isabelle.thy ===== *)
theory Spec2Isabelle
  imports Format_Theorems Wal_Theorems Payload_Theorems Atomic_Theorems Catalog_Theorems
    Query_Theorems Namespace_Theorems Memory_Theorems Scan_Theorems
begin

text \<open>
  Verification of the storage core of zeppelin-embed, an embedded search store written in Rust.
  All sources are under \<^verbatim>\<open>src/crates/zeppelin-embed/src/\<close>.

  \<^bold>\<open>The program.\<close> A store is a directory. Every mutation is encoded as a payload
  (\<^verbatim>\<open>ingest/wal_payload.rs\<close>), batches are framed so that replay applies them whole or not at
  all (\<^verbatim>\<open>ingest/atomic_batch.rs\<close>), and records are appended to a checksummed write-ahead log by
  a group-commit writer (\<^verbatim>\<open>wal/\<close>) under a durability policy
  (\<^verbatim>\<open>lifecycle/durability.rs\<close>). Sealed data is named by the manifest
  (\<^verbatim>\<open>manifest/\<close>), the single commit point of a snapshot, which carries the schema
  (\<^verbatim>\<open>meta/mod.rs\<close>) and the registry of embedding epochs (\<^verbatim>\<open>epoch.rs\<close>). Every artifact
  shares one frame (\<^verbatim>\<open>format/\<close>). Opening a store replays the log, cuts an interrupted
  append, loads the manifest and sweeps unreachable files.

  \<^bold>\<open>Theories.\<close>
  \<^item> \<open>Prelude\<close>: results as sums, machine integers as words, \<open>usize\<close> as a natural number with its
    bound written out, slices, little-endian bytes, the hash library as a parameter, reachability.
  \<^item> \<open>Format_Registry\<close>, \<open>Frame\<close>, \<open>Format_Theorems\<close>: \<^verbatim>\<open>format/mod.rs\<close> and
    \<^verbatim>\<open>format/frame.rs\<close>. The frame is canonical and refuses truncation and family confusion.
  \<^item> \<open>Wal_Record\<close>, \<open>Wal_Replay\<close>: \<^verbatim>\<open>wal/header.rs\<close>, \<^verbatim>\<open>wal/record.rs\<close>,
    \<^verbatim>\<open>wal/replay.rs\<close> and the readers of \<^verbatim>\<open>wal/mod.rs\<close>.
  \<^item> \<open>Durability\<close>, \<open>Wal_Writer\<close>: \<^verbatim>\<open>lifecycle/durability.rs\<close> and the writer of
    \<^verbatim>\<open>wal/mod.rs\<close>. \<open>writer_state\<close> is the mutex-protected state, \<open>wal_step\<close> one atomic action of
    some thread (staging a record or a batch, a leader's take, append, synchronization and
    completion, flush, retirement, poisoning). \<open>Wal_Groups\<close>, \<open>Wal_Writer_Inv\<close>, \<open>Wal_Writer_Steps\<close>,
    \<open>Wal_Properties\<close> prove the invariant and \<open>Wal_Theorems\<close> the properties.
  \<^item> \<open>Codec\<close>, \<open>Payload\<close>, \<open>Payload_Codec\<close>, \<open>Payload_Theorems\<close>: locales of byte codecs and the
    payload encoders and decoders, with round trips and canonicity.
  \<^item> \<open>Atomic_Batch\<close>, \<open>Atomic_Theorems\<close>: batch framing, commit replay, prepared mutations and the
    tail cut.
  \<^item> \<open>Schema\<close>, \<open>Epoch\<close>, \<open>Alias_Cell\<close>, \<open>Manifest\<close>, \<open>Manifest_Codec\<close>, \<open>Manifest_Payload\<close>, \<open>Vfs\<close>,
    \<open>Manifest_Io\<close>, \<open>Catalog_Theorems\<close>: schema evolution, epoch identities, the sequence-locked alias
    cell, the manifest codec, atomic commit and the orphan sweep.
  \<^item> \<open>Bitmap\<close>, \<open>Alive\<close>, \<open>Dict\<close>, \<open>Columns\<close>, \<open>Columns_Rep\<close>, \<open>Columns_Store\<close>: \<^verbatim>\<open>meta/bitmap.rs\<close>,
    \<^verbatim>\<open>meta/alive.rs\<close>, \<^verbatim>\<open>meta/dict.rs\<close> and \<^verbatim>\<open>meta/columns.rs\<close>, the typed columns of a
    segment, with the representation relation between the arrays and the rows they hold.
  \<^item> \<open>Meta_Predicate\<close>, \<open>Predicate_Sem\<close>, \<open>Prune\<close>, \<open>Query_Theorems\<close>: the filter evaluator of
    \<^verbatim>\<open>meta/predicate.rs\<close> against a row-by-row meaning, the clustering ranges computed by
    \<^verbatim>\<open>ingest/seal.rs\<close> and \<^verbatim>\<open>ingest/purge.rs\<close>, the pruning of \<^verbatim>\<open>planner/prune.rs\<close> and
    the segment selection of \<^verbatim>\<open>ingest/retention.rs\<close>.
  \<^item> \<open>Ordered\<close>, \<open>Namespace_Record\<close>, \<open>Namespace_Codec\<close>: ordered collections and text splitting, and the
    durable records of a root of several namespaces (\<^verbatim>\<open>lifecycle/namespace_batch.rs\<close> and its
    \<^verbatim>\<open>portable.rs\<close>): route tables, staged decisions, root records and references, with the
    locale \<open>sealed\<close> of a checksummed record.
  \<^item> \<open>Cascade\<close>, \<open>Cascade_Rules\<close>, \<open>Cascade_Closure\<close>, \<open>Namespace_Theorems\<close>: cascade rules
    (\<^verbatim>\<open>lifecycle/cascade.rs\<close>), the breadth-first cycle check, atomic declaration and the closure
    loops of a cascade delete, against the dependency relation \<open>doomed\<close>.

  \<^item> \<open>Accounting\<close>, \<open>Accounting_Inv\<close>, \<open>Accounted_Vec\<close>, \<open>Memory_Theorems\<close>: the memory budgets of
    \<^verbatim>\<open>lifecycle/stats.rs\<close>, \<^verbatim>\<open>lifecycle/budget.rs\<close> and
    \<^verbatim>\<open>lifecycle/stats/allocation_interval.rs\<close>. \<open>ledger_step\<close> interleaves the owners of
    reservations, and an accounted vector refines it.
  \<^item> \<open>Topk\<close>, \<open>Topk_Inv\<close>, \<open>Topk_Collector\<close>, \<open>Topk_Memory\<close>: the collectors of \<^verbatim>\<open>scan/topk.rs\<close>,
    through the locales \<open>priority_queue\<close> and \<open>collector\<close>, against the selection \<open>topk_spec\<close>.
  \<^item> \<open>Scan\<close>, \<open>Scan_Exact\<close>, \<open>Scan_Pool\<close>, \<open>Scan_Theorems\<close>: the exact scans of \<^verbatim>\<open>scan/mod.rs\<close> over the
    four row formats, gathers, and the partitions, slots and merge of \<^verbatim>\<open>lifecycle/pool.rs\<close>; each scan
    is shown to return the selection among the allowed rows, so all of them agree.

  \<^bold>\<open>Modelling choices.\<close> The hash is the record \<open>xxh3_lib\<close>; only the documented equation between
  its streaming and one-shot forms is ever assumed (\<open>xxh3_streaming\<close>), never injectivity. The
  compressed bitmap crate is the record \<open>roaring\<close> with the laws \<open>roaring_ok\<close>, the locale
  \<open>doc_bitmaps\<close>, interpreted on sets of row numbers. Mutex
  critical sections and single atomic accesses are steps; condition variables are retries. The
  operating system answers through arguments, so every failure of a call is a branch, and a
  failed write may leave any prefix. The replay loop terminates by the remaining length; the
  group-filling loop of \<open>stage_many\<close> is a partial function shown to return in every reachable state.
  The dot-product kernels are the record \<open>scan_kernels\<close>; the only law used is that a batch of the
  four-bit kernel scores each row alone (\<open>bit4_rowwise\<close>). Scores are bit patterns compared in the total
  order of IEEE. The allocator is a function from a requested to a granted capacity (\<open>grants\<close>: at least
  what was asked for); cancellation answers each check point. \<open>request_sized\<close> says that slices fit the
  address space, and \<open>room\<close> that the budget has a stated number of free bytes.
  The alias cell is modelled sequentially consistently. The build is the default one, without the
  graph feature.

  \<^bold>\<open>Not modelled.\<close> Full-text search, the vector graph, kernels and quantization (floating-point
  arithmetic and SIMD), the planner's cost decisions, the property graph and Cypher (a feature that
  is off by default), segment files and memory mapping, the life of the pool threads, rank fusion, the foreign function interface,
  language bindings and benchmarks.
\<close>

end
